(* ===== verification/Prelude.thy ===== *)
theory Prelude
  imports Main "HOL-Library.Word"
begin

text \<open>
  The development's shared vocabulary.

  A kernel function is a state transformer \<open>('a, 's) kop\<close>: run on a kernel state it either
  returns a value and the new state (\<open>Ret\<close>), calls \<open>panic\<close> with a message (\<open>Panic\<close>; the
  machine stops), spins for ever (\<open>Spin\<close>, on a lock that another hart holds or in a loop that ran out
  of fuel), or calls \<open>swtch\<close> (\<open>Swtch\<close>): then the outcome has the state in which the kernel thread
  was suspended and the rest of its work as a function of the state in which it is resumed.
  The two contexts that \<open>swtch\<close> saves and loads are the registers of the kernel threads: that function
  stands for the saved one, and which thread runs next is the business of whoever has the outcome.
  State types are extensible records: every component adds its fields to the record of the
  component below it, so an operation of a lower layer runs unchanged on the state of a higher one.

  The collection \<open>kop_simps\<close> executes a function symbolically; \<open>state_simps\<close> collects the
  facts that say which fields an operation leaves alone, and \<open>upd_order\<close> the equations that bring
  nested updates of different record fields into declaration order.
\<close>

named_theorems kop_simps
named_theorems state_simps
named_theorems upd_order

unbundle bit_operations_syntax

section \<open>Outcomes and kernel operations\<close>

datatype ('a, 's) outcome =
    Ret 'a 's
  | Panic string
  | Spin 's
  | Swtch 's "'s \<Rightarrow> ('a, 's) outcome"

type_synonym ('a, 's) kop = "'s \<Rightarrow> ('a, 's) outcome"

definition ret :: "'a \<Rightarrow> ('a, 's) kop" where
  "ret x = (\<lambda>s. Ret x s)"

text \<open>Continue an outcome with \<open>f\<close>, now if it has returned, or after it has been resumed.\<close>

primrec bindo :: "('a, 's) outcome \<Rightarrow> ('a \<Rightarrow> ('b, 's) kop) \<Rightarrow> ('b, 's) outcome" where
  "bindo (Ret x t) f = f x t"
| "bindo (Panic msg) f = Panic msg"
| "bindo (Spin t) f = Spin t"
| "bindo (Swtch t k) f = Swtch t (\<lambda>u. bindo (k u) f)"

definition bnd :: "('a, 's) kop \<Rightarrow> ('a \<Rightarrow> ('b, 's) kop) \<Rightarrow> ('b, 's) kop" where
  "bnd m f = (\<lambda>s. bindo (m s) f)"

definition thn :: "('a, 's) kop \<Rightarrow> ('b, 's) kop \<Rightarrow> ('b, 's) kop" where
  "thn m k = bnd m (\<lambda>_. k)"

definition gets :: "('s \<Rightarrow> 'a) \<Rightarrow> ('a, 's) kop" where
  "gets f = (\<lambda>s. Ret (f s) s)"

definition modify :: "('s \<Rightarrow> 's) \<Rightarrow> (unit, 's) kop" where
  "modify f = (\<lambda>s. Ret () (f s))"

definition panic :: "string \<Rightarrow> ('a, 's) kop" where
  "panic msg = (\<lambda>s. Panic msg)"

definition spin :: "('a, 's) kop" where
  "spin = (\<lambda>s. Spin s)"

definition swtch :: "(unit, 's) kop" where
  "swtch = (\<lambda>s. Swtch s (\<lambda>t. Ret () t))"

definition whenk :: "bool \<Rightarrow> (unit, 's) kop \<Rightarrow> (unit, 's) kop" where
  "whenk c m = (if c then m else ret ())"

text \<open>A \<open>for\<close> loop over a list of indices, in order.\<close>

fun for_each :: "'i list \<Rightarrow> ('i \<Rightarrow> (unit, 's) kop) \<Rightarrow> (unit, 's) kop" where
  "for_each [] body = ret ()"
| "for_each (i # is) body = thn (body i) (for_each is body)"

text \<open>
  Statements one after the other. A list of statements is a program whose steps another hart can come
  between.
\<close>

definition seqk :: "(unit, 's) kop list \<Rightarrow> (unit, 's) kop" where
  "seqk ms = for_each ms (\<lambda>m. m)"

lemma ret_apply [kop_simps]: "ret x s = Ret x s"
  by (simp add: ret_def)

lemma gets_apply [kop_simps]: "gets f s = Ret (f s) s"
  by (simp add: gets_def)

lemma modify_apply [kop_simps]: "modify f s = Ret () (f s)"
  by (simp add: modify_def)

lemma panic_apply [kop_simps]: "panic msg s = Panic msg"
  by (simp add: panic_def)

lemma spin_apply [kop_simps]: "spin s = Spin s"
  by (simp add: spin_def)

lemma swtch_apply [kop_simps]: "swtch s = Swtch s (\<lambda>t. Ret () t)"
  by (simp add: swtch_def)

lemma bnd_apply [kop_simps]: "bnd m f s = bindo (m s) f"
  by (simp add: bnd_def)

lemma thn_apply [kop_simps]: "thn m k s = bindo (m s) (\<lambda>_. k)"
  by (simp add: thn_def bnd_def)

lemma seqk_apply [kop_simps]:
  "seqk [] s = Ret () s"
  "seqk (m # ms) s = bindo (m s) (\<lambda>_. seqk ms)"
  by (simp_all add: seqk_def ret_apply thn_apply)

lemma bindo_assoc: "bindo (bindo m f) g = bindo m (\<lambda>x t. bindo (f x t) g)"
  by (induction m) simp_all

lemma bindo_Ret_iff: "bindo m f = Ret y u \<longleftrightarrow> (\<exists>x t. m = Ret x t \<and> f x t = Ret y u)"
  by (cases m) auto

lemma whenk_apply [kop_simps]: "whenk c m s = (if c then m s else Ret () s)"
  by (simp add: whenk_def ret_def)

lemma bnd_Ret_iff: "bnd m f s = Ret y u \<longleftrightarrow> (\<exists>x t. m s = Ret x t \<and> f x t = Ret y u)"
  by (simp add: bnd_def bindo_Ret_iff)

lemma thn_Ret_iff: "thn m k s = Ret y u \<longleftrightarrow> (\<exists>x t. m s = Ret x t \<and> k t = Ret y u)"
  by (auto simp: thn_def bnd_Ret_iff)

lemma if_apply [kop_simps]: "(if c then m else k) s = (if c then m s else k s)"
  by simp

lemma for_each_append:
  "for_each (is @ js) body s = thn (for_each is body) (for_each js body) s"
proof (induction "is" arbitrary: s)
  case Nil
  then show ?case by (simp add: kop_simps)
next
  case (Cons i "is")
  have "for_each (is @ js) body = thn (for_each is body) (for_each js body)"
    by (rule ext) (rule Cons.IH)
  then show ?case by (simp add: kop_simps bindo_assoc thn_def [of "for_each is body"] bnd_def)
qed

lemma bindo_ret: "bindo m ret = m"
  by (induction m) (simp_all add: ret_def)

lemma for_each_snoc:
  "for_each is body s = Ret () t \<Longrightarrow> for_each (is @ [j]) body s = body j t"
  by (simp add: for_each_append thn_def bnd_def bindo_ret)

lemma for_each_upt_Suc:
  "for_each [0..<n] body s = Ret () t \<Longrightarrow> for_each [0..<Suc n] body s = body n t"
  by (simp add: for_each_snoc)

text \<open>
  \<open>wp m Q s\<close>: the operation returns from \<open>s\<close>, and its result and final state satisfy \<open>Q\<close>.
\<close>

definition wp :: "('a, 's) kop \<Rightarrow> ('a \<Rightarrow> 's \<Rightarrow> bool) \<Rightarrow> 's \<Rightarrow> bool" where
  "wp m Q s = (case m s of Ret x t \<Rightarrow> Q x t | _ \<Rightarrow> False)"

lemma wpI: "m s = Ret x t \<Longrightarrow> Q x t \<Longrightarrow> wp m Q s"
  by (simp add: wp_def)

lemma wpD: "wp m Q s \<Longrightarrow> \<exists>x t. m s = Ret x t \<and> Q x t"
  by (auto simp: wp_def split: outcome.splits)

lemma wp_bnd: "wp (bnd m f) Q s = wp m (\<lambda>x. wp (f x) Q) s"
  by (cases "m s") (simp_all add: wp_def bnd_def)

lemma wp_thn: "wp (thn m k) Q s = wp m (\<lambda>_. wp k Q) s"
  by (simp add: thn_def wp_bnd)

lemma wp_mono: "wp m Q s \<Longrightarrow> (\<And>x t. Q x t \<Longrightarrow> R x t) \<Longrightarrow> wp m R s"
  by (auto simp: wp_def split: outcome.splits)

lemma wp_for_each:
  assumes "P [] s"
    and "\<And>done i rest t. xs = done @ i # rest \<Longrightarrow> P done t \<Longrightarrow> wp (body i) (\<lambda>_. P (done @ [i])) t"
  shows "wp (for_each xs body) (\<lambda>_. P xs) s"
proof -
  have "wp (for_each ys body) (\<lambda>_. P xs) t" if "xs = d @ ys" "P d t" for ys d t
    using that
  proof (induction ys arbitrary: d t)
    case Nil
    then show ?case by (simp add: wp_def ret_def)
  next
    case (Cons y ys)
    have "wp (body y) (\<lambda>_. P (d @ [y])) t"
      using Cons.prems assms(2) by blast
    then have "wp (body y) (\<lambda>_. wp (for_each ys body) (\<lambda>_. P xs)) t"
      by (rule wp_mono) (use Cons in simp)
    then show ?case by (simp add: wp_thn)
  qed
  from this [of "[]" xs s] assms(1) show ?thesis by simp
qed

end
