(* ===== verification/Riscv.thy ===== *)
theory Riscv
  imports Prelude
begin

text \<open>
  The machine's vocabulary: the integer types of \<open>kernel/types.h\<close>, the limits of
  \<open>kernel/param.h\<close>, the physical and virtual layout of \<open>kernel/memlayout.h\<close> and the page and
  page-table-entry macros of \<open>kernel/riscv.h\<close>, at their machine widths.  The lemmas give each
  macro its arithmetic meaning: rounding to pages, the split of a virtual address into three
  indices and an offset, and the round trip between a physical page and its PTE.
\<close>

section \<open>Integer types (types.h)\<close>

type_synonym uint8 = "8 word"
type_synonym uint16 = "16 word"
type_synonym uint32 = "32 word"
type_synonym uint64 = "64 word"
type_synonym uint = "32 word"
type_synonym ushort = "16 word"
type_synonym uchar = "8 word"
type_synonym pte_t = "64 word"
type_synonym pagetable_t = "64 word"

section \<open>Limits (param.h)\<close>

definition NPROC :: nat where "NPROC = 64"
definition NCPU :: nat where "NCPU = 8"
definition NOFILE :: nat where "NOFILE = 16"
definition NFILE :: nat where "NFILE = 100"
definition NINODE :: nat where "NINODE = 50"
definition NDEV :: nat where "NDEV = 10"
definition ROOTDEV :: uint where "ROOTDEV = 1"
definition MAXARG :: nat where "MAXARG = 32"
definition MAXOPBLOCKS :: nat where "MAXOPBLOCKS = 10"
definition LOGSIZE :: nat where "LOGSIZE = MAXOPBLOCKS * 3"
definition NBUF :: nat where "NBUF = MAXOPBLOCKS * 3"
definition FSSIZE :: nat where "FSSIZE = 2000"
definition MAXPATH :: nat where "MAXPATH = 128"

section \<open>Pages and page-table entries (riscv.h)\<close>

definition PGSIZE :: uint64 where "PGSIZE = 4096"
definition PGSHIFT :: nat where "PGSHIFT = 12"

definition PGROUNDUP :: "uint64 \<Rightarrow> uint64" where
  "PGROUNDUP sz = (sz + PGSIZE - 1) AND NOT (PGSIZE - 1)"

definition PGROUNDDOWN :: "uint64 \<Rightarrow> uint64" where
  "PGROUNDDOWN a = a AND NOT (PGSIZE - 1)"

definition PTE_V :: pte_t where "PTE_V = push_bit 0 1"
definition PTE_R :: pte_t where "PTE_R = push_bit 1 1"
definition PTE_W :: pte_t where "PTE_W = push_bit 2 1"
definition PTE_X :: pte_t where "PTE_X = push_bit 3 1"
definition PTE_U :: pte_t where "PTE_U = push_bit 4 1"

definition PA2PTE :: "uint64 \<Rightarrow> pte_t" where
  "PA2PTE pa = push_bit 10 (drop_bit 12 pa)"

definition PTE2PA :: "pte_t \<Rightarrow> uint64" where
  "PTE2PA pte = push_bit 12 (drop_bit 10 pte)"

definition PTE_FLAGS :: "pte_t \<Rightarrow> pte_t" where
  "PTE_FLAGS pte = pte AND 0x3FF"

definition PXMASK :: uint64 where "PXMASK = 0x1FF"

definition PXSHIFT :: "nat \<Rightarrow> nat" where
  "PXSHIFT level = PGSHIFT + 9 * level"

definition PX :: "nat \<Rightarrow> uint64 \<Rightarrow> uint64" where
  "PX level va = drop_bit (PXSHIFT level) va AND PXMASK"

definition MAXVA :: uint64 where "MAXVA = push_bit (9 + 9 + 9 + 12 - 1) 1"

definition SATP_SV39 :: uint64 where "SATP_SV39 = push_bit 60 8"

definition MAKE_SATP :: "pagetable_t \<Rightarrow> uint64" where
  "MAKE_SATP pagetable = SATP_SV39 OR drop_bit 12 pagetable"

definition SSTATUS_SPP :: uint64 where "SSTATUS_SPP = push_bit 8 1"
definition SSTATUS_SPIE :: uint64 where "SSTATUS_SPIE = push_bit 5 1"
definition SSTATUS_SIE :: uint64 where "SSTATUS_SIE = push_bit 1 1"

section \<open>Physical and virtual layout (memlayout.h)\<close>

definition UART0 :: uint64 where "UART0 = 0x10000000"
definition UART0_IRQ :: nat where "UART0_IRQ = 10"
definition VIRTIO0 :: uint64 where "VIRTIO0 = 0x10001000"
definition VIRTIO0_IRQ :: nat where "VIRTIO0_IRQ = 1"
definition PLIC :: uint64 where "PLIC = 0x0c000000"
definition KERNBASE :: uint64 where "KERNBASE = 0x80000000"
definition PHYSTOP :: uint64 where "PHYSTOP = KERNBASE + 128 * 1024 * 1024"
definition TRAMPOLINE :: uint64 where "TRAMPOLINE = MAXVA - PGSIZE"
definition TRAPFRAME :: uint64 where "TRAPFRAME = TRAMPOLINE - PGSIZE"

definition KSTACK :: "nat \<Rightarrow> uint64" where
  "KSTACK p = TRAMPOLINE - (of_nat p + 1) * 2 * PGSIZE"

lemmas pte_bit_defs = PTE_V_def PTE_R_def PTE_W_def PTE_X_def PTE_U_def
lemmas layout_defs = KERNBASE_def PHYSTOP_def MAXVA_def TRAMPOLINE_def TRAPFRAME_def PGSIZE_def

section \<open>Rounding to pages\<close>

definition page_aligned :: "uint64 \<Rightarrow> bool" where
  "page_aligned a \<longleftrightarrow> unat a mod 4096 = 0"

lemma and_not_mask12: "(x :: uint64) AND NOT 4095 = push_bit 12 (drop_bit 12 x)"
proof -
  have "(4095 :: uint64) = mask 12" by (simp add: mask_eq_exp_minus_1)
  then have "x AND NOT 4095 = x AND NOT (mask 12)" by (simp only:)
  also have "\<dots> = push_bit 12 (drop_bit 12 x)"
    by (rule bit_word_eqI) (auto simp: bit_simps)
  finally show ?thesis .
qed

lemma PGROUNDDOWN_shift: "PGROUNDDOWN a = push_bit 12 (drop_bit 12 a)"
  using and_not_mask12 [of a] by (simp add: PGROUNDDOWN_def PGSIZE_def)

lemma unat64_less [simp]: "unat (x :: uint64) < 18446744073709551616"
  using unsigned_less [of x] by simp

lemma unat_drop_bit64: "unat (drop_bit n (x :: uint64)) = unat x div 2 ^ n"
  using unat_drop_bit_eq [of n x] by (simp only: drop_bit_nat_eq drop_bit_eq_div)

lemma unat_push_drop12: "unat (push_bit 12 (drop_bit 12 (x :: uint64))) = unat x div 4096 * 4096"
proof -
  have "unat (push_bit 12 (drop_bit 12 x)) = (unat x div 4096 * 4096) mod 2 ^ 64"
    by (simp add: push_bit_eq_mult unat_word_ariths unat_drop_bit64 mult.commute)
  also have "\<dots> = unat x div 4096 * 4096"
    by (intro mod_less) (simp add: le_less_trans [OF div_times_less_eq_dividend])
  finally show ?thesis .
qed

lemma unat_PGROUNDDOWN: "unat (PGROUNDDOWN a) = unat a div 4096 * 4096"
  by (simp add: PGROUNDDOWN_shift unat_push_drop12)

lemma PGROUNDDOWN_aligned: "page_aligned (PGROUNDDOWN a)"
  by (simp add: page_aligned_def unat_PGROUNDDOWN)

lemma PGROUNDDOWN_id: "page_aligned a \<Longrightarrow> PGROUNDDOWN a = a"
  by (intro word_unat_eq_iff [THEN iffD2]) (auto simp: page_aligned_def unat_PGROUNDDOWN)

text \<open>Multiples of the page size among the natural numbers.\<close>

lemma aligned_step: "(a :: nat) mod 4096 = 0 \<Longrightarrow> b mod 4096 = 0 \<Longrightarrow> a < b \<Longrightarrow> a + 4096 \<le> b"
  unfolding mod_eq_0_iff_dvd by (elim dvdE) simp

lemma aligned_diff: "(a :: nat) mod 4096 = 0 \<Longrightarrow> b mod 4096 = 0 \<Longrightarrow> a \<le> b \<Longrightarrow>
    a + 4096 * ((b - a) div 4096) = b"
  unfolding mod_eq_0_iff_dvd by (elim dvdE) (simp flip: diff_mult_distrib2)

lemma round_up_bounds:
  "(a :: nat) \<le> (a + 4095) div 4096 * 4096" "(a + 4095) div 4096 * 4096 < a + 4096"
proof -
  have "a + 4095 = (a + 4095) div 4096 * 4096 + (a + 4095) mod 4096" by (simp only: div_mult_mod_eq)
  moreover have "(a + 4095) mod 4096 < 4096" by simp
  ultimately show "a \<le> (a + 4095) div 4096 * 4096" "(a + 4095) div 4096 * 4096 < a + 4096"
    by linarith+
qed

lemma round_up_least: "(a :: nat) \<le> q \<Longrightarrow> q mod 4096 = 0 \<Longrightarrow> (a + 4095) div 4096 * 4096 \<le> q"
  using aligned_step [of q "(a + 4095) div 4096 * 4096"] round_up_bounds(2) [of a]
  by (cases "(a + 4095) div 4096 * 4096 \<le> q") simp_all

lemma unat_PGROUNDUP:
  assumes "unat a + 4095 < 2 ^ 64"
  shows "unat (PGROUNDUP a) = (unat a + 4095) div 4096 * 4096"
proof -
  have "PGROUNDUP a = PGROUNDDOWN (a + 4095)"
    by (simp add: PGROUNDUP_def PGROUNDDOWN_def PGSIZE_def add_diff_eq [symmetric])
  moreover have "unat (a + 4095) = unat a + 4095"
    using assms by (simp add: unat_word_ariths)
  ultimately show ?thesis by (simp add: unat_PGROUNDDOWN)
qed

lemma PGROUNDUP_aligned: "page_aligned (PGROUNDUP a)"
proof -
  have "PGROUNDUP a = PGROUNDDOWN (a + PGSIZE - 1)"
    by (simp add: PGROUNDUP_def PGROUNDDOWN_def)
  then show ?thesis by (simp add: PGROUNDDOWN_aligned)
qed

section \<open>Page-table entries\<close>

lemma aligned_bits: "page_aligned a \<longleftrightarrow> take_bit 12 a = 0"
  by (simp add: page_aligned_def word_unat_eq_iff take_bit_eq_mod unat_mod_distrib)

lemma aligned_shift: "page_aligned a \<Longrightarrow> push_bit 12 (drop_bit 12 a) = a"
  using PGROUNDDOWN_id PGROUNDDOWN_shift by metis

lemma PTE2PA_or:
  assumes "page_aligned pa" and "take_bit 10 fl = fl"
  shows "PTE2PA (PA2PTE pa OR fl) = pa"
proof -
  have fl: "drop_bit 10 fl = 0"
    using assms(2) by (simp add: take_bit_eq_self_iff_drop_bit_eq_0)
  have "drop_bit 10 (push_bit 10 (drop_bit 12 pa)) = drop_bit 12 pa"
    by (rule bit_word_eqI) (auto simp: bit_simps dest: bit_imp_le_length)
  then have "PTE2PA (PA2PTE pa OR fl) = push_bit 12 (drop_bit 12 pa)"
    by (simp add: PTE2PA_def PA2PTE_def fl)
  then show ?thesis using aligned_shift [OF assms(1)] by simp
qed

lemma PTE_FLAGS_or:
  assumes "take_bit 10 fl = fl"
  shows "PTE_FLAGS (PA2PTE pa OR fl) = fl"
proof -
  have m: "(0x3FF :: uint64) = mask 10" by (simp add: mask_eq_exp_minus_1)
  have "PTE_FLAGS (PA2PTE pa OR fl) = take_bit 10 (PA2PTE pa OR fl)"
    by (simp add: PTE_FLAGS_def m take_bit_eq_mask)
  also have "\<dots> = take_bit 10 (PA2PTE pa) OR fl"
    using assms by (simp add: take_bit_or)
  also have "take_bit 10 (PA2PTE pa) = 0"
    by (simp add: PA2PTE_def take_bit_push_bit)
  finally show ?thesis by simp
qed

lemma PTE2PA_aligned: "page_aligned (PTE2PA pte)"
  by (simp add: PTE2PA_def aligned_bits take_bit_push_bit)

section \<open>The three indices of a virtual address\<close>

lemma PX_unat: "unat (PX l va) = unat va div 2 ^ (12 + 9 * l) mod 512"
proof -
  have m: "PXMASK = mask 9" by (simp add: PXMASK_def mask_eq_exp_minus_1)
  have "PX l va = take_bit 9 (drop_bit (12 + 9 * l) va)"
    by (simp add: PX_def PXSHIFT_def PGSHIFT_def m take_bit_eq_mask)
  then show ?thesis
    by (simp add: take_bit_eq_mod unat_mod_distrib unat_drop_bit64)
qed

lemma PX_bound: "unat (PX l va) < 512"
  by (simp add: PX_unat)

lemma unat_MAXVA: "unat MAXVA = 2 ^ 38"
  by (simp add: MAXVA_def)

lemma va_decompose:
  assumes "va < MAXVA"
  shows "unat va div 4096 = unat (PX 2 va) * 2 ^ 18 + unat (PX 1 va) * 2 ^ 9 + unat (PX 0 va)"
proof -
  define n where "n = unat va div 4096"
  define m where "m = n div 512"
  have va: "unat va < 2 ^ 38" using assms by (simp add: word_less_nat_alt unat_MAXVA)
  have n21: "unat va div 2 ^ 21 = m" and n30: "unat va div 2 ^ 30 = m div 512"
    by (simp_all add: n_def m_def div_mult2_eq [symmetric])
  have px: "unat (PX 0 va) = n mod 512" "unat (PX 1 va) = m mod 512"
    using n21 by (simp_all add: PX_unat n_def)
  have "unat (PX 2 va) = m div 512 mod 512"
    using n30 by (simp add: PX_unat)
  moreover have "m div 512 < 512"
    using va unfolding n30 [symmetric] by (simp add: less_mult_imp_div_less)
  ultimately have px2: "unat (PX 2 va) = m div 512" by simp
  have n: "n = 512 * m + n mod 512" by (simp add: m_def)
  have m: "m = 512 * (m div 512) + m mod 512" by simp
  have "n = 262144 * (m div 512) + 512 * (m mod 512) + n mod 512"
    using n m by linarith
  then show ?thesis unfolding px px2 n_def [symmetric] by simp
qed

lemma PX_inj:
  assumes "va < MAXVA" "wa < MAXVA"
    and "PX 2 va = PX 2 wa" "PX 1 va = PX 1 wa" "PX 0 va = PX 0 wa"
  shows "unat va div 4096 = unat wa div 4096"
  using va_decompose [OF assms(1)] va_decompose [OF assms(2)] assms(3-5) by simp

lemma PX_page:
  assumes "unat va div 4096 = unat wa div 4096"
  shows "PX l va = PX l wa"
proof -
  have "x div 2 ^ (12 + 9 * l) = x div 4096 div 2 ^ (9 * l)" for x :: nat
    by (simp only: power_add div_mult2_eq) simp
  with assms have "unat va div 2 ^ (12 + 9 * l) = unat wa div 2 ^ (12 + 9 * l)"
    by (simp only:)
  then show ?thesis by (simp add: word_unat_eq_iff PX_unat)
qed

end
