(* ===== verification/Memory.thy ===== *)
theory Memory
  imports Riscv
begin

text \<open>
  Byte-addressed physical memory, and the little-endian layout of machine words in it.  The
  functional view of a block of bytes (\<open>load_bytes\<close>, \<open>store_bytes\<close>) is what the loops of
  \<open>kernel/string.c\<close> are proved equal to; words in memory and the fields of on-disk structures are
  read and written through \<open>le_word\<close> and \<open>le_bytes\<close>.
\<close>

type_synonym memory = "uint64 \<Rightarrow> uint8"

definition load_bytes :: "memory \<Rightarrow> uint64 \<Rightarrow> nat \<Rightarrow> uint8 list" where
  "load_bytes m a n = map (\<lambda>i. m (a + of_nat i)) [0..<n]"

definition store_bytes :: "memory \<Rightarrow> uint64 \<Rightarrow> uint8 list \<Rightarrow> memory" where
  "store_bytes m a bs = (\<lambda>x. if unat (x - a) < length bs then bs ! unat (x - a) else m x)"

fun le_bytes :: "nat \<Rightarrow> 'a::len word \<Rightarrow> uint8 list" where
  "le_bytes 0 w = []"
| "le_bytes (Suc n) w = ucast w # le_bytes n (drop_bit 8 w)"

fun le_word :: "uint8 list \<Rightarrow> 'a::len word" where
  "le_word [] = 0"
| "le_word (b # bs) = ucast b OR push_bit 8 (le_word bs)"

definition load64 :: "memory \<Rightarrow> uint64 \<Rightarrow> uint64" where
  "load64 m a = le_word (load_bytes m a 8)"

definition store64 :: "memory \<Rightarrow> uint64 \<Rightarrow> uint64 \<Rightarrow> memory" where
  "store64 m a v = store_bytes m a (le_bytes 8 v)"

section \<open>Words as bytes\<close>

lemma length_le_bytes [simp]: "length (le_bytes n w) = n"
  by (induction n arbitrary: w) auto

lemma bit_le_word:
  "bit (le_word bs :: 'a::len word) k \<longleftrightarrow>
     k < LENGTH('a) \<and> k div 8 < length bs \<and> bit (bs ! (k div 8)) (k mod 8)"
proof (induction bs arbitrary: k)
  case Nil
  then show ?case by simp
next
  case (Cons b bs)
  show ?case
  proof (cases "k < 8")
    case True
    then show ?thesis by (auto simp: bit_simps)
  next
    case False
    then have d: "k div 8 = Suc ((k - 8) div 8)" and m: "(k - 8) mod 8 = k mod 8"
      by (simp_all add: le_div_geq le_mod_geq)
    have "\<not> bit b k" using False by (auto dest: bit_imp_le_length)
    then show ?thesis using False Cons.IH [of "k - 8"]
      by (auto simp: bit_simps d m)
  qed
qed

lemma nth_le_bytes: "i < n \<Longrightarrow> le_bytes n w ! i = ucast (drop_bit (8 * i) w)"
proof (induction n arbitrary: w i)
  case 0
  then show ?case by simp
next
  case (Suc n)
  then show ?case by (cases i) (simp_all add: add.commute)
qed

lemma le_word_bytes:
  assumes "LENGTH('a::len) \<le> 8 * n"
  shows "le_word (le_bytes n (w :: 'a word)) = w"
proof (rule bit_word_eqI)
  fix k assume k: "k < LENGTH('a)"
  then have "k div 8 < n" using assms by (simp add: less_mult_imp_div_less mult.commute)
  moreover have "bit (ucast (drop_bit (8 * (k div 8)) w) :: uint8) (k mod 8) = bit w k"
    using k by (simp add: bit_simps) 
  ultimately show "bit (le_word (le_bytes n w) :: 'a word) k = bit w k"
    using k by (simp add: bit_le_word nth_le_bytes)
qed

lemma le_bytes_word:
  assumes "8 * length bs \<le> LENGTH('a::len)"
  shows "le_bytes (length bs) (le_word bs :: 'a word) = bs"
proof (rule nth_equalityI)
  show "length (le_bytes (length bs) (le_word bs :: 'a word)) = length bs" by simp
next
  fix i assume "i < length (le_bytes (length bs) (le_word bs :: 'a word))"
  then have i: "i < length bs" by simp
  have "ucast (drop_bit (8 * i) (le_word bs :: 'a word)) = bs ! i"
  proof (rule bit_word_eqI)
    fix k assume "k < LENGTH(8)"
    then have k: "k < 8" by simp
    have "8 * i + k < LENGTH('a)" using i k assms by linarith
    with i k show "bit (ucast (drop_bit (8 * i) (le_word bs :: 'a word)) :: uint8) k = bit (bs ! i) k"
      by (simp add: bit_simps bit_le_word)
  qed
  then show "le_bytes (length bs) (le_word bs :: 'a word) ! i = bs ! i"
    using i by (simp add: nth_le_bytes)
qed

lemma le_word_zeros [simp]: "le_word (replicate n 0) = 0"
  by (induction n) auto

section \<open>Blocks of bytes\<close>

lemma length_load_bytes [simp]: "length (load_bytes m a n) = n"
  by (simp add: load_bytes_def)

lemma nth_load_bytes [simp]: "i < n \<Longrightarrow> load_bytes m a n ! i = m (a + of_nat i)"
  by (simp add: load_bytes_def)

lemma store_bytes_Nil [simp]: "store_bytes m a [] = m"
  by (simp add: store_bytes_def)

lemma load_bytes_Suc: "load_bytes m a (Suc n) = m a # load_bytes m (a + 1) n"
  by (rule nth_equalityI) (auto simp: nth_Cons' add.assoc)

lemma load_store_same:
  assumes "length bs \<le> 2 ^ 64"
  shows "load_bytes (store_bytes m a bs) a (length bs) = bs"
proof (rule nth_equalityI)
  fix i assume "i < length (load_bytes (store_bytes m a bs) a (length bs))"
  then have i: "i < length bs" by simp
  then have "unat (of_nat i :: uint64) = i"
    using assms by (simp add: unat_of_nat)
  with i show "load_bytes (store_bytes m a bs) a (length bs) ! i = bs ! i"
    by (simp add: store_bytes_def)
qed simp

lemma load_store_sub:
  assumes "length bs \<le> 2 ^ 64" "k + n \<le> length bs"
  shows "load_bytes (store_bytes m a bs) (a + of_nat k) n = take n (drop k bs)"
proof (rule nth_equalityI)
  show "length (load_bytes (store_bytes m a bs) (a + of_nat k) n) = length (take n (drop k bs))"
    using assms by simp
next
  fix i assume "i < length (load_bytes (store_bytes m a bs) (a + of_nat k) n)"
  then have i: "i < n" by simp
  have "unat (a + of_nat k + of_nat i - a) = k + i"
  proof -
    have "a + of_nat k + of_nat i - a = of_nat (k + i)" by (simp add: algebra_simps)
    then show ?thesis using i assms by (simp add: unat_of_nat del: of_nat_add)
  qed
  then show "load_bytes (store_bytes m a bs) (a + of_nat k) n ! i = take n (drop k bs) ! i"
    using i assms by (simp add: store_bytes_def)
qed

lemma load_store_other:
  assumes "\<And>i. i < n \<Longrightarrow> length bs \<le> unat (b + of_nat i - a)"
  shows "load_bytes (store_bytes m a bs) b n = load_bytes m b n"
proof (rule nth_equalityI)
  fix i assume "i < length (load_bytes (store_bytes m a bs) b n)"
  then show "load_bytes (store_bytes m a bs) b n ! i = load_bytes m b n ! i"
    using assms [of i] by (simp add: store_bytes_def)
qed simp

lemma unat_diff_cases:
  "unat ((x :: uint64) - y) = (if unat y \<le> unat x then unat x - unat y else 2 ^ 64 + unat x - unat y)"
  by (auto simp: unat_sub_if_size word_size)

lemma load_store_disjoint:
  assumes "unat a + length bs \<le> unat b \<or> unat b + n \<le> unat a"
    and "unat a + length bs \<le> 2 ^ 64" "unat b + n \<le> 2 ^ 64"
  shows "load_bytes (store_bytes m a bs) b n = load_bytes m b n"
proof (rule load_store_other)
  fix i assume i: "i < n"
  then have "unat (b + of_nat i) = unat b + i"
    using assms(3) by (simp add: unat_word_ariths unat_of_nat)
  then show "length bs \<le> unat (b + of_nat i - a)"
    using i assms by (auto simp: unat_diff_cases)
qed

section \<open>Aligned 64-bit words\<close>

lemma load64_store64:
  assumes "unat a mod 8 = 0" "unat b mod 8 = 0"
  shows "load64 (store64 m a v) b = (if a = b then v else load64 m b)"
proof (cases "a = b")
  case True
  have "load_bytes (store_bytes m a (le_bytes 8 v)) a 8 = le_bytes 8 v"
    using load_store_same [of "le_bytes 8 v" m a] by simp
  then show ?thesis using True by (simp add: load64_def store64_def le_word_bytes)
next
  case False
  have "unat a + 8 \<le> unat b \<or> unat b + 8 \<le> unat a"
  proof -
    have "unat a \<noteq> unat b" using False by (simp add: word_unat_eq_iff)
    then show ?thesis using assms by presburger
  qed
  moreover have "unat x + 8 \<le> 2 ^ 64" if "unat x mod 8 = 0" for x :: uint64
  proof -
    from that have "8 dvd unat x" by (rule mod_0_imp_dvd)
    then obtain q where q: "unat x = 8 * q" by (rule dvdE)
    with unat64_less [of x] have "q < 2305843009213693952" by simp
    with q show ?thesis by simp
  qed
  ultimately have "load_bytes (store_bytes m a (le_bytes 8 v)) b 8 = load_bytes m b 8"
    using assms by (intro load_store_disjoint) auto
  then show ?thesis using False by (simp add: load64_def store64_def)
qed

section \<open>Agreement on pages\<close>

text \<open>
  \<open>agree P m m'\<close>: the two memories hold the same bytes in the pages whose base address is in
  \<open>P\<close>.  An operation that writes only inside page \<open>p\<close> gives memories that agree on \<open>- {p}\<close>.
\<close>

definition agree :: "uint64 set \<Rightarrow> memory \<Rightarrow> memory \<Rightarrow> bool" where
  "agree P m m' \<longleftrightarrow> (\<forall>x. PGROUNDDOWN x \<in> P \<longrightarrow> m' x = m x)"

lemma agree_refl [simp, intro]: "agree P m m"
  by (simp add: agree_def)

lemma agree_trans [trans]: "agree P m m' \<Longrightarrow> agree P m' m'' \<Longrightarrow> agree P m m''"
  by (simp add: agree_def)

lemma agree_mono: "agree P m m' \<Longrightarrow> Q \<subseteq> P \<Longrightarrow> agree Q m m'"
  by (auto simp: agree_def)

lemma page_offset:
  assumes "unat (a :: uint64) mod 4096 + i < 4096"
  shows "unat (a + of_nat i) = unat a + i" "PGROUNDDOWN (a + of_nat i) = PGROUNDDOWN a"
proof -
  define q where "q = unat a div 4096"
  define r where "r = unat a mod 4096"
  have a: "unat a = q * 4096 + r" unfolding q_def r_def by simp
  have q: "q < 2 ^ 52"
    using unat64_less [of a] unfolding q_def by (simp add: less_mult_imp_div_less)
  have ri: "r + i < 4096" using assms unfolding r_def .
  have "unat a + i < 2 ^ 64" using a q ri by simp
  moreover have "i < 2 ^ 64" using ri by simp
  ultimately show u: "unat (a + of_nat i) = unat a + i"
    by (simp add: unat_word_ariths unat_of_nat)
  have "(unat a + i) div 4096 = q" using ri by (simp add: a add.assoc)
  then show "PGROUNDDOWN (a + of_nat i) = PGROUNDDOWN a"
    by (intro word_unat_eq_iff [THEN iffD2]) (simp add: unat_PGROUNDDOWN u q_def [symmetric])
qed

lemma block_page:
  assumes "unat (a :: uint64) mod 4096 + n \<le> 4096" "unat (x - a) < n"
  shows "PGROUNDDOWN x = PGROUNDDOWN a"
proof -
  have "x = a + of_nat (unat (x - a))" by simp
  moreover have "PGROUNDDOWN (a + of_nat (unat (x - a))) = PGROUNDDOWN a"
    using assms by (intro page_offset(2)) simp
  ultimately show ?thesis by metis
qed

lemma store_bytes_agree:
  assumes "unat a mod 4096 + length bs \<le> 4096" "PGROUNDDOWN a = p"
  shows "agree (- {p}) m (store_bytes m a bs)"
  using block_page [OF assms(1)] assms(2) by (auto simp: agree_def store_bytes_def)

lemma load_bytes_agree:
  assumes "agree P m m'" "unat a mod 4096 + n \<le> 4096" "PGROUNDDOWN a \<in> P"
  shows "load_bytes m' a n = load_bytes m a n"
proof -
  have "m' (a + of_nat i) = m (a + of_nat i)" if "i < n" for i
    using assms that page_offset(2) [of a i] by (simp add: agree_def)
  then show ?thesis by (simp add: load_bytes_def)
qed

lemma aligned8_fits: "unat (a :: uint64) mod 8 = 0 \<Longrightarrow> unat a mod 4096 + 8 \<le> 4096"
proof -
  assume a: "unat a mod 8 = 0"
  define r where "r = unat a mod 4096"
  have "r mod 8 = unat a mod 8" unfolding r_def by (rule mod_mod_cancel) simp
  moreover have "r < 4096" unfolding r_def by simp
  ultimately have "r + 8 \<le> 4096" using a by presburger
  then show ?thesis by (simp add: r_def)
qed

lemma load64_agree:
  assumes "agree P m m'" "unat a mod 8 = 0" "PGROUNDDOWN a \<in> P"
  shows "load64 m' a = load64 m a"
  using load_bytes_agree [OF assms(1) aligned8_fits [OF assms(2)] assms(3)] by (simp add: load64_def)

lemma store64_agree:
  assumes "unat a mod 8 = 0" "PGROUNDDOWN a = p"
  shows "agree (- {p}) m (store64 m a v)"
  unfolding store64_def using assms aligned8_fits [OF assms(1)] by (intro store_bytes_agree) simp_all

lemma page_aligned_mod8: "page_aligned a \<Longrightarrow> unat a mod 8 = 0"
proof -
  assume "page_aligned a"
  then have "unat a mod 4096 = 0" by (simp add: page_aligned_def)
  then have "(unat a mod 4096) mod 8 = 0" by simp
  then show ?thesis by (subst (asm) mod_mod_cancel) simp_all
qed

end
