(* ===== verification/Spinlock.thy ===== *)
theory Spinlock
  imports Memory
begin

text \<open>
  \<open>kernel/spinlock.c\<close>, the interrupt-enable bit of \<open>kernel/riscv.h\<close> and the part of
  \<open>struct cpu\<close> (\<open>kernel/proc.h\<close>) that \<open>push_off\<close> and \<open>pop_off\<close> use, seen from the hart that
  executes.  \<open>machine\<close> is the bottom record of the kernel state: memory, the hart's \<open>tp\<close> and
  \<open>sstatus\<close> registers, the \<open>cpus\<close> array and all spin locks, named by \<open>lockid\<close>.

  The functions \<open>acq\<close>, \<open>rel\<close> and \<open>tch\<close> describe what \<open>acquire\<close>, \<open>release\<close> and a balanced pair of
  them do to the state; the components above run critical sections by rewriting with them.  The
  interleaving of several harts inside \<open>acquire\<close> and \<open>release\<close> is the step relation \<open>lk_step\<close>: there
  a hart calls \<open>acquire\<close> only outside its critical section and \<open>release\<close> only at the end of it, and the
  two reads of \<open>holding\<close> are one step.
\<close>

section \<open>State\<close>

datatype sleepid = BufSleep nat | InodeSleep nat

datatype lockid =
    KmemLock
  | PidLock
  | WaitLock
  | ProcLock nat
  | BcacheLock
  | LogLock
  | ItableLock
  | FtableLock
  | TicksLock
  | ConsLock
  | PrLock
  | UartTxLock
  | VdiskLock
  | PipeLock uint64
  | SleepLk sleepid

record spinlock =
  locked :: uint
  lname :: string
  lcpu :: "nat option"

record cpu =
  cproc :: "nat option"
  noff :: int
  intena :: bool

record machine =
  mem :: memory
  tp :: uint64
  sstatus :: uint64
  cpus :: "nat \<Rightarrow> cpu"
  locks :: "lockid \<Rightarrow> spinlock"

lemma machine_upd_order [upd_order]:
  "mem_update f_mem (tp_update g_tp r) = tp_update g_tp (mem_update f_mem r)"
  "mem_update f_mem (sstatus_update g_sstatus r) = sstatus_update g_sstatus (mem_update f_mem r)"
  "mem_update f_mem (cpus_update g_cpus r) = cpus_update g_cpus (mem_update f_mem r)"
  "mem_update f_mem (locks_update g_locks r) = locks_update g_locks (mem_update f_mem r)"
  "tp_update f_tp (sstatus_update g_sstatus r) = sstatus_update g_sstatus (tp_update f_tp r)"
  "tp_update f_tp (cpus_update g_cpus r) = cpus_update g_cpus (tp_update f_tp r)"
  "tp_update f_tp (locks_update g_locks r) = locks_update g_locks (tp_update f_tp r)"
  "sstatus_update f_sstatus (cpus_update g_cpus r) = cpus_update g_cpus (sstatus_update f_sstatus r)"
  "sstatus_update f_sstatus (locks_update g_locks r) = locks_update g_locks (sstatus_update f_sstatus r)"
  "cpus_update f_cpus (locks_update g_locks r) = locks_update g_locks (cpus_update f_cpus r)"
  by simp_all

lemma cpu_upd_order [upd_order]:
  "cproc_update f_cproc (noff_update g_noff r) = noff_update g_noff (cproc_update f_cproc r)"
  "cproc_update f_cproc (intena_update g_intena r) = intena_update g_intena (cproc_update f_cproc r)"
  "noff_update f_noff (intena_update g_intena r) = intena_update g_intena (noff_update f_noff r)"
  by simp_all

lemma spinlock_upd_order [upd_order]:
  "locked_update f_locked (lname_update g_lname r) = lname_update g_lname (locked_update f_locked r)"
  "locked_update f_locked (lcpu_update g_lcpu r) = lcpu_update g_lcpu (locked_update f_locked r)"
  "lname_update f_lname (lcpu_update g_lcpu r) = lcpu_update g_lcpu (lname_update f_lname r)"
  by simp_all

section \<open>Operations\<close>

definition intr_get :: "'z machine_scheme \<Rightarrow> bool" where
  "intr_get s \<longleftrightarrow> sstatus s AND SSTATUS_SIE \<noteq> 0"

definition intr_on :: "'z machine_scheme \<Rightarrow> 'z machine_scheme" where
  "intr_on s = s\<lparr>sstatus := sstatus s OR SSTATUS_SIE\<rparr>"

definition intr_off :: "'z machine_scheme \<Rightarrow> 'z machine_scheme" where
  "intr_off s = s\<lparr>sstatus := sstatus s AND NOT SSTATUS_SIE\<rparr>"

definition cpuid :: "'z machine_scheme \<Rightarrow> nat" where
  "cpuid s = unat (tp s)"

definition mycpu :: "'z machine_scheme \<Rightarrow> cpu" where
  "mycpu s = cpus s (cpuid s)"

definition set_mycpu :: "(cpu \<Rightarrow> cpu) \<Rightarrow> 'z machine_scheme \<Rightarrow> 'z machine_scheme" where
  "set_mycpu f s = s\<lparr>cpus := (cpus s)(cpuid s := f (cpus s (cpuid s)))\<rparr>"

definition set_lock :: "lockid \<Rightarrow> (spinlock \<Rightarrow> spinlock) \<Rightarrow> 'z machine_scheme \<Rightarrow> 'z machine_scheme" where
  "set_lock lk f s = s\<lparr>locks := (locks s)(lk := f (locks s lk))\<rparr>"

definition initlock :: "lockid \<Rightarrow> string \<Rightarrow> (unit, 'z machine_scheme) kop" where
  "initlock lk nm = modify (set_lock lk (\<lambda>l. l\<lparr>lname := nm, locked := 0, lcpu := None\<rparr>))"

definition holding :: "lockid \<Rightarrow> (bool, 'z machine_scheme) kop" where
  "holding lk = gets (\<lambda>s. locked (locks s lk) \<noteq> 0 \<and> lcpu (locks s lk) = Some (cpuid s))"

definition push_off :: "(unit, 'z machine_scheme) kop" where
  "push_off =
     bnd (gets intr_get) (\<lambda>old.
     thn (modify intr_off)
    (thn (bnd (gets mycpu) (\<lambda>c. whenk (noff c = 0) (modify (set_mycpu (\<lambda>c. c\<lparr>intena := old\<rparr>)))))
         (modify (set_mycpu (\<lambda>c. c\<lparr>noff := noff c + 1\<rparr>)))))"

definition pop_off :: "(unit, 'z machine_scheme) kop" where
  "pop_off =
     bnd (gets intr_get) (\<lambda>on.
     if on then panic ''pop_off - interruptible'' else
     bnd (gets mycpu) (\<lambda>c.
     if noff c < 1 then panic ''pop_off'' else
     thn (modify (set_mycpu (\<lambda>c. c\<lparr>noff := noff c - 1\<rparr>)))
         (bnd (gets mycpu) (\<lambda>c. whenk (noff c = 0 \<and> intena c) (modify intr_on)))))"

text \<open>
  \<open>__sync_lock_test_and_set\<close>: atomically store 1 and return the old value.  When the old value
  is not 0 another hart holds the lock, and nothing this hart does will change that: it spins.
\<close>

definition test_and_set :: "lockid \<Rightarrow> (uint, 'z machine_scheme) kop" where
  "test_and_set lk =
     bnd (gets (\<lambda>s. locked (locks s lk))) (\<lambda>old.
     thn (modify (set_lock lk (\<lambda>l. l\<lparr>locked := 1\<rparr>))) (ret old))"

definition acquire :: "lockid \<Rightarrow> (unit, 'z machine_scheme) kop" where
  "acquire lk =
     thn push_off
    (bnd (holding lk) (\<lambda>h.
     if h then panic ''acquire'' else
     bnd (test_and_set lk) (\<lambda>old.
     if old \<noteq> 0 then spin else
     modify (\<lambda>s. set_lock lk (\<lambda>l. l\<lparr>lcpu := Some (cpuid s)\<rparr>) s))))"

definition release :: "lockid \<Rightarrow> (unit, 'z machine_scheme) kop" where
  "release lk =
     bnd (holding lk) (\<lambda>h.
     if \<not> h then panic ''release'' else
     thn (modify (set_lock lk (\<lambda>l. l\<lparr>lcpu := None\<rparr>)))
    (thn (modify (set_lock lk (\<lambda>l. l\<lparr>locked := 0\<rparr>)))
         pop_off))"

section \<open>What the operations do\<close>

definition free_lk :: "lockid \<Rightarrow> 'z machine_scheme \<Rightarrow> bool" where
  "free_lk lk s \<longleftrightarrow> locked (locks s lk) = 0 \<and> lcpu (locks s lk) = None"

definition held_lk :: "lockid \<Rightarrow> 'z machine_scheme \<Rightarrow> bool" where
  "held_lk lk s \<longleftrightarrow> locked (locks s lk) \<noteq> 0 \<and> lcpu (locks s lk) = Some (cpuid s)"

text \<open>The nesting depth is not negative, and inside a \<open>push_off\<close> section interrupts are off.\<close>

definition irq_ok :: "'z machine_scheme \<Rightarrow> bool" where
  "irq_ok s \<longleftrightarrow> 0 \<le> noff (mycpu s) \<and> (0 < noff (mycpu s) \<longrightarrow> \<not> intr_get s)"

definition enter_cpu :: "'z machine_scheme \<Rightarrow> cpu" where
  "enter_cpu s = (mycpu s)\<lparr>noff := noff (mycpu s) + 1,
     intena := (if noff (mycpu s) = 0 then intr_get s else intena (mycpu s))\<rparr>"

definition acq :: "lockid \<Rightarrow> 'z machine_scheme \<Rightarrow> 'z machine_scheme" where
  "acq lk s = s\<lparr>sstatus := sstatus s AND NOT SSTATUS_SIE,
     cpus := (cpus s)(cpuid s := enter_cpu s),
     locks := (locks s)(lk := (locks s lk)\<lparr>locked := 1, lcpu := Some (cpuid s)\<rparr>)\<rparr>"

definition rel :: "lockid \<Rightarrow> 'z machine_scheme \<Rightarrow> 'z machine_scheme" where
  "rel lk s = s\<lparr>sstatus := (if noff (mycpu s) = 1 \<and> intena (mycpu s) then sstatus s OR SSTATUS_SIE
        else sstatus s),
     cpus := (cpus s)(cpuid s := (mycpu s)\<lparr>noff := noff (mycpu s) - 1\<rparr>),
     locks := (locks s)(lk := (locks s lk)\<lparr>locked := 0, lcpu := None\<rparr>)\<rparr>"

text \<open>
  A balanced section leaves one trace: at nesting depth 0 the field \<open>intena\<close> of this hart, which
  has no meaning at that depth, holds the interrupt state found on entry.
\<close>

definition tch :: "'z machine_scheme \<Rightarrow> 'z machine_scheme" where
  "tch s = s\<lparr>cpus := (cpus s)(cpuid s := (mycpu s)\<lparr>intena :=
     (if noff (mycpu s) = 0 then intr_get s else intena (mycpu s))\<rparr>)\<rparr>"

lemmas lock_defs = acq_def rel_def tch_def enter_cpu_def mycpu_def cpuid_def intr_get_def
  intr_on_def intr_off_def set_mycpu_def set_lock_def free_lk_def held_lk_def irq_ok_def

lemma sie_off [simp]: "((x :: uint64) AND NOT SSTATUS_SIE) AND SSTATUS_SIE = 0"
  by (simp add: and.assoc)

lemma sie_on [simp]: "((x :: uint64) OR SSTATUS_SIE) AND SSTATUS_SIE \<noteq> 0"
proof -
  have "(x OR SSTATUS_SIE) AND SSTATUS_SIE = SSTATUS_SIE"
    by (rule bit_word_eqI) (auto simp: bit_simps)
  then show ?thesis by (simp add: SSTATUS_SIE_def)
qed

lemma sie_clear: "(x :: uint64) AND SSTATUS_SIE = 0 \<Longrightarrow> x AND NOT SSTATUS_SIE = x"
proof (rule bit_word_eqI)
  fix n assume a: "x AND SSTATUS_SIE = 0"
  then have "\<not> (bit x n \<and> bit SSTATUS_SIE n)"
    by (metis bit_0_eq bit_and_iff bot_apply bot_bool_def)
  then show "bit (x AND NOT SSTATUS_SIE) n = bit x n" if "n < LENGTH(64)"
    using that by (auto simp: bit_simps)
qed

lemma sie_restore: "(x :: uint64) AND SSTATUS_SIE \<noteq> 0 \<Longrightarrow> x AND NOT SSTATUS_SIE OR SSTATUS_SIE = x"
proof -
  assume a: "x AND SSTATUS_SIE \<noteq> 0"
  have b: "bit (SSTATUS_SIE) n \<longleftrightarrow> n = 1" for n
    by (auto simp: SSTATUS_SIE_def bit_simps)
  have "bit x 1"
  proof (rule ccontr)
    assume "\<not> bit x 1"
    then have "x AND SSTATUS_SIE = 0"
      by (intro bit_word_eqI) (auto simp: bit_and_iff b)
    with a show False by simp
  qed
  then show "x AND NOT SSTATUS_SIE OR SSTATUS_SIE = x"
    by (intro bit_word_eqI) (auto simp: bit_and_iff bit_or_iff bit_not_iff b)
qed

lemma holding_eq [kop_simps]: "holding lk s = Ret (held_lk lk s) s"
  by (simp add: holding_def held_lk_def kop_simps)

lemma acquire_free [kop_simps]:
  assumes "free_lk lk s"
  shows "acquire lk s = Ret () (acq lk s)"
  using assms
  by (simp add: acquire_def push_off_def test_and_set_def kop_simps lock_defs upd_order)

lemma acquire_again:
  assumes "held_lk lk s"
  shows "acquire lk s = Panic ''acquire''"
  using assms
  by (simp add: acquire_def push_off_def kop_simps lock_defs)

lemma acquire_other:
  assumes "locked (locks s lk) \<noteq> 0" "lcpu (locks s lk) \<noteq> Some (cpuid s)"
  shows "\<exists>t. acquire lk s = Spin t"
  using assms
  by (simp add: acquire_def push_off_def test_and_set_def kop_simps lock_defs upd_order)

lemma release_held [kop_simps]:
  assumes "held_lk lk s" "\<not> intr_get s" "1 \<le> noff (mycpu s)"
  shows "release lk s = Ret () (rel lk s)"
  using assms
  by (simp add: release_def pop_off_def kop_simps lock_defs upd_order)

lemma release_not_held:
  assumes "\<not> held_lk lk s"
  shows "release lk s = Panic ''release''"
  using assms by (simp add: release_def kop_simps)

lemma rel_acq:
  assumes "free_lk lk s" "irq_ok s"
  shows "rel lk (acq lk s) = tch s"
proof -
  have "(locks s)(lk := (locks s lk)\<lparr>locked := 0, lcpu := None\<rparr>) = locks s"
    using assms(1) by (cases "locks s lk") (simp add: free_lk_def fun_upd_idem)
  moreover have "sstatus s AND NOT SSTATUS_SIE = sstatus s" if "noff (cpus s (unat (tp s))) \<noteq> 0"
    using assms(2) that by (intro sie_clear) (auto simp: lock_defs)
  ultimately show ?thesis using assms(2)
    by (auto simp: lock_defs upd_order sie_restore sie_clear)
qed

text \<open>
  How the state functions and predicates compose.  A critical section is entered with interrupts
  on or off; inside it the hart is \<open>in_cs\<close>, which is what \<open>release\<close> needs.
\<close>

definition in_cs :: "'z machine_scheme \<Rightarrow> bool" where
  "in_cs s \<longleftrightarrow> \<not> intr_get s \<and> 1 \<le> noff (mycpu s)"

lemma release_in_cs [kop_simps]:
  "held_lk lk s \<Longrightarrow> in_cs s \<Longrightarrow> release lk s = Ret () (rel lk s)"
  by (simp add: in_cs_def release_held)

lemma in_cs_irq_ok [state_simps]: "in_cs s \<Longrightarrow> irq_ok s"
  by (simp add: in_cs_def irq_ok_def)

lemma acq_state [state_simps]:
  "irq_ok s \<Longrightarrow> in_cs (acq lk s)"
  "irq_ok s \<Longrightarrow> irq_ok (acq lk s)"
  "held_lk lk (acq lk s)"
  "a \<noteq> lk \<Longrightarrow> held_lk a (acq lk s) = held_lk a s"
  "a \<noteq> lk \<Longrightarrow> free_lk a (acq lk s) = free_lk a s"
  "\<not> free_lk lk (acq lk s)"
  "\<not> intr_get (acq lk s)"
  "mem (acq lk s) = mem s"
  "tp (acq lk s) = tp s"
  "cpuid (acq lk s) = cpuid s"
  "cproc (mycpu (acq lk s)) = cproc (mycpu s)"
  "noff (mycpu (acq lk s)) = noff (mycpu s) + 1"
  by (simp_all add: in_cs_def lock_defs)

lemma rel_state [state_simps]:
  "free_lk lk (rel lk s)"
  "a \<noteq> lk \<Longrightarrow> held_lk a (rel lk s) = held_lk a s"
  "a \<noteq> lk \<Longrightarrow> free_lk a (rel lk s) = free_lk a s"
  "mem (rel lk s) = mem s"
  "tp (rel lk s) = tp s"
  "cpuid (rel lk s) = cpuid s"
  "cproc (mycpu (rel lk s)) = cproc (mycpu s)"
  "noff (mycpu (rel lk s)) = noff (mycpu s) - 1"
  by (simp_all add: lock_defs)

lemma tch_state [state_simps]:
  "in_cs (tch s) = in_cs s"
  "irq_ok (tch s) = irq_ok s"
  "held_lk lk (tch s) = held_lk lk s"
  "free_lk lk (tch s) = free_lk lk s"
  "intr_get (tch s) = intr_get s"
  "sstatus (tch s) = sstatus s"
  "locks (tch s) = locks s"
  "mem (tch s) = mem s"
  "tp (tch s) = tp s"
  "cpuid (tch s) = cpuid s"
  "cproc (mycpu (tch s)) = cproc (mycpu s)"
  "noff (mycpu (tch s)) = noff (mycpu s)"
  "tch (tch s) = tch s"
  by (simp_all add: in_cs_def lock_defs)

lemma tch_in_cs [state_simps]: "in_cs s \<Longrightarrow> tch s = s"
  by (simp add: in_cs_def tch_def mycpu_def)

lemma mem_update_state [state_simps]:
  "acq lk (mem_update f s) = mem_update f (acq lk s)"
  "rel lk (mem_update f s) = mem_update f (rel lk s)"
  "tch (mem_update f s) = mem_update f (tch s)"
  "free_lk lk (mem_update f s) = free_lk lk s"
  "held_lk lk (mem_update f s) = held_lk lk s"
  "in_cs (mem_update f s) = in_cs s"
  "irq_ok (mem_update f s) = irq_ok s"
  "intr_get (mem_update f s) = intr_get s"
  "cpuid (mem_update f s) = cpuid s"
  "mycpu (mem_update f s) = mycpu s"
  by (simp_all add: in_cs_def lock_defs)

lemmas rel_acq_tch [state_simps] = rel_acq

section \<open>Nesting of \<open>push_off\<close> and \<open>pop_off\<close>\<close>

primrec repk :: "nat \<Rightarrow> (unit, 's) kop \<Rightarrow> (unit, 's) kop" where
  "repk 0 m = ret ()"
| "repk (Suc n) m = thn m (repk n m)"

definition pushed :: "nat \<Rightarrow> 'z machine_scheme \<Rightarrow> 'z machine_scheme" where
  "pushed n s = s\<lparr>sstatus := sstatus s AND NOT SSTATUS_SIE,
     cpus := (cpus s)(cpuid s := (mycpu s)\<lparr>noff := noff (mycpu s) + int n,
       intena := (if noff (mycpu s) = 0 then intr_get s else intena (mycpu s))\<rparr>)\<rparr>"

lemma push_off_pushed: "push_off s = Ret () (pushed 1 s)"
  by (simp add: push_off_def pushed_def kop_simps lock_defs upd_order)

lemma pushed_pushed: "irq_ok s \<Longrightarrow> pushed 1 (pushed (Suc n) s) = pushed (Suc (Suc n)) s"
  by (simp add: pushed_def lock_defs and.assoc add_ac upd_order)

lemma repk_push_off: "irq_ok s \<Longrightarrow> repk n push_off (pushed (Suc k) s) = Ret () (pushed (Suc k + n) s)"
  by (induction n arbitrary: k)
    (simp_all add: kop_simps push_off_pushed pushed_pushed [unfolded One_nat_def])

lemma pop_off_pushed:
  "irq_ok s \<Longrightarrow> pop_off (pushed (Suc (Suc n)) s) = Ret () (pushed (Suc n) s)"
  by (simp add: pop_off_def pushed_def kop_simps lock_defs upd_order add_ac)

lemma pop_off_last: "irq_ok s \<Longrightarrow> pop_off (pushed 1 s) = Ret () (tch s)"
proof -
  assume ok: "irq_ok s"
  have "sstatus s AND NOT SSTATUS_SIE = sstatus s" if "noff (cpus s (unat (tp s))) \<noteq> 0"
    using ok that by (intro sie_clear) (auto simp: lock_defs)
  with ok show ?thesis
    by (auto simp: pop_off_def pushed_def kop_simps lock_defs upd_order sie_restore sie_clear)
qed

lemma repk_pop_off: "irq_ok s \<Longrightarrow> repk (Suc n) pop_off (pushed (Suc n) s) = Ret () (tch s)"
proof (induction n)
  case 0
  then show ?case using pop_off_last [of s] by (simp add: kop_simps)
next
  case (Suc n)
  then show ?case
    by (subst repk.simps(2)) (simp add: kop_simps pop_off_pushed del: repk.simps)
qed

section \<open>Several harts on one lock\<close>

text \<open>
  Where a hart is in \<open>acquire\<close> or \<open>release\<close> of one lock: outside, in the test-and-set loop, past
  the loop with \<open>lk->cpu\<close> not yet written, in the critical section, past \<open>lk->cpu = 0\<close> with the
  lock word not yet cleared, or stopped by one of the two \<open>panic\<close> calls.  A step is one access of
  one hart to the shared lock; any hart may move next.
\<close>

datatype lk_pc = Outside | Spinning | Won | Crit | Leaving | Panicked

record lk_state =
  lkw :: spinlock
  pcs :: "nat \<Rightarrow> lk_pc"

definition holding_at :: "nat \<Rightarrow> lk_state \<Rightarrow> bool" where
  "holding_at h s \<longleftrightarrow> locked (lkw s) \<noteq> 0 \<and> lcpu (lkw s) = Some h"

definition at_pc :: "nat \<Rightarrow> lk_pc \<Rightarrow> lk_state \<Rightarrow> lk_state" where
  "at_pc h p s = s\<lparr>pcs := (pcs s)(h := p)\<rparr>"

inductive lk_step :: "lk_state \<Rightarrow> lk_state \<Rightarrow> bool" where
  enter: "pcs s h = Outside \<Longrightarrow> \<not> holding_at h s \<Longrightarrow> lk_step s (at_pc h Spinning s)"
| enter_panic: "pcs s h = Outside \<Longrightarrow> holding_at h s \<Longrightarrow> lk_step s (at_pc h Panicked s)"
| tas_win: "pcs s h = Spinning \<Longrightarrow> locked (lkw s) = 0 \<Longrightarrow>
    lk_step s (at_pc h Won (s\<lparr>lkw := (lkw s)\<lparr>locked := 1\<rparr>\<rparr>))"
| tas_lose: "pcs s h = Spinning \<Longrightarrow> locked (lkw s) \<noteq> 0 \<Longrightarrow>
    lk_step s (s\<lparr>lkw := (lkw s)\<lparr>locked := 1\<rparr>\<rparr>)"
| own: "pcs s h = Won \<Longrightarrow> lk_step s (at_pc h Crit (s\<lparr>lkw := (lkw s)\<lparr>lcpu := Some h\<rparr>\<rparr>))"
| disown: "pcs s h = Crit \<Longrightarrow> holding_at h s \<Longrightarrow>
    lk_step s (at_pc h Leaving (s\<lparr>lkw := (lkw s)\<lparr>lcpu := None\<rparr>\<rparr>))"
| disown_panic: "pcs s h = Crit \<Longrightarrow> \<not> holding_at h s \<Longrightarrow> lk_step s (at_pc h Panicked s)"
| unlock: "pcs s h = Leaving \<Longrightarrow>
    lk_step s (at_pc h Outside (s\<lparr>lkw := (lkw s)\<lparr>locked := 0\<rparr>\<rparr>))"

definition lk_init :: "string \<Rightarrow> lk_state" where
  "lk_init nm = \<lparr>lkw = \<lparr>locked = 0, lname = nm, lcpu = None\<rparr>, pcs = (\<lambda>_. Outside)\<rparr>"

definition inside :: "lk_pc \<Rightarrow> bool" where
  "inside p \<longleftrightarrow> p = Won \<or> p = Crit \<or> p = Leaving"

definition quiet :: "lk_pc \<Rightarrow> bool" where
  "quiet p \<longleftrightarrow> p = Outside \<or> p = Spinning"

text \<open>The lock word is set exactly while one hart is inside, and \<open>lk->cpu\<close> names it in between.\<close>

definition lk_inv :: "lk_state \<Rightarrow> bool" where
  "lk_inv s \<longleftrightarrow>
     locked (lkw s) = 0 \<and> lcpu (lkw s) = None \<and> (\<forall>k. quiet (pcs s k)) \<or>
     locked (lkw s) \<noteq> 0 \<and> (\<exists>h. inside (pcs s h) \<and> (\<forall>k. k \<noteq> h \<longrightarrow> quiet (pcs s k)) \<and>
        lcpu (lkw s) = (if pcs s h = Crit then Some h else None))"

lemmas lk_defs = lk_inv_def at_pc_def holding_at_def inside_def quiet_def

lemma lk_inv_init: "lk_inv (lk_init nm)"
  by (simp add: lk_init_def lk_defs)

lemma inside_not_quiet: "inside p \<Longrightarrow> \<not> quiet p"
  by (auto simp: inside_def quiet_def)

lemma lk_inv_owner:
  assumes "lk_inv s" "inside (pcs s h)"
  shows "locked (lkw s) \<noteq> 0" "\<forall>k. k \<noteq> h \<longrightarrow> quiet (pcs s k)"
    "lcpu (lkw s) = (if pcs s h = Crit then Some h else None)"
proof -
  have nq: "\<not> quiet (pcs s h)" using assms(2) by (rule inside_not_quiet)
  with assms(1) show "locked (lkw s) \<noteq> 0" by (auto simp: lk_inv_def)
  from nq assms(1) have "(\<forall>k. k \<noteq> h \<longrightarrow> quiet (pcs s k)) \<and>
    lcpu (lkw s) = (if pcs s h = Crit then Some h else None)"
    unfolding lk_inv_def by metis
  then show "\<forall>k. k \<noteq> h \<longrightarrow> quiet (pcs s k)"
    "lcpu (lkw s) = (if pcs s h = Crit then Some h else None)" by blast+
qed

lemma lk_inv_step: "lk_step s t \<Longrightarrow> lk_inv s \<Longrightarrow> lk_inv t"
proof (induction rule: lk_step.induct)
  case (enter s h)
  from enter.prems show ?case
  proof (cases "locked (lkw s) = 0")
    case True
    with enter.prems show ?thesis by (simp add: lk_inv_def at_pc_def quiet_def)
  next
    case False
    with enter.prems obtain q where "inside (pcs s q)" "\<forall>k. k \<noteq> q \<longrightarrow> quiet (pcs s k)"
      "lcpu (lkw s) = (if pcs s q = Crit then Some q else None)" by (auto simp: lk_inv_def)
    moreover from this(1) enter.hyps(1) have "q \<noteq> h" by (auto simp: inside_def)
    ultimately show ?thesis using False unfolding lk_inv_def at_pc_def
      by (intro disjI2 conjI exI [of _ q]) (simp_all add: quiet_def)
  qed
next
  case (enter_panic s h)
  then show ?case by (auto simp: lk_defs split: if_splits)
next
  case (tas_win s h)
  then have "\<forall>k. quiet (pcs s k)" "lcpu (lkw s) = None" by (auto simp: lk_inv_def)
  then show ?case by (auto simp: lk_inv_def at_pc_def inside_def)
next
  case (tas_lose s h)
  then show ?case by (simp add: lk_defs)
next
  case (own s h)
  then have "inside (pcs s h)" by (simp add: inside_def)
  from lk_inv_owner [OF own.prems this] show ?case by (auto simp: lk_inv_def at_pc_def inside_def)
next
  case (disown s h)
  then have "inside (pcs s h)" by (simp add: inside_def)
  from lk_inv_owner [OF disown.prems this] show ?case
    by (auto simp: lk_inv_def at_pc_def inside_def)
next
  case (disown_panic s h)
  then have "inside (pcs s h)" by (simp add: inside_def)
  from lk_inv_owner [OF disown_panic.prems this] disown_panic.hyps show ?case
    by (simp add: holding_at_def)
next
  case (unlock s h)
  then have "inside (pcs s h)" by (simp add: inside_def)
  from lk_inv_owner [OF unlock.prems this] unlock.hyps show ?case
    by (simp add: lk_inv_def at_pc_def quiet_def)
qed

lemma lk_inv_reach: "lk_step\<^sup>*\<^sup>* (lk_init nm) s \<Longrightarrow> lk_inv s"
  by (induction rule: rtranclp_induct) (auto intro: lk_inv_init lk_inv_step)

section \<open>Properties\<close>

text \<open>A hart outside every critical section, interrupts on, all locks free and memory zero.\<close>

definition machine0 :: machine where
  "machine0 = \<lparr>mem = (\<lambda>_. 0), tp = 0, sstatus = SSTATUS_SIE,
     cpus = (\<lambda>_. \<lparr>cproc = None, noff = 0, intena = False\<rparr>),
     locks = (\<lambda>_. \<lparr>locked = 0, lname = [], lcpu = None\<rparr>)\<rparr>"

lemma machine0_ok [state_simps]: "irq_ok machine0" "free_lk lk machine0" "intr_get machine0"
  by (simp_all add: machine0_def lock_defs SSTATUS_SIE_def)

text \<open>
  C1. Mutual exclusion: however the accesses of any number of harts to a spin lock interleave, at
  most one hart is between winning the test-and-set and clearing the lock word, \<open>holding\<close> is true
  exactly for the hart in its critical section, and neither \<open>panic\<close> of \<open>acquire\<close> and \<open>release\<close>
  is reached.
\<close>

theorem spinlock_mutual_exclusion:
  assumes "lk_step\<^sup>*\<^sup>* (lk_init nm) s"
  shows "(inside (pcs s h) \<longrightarrow> inside (pcs s k) \<longrightarrow> h = k) \<and>
    (holding_at h s \<longleftrightarrow> pcs s h = Crit) \<and> pcs s h \<noteq> Panicked"
proof -
  have inv: "lk_inv s" using assms by (rule lk_inv_reach)
  have "h = k" if "inside (pcs s h)" "inside (pcs s k)"
    using lk_inv_owner(2) [OF inv that(1)] inside_not_quiet [OF that(2)] by metis
  moreover have "holding_at h s \<longleftrightarrow> pcs s h = Crit"
  proof
    assume "holding_at h s"
    with inv show "pcs s h = Crit" by (auto simp: lk_inv_def holding_at_def split: if_splits)
  next
    assume c: "pcs s h = Crit"
    then have "inside (pcs s h)" by (simp add: inside_def)
    from lk_inv_owner [OF inv this] c show "holding_at h s" by (simp add: holding_at_def)
  qed
  moreover have "pcs s h \<noteq> Panicked"
  proof
    assume "pcs s h = Panicked"
    then have "\<not> inside (pcs s h)" "\<not> quiet (pcs s h)" by (simp_all add: inside_def quiet_def)
    with inv show False unfolding lk_inv_def by metis
  qed
  ultimately show ?thesis by blast
qed

text \<open>A run of two harts: hart 0 is in the critical section while hart 1 spins.\<close>

definition two_harts :: lk_state where
  "two_harts = \<lparr>lkw = \<lparr>locked = 1, lname = ''kmem'', lcpu = Some 0\<rparr>,
     pcs = (\<lambda>_. Outside)(0 := Crit, 1 := Spinning)\<rparr>"

lemma two_harts_reachable: "lk_step\<^sup>*\<^sup>* (lk_init ''kmem'') two_harts"
proof -
  define s0 where "s0 = lk_init ''kmem''"
  define s1 where "s1 = at_pc 0 Spinning s0"
  define s2 where "s2 = at_pc 0 Won (s1\<lparr>lkw := (lkw s1)\<lparr>locked := 1\<rparr>\<rparr>)"
  define s3 where "s3 = at_pc 0 Crit (s2\<lparr>lkw := (lkw s2)\<lparr>lcpu := Some 0\<rparr>\<rparr>)"
  define s4 where "s4 = at_pc 1 Spinning s3"
  have a: "lk_step s0 s1" unfolding s1_def
    by (rule lk_step.enter) (simp_all add: s0_def lk_init_def holding_at_def)
  have b: "lk_step s1 s2" unfolding s2_def
    by (rule lk_step.tas_win) (simp_all add: s1_def s0_def lk_init_def at_pc_def)
  have c: "lk_step s2 s3" unfolding s3_def
    by (rule lk_step.own) (simp add: s2_def at_pc_def)
  have d: "lk_step s3 s4" unfolding s4_def
    by (rule lk_step.enter)
      (simp_all add: s3_def s2_def s1_def s0_def lk_init_def at_pc_def holding_at_def)
  have "s4 = two_harts"
    by (simp add: s4_def s3_def s2_def s1_def s0_def lk_init_def at_pc_def two_harts_def)
  with a b c d show ?thesis by (auto simp: s0_def intro: converse_rtranclp_into_rtranclp)
qed

theorem spinlock_mutual_exclusion_witness:
  "holding_at 0 two_harts \<and> \<not> holding_at 1 two_harts"
  using spinlock_mutual_exclusion [OF two_harts_reachable, of 0 1]
    spinlock_mutual_exclusion [OF two_harts_reachable, of 1 0]
  by (simp add: two_harts_def)

text \<open>
  C2. \<open>acquire\<close> and \<open>release\<close> on every path.  On a free lock \<open>acquire\<close> returns holding the lock
  with interrupts off, and the matching \<open>release\<close> gives back the interrupt flag, the nesting depth
  and all locks as they were.  On a lock this hart holds \<open>acquire\<close> panics; on a lock another hart
  holds it spins; \<open>release\<close> of a lock not held panics.
\<close>

theorem acquire_release_paths:
  assumes "irq_ok s"
  shows "(free_lk lk s \<longrightarrow>
       (\<exists>t. acquire lk s = Ret () t \<and> held_lk lk t \<and> \<not> intr_get t \<and>
         (\<exists>u. release lk t = Ret () u \<and> sstatus u = sstatus s \<and> locks u = locks s \<and>
           noff (mycpu u) = noff (mycpu s) \<and> mem u = mem s))) \<and>
    (held_lk lk s \<longrightarrow> acquire lk s = Panic ''acquire'') \<and>
    (locked (locks s lk) \<noteq> 0 \<and> lcpu (locks s lk) \<noteq> Some (cpuid s) \<longrightarrow>
       (\<exists>t. acquire lk s = Spin t)) \<and>
    (\<not> held_lk lk s \<longrightarrow> release lk s = Panic ''release'')"
  using assms
  by (auto simp: kop_simps state_simps acquire_again acquire_other release_not_held)

theorem acquire_release_paths_witness:
  "irq_ok machine0 \<and> (\<exists>t. acquire KmemLock machine0 = Ret () t \<and> held_lk KmemLock t)"
  using acquire_release_paths [of machine0 KmemLock] by (auto simp: state_simps)

text \<open>
  C3. \<open>push_off\<close> and \<open>pop_off\<close> nest: after any positive number of \<open>push_off\<close> calls interrupts are
  off, and as many \<open>pop_off\<close> calls restore the interrupt flag and the depth found at the start,
  whether interrupts were on or off.
\<close>

theorem push_off_pop_off_nest:
  assumes "irq_ok s"
  shows "\<exists>t u. repk (Suc n) push_off s = Ret () t \<and> \<not> intr_get t \<and>
    noff (mycpu t) = noff (mycpu s) + int (Suc n) \<and>
    repk (Suc n) pop_off t = Ret () u \<and> sstatus u = sstatus s \<and> noff (mycpu u) = noff (mycpu s)"
proof -
  have "repk (Suc n) push_off s = Ret () (pushed (Suc n) s)"
    using repk_push_off [OF assms, of n 0] by (simp add: kop_simps push_off_pushed)
  moreover have "\<not> intr_get (pushed (Suc n) s)"
    "noff (mycpu (pushed (Suc n) s)) = noff (mycpu s) + int (Suc n)"
    by (simp_all add: pushed_def lock_defs)
  ultimately show ?thesis using repk_pop_off [OF assms, of n] by (auto simp: tch_state)
qed

theorem push_off_pop_off_nest_witness:
  "irq_ok machine0 \<and> intr_get machine0 \<and>
   (\<exists>t. repk 3 push_off machine0 = Ret () t \<and> \<not> intr_get t \<and> noff (mycpu t) = 3)"
proof -
  have "noff (mycpu machine0) = 0" by (simp add: machine0_def lock_defs)
  then show ?thesis
    using push_off_pop_off_nest [of machine0 2] by (auto simp: state_simps numeral_3_eq_3)
qed

end
