(* ===== verification/Kstring.thy ===== *)
theory Kstring
  imports Memory
begin

text \<open>
  \<open>kernel/string.c\<close>: every routine is the loop of the source over byte memory, pointers being
  64-bit addresses.  The lemmas give each loop its meaning as a block operation; \<open>memmove\<close> is
  proved correct for overlapping blocks, and the string routines are related to the
  NUL-terminated strings that memory holds (\<open>cstr\<close>).  A string read that never meets a NUL does
  not return, so \<open>strlen\<close> is a partial function whose \<open>None\<close> means exactly that.
\<close>

section \<open>Definitions\<close>

function memset_loop :: "memory \<Rightarrow> uint64 \<Rightarrow> uint8 \<Rightarrow> nat \<Rightarrow> nat \<Rightarrow> memory" where
  "memset_loop m cdst c i n =
     (if i < n then memset_loop (m(cdst + of_nat i := c)) cdst c (Suc i) n else m)"
  by pat_completeness auto
termination
  by (relation "measure (\<lambda>(m, cdst, c, i, n). n - i)") auto

definition memset :: "memory \<Rightarrow> uint64 \<Rightarrow> uint32 \<Rightarrow> uint \<Rightarrow> memory" where
  "memset m dst c n = memset_loop m dst (ucast c) 0 (unat n)"

fun memcmp_loop :: "memory \<Rightarrow> uint64 \<Rightarrow> uint64 \<Rightarrow> nat \<Rightarrow> int" where
  "memcmp_loop m s1 s2 0 = 0"
| "memcmp_loop m s1 s2 (Suc n) =
     (if m s1 \<noteq> m s2 then int (unat (m s1)) - int (unat (m s2))
      else memcmp_loop m (s1 + 1) (s2 + 1) n)"

definition memcmp :: "memory \<Rightarrow> uint64 \<Rightarrow> uint64 \<Rightarrow> uint \<Rightarrow> int" where
  "memcmp m v1 v2 n = memcmp_loop m v1 v2 (unat n)"

fun memmove_fwd :: "memory \<Rightarrow> uint64 \<Rightarrow> uint64 \<Rightarrow> nat \<Rightarrow> memory" where
  "memmove_fwd m d s 0 = m"
| "memmove_fwd m d s (Suc n) = memmove_fwd (m(d := m s)) (d + 1) (s + 1) n"

fun memmove_bwd :: "memory \<Rightarrow> uint64 \<Rightarrow> uint64 \<Rightarrow> nat \<Rightarrow> memory" where
  "memmove_bwd m d s 0 = m"
| "memmove_bwd m d s (Suc n) = memmove_bwd (m(d - 1 := m (s - 1))) (d - 1) (s - 1) n"

definition memmove :: "memory \<Rightarrow> uint64 \<Rightarrow> uint64 \<Rightarrow> uint \<Rightarrow> memory" where
  "memmove m dst src n =
     (if n = 0 then m
      else if src < dst \<and> src + ucast n > dst
      then memmove_bwd m (dst + ucast n) (src + ucast n) (unat n)
      else memmove_fwd m dst src (unat n))"

definition memcpy :: "memory \<Rightarrow> uint64 \<Rightarrow> uint64 \<Rightarrow> uint \<Rightarrow> memory" where
  "memcpy m dst src n = memmove m dst src n"

fun strncmp_loop :: "memory \<Rightarrow> uint64 \<Rightarrow> uint64 \<Rightarrow> nat \<Rightarrow> int" where
  "strncmp_loop m p q 0 = 0"
| "strncmp_loop m p q (Suc n) =
     (if m p \<noteq> 0 \<and> m p = m q then strncmp_loop m (p + 1) (q + 1) n
      else int (unat (m p)) - int (unat (m q)))"

definition strncmp :: "memory \<Rightarrow> uint64 \<Rightarrow> uint64 \<Rightarrow> uint \<Rightarrow> int" where
  "strncmp m p q n = strncmp_loop m p q (unat n)"

text \<open>
  The copying loop of \<open>strncpy\<close> leaves the memory, the destination pointer and the count it
  reached; the second loop pads with zeros while the count is positive.
\<close>

function strncpy_copy :: "memory \<Rightarrow> uint64 \<Rightarrow> uint64 \<Rightarrow> int \<Rightarrow> memory \<times> uint64 \<times> int" where
  "strncpy_copy m s t n =
     (if n > 0 then
        (if m t \<noteq> 0 then strncpy_copy (m(s := m t)) (s + 1) (t + 1) (n - 1)
         else (m(s := m t), s + 1, n - 1))
      else (m, s, n - 1))"
  by pat_completeness auto
termination
  by (relation "measure (\<lambda>(m, s, t, n). nat n)") auto

function strncpy_pad :: "memory \<Rightarrow> uint64 \<Rightarrow> int \<Rightarrow> memory" where
  "strncpy_pad m s n = (if n > 0 then strncpy_pad (m(s := 0)) (s + 1) (n - 1) else m)"
  by pat_completeness auto
termination
  by (relation "measure (\<lambda>(m, s, n). nat n)") auto

definition strncpy :: "memory \<Rightarrow> uint64 \<Rightarrow> uint64 \<Rightarrow> int \<Rightarrow> memory" where
  "strncpy m s t n = (case strncpy_copy m s t n of (m', s', n') \<Rightarrow> strncpy_pad m' s' n')"

function safestrcpy_copy :: "memory \<Rightarrow> uint64 \<Rightarrow> uint64 \<Rightarrow> int \<Rightarrow> memory \<times> uint64" where
  "safestrcpy_copy m s t n =
     (if n - 1 > 0 then
        (if m t \<noteq> 0 then safestrcpy_copy (m(s := m t)) (s + 1) (t + 1) (n - 1)
         else (m(s := m t), s + 1))
      else (m, s))"
  by pat_completeness auto
termination
  by (relation "measure (\<lambda>(m, s, t, n). nat n)") auto

definition safestrcpy :: "memory \<Rightarrow> uint64 \<Rightarrow> uint64 \<Rightarrow> int \<Rightarrow> memory" where
  "safestrcpy m s t n =
     (if n \<le> 0 then m else (case safestrcpy_copy m s t n of (m', s') \<Rightarrow> m'(s' := 0)))"

partial_function (option) strlen_loop :: "memory \<Rightarrow> uint64 \<Rightarrow> nat \<Rightarrow> nat option" where
  "strlen_loop m s n = (if m (s + of_nat n) = 0 then Some n else strlen_loop m s (Suc n))"

definition strlen :: "memory \<Rightarrow> uint64 \<Rightarrow> nat option" where
  "strlen m s = strlen_loop m s 0"

text \<open>Memory at \<open>a\<close> holds the string \<open>xs\<close> and its terminating NUL.\<close>

definition cstr :: "memory \<Rightarrow> uint64 \<Rightarrow> uint8 list \<Rightarrow> bool" where
  "cstr m a xs \<longleftrightarrow> 0 \<notin> set xs \<and> load_bytes m a (Suc (length xs)) = xs @ [0]"

declare memset_loop.simps [simp del] strncpy_copy.simps [simp del] strncpy_pad.simps [simp del]
  safestrcpy_copy.simps [simp del]

section \<open>Blocks\<close>

lemma store_bytes_Cons:
  assumes "length bs < 2 ^ 64"
  shows "store_bytes (m(a := b)) (a + 1) bs = store_bytes m a (b # bs)"
proof
  fix x
  show "store_bytes (m(a := b)) (a + 1) bs x = store_bytes m a (b # bs) x"
  proof (cases "x = a")
    case True
    have "unat (a - (a + 1)) = 2 ^ 64 - 1" by (simp add: unsigned_minus_1_eq_mask mask_eq_exp_minus_1)
    then show ?thesis using True assms by (simp add: store_bytes_def)
  next
    case False
    then have "unat (x - a) \<noteq> 0" by (simp add: unat_eq_0)
    then obtain k where k: "unat (x - a) = Suc k" using not0_implies_Suc by blast
    have "unat (x - a - 1) = k"
      using False k by (subst unat_minus_one) simp_all
    then have "unat (x - (a + 1)) = k" by (simp only: diff_diff_add)
    then show ?thesis using False k by (simp add: store_bytes_def)
  qed
qed

lemma store_bytes_snoc:
  assumes "length bs < 2 ^ 64"
  shows "store_bytes (m(a + of_nat (length bs) := b)) a bs = store_bytes m a (bs @ [b])"
proof
  fix x
  have u: "unat (of_nat (length bs) :: uint64) = length bs" using assms by (simp add: unat_of_nat)
  show "store_bytes (m(a + of_nat (length bs) := b)) a bs x = store_bytes m a (bs @ [b]) x"
  proof (cases "x = a + of_nat (length bs)")
    case True
    then show ?thesis using u by (simp add: store_bytes_def)
  next
    case False
    then have "unat (x - a) \<noteq> length bs"
      by (metis u add.commute diff_add_cancel word_unat_eq_iff)
    then show ?thesis using False by (auto simp: store_bytes_def nth_append)
  qed
qed

lemma load_bytes_snoc: "load_bytes m a (Suc n) = load_bytes m a n @ [m (a + of_nat n)]"
  by (simp add: load_bytes_def)

lemma load_bytes_upd:
  assumes "\<And>i. i < n \<Longrightarrow> a + of_nat i \<noteq> x"
  shows "load_bytes (m(x := b)) a n = load_bytes m a n"
  using assms by (intro nth_equalityI) auto

lemma memset_loop_eq:
  assumes "i \<le> n" "n < 2 ^ 64"
  shows "memset_loop m d c i n = store_bytes m (d + of_nat i) (replicate (n - i) c)"
  using assms
proof (induction m d c i n rule: memset_loop.induct)
  case (1 m d c i n)
  show ?case
  proof (cases "i < n")
    case True
    have "memset_loop m d c i n = memset_loop (m(d + of_nat i := c)) d c (Suc i) n"
      using True by (simp add: memset_loop.simps [of m d c i n])
    also have "\<dots> = store_bytes (m(d + of_nat i := c)) (d + of_nat i + 1) (replicate (n - Suc i) c)"
      using 1 True by (simp add: ac_simps fun_upd_def)
    also have "\<dots> = store_bytes m (d + of_nat i) (c # replicate (n - Suc i) c)"
      using "1.prems" by (intro store_bytes_Cons) simp
    also have "c # replicate (n - Suc i) c = replicate (n - i) c"
      using True by (metis Suc_diff_Suc replicate_Suc)
    finally show ?thesis .
  next
    case False
    with "1.prems" show ?thesis by (simp add: memset_loop.simps)
  qed
qed

lemma unat32_less [simp]: "unat (x :: uint32) < 4294967296"
  using unsigned_less [of x] by simp

lemma memset_eq: "memset m d c n = store_bytes m d (replicate (unat n) (ucast c))"
proof -
  have "unat n < 2 ^ 64" using unat32_less [of n] by (rule less_trans) simp
  then show ?thesis by (simp add: memset_def memset_loop_eq)
qed

lemma memmove_fwd_eq:
  assumes "unat d \<le> unat s \<or> unat s + n \<le> unat d" "unat s + n \<le> 2 ^ 64" "unat d + n \<le> 2 ^ 64"
  shows "memmove_fwd m d s n = store_bytes m d (load_bytes m s n)"
  using assms
proof (induction n arbitrary: m d s)
  case 0
  then show ?case by (simp add: load_bytes_def)
next
  case (Suc n)
  show ?case
  proof (cases n)
    case 0
    then show ?thesis
      by (simp add: load_bytes_Suc [of m s 0]) (simp add: load_bytes_def store_bytes_Cons [symmetric])
  next
    case (Suc k)
    have us: "unat (s + 1) = unat s + 1" and ud: "unat (d + 1) = unat d + 1"
      using Suc.prems Suc by (simp_all add: unat_word_ariths)
    have ne: "s + 1 + of_nat i \<noteq> d" if "i < n" for i
    proof -
      have "unat (s + 1 + of_nat i) = unat s + 1 + i"
        using that Suc.prems us by (simp add: unat_word_ariths unat_of_nat)
      then show ?thesis using Suc.prems that by auto
    qed
    have "memmove_fwd m d s (Suc n) = memmove_fwd (m(d := m s)) (d + 1) (s + 1) n" by simp
    also have "\<dots> = store_bytes (m(d := m s)) (d + 1) (load_bytes (m(d := m s)) (s + 1) n)"
      using Suc.prems us ud by (intro Suc.IH) auto
    also have "load_bytes (m(d := m s)) (s + 1) n = load_bytes m (s + 1) n"
      by (rule load_bytes_upd) (rule ne)
    also have "store_bytes (m(d := m s)) (d + 1) (load_bytes m (s + 1) n) =
        store_bytes m d (m s # load_bytes m (s + 1) n)"
      using Suc.prems by (intro store_bytes_Cons) simp
    finally show ?thesis by (simp add: load_bytes_Suc)
  qed
qed

lemma memmove_bwd_eq:
  assumes "unat s \<le> unat d" "unat s + n < 2 ^ 64" "unat d + n \<le> 2 ^ 64"
  shows "memmove_bwd m (d + of_nat n) (s + of_nat n) n = store_bytes m d (load_bytes m s n)"
  using assms
proof (induction n arbitrary: m)
  case 0
  then show ?case by (simp add: load_bytes_def)
next
  case (Suc n)
  let ?m = "m(d + of_nat n := m (s + of_nat n))"
  have ne: "s + of_nat i \<noteq> d + of_nat n" if "i < n" for i
  proof -
    have "unat (s + of_nat i) = unat s + i" "unat (d + of_nat n) = unat d + n"
      using that Suc.prems by (simp_all add: unat_word_ariths unat_of_nat)
    then show ?thesis using Suc.prems that by auto
  qed
  have "memmove_bwd m (d + of_nat (Suc n)) (s + of_nat (Suc n)) (Suc n) =
      memmove_bwd ?m (d + of_nat n) (s + of_nat n) n"
    by (simp add: algebra_simps)
  also have "\<dots> = store_bytes ?m d (load_bytes ?m s n)"
    using Suc by simp
  also have "load_bytes ?m s n = load_bytes m s n"
    by (rule load_bytes_upd) (rule ne)
  also have "store_bytes ?m d (load_bytes m s n) = store_bytes m d (load_bytes m s n @ [m (s + of_nat n)])"
    using store_bytes_snoc [of "load_bytes m s n" m d] Suc.prems by simp
  finally show ?case by (simp add: load_bytes_snoc)
qed

section \<open>Strings\<close>

lemma cstr_Nil [simp]: "cstr m a [] \<longleftrightarrow> m a = 0"
  by (simp add: cstr_def load_bytes_def)

lemma cstr_Cons [simp]: "cstr m a (x # xs) \<longleftrightarrow> m a = x \<and> x \<noteq> 0 \<and> cstr m (a + 1) xs"
  by (auto simp: cstr_def load_bytes_Suc [of m a "Suc (length xs)"])

lemma strlen_loop_eq: "cstr m (s + of_nat n) xs \<Longrightarrow> strlen_loop m s n = Some (n + length xs)"
proof (induction xs arbitrary: n)
  case Nil
  then show ?case by (simp add: strlen_loop.simps)
next
  case (Cons x xs)
  then have "strlen_loop m s (Suc n) = Some (Suc n + length xs)"
    by (simp add: algebra_simps)
  with Cons.prems show ?case by (simp add: strlen_loop.simps [of m s n])
qed

lemma strlen_eq: "cstr m s xs \<Longrightarrow> strlen m s = Some (length xs)"
  using strlen_loop_eq [of m s 0 xs] by (simp add: strlen_def)

lemma strncmp_loop_zero:
  assumes "cstr m p xs" "cstr m q ys"
  shows "strncmp_loop m p q n = 0 \<longleftrightarrow> take n xs = take n ys"
  using assms
proof (induction n arbitrary: p q xs ys)
  case 0
  then show ?case by simp
next
  case (Suc n)
  then show ?case
    by (cases xs; cases ys) (auto simp: uint_0_iff simp flip: word_uint_eq_iff)
qed

text \<open>The destination of the copying loops is disjoint from the source string.\<close>

definition apart :: "uint64 \<Rightarrow> nat \<Rightarrow> uint64 \<Rightarrow> nat \<Rightarrow> bool" where
  "apart s n t k \<longleftrightarrow> (\<forall>i<n. \<forall>j<k. s + of_nat i \<noteq> t + of_nat j)"

lemma apart_head: "apart s (Suc n) t (Suc k) \<Longrightarrow> s \<noteq> t"
  unfolding apart_def by force

lemma apart_tail: "apart s (Suc n) t (Suc k) \<Longrightarrow> apart (s + 1) n (t + 1) k"
  unfolding apart_def
  by (metis (no_types, opaque_lifting) Suc_less_eq add.assoc of_nat_Suc)

lemma cstr_upd:
  assumes "\<And>j. j < Suc (length xs) \<Longrightarrow> t + of_nat j \<noteq> s" "cstr m t xs"
  shows "cstr (m(s := b)) t xs"
  using assms load_bytes_upd [of "Suc (length xs)" t s m b] by (simp add: cstr_def)

lemma strncpy_pad_eq:
  assumes "n < 2 ^ 64"
  shows "strncpy_pad m s (int n) = store_bytes m s (replicate n 0)"
  using assms
proof (induction n arbitrary: m s)
  case 0
  then show ?case by (simp add: strncpy_pad.simps)
next
  case (Suc n)
  then have "strncpy_pad m s (int (Suc n)) = store_bytes (m(s := 0)) (s + 1) (replicate n 0)"
    by (simp add: strncpy_pad.simps [of m s "1 + int n"])
  then show ?case using Suc.prems by (simp add: store_bytes_Cons)
qed

lemma strncpy_eq_aux:
  assumes "cstr m t xs" "apart s n t (Suc (length xs))" "n < 2 ^ 64"
  shows "strncpy m s t (int n) = store_bytes m s (take n xs @ replicate (n - length xs) 0)"
  using assms
proof (induction xs arbitrary: m s t n)
  case Nil
  show ?case
  proof (cases n)
    case 0
    then show ?thesis by (simp add: strncpy_def strncpy_copy.simps [of m s t 0] strncpy_pad.simps)
  next
    case (Suc k)
    then have "strncpy m s t (int n) = strncpy_pad (m(s := 0)) (s + 1) (int k)"
      using Nil.prems by (simp add: strncpy_def strncpy_copy.simps [of m s t "1 + int k"])
    then show ?thesis using Suc Nil.prems by (simp add: strncpy_pad_eq store_bytes_Cons)
  qed
next
  case (Cons x xs)
  show ?case
  proof (cases n)
    case 0
    then show ?thesis by (simp add: strncpy_def strncpy_copy.simps [of m s t 0] strncpy_pad.simps)
  next
    case (Suc k)
    have ap: "apart (s + 1) k (t + 1) (Suc (length xs))"
      using Cons.prems(2) Suc by (simp add: apart_tail)
    have c: "cstr (m(s := x)) (t + 1) xs"
    proof (rule cstr_upd)
      fix j assume "j < Suc (length xs)"
      then have "s + of_nat 0 \<noteq> t + of_nat (Suc j)"
        using Cons.prems(2) Suc unfolding apart_def by (metis Suc_less_eq length_Cons zero_less_Suc)
      then show "t + 1 + of_nat j \<noteq> s" by (simp add: add.assoc)
    qed (use Cons.prems in simp)
    have "strncpy (m(s := x)) (s + 1) (t + 1) (int k) =
        store_bytes (m(s := x)) (s + 1) (take k xs @ replicate (k - length xs) 0)"
      by (rule Cons.IH [OF c ap]) (use Cons.prems(3) Suc in simp)
    moreover have "strncpy m s t (int n) = strncpy (m(s := x)) (s + 1) (t + 1) (int k)"
      using Cons.prems Suc by (simp add: strncpy_def strncpy_copy.simps [of m s t "1 + int k"])
    moreover have "length (take k xs @ replicate (k - length xs) 0) < 2 ^ 64"
      using Cons.prems Suc by simp
    ultimately show ?thesis using Suc by (simp add: store_bytes_Cons)
  qed
qed

lemma safestrcpy_eq_aux:
  assumes "cstr m t xs" "apart s (Suc n) t (Suc (length xs))" "n < 2 ^ 64"
  shows "safestrcpy m s t (int (Suc n)) =
    store_bytes m s (take n xs @ (if length xs < n then [0, 0] else [0]))"
  using assms
proof (induction xs arbitrary: m s t n)
  case Nil
  show ?case
  proof (cases n)
    case 0
    then show ?thesis
      by (simp add: safestrcpy_def safestrcpy_copy.simps [of m s t 1] store_bytes_Cons [symmetric])
  next
    case (Suc k)
    then have "safestrcpy m s t (int (Suc n)) = m(s := 0, s + 1 := 0)"
      using Nil.prems by (simp add: safestrcpy_def safestrcpy_copy.simps [of m s t "2 + int k"])
    then show ?thesis using Suc by (simp add: store_bytes_Cons [symmetric])
  qed
next
  case (Cons x xs)
  show ?case
  proof (cases n)
    case 0
    then show ?thesis
      by (simp add: safestrcpy_def safestrcpy_copy.simps [of m s t 1] store_bytes_Cons [symmetric])
  next
    case (Suc k)
    have ap: "apart (s + 1) (Suc k) (t + 1) (Suc (length xs))"
      using Cons.prems(2) Suc by (simp add: apart_tail)
    have c: "cstr (m(s := x)) (t + 1) xs"
    proof (rule cstr_upd)
      fix j assume "j < Suc (length xs)"
      then have "s + of_nat 0 \<noteq> t + of_nat (Suc j)"
        using Cons.prems(2) Suc unfolding apart_def by (metis Suc_less_eq length_Cons zero_less_Suc)
      then show "t + 1 + of_nat j \<noteq> s" by (simp add: add.assoc)
    qed (use Cons.prems in simp)
    have "safestrcpy (m(s := x)) (s + 1) (t + 1) (int (Suc k)) =
        store_bytes (m(s := x)) (s + 1) (take k xs @ (if length xs < k then [0, 0] else [0]))"
      by (rule Cons.IH [OF c ap]) (use Cons.prems(3) Suc in simp)
    moreover have "safestrcpy m s t (int (Suc n)) = safestrcpy (m(s := x)) (s + 1) (t + 1) (int (Suc k))"
      using Cons.prems Suc by (simp add: safestrcpy_def safestrcpy_copy.simps [of m s t "2 + int k"])
    moreover have "length (take k xs @ (if length xs < k then [0, 0] else [0])) < 2 ^ 64"
      using Cons.prems Suc by (simp add: min_def)
    ultimately show ?thesis using Suc Cons.prems by (simp add: store_bytes_Cons)
  qed
qed

section \<open>Properties\<close>

text \<open>
  C4. \<open>memmove\<close> (and \<open>memcpy\<close>) copies as if through a temporary buffer: the destination block ends
  up with the bytes the source block had before the call, for overlapping blocks as well, and no
  other byte changes.  The blocks may not wrap around the address space.
\<close>

theorem memmove_correct:
  assumes "unat src + unat n < 2 ^ 64" "unat dst + unat n \<le> 2 ^ 64"
  shows "memmove m dst src n = store_bytes m dst (load_bytes m src (unat n)) \<and>
    memcpy m dst src n = memmove m dst src n"
proof -
  have c: "ucast n = (of_nat (unat n) :: uint64)" by simp
  have u: "unat (src + ucast n :: uint64) = unat src + unat n"
    using assms(1) by (simp add: c unat_word_ariths unat_of_nat del: of_nat_unat)
  have "memmove m dst src n = store_bytes m dst (load_bytes m src (unat n))"
  proof (cases "src < dst \<and> dst < src + ucast n")
    case True
    then have "unat src \<le> unat dst" by (simp add: word_less_nat_alt)
    with True show ?thesis using memmove_bwd_eq [OF _ assms, of m]
      by (auto simp: memmove_def c simp del: of_nat_unat)
  next
    case False
    then have "unat dst \<le> unat src \<or> unat src + unat n \<le> unat dst"
      by (auto simp: word_less_nat_alt u not_less)
    then have "memmove_fwd m dst src (unat n) = store_bytes m dst (load_bytes m src (unat n))"
      using assms by (intro memmove_fwd_eq) auto
    with False show ?thesis by (auto simp: memmove_def load_bytes_def)
  qed
  then show ?thesis by (simp add: memcpy_def)
qed

theorem memmove_correct_witness:
  "memmove (\<lambda>x. ucast x) 101 100 3 103 = 102"
proof -
  have "memmove (\<lambda>x. ucast x) 101 100 3 = store_bytes (\<lambda>x. ucast x) 101 [100, 101, 102]"
    using memmove_correct [of 100 3 101 "\<lambda>x. ucast x"] by (simp add: load_bytes_def upt_rec)
  then show ?thesis by (simp add: store_bytes_def)
qed

text \<open>
  C5. \<open>strncmp\<close> on NUL-terminated strings returns 0 exactly when the strings agree on their first
  \<open>n\<close> characters.
\<close>

theorem strncmp_zero_iff:
  assumes "cstr m p xs" "cstr m q ys"
  shows "strncmp m p q n = 0 \<longleftrightarrow> take (unat n) xs = take (unat n) ys"
  unfolding strncmp_def using assms by (rule strncmp_loop_zero)

theorem strncmp_zero_iff_witness:
  "strncmp ((\<lambda>_. 0)(16 := 97, 17 := 98, 32 := 97, 33 := 99)) 16 32 1 = 0 \<and>
   strncmp ((\<lambda>_. 0)(16 := 97, 17 := 98, 32 := 97, 33 := 99)) 16 32 2 \<noteq> 0"
  using strncmp_zero_iff [of "(\<lambda>_. 0)(16 := 97, 17 := 98, 32 := 97, 33 := 99)" 16 "[97, 98]"
      32 "[97, 99]"]
  by simp

text \<open>
  C6. \<open>safestrcpy\<close> always terminates its result: after copying a string into a buffer of \<open>n\<close> bytes
  that does not overlap it, the buffer holds the longest prefix of the string that fits together
  with a NUL, and no byte outside the buffer changes.
\<close>

theorem safestrcpy_terminated:
  assumes "cstr m t xs" "apart s (nat n) t (Suc (length xs))" "0 < n" "n < 2 ^ 63"
  shows "cstr (safestrcpy m s t n) s (take (nat n - 1) xs) \<and>
    (\<forall>x. nat n \<le> unat (x - s) \<longrightarrow> safestrcpy m s t n x = m x)"
proof -
  define k where "k = nat n - 1"
  have k: "nat n = Suc k" "n = int (Suc k)" using assms(3) by (simp_all add: k_def)
  define ys where "ys = take k xs @ (if length xs < k then [0, 0] else [0])"
  have len: "length ys \<le> Suc k" "length ys < 2 ^ 64"
    using assms(4) k by (auto simp: ys_def min_def)
  have eq: "safestrcpy m s t n = store_bytes m s ys"
    unfolding k(2) ys_def
    using assms k by (intro safestrcpy_eq_aux) auto
  have "load_bytes (store_bytes m s ys) s (Suc (length (take k xs))) = take k xs @ [0]"
  proof (rule nth_equalityI)
    fix i assume "i < length (load_bytes (store_bytes m s ys) s (Suc (length (take k xs))))"
    then have i: "i < Suc (length (take k xs))" by (simp del: length_take)
    then have "i < length ys" by (auto simp: ys_def)
    moreover from this len have "unat (of_nat i :: uint64) = i" by (simp add: unat_of_nat)
    ultimately have "load_bytes (store_bytes m s ys) s (Suc (length (take k xs))) ! i = ys ! i"
      using i by (simp add: load_bytes_def store_bytes_def del: upt_Suc length_take)
    also have "\<dots> = (take k xs @ [0]) ! i"
      using i by (auto simp: ys_def nth_append less_Suc_eq)
    finally show "load_bytes (store_bytes m s ys) s (Suc (length (take k xs))) ! i =
      (take k xs @ [0]) ! i" .
  qed simp
  moreover have "0 \<notin> set (take k xs)" using assms(1) by (auto simp: cstr_def dest: in_set_takeD)
  ultimately have "cstr (store_bytes m s ys) s (take k xs)" by (simp add: cstr_def)
  moreover have "store_bytes m s ys x = m x" if "nat n \<le> unat (x - s)" for x
    using that len k by (simp add: store_bytes_def)
  ultimately show ?thesis using eq k by simp
qed

theorem safestrcpy_terminated_witness:
  "cstr (safestrcpy ((\<lambda>_. 7)(32 := 97, 33 := 98, 34 := 99, 35 := 0)) 16 32 3) 16 [97, 98]"
proof -
  have "apart 16 (nat 3) 32 (Suc (length [97, 98, 99]))"
  proof -
    have "(16 + of_nat i :: uint64) \<noteq> 32 + of_nat j" if "i < 3" "j < 4" for i j
    proof
      assume "(16 + of_nat i :: uint64) = 32 + of_nat j"
      then have "unat (16 + of_nat i :: uint64) = unat (32 + of_nat j :: uint64)" by (rule arg_cong)
      with that show False by (simp add: unat_word_ariths unat_of_nat)
    qed
    then show ?thesis by (simp add: apart_def)
  qed
  then show ?thesis
    using safestrcpy_terminated [of "(\<lambda>_. 7)(32 := 97, 33 := 98, 34 := 99, 35 := 0)" 32
        "[97, 98, 99]" 16 3]
    by simp
qed

end
