(* ===== verification/Kalloc.thy ===== *)
theory Kalloc
  imports Spinlock Kstring
begin

text \<open>
  \<open>kernel/kalloc.c\<close>, the physical page allocator.  The free list is threaded through the free pages
  themselves: the first eight bytes of a free page are its \<open>struct run\<close>, the address of the next
  free page.  \<open>flist\<close> reads that chain out of memory, and \<open>kmem_inv\<close> is the invariant of the
  allocator with the list of free pages as its abstract state: \<open>kfree\<close> pushes, \<open>kalloc\<close> pops, and
  \<open>kinit\<close> builds the list of all pages between the end of the kernel and \<open>PHYSTOP\<close>.

  \<open>kend\<close> is the symbol \<open>end\<close>, which the linker places after the kernel.
\<close>

section \<open>State and operations\<close>

record kmem_state = machine +
  kend :: uint64
  freelist :: uint64

lemma kmem_upd_order [upd_order]:
  "mem_update f_mem (kend_update g_kend r) = kend_update g_kend (mem_update f_mem r)"
  "mem_update f_mem (freelist_update g_freelist r) = freelist_update g_freelist (mem_update f_mem r)"
  "tp_update f_tp (kend_update g_kend r) = kend_update g_kend (tp_update f_tp r)"
  "tp_update f_tp (freelist_update g_freelist r) = freelist_update g_freelist (tp_update f_tp r)"
  "sstatus_update f_sstatus (kend_update g_kend r) = kend_update g_kend (sstatus_update f_sstatus r)"
  "sstatus_update f_sstatus (freelist_update g_freelist r) = freelist_update g_freelist (sstatus_update f_sstatus r)"
  "cpus_update f_cpus (kend_update g_kend r) = kend_update g_kend (cpus_update f_cpus r)"
  "cpus_update f_cpus (freelist_update g_freelist r) = freelist_update g_freelist (cpus_update f_cpus r)"
  "locks_update f_locks (kend_update g_kend r) = kend_update g_kend (locks_update f_locks r)"
  "locks_update f_locks (freelist_update g_freelist r) = freelist_update g_freelist (locks_update f_locks r)"
  "kend_update f_kend (freelist_update g_freelist r) = freelist_update g_freelist (kend_update f_kend r)"
  by simp_all

lemma kmem_state_simps [state_simps]:
  "kend (acq lk s) = kend s"
  "acq lk (kend_update f_kend s) = kend_update f_kend (acq lk s)"
  "kend (rel lk s) = kend s"
  "rel lk (kend_update f_kend s) = kend_update f_kend (rel lk s)"
  "kend (tch s) = kend s"
  "tch (kend_update f_kend s) = kend_update f_kend (tch s)"
  "free_lk lk (kend_update f_kend s) = free_lk lk s"
  "held_lk lk (kend_update f_kend s) = held_lk lk s"
  "in_cs (kend_update f_kend s) = in_cs s"
  "irq_ok (kend_update f_kend s) = irq_ok s"
  "intr_get (kend_update f_kend s) = intr_get s"
  "cpuid (kend_update f_kend s) = cpuid s"
  "mycpu (kend_update f_kend s) = mycpu s"
  "freelist (acq lk s) = freelist s"
  "acq lk (freelist_update f_freelist s) = freelist_update f_freelist (acq lk s)"
  "freelist (rel lk s) = freelist s"
  "rel lk (freelist_update f_freelist s) = freelist_update f_freelist (rel lk s)"
  "freelist (tch s) = freelist s"
  "tch (freelist_update f_freelist s) = freelist_update f_freelist (tch s)"
  "free_lk lk (freelist_update f_freelist s) = free_lk lk s"
  "held_lk lk (freelist_update f_freelist s) = held_lk lk s"
  "in_cs (freelist_update f_freelist s) = in_cs s"
  "irq_ok (freelist_update f_freelist s) = irq_ok s"
  "intr_get (freelist_update f_freelist s) = intr_get s"
  "cpuid (freelist_update f_freelist s) = cpuid s"
  "mycpu (freelist_update f_freelist s) = mycpu s"
  by (simp_all add: in_cs_def lock_defs upd_order)

definition kfree :: "uint64 \<Rightarrow> (unit, 'z kmem_state_scheme) kop" where
  "kfree pa =
     bnd (gets kend) (\<lambda>end'.
     if pa mod PGSIZE \<noteq> 0 \<or> pa < end' \<or> pa \<ge> PHYSTOP then panic ''kfree'' else
     thn (modify (\<lambda>s. s\<lparr>mem := memset (mem s) pa 1 (ucast PGSIZE)\<rparr>))
    (thn (acquire KmemLock)
    (thn (modify (\<lambda>s. s\<lparr>mem := store64 (mem s) pa (freelist s)\<rparr>))
    (thn (modify (\<lambda>s. s\<lparr>freelist := pa\<rparr>))
         (release KmemLock)))))"

definition kalloc :: "(uint64, 'z kmem_state_scheme) kop" where
  "kalloc =
     thn (acquire KmemLock)
    (bnd (gets freelist) (\<lambda>r.
     thn (whenk (r \<noteq> 0) (modify (\<lambda>s. s\<lparr>freelist := load64 (mem s) r\<rparr>)))
    (thn (release KmemLock)
    (thn (whenk (r \<noteq> 0) (modify (\<lambda>s. s\<lparr>mem := memset (mem s) r 5 (ucast PGSIZE)\<rparr>)))
         (ret r)))))"

text \<open>
  The loop of \<open>freerange\<close> runs for ever when \<open>pa_end\<close> is within a page of the end of the address
  space, so it has fuel: one unit per page of the 128 MB of RAM, which \<open>kinit\<close> never exhausts.
\<close>

fun freerange_loop :: "nat \<Rightarrow> uint64 \<Rightarrow> uint64 \<Rightarrow> (unit, 'z kmem_state_scheme) kop" where
  "freerange_loop 0 p pa_end = (if p + PGSIZE \<le> pa_end then spin else ret ())"
| "freerange_loop (Suc n) p pa_end =
     (if p + PGSIZE \<le> pa_end then thn (kfree p) (freerange_loop n (p + PGSIZE) pa_end) else ret ())"

definition freerange :: "uint64 \<Rightarrow> uint64 \<Rightarrow> (unit, 'z kmem_state_scheme) kop" where
  "freerange pa_start pa_end = freerange_loop 32768 (PGROUNDUP pa_start) pa_end"

definition kinit :: "(unit, 'z kmem_state_scheme) kop" where
  "kinit = thn (initlock KmemLock ''kmem'') (bnd (gets kend) (\<lambda>end'. freerange end' PHYSTOP))"

section \<open>The free list in memory\<close>

fun flist :: "memory \<Rightarrow> uint64 \<Rightarrow> uint64 list \<Rightarrow> bool" where
  "flist m p [] \<longleftrightarrow> p = 0"
| "flist m p (q # qs) \<longleftrightarrow> p = q \<and> q \<noteq> 0 \<and> flist m (load64 m q) qs"

text \<open>The pages that the allocator may own.\<close>

definition page_ok :: "uint64 \<Rightarrow> uint64 \<Rightarrow> bool" where
  "page_ok end' p \<longleftrightarrow> page_aligned p \<and> end' \<le> p \<and> p < PHYSTOP"

definition kmem_inv :: "'z kmem_state_scheme \<Rightarrow> uint64 list \<Rightarrow> bool" where
  "kmem_inv s ps \<longleftrightarrow> flist (mem s) (freelist s) ps \<and> distinct ps \<and>
     (\<forall>p\<in>set ps. page_ok (kend s) p) \<and> KERNBASE \<le> kend s"

lemma mod_PGSIZE: "(pa :: uint64) mod PGSIZE = 0 \<longleftrightarrow> page_aligned pa"
  by (simp add: PGSIZE_def page_aligned_def word_unat_eq_iff unat_mod_distrib)

lemma flist_agree:
  assumes "agree P m m'" "flist m p ps" "\<forall>q\<in>set ps. page_aligned q \<and> q \<in> P"
  shows "flist m' p ps"
  using assms(2,3)
proof (induction ps arbitrary: p)
  case (Cons q qs)
  then have "load64 m' q = load64 m q"
    by (intro load64_agree [OF assms(1)]) (simp_all add: page_aligned_mod8 PGROUNDDOWN_id)
  with Cons show ?case by simp
qed simp

lemma memset_page: "page_aligned p \<Longrightarrow> agree (- {p}) m (memset m p c 4096)"
  by (simp add: memset_eq page_aligned_def store_bytes_agree PGROUNDDOWN_id)

lemma page_ok_nonzero: "page_ok e p \<Longrightarrow> KERNBASE \<le> e \<Longrightarrow> p \<noteq> 0"
  by (auto simp: page_ok_def KERNBASE_def)

text \<open>The exact effect of the two operations on the state.\<close>

definition after_kfree :: "uint64 \<Rightarrow> 'z kmem_state_scheme \<Rightarrow> 'z kmem_state_scheme" where
  "after_kfree p s =
     (tch s)\<lparr>mem := store64 (memset (mem s) p 1 4096) p (freelist s), freelist := p\<rparr>"

definition after_kalloc :: "uint64 \<Rightarrow> 'z kmem_state_scheme \<Rightarrow> 'z kmem_state_scheme" where
  "after_kalloc p s = (tch s)\<lparr>mem := memset (mem s) p 5 4096, freelist := load64 (mem s) p\<rparr>"

abbreviation kmem_ready :: "'z kmem_state_scheme \<Rightarrow> bool" where
  "kmem_ready s \<equiv> free_lk KmemLock s \<and> irq_ok s"

lemma kfree_eq:
  assumes "page_ok (kend s) p" "kmem_ready s"
  shows "kfree p s = Ret () (after_kfree p s)"
  using assms
  by (simp add: kfree_def after_kfree_def mod_PGSIZE page_ok_def not_less not_le kop_simps
      state_simps PGSIZE_def upd_order mod_PGSIZE [unfolded PGSIZE_def])

lemma kfree_bad:
  assumes "\<not> page_ok (kend s) p"
  shows "kfree p s = Panic ''kfree''"
  using assms by (auto simp: kfree_def page_ok_def mod_PGSIZE kop_simps not_less not_le)

lemma kalloc_none:
  assumes "freelist s = 0" "kmem_ready s"
  shows "kalloc s = Ret 0 (tch s)"
  using assms by (simp add: kalloc_def kop_simps state_simps)

lemma kalloc_some:
  assumes "freelist s \<noteq> 0" "kmem_ready s"
  shows "kalloc s = Ret (freelist s) (after_kalloc (freelist s) s)"
  using assms
  by (simp add: kalloc_def after_kalloc_def kop_simps state_simps PGSIZE_def upd_order)

section \<open>The invariant\<close>

lemma after_kfree_state [state_simps]:
  "kend (after_kfree p s) = kend s"
  "free_lk lk (after_kfree p s) = free_lk lk s"
  "held_lk lk (after_kfree p s) = held_lk lk s"
  "irq_ok (after_kfree p s) = irq_ok s"
  "in_cs (after_kfree p s) = in_cs s"
  by (simp_all add: after_kfree_def state_simps)

lemma after_kalloc_state [state_simps]:
  "kend (after_kalloc p s) = kend s"
  "free_lk lk (after_kalloc p s) = free_lk lk s"
  "held_lk lk (after_kalloc p s) = held_lk lk s"
  "irq_ok (after_kalloc p s) = irq_ok s"
  "in_cs (after_kalloc p s) = in_cs s"
  by (simp_all add: after_kalloc_def state_simps)

lemma after_kfree_agree: "page_aligned p \<Longrightarrow> agree (- {p}) (mem s) (mem (after_kfree p s))"
  unfolding after_kfree_def
  by (auto intro!: agree_trans [OF memset_page store64_agree]
      simp: page_aligned_mod8 PGROUNDDOWN_id)

lemma after_kalloc_agree: "page_aligned p \<Longrightarrow> agree (- {p}) (mem s) (mem (after_kalloc p s))"
  by (simp add: after_kalloc_def memset_page)

lemma kmem_inv_kfree:
  assumes "kmem_inv s ps" "page_ok (kend s) p" "p \<notin> set ps"
  shows "kmem_inv (after_kfree p s) (p # ps)"
proof -
  have al: "page_aligned p" using assms(2) by (simp add: page_ok_def)
  have "flist (mem (after_kfree p s)) (freelist s) ps"
    using assms al by (intro flist_agree [OF after_kfree_agree]) (auto simp: kmem_inv_def page_ok_def)
  moreover have "load64 (mem (after_kfree p s)) p = freelist s"
    using al by (simp add: after_kfree_def load64_store64 page_aligned_mod8)
  moreover have "freelist (after_kfree p s) = p" by (simp add: after_kfree_def)
  ultimately show ?thesis using assms page_ok_nonzero [OF assms(2)]
    by (simp add: kmem_inv_def state_simps)
qed

lemma kmem_inv_kalloc:
  assumes "kmem_inv s (p # ps)"
  shows "freelist s = p" "p \<noteq> 0" "page_ok (kend s) p" "kmem_inv (after_kalloc p s) ps"
proof -
  show fp: "freelist s = p" "p \<noteq> 0" "page_ok (kend s) p" using assms by (simp_all add: kmem_inv_def)
  then have al: "page_aligned p" by (simp add: page_ok_def)
  have "flist (mem (after_kalloc p s)) (load64 (mem s) p) ps"
    using assms al by (intro flist_agree [OF after_kalloc_agree]) (auto simp: kmem_inv_def page_ok_def)
  moreover have "freelist (after_kalloc p s) = load64 (mem s) p" by (simp add: after_kalloc_def)
  ultimately show "kmem_inv (after_kalloc p s) ps"
    using assms by (simp add: kmem_inv_def state_simps)
qed

lemma kmem_inv_tch [state_simps]: "kmem_inv (tch s) ps = kmem_inv s ps"
  by (simp add: kmem_inv_def state_simps)

lemma kmem_inv_mem:
  assumes "kmem_inv s ps" "agree (set ps) (mem s) m'"
  shows "kmem_inv (s\<lparr>mem := m'\<rparr>) ps"
  using assms flist_agree [OF assms(2), of "freelist s" ps] by (auto simp: kmem_inv_def page_ok_def)

text \<open>
  \<open>kframe s t\<close>: between the two states only memory and the free list changed, and the balanced
  critical sections of the allocator may have refreshed \<open>intena\<close>.
\<close>

definition kframe :: "'z kmem_state_scheme \<Rightarrow> 'z kmem_state_scheme \<Rightarrow> bool" where
  "kframe s t \<longleftrightarrow> tch t = (tch s)\<lparr>mem := mem t, freelist := freelist t\<rparr>"

lemma kframe_refl [simp, intro]: "kframe s s"
proof -
  have "(tch s)\<lparr>mem := mem (tch s), freelist := freelist (tch s)\<rparr> = tch s" by simp
  then show ?thesis by (simp add: kframe_def state_simps)
qed

lemma kframe_trans [trans]: "kframe s t \<Longrightarrow> kframe t u \<Longrightarrow> kframe s u"
  by (simp add: kframe_def upd_order)

lemma kframe_mem [simp, intro]: "kframe s (s\<lparr>mem := m\<rparr>)"
  using kframe_refl [of s] by (simp add: kframe_def state_simps upd_order)

lemma kframe_tch [simp, intro]: "kframe s (tch s)"
  using kframe_refl [of s] by (simp add: kframe_def state_simps)

lemma kframe_kalloc [simp, intro]: "kframe s (after_kalloc p s)"
  by (simp add: kframe_def after_kalloc_def state_simps upd_order)

lemma kframe_kfree [simp, intro]: "kframe s (after_kfree p s)"
  by (simp add: kframe_def after_kfree_def state_simps upd_order)

lemma kframe_state:
  assumes "kframe s t"
  shows "free_lk lk t = free_lk lk s" "held_lk lk t = held_lk lk s" "irq_ok t = irq_ok s"
    "in_cs t = in_cs s" "kend t = kend s" "cpuid t = cpuid s" "intr_get t = intr_get s"
    "cproc (mycpu t) = cproc (mycpu s)" "noff (mycpu t) = noff (mycpu s)"
proof -
  note e = assms [unfolded kframe_def]
  show "free_lk lk t = free_lk lk s" using arg_cong [OF e, of "free_lk lk"] by (simp add: state_simps)
  show "held_lk lk t = held_lk lk s" using arg_cong [OF e, of "held_lk lk"] by (simp add: state_simps)
  show "irq_ok t = irq_ok s" using arg_cong [OF e, of irq_ok] by (simp add: state_simps)
  show "in_cs t = in_cs s" using arg_cong [OF e, of in_cs] by (simp add: state_simps)
  show "kend t = kend s" using arg_cong [OF e, of kend] by (simp add: state_simps)
  show "cpuid t = cpuid s" using arg_cong [OF e, of cpuid] by (simp add: state_simps)
  show "intr_get t = intr_get s" using arg_cong [OF e, of intr_get] by (simp add: state_simps)
  show "cproc (mycpu t) = cproc (mycpu s)"
    using arg_cong [OF e, of "\<lambda>x. cproc (mycpu x)"] by (simp add: state_simps)
  show "noff (mycpu t) = noff (mycpu s)"
    using arg_cong [OF e, of "\<lambda>x. noff (mycpu x)"] by (simp add: state_simps)
qed

section \<open>Building the list\<close>

lemma unat_PHYSTOP: "unat PHYSTOP = 0x88000000"
  by (simp add: PHYSTOP_def KERNBASE_def)

lemma freerange_loop_ok:
  assumes "kmem_inv s ps" "kmem_ready s" "page_aligned p" "kend s \<le> p"
    and "\<forall>q\<in>set ps. q < p" "unat p + 4096 * n = unat PHYSTOP"
  shows "\<exists>t qs. freerange_loop n p PHYSTOP s = Ret () t \<and> kmem_ready t \<and> kend t = kend s \<and>
    kmem_inv t qs \<and> set qs = set ps \<union> {q. page_ok (kend s) q \<and> p \<le> q}"
  using assms
proof (induction n arbitrary: p s ps)
  case 0
  then have "p = PHYSTOP" by (simp add: word_unat_eq_iff)
  then have "\<not> p + PGSIZE \<le> PHYSTOP" by (simp add: PHYSTOP_def KERNBASE_def PGSIZE_def)
  with 0 \<open>p = PHYSTOP\<close> show ?case by (auto simp: kop_simps page_ok_def)
next
  case (Suc n)
  have un: "unat (p + PGSIZE) = unat p + 4096"
    using Suc.prems(6) by (simp add: PGSIZE_def unat_word_ariths unat_PHYSTOP)
  have le: "p + PGSIZE \<le> PHYSTOP" "p < PHYSTOP" "p < p + PGSIZE"
    using Suc.prems(6) un by (simp_all add: word_le_nat_alt word_less_nat_alt)
  have ok: "page_ok (kend s) p" using Suc.prems le by (simp add: page_ok_def)
  have "p \<notin> set ps" using Suc.prems(5) by auto
  define s' where "s' = after_kfree p s"
  have s': "kend s' = kend s" "kmem_ready s'" "kmem_inv s' (p # ps)"
    using Suc.prems ok \<open>p \<notin> set ps\<close> by (simp_all add: s'_def state_simps kmem_inv_kfree)
  have al: "page_aligned (p + PGSIZE)" using Suc.prems(3) un by (simp add: page_aligned_def)
  have "kend s' \<le> p + PGSIZE" using Suc.prems(4) le s'(1) by simp
  moreover have "\<forall>q\<in>set (p # ps). q < p + PGSIZE" using Suc.prems(5) le by auto
  moreover have "unat (p + PGSIZE) + 4096 * n = unat PHYSTOP" using Suc.prems(6) un by simp
  ultimately obtain t qs where t: "freerange_loop n (p + PGSIZE) PHYSTOP s' = Ret () t"
    "kmem_ready t" "kend t = kend s'" "kmem_inv t qs"
    "set qs = set (p # ps) \<union> {q. page_ok (kend s') q \<and> p + PGSIZE \<le> q}"
    using Suc.IH [OF s'(3,2) al] by blast
  have split: "p \<le> q \<longleftrightarrow> q = p \<or> p + PGSIZE \<le> q" if "page_aligned q" for q
  proof -
    have "unat p mod 4096 = 0" "unat q mod 4096 = 0"
      using that Suc.prems(3) by (simp_all add: page_aligned_def)
    then have "unat p \<le> unat q \<longleftrightarrow> unat q = unat p \<or> unat p + 4096 \<le> unat q"
      using aligned_step [of "unat p" "unat q"] by linarith
    then show ?thesis using un by (simp add: word_le_nat_alt word_unat_eq_iff)
  qed
  have "set qs = set ps \<union> {q. page_ok (kend s) q \<and> p \<le> q}"
    using t(5) ok split s'(1) by (auto simp: page_ok_def)
  moreover have "freerange_loop (Suc n) p PHYSTOP s = Ret () t"
    using le ok Suc.prems(2) t(1) by (simp add: kop_simps kfree_eq s'_def)
  ultimately show ?case using t s'(1) by auto
qed

lemma freerange_fuel:
  "freerange_loop n p e s = Ret () t \<Longrightarrow> n \<le> k \<Longrightarrow> freerange_loop k p e s = Ret () t"
proof (induction n arbitrary: p s k)
  case 0
  then show ?case by (cases k) (auto simp: kop_simps split: if_splits)
next
  case (Suc n)
  then obtain k' where "k = Suc k'" by (cases k) auto
  then show ?case using Suc.prems Suc.IH [of "p + PGSIZE" _ k']
    by (cases "p + PGSIZE \<le> e"; cases "kfree p s") (simp_all add: kop_simps)
qed

section \<open>The allocator's contract\<close>

primrec alloc_many :: "nat \<Rightarrow> (uint64, 's) kop \<Rightarrow> (uint64 list, 's) kop" where
  "alloc_many 0 alloc = ret []"
| "alloc_many (Suc n) alloc = bnd alloc (\<lambda>p. bnd (alloc_many n alloc) (\<lambda>ps. ret (p # ps)))"

text \<open>
  What the kernel relies on: the allocator holds a pool of distinct pages; allocation takes one
  out or returns 0 when there is none, and freeing puts a page back.
\<close>

locale page_allocator =
  fixes alloc :: "(uint64, 's) kop"
    and dealloc :: "uint64 \<Rightarrow> (unit, 's) kop"
    and pool :: "'s \<Rightarrow> uint64 list \<Rightarrow> bool"
    and owns :: "'s \<Rightarrow> uint64 \<Rightarrow> bool"
  assumes alloc_empty: "pool s [] \<Longrightarrow> \<exists>t. alloc s = Ret 0 t \<and> pool t []"
    and alloc_pop: "pool s (p # ps) \<Longrightarrow> \<exists>t. alloc s = Ret p t \<and> pool t ps \<and> owns t p"
    and dealloc_push: "pool s ps \<Longrightarrow> owns s p \<Longrightarrow> p \<notin> set ps \<Longrightarrow>
      \<exists>t. dealloc p s = Ret () t \<and> pool t (p # ps)"
    and pool_distinct: "pool s ps \<Longrightarrow> distinct ps \<and> 0 \<notin> set ps"
begin

lemma alloc_many_pool:
  "pool s ps \<Longrightarrow> n \<le> length ps \<Longrightarrow>
     \<exists>t. alloc_many n alloc s = Ret (take n ps) t \<and> pool t (drop n ps)"
proof (induction n arbitrary: s ps)
  case 0
  then show ?case by (simp add: kop_simps)
next
  case (Suc n)
  then obtain p qs where ps: "ps = p # qs" by (cases ps) auto
  with Suc.prems alloc_pop obtain t where t: "alloc s = Ret p t" "pool t qs" by blast
  with Suc.IH [of t qs] Suc.prems ps show ?case by (auto simp: kop_simps)
qed

lemma alloc_many_distinct:
  assumes "pool s ps" "n \<le> length ps"
  shows "\<exists>t qs rest. alloc_many n alloc s = Ret qs t \<and> length qs = n \<and> ps = qs @ rest \<and> pool t rest \<and>
    distinct qs \<and> 0 \<notin> set qs \<and> set qs \<inter> set rest = {} \<and> (rest = [] \<longrightarrow> (\<exists>u. alloc t = Ret 0 u \<and> pool u []))"
proof -
  obtain t where t: "alloc_many n alloc s = Ret (take n ps) t" "pool t (drop n ps)"
    using alloc_many_pool [OF assms] by blast
  have "distinct (take n ps @ drop n ps)" "0 \<notin> set (take n ps @ drop n ps)"
    using pool_distinct [OF assms(1)] by simp_all
  then have "distinct (take n ps)" "0 \<notin> set (take n ps)" "set (take n ps) \<inter> set (drop n ps) = {}"
    unfolding distinct_append set_append by blast+
  moreover have "\<exists>u. alloc t = Ret 0 u \<and> pool u []" if "drop n ps = []"
    using alloc_empty [of t] t(2) that by simp
  ultimately show ?thesis using t assms(2)
    by (intro exI [of _ t] exI [of _ "take n ps"] exI [of _ "drop n ps"]) simp
qed

lemma alloc_dealloc:
  assumes "pool s (p # ps)"
  shows "\<exists>t. bnd alloc dealloc s = Ret () t \<and> pool t (p # ps)"
proof -
  obtain t where t: "alloc s = Ret p t" "pool t ps" "owns t p" using alloc_pop assms by blast
  moreover have "p \<notin> set ps" using pool_distinct [OF assms] by simp
  ultimately show ?thesis using dealloc_push [of t ps p] by (auto simp: kop_simps)
qed

end

definition kmem_pool :: "'z kmem_state_scheme \<Rightarrow> uint64 list \<Rightarrow> bool" where
  "kmem_pool s ps \<longleftrightarrow> kmem_inv s ps \<and> kmem_ready s"

definition kmem_owns :: "'z kmem_state_scheme \<Rightarrow> uint64 \<Rightarrow> bool" where
  "kmem_owns s p \<longleftrightarrow> page_ok (kend s) p"

lemma kalloc_pool_empty: "kmem_pool s [] \<Longrightarrow> kalloc s = Ret 0 (tch s) \<and> kmem_pool (tch s) []"
  by (simp add: kmem_pool_def kalloc_none kmem_inv_def state_simps)

lemma kalloc_pool:
  assumes "kmem_pool s (p # ps)"
  shows "kalloc s = Ret p (after_kalloc p s)" "kmem_pool (after_kalloc p s) ps"
  using assms kmem_inv_kalloc [of s p ps] kalloc_some [of s]
  by (simp_all add: kmem_pool_def state_simps)

lemma kfree_pool:
  assumes "kmem_pool s ps" "kmem_owns s p" "p \<notin> set ps"
  shows "kfree p s = Ret () (after_kfree p s)" "kmem_pool (after_kfree p s) (p # ps)"
  using assms by (simp_all add: kmem_pool_def kmem_owns_def kfree_eq kmem_inv_kfree state_simps)

interpretation kpages: page_allocator kalloc kfree kmem_pool kmem_owns
proof
  fix s :: "'z kmem_state_scheme" and p ps
  show "kmem_pool s [] \<Longrightarrow> \<exists>t. kalloc s = Ret 0 t \<and> kmem_pool t []"
    using kalloc_pool_empty by blast
  show "kmem_pool s (p # ps) \<Longrightarrow> \<exists>t. kalloc s = Ret p t \<and> kmem_pool t ps \<and> kmem_owns t p"
    using kalloc_pool [of s p ps] kmem_inv_kalloc(3) [of s p ps]
    by (simp add: kmem_pool_def kmem_owns_def state_simps)
  show "kmem_pool s ps \<Longrightarrow> kmem_owns s p \<Longrightarrow> p \<notin> set ps \<Longrightarrow>
      \<exists>t. kfree p s = Ret () t \<and> kmem_pool t (p # ps)"
    using kfree_pool by blast
  show "kmem_pool s ps \<Longrightarrow> distinct ps \<and> 0 \<notin> set ps"
    using page_ok_nonzero by (auto simp: kmem_pool_def kmem_inv_def)
qed

section \<open>Properties\<close>

text \<open>
  C7. Booting the allocator: \<open>kinit\<close> returns, and afterwards the free list threaded through memory
  is a duplicate-free list of exactly the whole pages between \<open>end\<close> and \<open>PHYSTOP\<close>.
\<close>

theorem kinit_frees_all:
  assumes "irq_ok s" "freelist s = 0" "KERNBASE \<le> kend s" "kend s \<le> PHYSTOP"
  shows "\<exists>t ps. kinit s = Ret () t \<and> kmem_inv t ps \<and> free_lk KmemLock t \<and>
    set ps = {p. page_ok (kend s) p}"
proof -
  define s' where "s' = set_lock KmemLock (\<lambda>l. l\<lparr>lname := ''kmem'', locked := 0, lcpu := None\<rparr>) s"
  define p where "p = PGROUNDUP (kend s)"
  have s': "kend s' = kend s" "kmem_ready s'" "kmem_inv s' []"
    using assms by (simp_all add: s'_def lock_defs kmem_inv_def)
  have ke: "unat (kend s) \<le> 0x88000000" using assms(4) by (simp add: word_le_nat_alt unat_PHYSTOP)
  then have up: "unat p = (unat (kend s) + 4095) div 4096 * 4096"
    unfolding p_def by (intro unat_PGROUNDUP) simp
  define n where "n = (unat PHYSTOP - unat p) div 4096"
  have ge: "unat (kend s) \<le> unat p" "unat p < unat (kend s) + 4096"
    unfolding up by (rule round_up_bounds)+
  have mod0: "unat p mod 4096 = 0" unfolding up by simp
  have "unat p \<le> 0x88000000" unfolding up using ke by (intro round_up_least) simp_all
  then have n: "unat p + 4096 * n = unat PHYSTOP"
    using mod0 unfolding n_def unat_PHYSTOP by (intro aligned_diff) simp_all
  have "0x80000000 \<le> unat p" using assms(3) ge by (simp add: word_le_nat_alt KERNBASE_def)
  then have n2: "n \<le> 32768" using n unat_PHYSTOP by linarith
  have "kend s' \<le> p" using ge s' by (simp add: word_le_nat_alt)
  from freerange_loop_ok [OF s'(3,2) _ this _ n] mod0 obtain t qs where
    t: "freerange_loop n p PHYSTOP s' = Ret () t" "kmem_ready t" "kmem_inv t qs"
      "set qs = {q. page_ok (kend s') q \<and> p \<le> q}"
    by (auto simp: page_aligned_def)
  have "kinit s = Ret () t"
    using freerange_fuel [OF t(1) n2] s'(1)
    by (simp add: kinit_def initlock_def freerange_def kop_simps s'_def p_def)
  moreover have "page_ok (kend s) q \<Longrightarrow> p \<le> q" for q
  proof -
    assume "page_ok (kend s) q"
    then have "unat (kend s) \<le> unat q" "unat q mod 4096 = 0"
      by (simp_all add: page_ok_def page_aligned_def word_le_nat_alt)
    then have "(unat (kend s) + 4095) div 4096 * 4096 \<le> unat q" by (rule round_up_least)
    then show "p \<le> q" by (simp add: word_le_nat_alt up)
  qed
  ultimately show ?thesis using t s' by auto
qed

text \<open>A kernel that ends two pages below \<open>PHYSTOP\<close>, before \<open>kinit\<close>.\<close>

definition kmem0 :: kmem_state where
  "kmem0 = machine.extend machine0 \<lparr>kend = 0x87FFE000, freelist = 0\<rparr>"

lemma kmem0_ok [state_simps]:
  "irq_ok kmem0" "free_lk lk kmem0" "freelist kmem0 = 0" "kend kmem0 = 0x87FFE000"
  by (simp_all add: kmem0_def machine0_def machine.extend_def lock_defs)

theorem kinit_frees_all_witness:
  "irq_ok kmem0 \<and> (\<exists>t ps. kinit kmem0 = Ret () t \<and> kmem_inv t ps \<and>
     0x87FFE000 \<in> set ps \<and> 0x87FFF000 \<in> set ps)"
proof -
  obtain t ps where "kinit kmem0 = Ret () t" "kmem_inv t ps" "set ps = {p. page_ok 0x87FFE000 p}"
    using kinit_frees_all [of kmem0] by (auto simp: state_simps KERNBASE_def PHYSTOP_def)
  moreover have "page_ok 0x87FFE000 0x87FFE000" "page_ok 0x87FFE000 0x87FFF000"
    by (simp_all add: KERNBASE_def PHYSTOP_def page_ok_def page_aligned_def)
  ultimately show ?thesis by (auto simp: state_simps)
qed

text \<open>
  C8. The allocator refines a stack of free pages.  \<open>kalloc\<close> returns the top page and removes it,
  or returns 0 when there is none; \<open>kfree\<close> of a page in range that is not free pushes it, and any
  other address panics.  Neither touches memory outside the page it moves.
\<close>

theorem kalloc_kfree_stack:
  assumes "kmem_pool s ps"
  shows "(case ps of
       [] \<Rightarrow> \<exists>t. kalloc s = Ret 0 t \<and> kmem_pool t [] \<and> mem t = mem s
     | p # qs \<Rightarrow> \<exists>t. kalloc s = Ret p t \<and> kmem_pool t qs \<and> agree (- {p}) (mem s) (mem t)) \<and>
    (\<forall>p. page_ok (kend s) p \<and> p \<notin> set ps \<longrightarrow>
       (\<exists>t. kfree p s = Ret () t \<and> kmem_pool t (p # ps) \<and> agree (- {p}) (mem s) (mem t))) \<and>
    (\<forall>p. \<not> page_ok (kend s) p \<longrightarrow> kfree p s = Panic ''kfree'')"
proof -
  have "case ps of
       [] \<Rightarrow> \<exists>t. kalloc s = Ret 0 t \<and> kmem_pool t [] \<and> mem t = mem s
     | p # qs \<Rightarrow> \<exists>t. kalloc s = Ret p t \<and> kmem_pool t qs \<and> agree (- {p}) (mem s) (mem t)"
  proof (cases ps)
    case Nil
    then show ?thesis using assms kalloc_pool_empty [of s] by (auto simp: state_simps)
  next
    case (Cons p qs)
    have "page_aligned p"
      using assms Cons kmem_inv_kalloc(3) [of s p qs] by (simp add: kmem_pool_def page_ok_def)
    then show ?thesis using assms Cons kalloc_pool [of s p qs] after_kalloc_agree [of p s] by auto
  qed
  moreover have "\<exists>t. kfree p s = Ret () t \<and> kmem_pool t (p # ps) \<and> agree (- {p}) (mem s) (mem t)"
    if "page_ok (kend s) p" "p \<notin> set ps" for p
    using that kfree_pool [OF assms, of p] after_kfree_agree [of p s]
    by (auto simp: kmem_owns_def page_ok_def)
  ultimately show ?thesis using kfree_bad by blast
qed

theorem kalloc_kfree_stack_witness:
  "kmem_pool kmem0 [] \<and> (\<exists>t. kfree 0x87FFF000 kmem0 = Ret () t \<and> kmem_pool t [0x87FFF000]) \<and>
   kfree 0x87FFF001 kmem0 = Panic ''kfree''"
proof -
  have "kmem_pool kmem0 []" by (simp add: kmem_pool_def kmem_inv_def state_simps KERNBASE_def)
  moreover have "page_ok (kend kmem0) 0x87FFF000" "\<not> page_ok (kend kmem0) 0x87FFF001"
    by (simp_all add: state_simps page_ok_def page_aligned_def PHYSTOP_def KERNBASE_def)
  ultimately show ?thesis using kalloc_kfree_stack [of kmem0 "[]"] by force
qed

text \<open>
  C9. As long as enough pages are free, a sequence of \<open>kalloc\<close> calls succeeds. The pages it returns
  are all different, none of them is null, and they are taken off the free list: the list that is
  threaded through memory afterwards is the rest of the list before, none of them is on it, and when
  nothing is left the next \<open>kalloc\<close> returns null.
\<close>

theorem kalloc_many_distinct:
  assumes "kmem_pool s ps" "n \<le> length ps"
  shows "\<exists>t qs rest. alloc_many n kalloc s = Ret qs t \<and> length qs = n \<and> ps = qs @ rest \<and> kmem_pool t rest \<and>
    distinct qs \<and> 0 \<notin> set qs \<and> set qs \<inter> set rest = {} \<and>
    (rest = [] \<longrightarrow> (\<exists>u. kalloc t = Ret 0 u \<and> kmem_pool u []))"
  using assms by (rule kpages.alloc_many_distinct)

theorem kalloc_many_distinct_witness:
  "\<exists>s s' t qs. kfree 0x87FFF000 kmem0 = Ret () s \<and> kfree 0x87FFE000 s = Ret () s' \<and>
     alloc_many 1 kalloc s' = Ret qs t \<and> qs = [0x87FFE000] \<and> kmem_pool t [0x87FFF000]"
proof -
  have p0: "kmem_pool kmem0 []" by (simp add: kmem_pool_def kmem_inv_def state_simps KERNBASE_def)
  have o: "kmem_owns kmem0 0x87FFF000"
    by (simp add: kmem_owns_def state_simps page_ok_def page_aligned_def PHYSTOP_def KERNBASE_def)
  define s where "s = after_kfree 0x87FFF000 kmem0"
  have s: "kfree 0x87FFF000 kmem0 = Ret () s" "kmem_pool s [0x87FFF000]"
    using kfree_pool [OF p0 o] by (simp_all add: s_def)
  have o': "kmem_owns s 0x87FFE000"
    by (simp add: s_def kmem_owns_def state_simps page_ok_def page_aligned_def PHYSTOP_def KERNBASE_def)
  obtain s' where s': "kfree 0x87FFE000 s = Ret () s'" "kmem_pool s' [0x87FFE000, 0x87FFF000]"
    using kfree_pool [OF s(2) o'] by simp
  obtain t qs rest where "alloc_many 1 kalloc s' = Ret qs t" "length qs = 1"
    "[0x87FFE000, 0x87FFF000] = qs @ rest" "kmem_pool t rest"
    using kalloc_many_distinct [OF s'(2), of 1] by auto
  moreover then have "qs = [0x87FFE000]" "rest = [0x87FFF000]" by (auto simp: length_Suc_conv)
  ultimately show ?thesis using s(1) s'(1) by blast
qed

end
