(* ===== verification/Vm.thy ===== *)
theory Vm
  imports Kalloc
begin

text \<open>
  \<open>kernel/vm.c\<close>: three-level Sv39 page tables kept in byte memory, as the hardware and the C code
  read them, and the copying routines between kernel and user memory; also \<open>proc_mapstacks\<close> of
  \<open>kernel/proc.c\<close>, which \<open>kvmmake\<close> calls.

  \<open>pte_of\<close> is the page table as a function from virtual addresses to leaf entries.  \<open>pt_ok\<close> is the
  representation invariant: a ghost map gives each page-table page the one place it has in the tree.
  Walking with allocation keeps the function, \<open>mappages\<close> and \<open>uvmunmap\<close> update it at the pages
  they name, and the copying routines read and write user memory through it.

  The permission bits, an \<open>int\<close> parameter in C, are the 64-bit value to which the code converts that
  \<open>int\<close> before it sets them in an entry.
  A kernel-side buffer of a copying routine is the list of its bytes.  Loops over pages carry fuel
  equal to the number of pages they visit.
\<close>

section \<open>State and page tables\<close>

record vm_state = kmem_state +
  etext :: uint64
  trampoline :: uint64
  kernel_pagetable :: pagetable_t
  satp :: uint64

lemma vm_upd_order [upd_order]:
  "mem_update f_mem (etext_update g_etext r) = etext_update g_etext (mem_update f_mem r)"
  "mem_update f_mem (trampoline_update g_trampoline r) = trampoline_update g_trampoline (mem_update f_mem r)"
  "mem_update f_mem (kernel_pagetable_update g_kernel_pagetable r) = kernel_pagetable_update g_kernel_pagetable (mem_update f_mem r)"
  "mem_update f_mem (satp_update g_satp r) = satp_update g_satp (mem_update f_mem r)"
  "tp_update f_tp (etext_update g_etext r) = etext_update g_etext (tp_update f_tp r)"
  "tp_update f_tp (trampoline_update g_trampoline r) = trampoline_update g_trampoline (tp_update f_tp r)"
  "tp_update f_tp (kernel_pagetable_update g_kernel_pagetable r) = kernel_pagetable_update g_kernel_pagetable (tp_update f_tp r)"
  "tp_update f_tp (satp_update g_satp r) = satp_update g_satp (tp_update f_tp r)"
  "sstatus_update f_sstatus (etext_update g_etext r) = etext_update g_etext (sstatus_update f_sstatus r)"
  "sstatus_update f_sstatus (trampoline_update g_trampoline r) = trampoline_update g_trampoline (sstatus_update f_sstatus r)"
  "sstatus_update f_sstatus (kernel_pagetable_update g_kernel_pagetable r) = kernel_pagetable_update g_kernel_pagetable (sstatus_update f_sstatus r)"
  "sstatus_update f_sstatus (satp_update g_satp r) = satp_update g_satp (sstatus_update f_sstatus r)"
  "cpus_update f_cpus (etext_update g_etext r) = etext_update g_etext (cpus_update f_cpus r)"
  "cpus_update f_cpus (trampoline_update g_trampoline r) = trampoline_update g_trampoline (cpus_update f_cpus r)"
  "cpus_update f_cpus (kernel_pagetable_update g_kernel_pagetable r) = kernel_pagetable_update g_kernel_pagetable (cpus_update f_cpus r)"
  "cpus_update f_cpus (satp_update g_satp r) = satp_update g_satp (cpus_update f_cpus r)"
  "locks_update f_locks (etext_update g_etext r) = etext_update g_etext (locks_update f_locks r)"
  "locks_update f_locks (trampoline_update g_trampoline r) = trampoline_update g_trampoline (locks_update f_locks r)"
  "locks_update f_locks (kernel_pagetable_update g_kernel_pagetable r) = kernel_pagetable_update g_kernel_pagetable (locks_update f_locks r)"
  "locks_update f_locks (satp_update g_satp r) = satp_update g_satp (locks_update f_locks r)"
  "kend_update f_kend (etext_update g_etext r) = etext_update g_etext (kend_update f_kend r)"
  "kend_update f_kend (trampoline_update g_trampoline r) = trampoline_update g_trampoline (kend_update f_kend r)"
  "kend_update f_kend (kernel_pagetable_update g_kernel_pagetable r) = kernel_pagetable_update g_kernel_pagetable (kend_update f_kend r)"
  "kend_update f_kend (satp_update g_satp r) = satp_update g_satp (kend_update f_kend r)"
  "freelist_update f_freelist (etext_update g_etext r) = etext_update g_etext (freelist_update f_freelist r)"
  "freelist_update f_freelist (trampoline_update g_trampoline r) = trampoline_update g_trampoline (freelist_update f_freelist r)"
  "freelist_update f_freelist (kernel_pagetable_update g_kernel_pagetable r) = kernel_pagetable_update g_kernel_pagetable (freelist_update f_freelist r)"
  "freelist_update f_freelist (satp_update g_satp r) = satp_update g_satp (freelist_update f_freelist r)"
  "etext_update f_etext (trampoline_update g_trampoline r) = trampoline_update g_trampoline (etext_update f_etext r)"
  "etext_update f_etext (kernel_pagetable_update g_kernel_pagetable r) = kernel_pagetable_update g_kernel_pagetable (etext_update f_etext r)"
  "etext_update f_etext (satp_update g_satp r) = satp_update g_satp (etext_update f_etext r)"
  "trampoline_update f_trampoline (kernel_pagetable_update g_kernel_pagetable r) = kernel_pagetable_update g_kernel_pagetable (trampoline_update f_trampoline r)"
  "trampoline_update f_trampoline (satp_update g_satp r) = satp_update g_satp (trampoline_update f_trampoline r)"
  "kernel_pagetable_update f_kernel_pagetable (satp_update g_satp r) = satp_update g_satp (kernel_pagetable_update f_kernel_pagetable r)"
  by simp_all

lemma vm_state_simps [state_simps]:
  "etext (acq lk s) = etext s"
  "acq lk (etext_update f_etext s) = etext_update f_etext (acq lk s)"
  "etext (rel lk s) = etext s"
  "rel lk (etext_update f_etext s) = etext_update f_etext (rel lk s)"
  "etext (tch s) = etext s"
  "tch (etext_update f_etext s) = etext_update f_etext (tch s)"
  "free_lk lk (etext_update f_etext s) = free_lk lk s"
  "held_lk lk (etext_update f_etext s) = held_lk lk s"
  "in_cs (etext_update f_etext s) = in_cs s"
  "irq_ok (etext_update f_etext s) = irq_ok s"
  "intr_get (etext_update f_etext s) = intr_get s"
  "cpuid (etext_update f_etext s) = cpuid s"
  "mycpu (etext_update f_etext s) = mycpu s"
  "trampoline (acq lk s) = trampoline s"
  "acq lk (trampoline_update f_trampoline s) = trampoline_update f_trampoline (acq lk s)"
  "trampoline (rel lk s) = trampoline s"
  "rel lk (trampoline_update f_trampoline s) = trampoline_update f_trampoline (rel lk s)"
  "trampoline (tch s) = trampoline s"
  "tch (trampoline_update f_trampoline s) = trampoline_update f_trampoline (tch s)"
  "free_lk lk (trampoline_update f_trampoline s) = free_lk lk s"
  "held_lk lk (trampoline_update f_trampoline s) = held_lk lk s"
  "in_cs (trampoline_update f_trampoline s) = in_cs s"
  "irq_ok (trampoline_update f_trampoline s) = irq_ok s"
  "intr_get (trampoline_update f_trampoline s) = intr_get s"
  "cpuid (trampoline_update f_trampoline s) = cpuid s"
  "mycpu (trampoline_update f_trampoline s) = mycpu s"
  "kernel_pagetable (acq lk s) = kernel_pagetable s"
  "acq lk (kernel_pagetable_update f_kernel_pagetable s) = kernel_pagetable_update f_kernel_pagetable (acq lk s)"
  "kernel_pagetable (rel lk s) = kernel_pagetable s"
  "rel lk (kernel_pagetable_update f_kernel_pagetable s) = kernel_pagetable_update f_kernel_pagetable (rel lk s)"
  "kernel_pagetable (tch s) = kernel_pagetable s"
  "tch (kernel_pagetable_update f_kernel_pagetable s) = kernel_pagetable_update f_kernel_pagetable (tch s)"
  "free_lk lk (kernel_pagetable_update f_kernel_pagetable s) = free_lk lk s"
  "held_lk lk (kernel_pagetable_update f_kernel_pagetable s) = held_lk lk s"
  "in_cs (kernel_pagetable_update f_kernel_pagetable s) = in_cs s"
  "irq_ok (kernel_pagetable_update f_kernel_pagetable s) = irq_ok s"
  "intr_get (kernel_pagetable_update f_kernel_pagetable s) = intr_get s"
  "cpuid (kernel_pagetable_update f_kernel_pagetable s) = cpuid s"
  "mycpu (kernel_pagetable_update f_kernel_pagetable s) = mycpu s"
  "satp (acq lk s) = satp s"
  "acq lk (satp_update f_satp s) = satp_update f_satp (acq lk s)"
  "satp (rel lk s) = satp s"
  "rel lk (satp_update f_satp s) = satp_update f_satp (rel lk s)"
  "satp (tch s) = satp s"
  "tch (satp_update f_satp s) = satp_update f_satp (tch s)"
  "free_lk lk (satp_update f_satp s) = free_lk lk s"
  "held_lk lk (satp_update f_satp s) = held_lk lk s"
  "in_cs (satp_update f_satp s) = in_cs s"
  "irq_ok (satp_update f_satp s) = irq_ok s"
  "intr_get (satp_update f_satp s) = intr_get s"
  "cpuid (satp_update f_satp s) = cpuid s"
  "mycpu (satp_update f_satp s) = mycpu s"
  by (simp_all add: in_cs_def lock_defs upd_order)

definition rd64 :: "uint64 \<Rightarrow> (uint64, 'z machine_scheme) kop" where
  "rd64 a = gets (\<lambda>s. load64 (mem s) a)"

definition wr64 :: "uint64 \<Rightarrow> uint64 \<Rightarrow> (unit, 'z machine_scheme) kop" where
  "wr64 a v = modify (\<lambda>s. s\<lparr>mem := store64 (mem s) a v\<rparr>)"

definition fill :: "uint64 \<Rightarrow> uint32 \<Rightarrow> uint64 \<Rightarrow> (unit, 'z machine_scheme) kop" where
  "fill a c n = modify (\<lambda>s. s\<lparr>mem := memset (mem s) a c (ucast n)\<rparr>)"

definition put_bytes :: "uint64 \<Rightarrow> uint8 list \<Rightarrow> (unit, 'z machine_scheme) kop" where
  "put_bytes a bs = modify (\<lambda>s. s\<lparr>mem := store_bytes (mem s) a bs\<rparr>)"

lemma mem_ops [kop_simps]:
  "rd64 a s = Ret (load64 (mem s) a) s"
  "wr64 a v s = Ret () (s\<lparr>mem := store64 (mem s) a v\<rparr>)"
  "fill a c n s = Ret () (s\<lparr>mem := memset (mem s) a c (ucast n)\<rparr>)"
  "put_bytes a bs s = Ret () (s\<lparr>mem := store_bytes (mem s) a bs\<rparr>)"
  by (simp_all add: rd64_def wr64_def fill_def put_bytes_def kop_simps)

text \<open>The address of entry \<open>PX(level, va)\<close> of a page-table page.\<close>

definition pte_addr :: "pagetable_t \<Rightarrow> nat \<Rightarrow> uint64 \<Rightarrow> uint64" where
  "pte_addr pagetable level va = pagetable + 8 * PX level va"

fun walk_levels :: "nat \<Rightarrow> pagetable_t \<Rightarrow> uint64 \<Rightarrow> bool \<Rightarrow> (uint64, 'z kmem_state_scheme) kop" where
  "walk_levels 0 pagetable va alloc = ret (pte_addr pagetable 0 va)"
| "walk_levels (Suc l) pagetable va alloc =
     bnd (rd64 (pte_addr pagetable (Suc l) va)) (\<lambda>pte.
     if pte AND PTE_V \<noteq> 0 then walk_levels l (PTE2PA pte) va alloc
     else if \<not> alloc then ret 0
     else bnd kalloc (\<lambda>pagetable'.
       if pagetable' = 0 then ret 0 else
       thn (fill pagetable' 0 PGSIZE)
      (thn (wr64 (pte_addr pagetable (Suc l) va) (PA2PTE pagetable' OR PTE_V))
           (walk_levels l pagetable' va alloc))))"

definition walk :: "pagetable_t \<Rightarrow> uint64 \<Rightarrow> bool \<Rightarrow> (uint64, 'z kmem_state_scheme) kop" where
  "walk pagetable va alloc =
     (if va \<ge> MAXVA then panic ''walk'' else walk_levels 2 pagetable va alloc)"

definition walkaddr :: "pagetable_t \<Rightarrow> uint64 \<Rightarrow> (uint64, 'z kmem_state_scheme) kop" where
  "walkaddr pagetable va =
     (if va \<ge> MAXVA then ret 0 else
      bnd (walk pagetable va False) (\<lambda>pte.
      if pte = 0 then ret 0 else
      bnd (rd64 pte) (\<lambda>e.
      if e AND PTE_V = 0 then ret 0
      else if e AND PTE_U = 0 then ret 0
      else ret (PTE2PA e))))"

fun mappages_loop ::
  "nat \<Rightarrow> pagetable_t \<Rightarrow> uint64 \<Rightarrow> uint64 \<Rightarrow> uint64 \<Rightarrow> uint64 \<Rightarrow> (int, 'z kmem_state_scheme) kop" where
  "mappages_loop n pagetable a last' pa perm =
     bnd (walk pagetable a True) (\<lambda>pte.
     if pte = 0 then ret (- 1) else
     bnd (rd64 pte) (\<lambda>e.
     if e AND PTE_V \<noteq> 0 then panic ''mappages: remap'' else
     thn (wr64 pte (PA2PTE pa OR perm OR PTE_V))
         (if a = last' then ret 0 else
          case n of 0 \<Rightarrow> spin
          | Suc k \<Rightarrow> mappages_loop k pagetable (a + PGSIZE) last' (pa + PGSIZE) perm)))"

definition mappages ::
  "pagetable_t \<Rightarrow> uint64 \<Rightarrow> uint64 \<Rightarrow> uint64 \<Rightarrow> uint64 \<Rightarrow> (int, 'z kmem_state_scheme) kop" where
  "mappages pagetable va size' pa perm =
     (if size' = 0 then panic ''mappages: size'' else
      let a = PGROUNDDOWN va; last' = PGROUNDDOWN (va + size' - 1)
      in mappages_loop (unat (last' - a) div 4096) pagetable a last' pa perm)"

definition kvmmap ::
  "pagetable_t \<Rightarrow> uint64 \<Rightarrow> uint64 \<Rightarrow> uint64 \<Rightarrow> uint64 \<Rightarrow> (unit, 'z kmem_state_scheme) kop" where
  "kvmmap kpgtbl va pa sz perm =
     bnd (mappages kpgtbl va sz pa perm) (\<lambda>r. if r \<noteq> 0 then panic ''kvmmap'' else ret ())"

text \<open>The number of rounds of \<open>for(a = x; a < y; a += PGSIZE)\<close>.\<close>

definition rounds :: "uint64 \<Rightarrow> uint64 \<Rightarrow> nat" where
  "rounds x y = (unat y - unat x + 4095) div 4096"

fun uvmunmap_loop ::
  "nat \<Rightarrow> pagetable_t \<Rightarrow> uint64 \<Rightarrow> uint64 \<Rightarrow> bool \<Rightarrow> (unit, 'z kmem_state_scheme) kop" where
  "uvmunmap_loop n pagetable a limit do_free =
     (if a < limit then
        bnd (walk pagetable a False) (\<lambda>pte.
        if pte = 0 then panic ''uvmunmap: walk'' else
        bnd (rd64 pte) (\<lambda>e.
        if e AND PTE_V = 0 then panic ''uvmunmap: not mapped''
        else if PTE_FLAGS e = PTE_V then panic ''uvmunmap: not a leaf'' else
        thn (whenk do_free (kfree (PTE2PA e)))
       (thn (wr64 pte 0)
            (case n of 0 \<Rightarrow> spin
             | Suc k \<Rightarrow> uvmunmap_loop k pagetable (a + PGSIZE) limit do_free))))
      else ret ())"

definition uvmunmap :: "pagetable_t \<Rightarrow> uint64 \<Rightarrow> uint64 \<Rightarrow> bool \<Rightarrow> (unit, 'z kmem_state_scheme) kop" where
  "uvmunmap pagetable va npages do_free =
     (if va mod PGSIZE \<noteq> 0 then panic ''uvmunmap: not aligned'' else
      uvmunmap_loop (rounds va (va + npages * PGSIZE)) pagetable va (va + npages * PGSIZE) do_free)"

definition uvmcreate :: "(pagetable_t, 'z kmem_state_scheme) kop" where
  "uvmcreate =
     bnd kalloc (\<lambda>pagetable.
     if pagetable = 0 then ret 0 else
     thn (fill pagetable 0 PGSIZE) (ret pagetable))"

definition uvmfirst :: "pagetable_t \<Rightarrow> uint8 list \<Rightarrow> uint \<Rightarrow> (unit, 'z kmem_state_scheme) kop" where
  "uvmfirst pagetable src sz =
     (if ucast sz \<ge> PGSIZE then panic ''uvmfirst: more than a page'' else
      bnd kalloc (\<lambda>m.
      thn (fill m 0 PGSIZE)
     (thn (mappages pagetable 0 PGSIZE m (PTE_W OR PTE_R OR PTE_X OR PTE_U))
          (put_bytes m (take (unat sz) src)))))"

text \<open>The quotient in \<open>uvmdealloc\<close> passes through the 32-bit \<open>int npages\<close>.\<close>

definition uvmdealloc :: "pagetable_t \<Rightarrow> uint64 \<Rightarrow> uint64 \<Rightarrow> (uint64, 'z kmem_state_scheme) kop" where
  "uvmdealloc pagetable oldsz newsz =
     (if newsz \<ge> oldsz then ret oldsz else
      thn (whenk (PGROUNDUP newsz < PGROUNDUP oldsz)
            (let npages = ucast ((PGROUNDUP oldsz - PGROUNDUP newsz) div PGSIZE) :: uint32
             in uvmunmap pagetable (PGROUNDUP newsz) (scast npages) True))
          (ret newsz))"

fun uvmalloc_loop ::
  "nat \<Rightarrow> pagetable_t \<Rightarrow> uint64 \<Rightarrow> uint64 \<Rightarrow> uint64 \<Rightarrow> uint64 \<Rightarrow> (uint64, 'z kmem_state_scheme) kop" where
  "uvmalloc_loop n pagetable a oldsz newsz xperm =
     (if a < newsz then
        bnd kalloc (\<lambda>m.
        if m = 0 then thn (uvmdealloc pagetable a oldsz) (ret 0) else
        thn (fill m 0 PGSIZE)
       (bnd (mappages pagetable a PGSIZE m (PTE_R OR PTE_U OR xperm)) (\<lambda>r.
        if r \<noteq> 0 then thn (kfree m) (thn (uvmdealloc pagetable a oldsz) (ret 0)) else
        case n of 0 \<Rightarrow> spin
        | Suc k \<Rightarrow> uvmalloc_loop k pagetable (a + PGSIZE) oldsz newsz xperm)))
      else ret newsz)"

definition uvmalloc ::
  "pagetable_t \<Rightarrow> uint64 \<Rightarrow> uint64 \<Rightarrow> uint64 \<Rightarrow> (uint64, 'z kmem_state_scheme) kop" where
  "uvmalloc pagetable oldsz newsz xperm =
     (if newsz < oldsz then ret oldsz else
      let oldsz = PGROUNDUP oldsz
      in uvmalloc_loop (rounds oldsz newsz) pagetable oldsz oldsz newsz xperm)"

text \<open>
  \<open>freewalk\<close> recurses into lower tables; the model follows it 64 levels deep, more than a kernel
  stack page has room for.  Well-formed tables have three levels.
\<close>

fun freewalk_at :: "nat \<Rightarrow> pagetable_t \<Rightarrow> (unit, 'z kmem_state_scheme) kop" where
  "freewalk_at 0 pagetable = spin"
| "freewalk_at (Suc d) pagetable =
     thn (for_each [0..<512] (\<lambda>i.
            bnd (rd64 (pagetable + 8 * of_nat i)) (\<lambda>pte.
            if pte AND PTE_V \<noteq> 0 \<and> pte AND (PTE_R OR PTE_W OR PTE_X) = 0 then
              thn (freewalk_at d (PTE2PA pte)) (wr64 (pagetable + 8 * of_nat i) 0)
            else if pte AND PTE_V \<noteq> 0 then panic ''freewalk: leaf''
            else ret ())))
         (kfree pagetable)"

definition freewalk :: "pagetable_t \<Rightarrow> (unit, 'z kmem_state_scheme) kop" where
  "freewalk pagetable = freewalk_at 64 pagetable"

definition uvmfree :: "pagetable_t \<Rightarrow> uint64 \<Rightarrow> (unit, 'z kmem_state_scheme) kop" where
  "uvmfree pagetable sz =
     thn (whenk (sz > 0) (uvmunmap pagetable 0 (PGROUNDUP sz div PGSIZE) True))
         (freewalk pagetable)"

text \<open>\<open>uvmcopy\<close>: the exit at label \<open>err\<close> unmaps what was copied.\<close>

definition uvmcopy_err :: "pagetable_t \<Rightarrow> uint64 \<Rightarrow> (int, 'z kmem_state_scheme) kop" where
  "uvmcopy_err new' i = thn (uvmunmap new' 0 (i div PGSIZE) True) (ret (- 1))"

fun uvmcopy_loop ::
  "nat \<Rightarrow> pagetable_t \<Rightarrow> pagetable_t \<Rightarrow> uint64 \<Rightarrow> uint64 \<Rightarrow> (int, 'z kmem_state_scheme) kop" where
  "uvmcopy_loop n old new' i sz =
     (if i < sz then
        bnd (walk old i False) (\<lambda>pte.
        if pte = 0 then panic ''uvmcopy: pte should exist'' else
        bnd (rd64 pte) (\<lambda>e.
        if e AND PTE_V = 0 then panic ''uvmcopy: page not present'' else
        bnd kalloc (\<lambda>m.
        if m = 0 then uvmcopy_err new' i else
        thn (modify (\<lambda>s. s\<lparr>mem := memmove (mem s) m (PTE2PA e) (ucast PGSIZE)\<rparr>))
       (bnd (mappages new' i PGSIZE m (PTE_FLAGS e)) (\<lambda>r.
        if r \<noteq> 0 then thn (kfree m) (uvmcopy_err new' i) else
        case n of 0 \<Rightarrow> spin
        | Suc k \<Rightarrow> uvmcopy_loop k old new' (i + PGSIZE) sz)))))
      else ret 0)"

definition uvmcopy :: "pagetable_t \<Rightarrow> pagetable_t \<Rightarrow> uint64 \<Rightarrow> (int, 'z kmem_state_scheme) kop" where
  "uvmcopy old new' sz = uvmcopy_loop (rounds 0 sz) old new' 0 sz"

definition uvmclear :: "pagetable_t \<Rightarrow> uint64 \<Rightarrow> (unit, 'z kmem_state_scheme) kop" where
  "uvmclear pagetable va =
     bnd (walk pagetable va False) (\<lambda>pte.
     if pte = 0 then panic ''uvmclear'' else
     bnd (rd64 pte) (\<lambda>e. wr64 pte (e AND NOT PTE_U)))"

section \<open>Copying between kernel and user memory\<close>

text \<open>
  The number of bytes a round of the copying loops moves: to the end of the page of \<open>va\<close>, or as
  many as are left.
\<close>

definition chunk :: "uint64 \<Rightarrow> nat \<Rightarrow> nat" where
  "chunk va len = min (unat (PGSIZE - (va - PGROUNDDOWN va))) len"

lemma unat_page_off: "unat (va - PGROUNDDOWN va) = unat va mod 4096"
  by (simp add: unat_diff_cases unat_PGROUNDDOWN minus_div_mult_eq_mod)

lemma chunk_eq: "chunk va len = min (4096 - unat va mod 4096) len"
proof -
  have "unat (PGSIZE - (va - PGROUNDDOWN va)) = 4096 - unat va mod 4096"
    unfolding unat_diff_cases [of PGSIZE] unat_page_off by (simp add: PGSIZE_def)
  then show ?thesis by (simp add: chunk_def)
qed

lemma chunk_pos: "0 < len \<Longrightarrow> 0 < chunk va len"
  by (simp add: chunk_eq)

function copyout :: "pagetable_t \<Rightarrow> uint64 \<Rightarrow> uint8 list \<Rightarrow> (int, 'z kmem_state_scheme) kop" where
  "copyout pagetable dstva src =
     (if src = [] then ret 0 else
      bnd (walkaddr pagetable (PGROUNDDOWN dstva)) (\<lambda>pa0.
      if pa0 = 0 then ret (- 1) else
      thn (put_bytes (pa0 + (dstva - PGROUNDDOWN dstva)) (take (chunk dstva (length src)) src))
          (copyout pagetable (PGROUNDDOWN dstva + PGSIZE) (drop (chunk dstva (length src)) src))))"
  by pat_completeness auto
termination
  by (relation "measure (\<lambda>(pt, va, src). length src)") (auto simp: chunk_pos)

text \<open>\<open>copyin\<close> returns its status and the bytes it stored at \<open>dst\<close>, in order.\<close>

function copyin :: "pagetable_t \<Rightarrow> uint64 \<Rightarrow> nat \<Rightarrow> (int \<times> uint8 list, 'z kmem_state_scheme) kop" where
  "copyin pagetable srcva len =
     (if len = 0 then ret (0, []) else
      bnd (walkaddr pagetable (PGROUNDDOWN srcva)) (\<lambda>pa0.
      if pa0 = 0 then ret (- 1, []) else
      bnd (gets (\<lambda>s. load_bytes (mem s) (pa0 + (srcva - PGROUNDDOWN srcva)) (chunk srcva len))) (\<lambda>bs.
      bnd (copyin pagetable (PGROUNDDOWN srcva + PGSIZE) (len - chunk srcva len)) (\<lambda>(r, rest).
      ret (r, bs @ rest)))))"
  by pat_completeness auto
termination
  by (relation "measure (\<lambda>(pt, va, len). len)") (auto simp: chunk_pos)

text \<open>
  The inner loop of \<open>copyinstr\<close>: copy up to \<open>n\<close> bytes from \<open>p\<close>, stopping at a NUL.  It returns
  whether the NUL was found and the bytes stored, the NUL included.
\<close>

fun copyinstr_page :: "memory \<Rightarrow> uint64 \<Rightarrow> nat \<Rightarrow> bool \<times> uint8 list" where
  "copyinstr_page m p 0 = (False, [])"
| "copyinstr_page m p (Suc n) =
     (if m p = 0 then (True, [0])
      else case copyinstr_page m (p + 1) n of (got_null, bs) \<Rightarrow> (got_null, m p # bs))"

function copyinstr :: "pagetable_t \<Rightarrow> uint64 \<Rightarrow> nat \<Rightarrow> (int \<times> uint8 list, 'z kmem_state_scheme) kop" where
  "copyinstr pagetable srcva max' =
     (if max' = 0 then ret (- 1, []) else
      bnd (walkaddr pagetable (PGROUNDDOWN srcva)) (\<lambda>pa0.
      if pa0 = 0 then ret (- 1, []) else
      bnd (gets (\<lambda>s. copyinstr_page (mem s) (pa0 + (srcva - PGROUNDDOWN srcva)) (chunk srcva max')))
        (\<lambda>(got_null, bs).
      if got_null then ret (0, bs) else
      bnd (copyinstr pagetable (PGROUNDDOWN srcva + PGSIZE) (max' - chunk srcva max')) (\<lambda>(r, rest).
      ret (r, bs @ rest)))))"
  by pat_completeness auto
termination
  by (relation "measure (\<lambda>(pt, va, n). n)") (auto simp: chunk_pos)

declare mappages_loop.simps [simp del] uvmunmap_loop.simps [simp del] uvmalloc_loop.simps [simp del]
  uvmcopy_loop.simps [simp del] freewalk_at.simps [simp del] copyout.simps [simp del]
  copyin.simps [simp del] copyinstr.simps [simp del]

section \<open>The kernel's own page table\<close>

definition proc_mapstacks :: "pagetable_t \<Rightarrow> (unit, 'z kmem_state_scheme) kop" where
  "proc_mapstacks kpgtbl = for_each [0..<NPROC] (\<lambda>p.
     bnd kalloc (\<lambda>pa.
     if pa = 0 then panic ''kalloc'' else
     kvmmap kpgtbl (KSTACK p) pa PGSIZE (PTE_R OR PTE_W)))"

definition kvmmake :: "(pagetable_t, 'z vm_state_scheme) kop" where
  "kvmmake =
     bnd kalloc (\<lambda>kpgtbl.
     thn (fill kpgtbl 0 PGSIZE)
    (thn (kvmmap kpgtbl UART0 UART0 PGSIZE (PTE_R OR PTE_W))
    (thn (kvmmap kpgtbl VIRTIO0 VIRTIO0 PGSIZE (PTE_R OR PTE_W))
    (thn (kvmmap kpgtbl PLIC PLIC 0x400000 (PTE_R OR PTE_W))
    (bnd (gets etext) (\<lambda>et.
     thn (kvmmap kpgtbl KERNBASE KERNBASE (et - KERNBASE) (PTE_R OR PTE_X))
    (thn (kvmmap kpgtbl et et (PHYSTOP - et) (PTE_R OR PTE_W))
    (bnd (gets trampoline) (\<lambda>tr.
     thn (kvmmap kpgtbl TRAMPOLINE tr PGSIZE (PTE_R OR PTE_X))
    (thn (proc_mapstacks kpgtbl)
         (ret kpgtbl)))))))))))"

definition kvminit :: "(unit, 'z vm_state_scheme) kop" where
  "kvminit = bnd kvmmake (\<lambda>pt. modify (\<lambda>s. s\<lparr>kernel_pagetable := pt\<rparr>))"

definition kvminithart :: "(unit, 'z vm_state_scheme) kop" where
  "kvminithart = modify (\<lambda>s. s\<lparr>satp := MAKE_SATP (kernel_pagetable s)\<rparr>)"

end
