(* ===== verification/Pagetable.thy ===== *)
theory Pagetable
  imports Vm
begin

text \<open>
  The page tables of \<open>kernel/vm.c\<close> as a function from virtual pages to leaf entries.  \<open>pte_of\<close> reads
  that function out of memory; \<open>pt_ok\<close> is the representation invariant, with a ghost map \<open>own\<close> that
  gives each page-table page its level and the index prefix that leads to it, so that no page has two
  places in the tree.  The lemmas show that \<open>walk\<close>, with or without allocation, keeps the function,
  that a store through the entry it returns updates it at one virtual page, and lift this to
  \<open>mappages\<close>, \<open>uvmunmap\<close> and \<open>uvmcreate\<close>.
\<close>

section \<open>Entries and their addresses\<close>

definition valid :: "pte_t \<Rightarrow> bool" where
  "valid e \<longleftrightarrow> e AND PTE_V \<noteq> 0"

definition vpn :: "uint64 \<Rightarrow> nat" where
  "vpn va = unat va div 4096"

definition idx :: "nat \<Rightarrow> uint64 \<Rightarrow> nat" where
  "idx l va = unat (PX l va)"

lemma idx_bound [simp]: "idx l va < 512"
  by (simp add: idx_def PX_bound)

lemma not_valid_0 [simp]: "\<not> valid 0"
  by (simp add: valid_def)

lemma PTE_V_1: "PTE_V = 1"
  by (simp add: PTE_V_def)

lemma valid_or: "valid (x OR PTE_V)"
  unfolding valid_def
proof
  assume a: "(x OR PTE_V) AND PTE_V = 0"
  have "(x OR PTE_V) AND PTE_V = PTE_V" by (rule bit_word_eqI) (auto simp: bit_simps)
  with a show False by (simp add: PTE_V_def)
qed

lemma slot_off: "i < 512 \<Longrightarrow> unat (8 * of_nat i :: uint64) = 8 * i"
  by (simp add: unat_word_ariths unat_of_nat)

lemma slot_page:
  assumes "page_aligned p" "i < 512"
  shows "PGROUNDDOWN (p + 8 * of_nat i) = p" "unat (p + 8 * of_nat i) mod 8 = 0"
    "unat (p + 8 * of_nat i) = unat p + 8 * i"
proof -
  have e: "(8 * of_nat i :: uint64) = of_nat (8 * i)" by simp
  have f: "unat p mod 4096 + 8 * i < 4096" using assms by (simp add: page_aligned_def)
  show "PGROUNDDOWN (p + 8 * of_nat i) = p"
    unfolding e using page_offset(2) [OF f] assms(1) by (simp only: PGROUNDDOWN_id)
  show u: "unat (p + 8 * of_nat i) = unat p + 8 * i"
    unfolding e using page_offset(1) [OF f] .
  show "unat (p + 8 * of_nat i) mod 8 = 0"
    unfolding u using page_aligned_mod8 [OF assms(1)] by (simp add: mod_add_left_eq [symmetric])
qed

lemma slot_inj:
  assumes "page_aligned p" "page_aligned q" "i < 512" "j < 512"
    and "p + 8 * of_nat i = q + 8 * of_nat j"
  shows "p = q \<and> i = j"
proof -
  have "p = q" using slot_page(1) assms by metis
  then have "unat p + 8 * i = unat p + 8 * j" using slot_page(3) assms by metis
  with \<open>p = q\<close> show ?thesis by simp
qed

lemma pte_addr_idx: "pte_addr p l va = p + 8 * of_nat (idx l va)"
  by (simp add: pte_addr_def idx_def)

lemma pte_addr_page:
  assumes "page_aligned p"
  shows "PGROUNDDOWN (pte_addr p l va) = p" "unat (pte_addr p l va) mod 8 = 0"
  using slot_page [OF assms idx_bound [of l va]] by (simp_all add: pte_addr_idx)

lemma pte_addr_inj:
  assumes "page_aligned p" "page_aligned q" "pte_addr p l va = pte_addr q k wa"
  shows "p = q \<and> idx l va = idx k wa"
  using slot_inj [OF assms(1,2) idx_bound idx_bound] assms(3) by (simp add: pte_addr_idx)

lemma pte_addr_nonzero: "page_aligned p \<Longrightarrow> p \<noteq> 0 \<Longrightarrow> pte_addr p l va \<noteq> 0"
  using pte_addr_page(1) [of p l va] by (auto simp: PGROUNDDOWN_def)

lemma load64_pte_agree:
  assumes "agree P m m'" "page_aligned p" "p \<in> P"
  shows "load64 m' (pte_addr p l va) = load64 m (pte_addr p l va)"
  using assms by (intro load64_agree [OF assms(1)]) (simp_all add: pte_addr_page)

section \<open>Reading the tables\<close>

fun wk :: "nat \<Rightarrow> memory \<Rightarrow> uint64 \<Rightarrow> uint64 \<Rightarrow> uint64 option" where
  "wk 0 m p va = Some p"
| "wk (Suc l) m p va =
     (let e = load64 m (pte_addr p (Suc l) va) in if valid e then wk l m (PTE2PA e) va else None)"

lemma vpn_PX: "vpn wa = vpn va \<Longrightarrow> PX l wa = PX l va"
  unfolding vpn_def by (rule PX_page)

lemma wk_vpn: "vpn wa = vpn va \<Longrightarrow> wk l m p wa = wk l m p va"
  by (induction l arbitrary: p) (simp_all add: pte_addr_def vpn_PX [of wa va] Let_def)

definition pte_from :: "nat \<Rightarrow> memory \<Rightarrow> uint64 \<Rightarrow> uint64 \<Rightarrow> pte_t" where
  "pte_from l m p va = (case wk l m p va of None \<Rightarrow> 0 | Some t \<Rightarrow> load64 m (pte_addr t 0 va))"

definition pte_of :: "memory \<Rightarrow> pagetable_t \<Rightarrow> uint64 \<Rightarrow> pte_t" where
  "pte_of m root va = pte_from 2 m root va"

lemma pte_of_vpn: "vpn wa = vpn va \<Longrightarrow> pte_of m root wa = pte_of m root va"
  by (cases "wk 2 m root va")
    (simp_all add: pte_of_def pte_from_def wk_vpn [of wa va] pte_addr_def vpn_PX [of wa va])

lemma pte_from_simps:
  "pte_from 0 m p va = load64 m (pte_addr p 0 va)"
  "pte_from (Suc l) m p va = (let e = load64 m (pte_addr p (Suc l) va)
     in if valid e then pte_from l m (PTE2PA e) va else 0)"
  by (simp_all add: pte_from_def Let_def)

definition pt_ok :: "memory \<Rightarrow> pagetable_t \<Rightarrow> (uint64 \<rightharpoonup> nat \<times> nat) \<Rightarrow> bool" where
  "pt_ok m root own \<longleftrightarrow> own root = Some (2, 0) \<and>
     (\<forall>p\<in>dom own. page_aligned p \<and> p \<noteq> 0) \<and>
     (\<forall>p l k i. own p = Some (Suc l, k) \<longrightarrow> i < 512 \<longrightarrow> valid (load64 m (p + 8 * of_nat i)) \<longrightarrow>
        own (PTE2PA (load64 m (p + 8 * of_nat i))) = Some (l, k * 512 + i) \<and>
        load64 m (p + 8 * of_nat i) AND (PTE_R OR PTE_W OR PTE_X) = 0)"

lemma pt_ok_root: "pt_ok m root own \<Longrightarrow> own root = Some (2, 0)"
  by (simp add: pt_ok_def)

lemma pt_ok_page: "pt_ok m root own \<Longrightarrow> own p = Some x \<Longrightarrow> page_aligned p \<and> p \<noteq> 0"
  by (auto simp: pt_ok_def)

lemma pt_ok_child:
  assumes "pt_ok m root own" "own p = Some (Suc l, k)" "valid (load64 m (pte_addr p (Suc l) va))"
  shows "own (PTE2PA (load64 m (pte_addr p (Suc l) va))) = Some (l, k * 512 + idx (Suc l) va)"
  using assms idx_bound [of "Suc l" va] unfolding pt_ok_def pte_addr_idx by blast

text \<open>The index prefix of \<open>va\<close> below a page at level \<open>l\<close> with prefix \<open>k\<close>.\<close>

fun pre :: "nat \<Rightarrow> nat \<Rightarrow> uint64 \<Rightarrow> nat" where
  "pre 0 k va = k"
| "pre (Suc l) k va = pre l (k * 512 + idx (Suc l) va) va"

lemma wk_own:
  assumes "pt_ok m root own" "own p = Some (l, k)" "wk l m p va = Some t"
  shows "own t = Some (0, pre l k va)"
  using assms(2,3)
proof (induction l arbitrary: p k)
  case (Suc l)
  then show ?case using pt_ok_child [OF assms(1) Suc.prems(1)]
    by (auto simp: Let_def split: if_splits)
qed simp

lemma wk_root_own:
  assumes "pt_ok m root own" "wk 2 m root va = Some t"
  shows "own t = Some (0, idx 2 va * 512 + idx 1 va)"
  using wk_own [OF assms(1) pt_ok_root [OF assms(1)] assms(2)]
  by (simp add: numeral_2_eq_2)

lemma vpn_idx: "va < MAXVA \<Longrightarrow> vpn va = (idx 2 va * 512 + idx 1 va) * 512 + idx 0 va"
  using va_decompose [of va] by (simp add: vpn_def idx_def)

lemma vpn_eq_idx:
  assumes "va < MAXVA" "wa < MAXVA"
  shows "vpn va = vpn wa \<longleftrightarrow>
    idx 2 va * 512 + idx 1 va = idx 2 wa * 512 + idx 1 wa \<and> idx 0 va = idx 0 wa"
proof
  assume "vpn va = vpn wa"
  then have "PX l va = PX l wa" for l by (rule vpn_PX)
  then show "idx 2 va * 512 + idx 1 va = idx 2 wa * 512 + idx 1 wa \<and> idx 0 va = idx 0 wa"
    by (simp add: idx_def)
next
  assume "idx 2 va * 512 + idx 1 va = idx 2 wa * 512 + idx 1 wa \<and> idx 0 va = idx 0 wa"
  then show "vpn va = vpn wa" using vpn_idx [OF assms(1)] vpn_idx [OF assms(2)] by simp
qed

section \<open>How stores change what the tables say\<close>

lemma wk_agree:
  assumes "pt_ok m root own" "own p = Some (l, k)"
    and "\<forall>x j c. own x = Some (Suc j, c) \<longrightarrow> x \<in> P" "agree P m m'"
  shows "wk l m' p va = wk l m p va"
  using assms(2)
proof (induction l arbitrary: p k)
  case (Suc l)
  have "p \<in> P" using Suc.prems assms(3) by blast
  then have "load64 m' (pte_addr p (Suc l) va) = load64 m (pte_addr p (Suc l) va)"
    using load64_pte_agree [OF assms(4)] pt_ok_page [OF assms(1) Suc.prems] by blast
  then show ?case using Suc.IH [OF pt_ok_child [OF assms(1) Suc.prems]] by (auto simp: Let_def)
qed simp

lemma pt_ok_agree:
  assumes "pt_ok m root own" "\<forall>x j c. own x = Some (Suc j, c) \<longrightarrow> x \<in> P" "agree P m m'"
  shows "pt_ok m' root own"
proof -
  have "load64 m' (p + 8 * of_nat i) = load64 m (p + 8 * of_nat i)"
    if "own p = Some (Suc l, k)" "i < 512" for p l k i
  proof (rule load64_agree [OF assms(3)])
    have al: "page_aligned p" using pt_ok_page [OF assms(1) that(1)] by simp
    show "unat (p + 8 * of_nat i) mod 8 = 0" by (rule slot_page(2) [OF al that(2)])
    show "PGROUNDDOWN (p + 8 * of_nat i) \<in> P"
      using assms(2) that(1) by (subst slot_page(1) [OF al that(2)]) blast
  qed
  then show ?thesis using assms(1) unfolding pt_ok_def by (simp (no_asm_simp))
qed

text \<open>Memory outside the tables does not matter.\<close>

lemma pt_frame:
  assumes "pt_ok m root own" "agree (dom own) m m'"
  shows "pt_ok m' root own" "pte_of m' root va = pte_of m root va"
proof -
  have P: "\<forall>x j c. own x = Some (Suc j, c) \<longrightarrow> x \<in> dom own" by blast
  show "pt_ok m' root own" by (rule pt_ok_agree [OF assms(1) P assms(2)])
  have w: "wk 2 m' root va = wk 2 m root va"
    by (rule wk_agree [OF assms(1) pt_ok_root [OF assms(1)] P assms(2)])
  show "pte_of m' root va = pte_of m root va"
  proof (cases "wk 2 m root va")
    case None
    with w show ?thesis by (simp add: pte_of_def pte_from_def)
  next
    case (Some t)
    then have "own t \<noteq> None" using wk_root_own [OF assms(1)] by auto
    then have "load64 m' (pte_addr t 0 va) = load64 m (pte_addr t 0 va)"
      using pt_ok_page [OF assms(1)] by (intro load64_pte_agree [OF assms(2)]) auto
    with w Some show ?thesis by (simp add: pte_of_def pte_from_def)
  qed
qed

text \<open>A store through a leaf slot.\<close>

lemma leaf_store:
  fixes v :: pte_t
  assumes ok: "pt_ok m root own" and w: "wk 2 m root va = Some t" and va: "va < MAXVA"
  defines "m' \<equiv> store64 m (pte_addr t 0 va) v"
  shows "pt_ok m' root own"
    and "wa < MAXVA \<Longrightarrow> pte_of m' root wa = (if vpn wa = vpn va then v else pte_of m root wa)"
proof -
  have own_t: "own t = Some (0, idx 2 va * 512 + idx 1 va)" by (rule wk_root_own [OF ok w])
  have al: "page_aligned t" using pt_ok_page [OF ok own_t] by simp
  have ag: "agree (- {t}) m m'" unfolding m'_def by (rule store64_agree) (simp_all add: pte_addr_page al)
  have P: "\<forall>x j c. own x = Some (Suc j, c) \<longrightarrow> x \<in> - {t}" using own_t by auto
  show "pt_ok m' root own" by (rule pt_ok_agree [OF ok P ag])
  assume wa: "wa < MAXVA"
  have w': "wk 2 m' root wa = wk 2 m root wa"
    by (rule wk_agree [OF ok pt_ok_root [OF ok] P ag])
  show "pte_of m' root wa = (if vpn wa = vpn va then v else pte_of m root wa)"
  proof (cases "wk 2 m root wa")
    case None
    have "vpn wa \<noteq> vpn va"
      using None w wk_vpn [of wa va 2 m root] by auto
    with None w' show ?thesis by (simp add: pte_of_def pte_from_def)
  next
    case (Some u)
    have own_u: "own u = Some (0, idx 2 wa * 512 + idx 1 wa)" by (rule wk_root_own [OF ok Some])
    have alu: "page_aligned u" using pt_ok_page [OF ok own_u] by simp
    have iff: "vpn wa = vpn va \<longleftrightarrow> pte_addr u 0 wa = pte_addr t 0 va"
    proof
      assume eq: "vpn wa = vpn va"
      then show "pte_addr u 0 wa = pte_addr t 0 va"
        using Some w wk_vpn [OF eq, of 2 m root] vpn_PX [OF eq, of 0] by (simp add: pte_addr_def)
    next
      assume "pte_addr u 0 wa = pte_addr t 0 va"
      then have "u = t" "idx 0 wa = idx 0 va" using pte_addr_inj [OF alu al] by blast+
      then show "vpn wa = vpn va" using own_u own_t by (simp add: vpn_eq_idx [OF wa va])
    qed
    have "load64 m' (pte_addr u 0 wa) =
        (if pte_addr t 0 va = pte_addr u 0 wa then v else load64 m (pte_addr u 0 wa))"
      unfolding m'_def by (rule load64_store64) (simp_all add: pte_addr_page al alu)
    then show ?thesis using Some w' iff by (simp add: pte_of_def pte_from_def)
  qed
qed

text \<open>A fresh zeroed page linked at an invalid entry of an upper table.\<close>

lemma load64_memset0:
  assumes "page_aligned q" "i < 512"
  shows "load64 (memset m q 0 4096) (q + 8 * of_nat i) = 0"
proof -
  have "load_bytes (store_bytes m q (replicate 4096 0)) (q + of_nat (8 * i)) 8 =
      take 8 (drop (8 * i) (replicate 4096 0))"
    using assms(2) by (intro load_store_sub) simp_all
  then have "load_bytes (memset m q 0 4096) (q + 8 * of_nat i) 8 = replicate 8 0"
    using assms(2) by (simp add: memset_eq)
  then show ?thesis by (simp add: load64_def le_word_zeros)
qed

lemma PTE2PA_link: "page_aligned q \<Longrightarrow> PTE2PA (PA2PTE q OR PTE_V) = q"
  by (rule PTE2PA_or) (simp_all add: PTE_V_def)

lemma pte_bits:
  "bit PTE_V n \<longleftrightarrow> n = 0" "bit PTE_R n \<longleftrightarrow> n = 1" "bit PTE_W n \<longleftrightarrow> n = 2" "bit PTE_X n \<longleftrightarrow> n = 3"
  "bit PTE_U n \<longleftrightarrow> n = 4"
  unfolding pte_bit_defs bit_push_bit_iff bit_1_iff by auto

lemma link_not_leaf: "(PA2PTE q OR PTE_V) AND (PTE_R OR PTE_W OR PTE_X) = 0"
proof (rule bit_word_eqI)
  fix n
  show "bit ((PA2PTE q OR PTE_V) AND (PTE_R OR PTE_W OR PTE_X)) n = bit (0 :: uint64) n"
    by (auto simp: bit_and_iff bit_or_iff pte_bits PA2PTE_def bit_push_bit_iff)
qed

definition linked :: "memory \<Rightarrow> uint64 \<Rightarrow> nat \<Rightarrow> uint64 \<Rightarrow> memory" where
  "linked m p i q = store64 (memset m q 0 4096) (p + 8 * of_nat i) (PA2PTE q OR PTE_V)"

definition linkable ::
  "memory \<Rightarrow> uint64 \<Rightarrow> (uint64 \<rightharpoonup> nat \<times> nat) \<Rightarrow> uint64 \<Rightarrow> nat \<Rightarrow> nat \<Rightarrow> nat \<Rightarrow> uint64 \<Rightarrow> bool" where
  "linkable m root own p l k i q \<longleftrightarrow> pt_ok m root own \<and> own p = Some (Suc l, k) \<and> i < 512 \<and>
     \<not> valid (load64 m (p + 8 * of_nat i)) \<and> own q = None \<and> page_aligned q \<and> q \<noteq> 0"

lemma linkableD:
  assumes "linkable m root own p l k i q"
  shows "pt_ok m root own" "own p = Some (Suc l, k)" "i < 512"
    "\<not> valid (load64 m (p + 8 * of_nat i))" "own q = None" "page_aligned q" "q \<noteq> 0"
    "page_aligned p" "p \<noteq> q"
  using assms pt_ok_page [of m root own p] by (auto simp: linkable_def)

lemma link_agree:
  assumes "linkable m root own p l k i q"
  shows "agree (- {p, q}) m (linked m p i q)"
proof -
  note L = linkableD [OF assms]
  have "agree (- {q}) m (memset m q 0 4096)" by (rule memset_page [OF L(6)])
  moreover have "agree (- {p}) (memset m q 0 4096) (linked m p i q)"
    unfolding linked_def by (rule store64_agree [OF slot_page(2,1) [OF L(8,3)]])
  ultimately show ?thesis by (auto simp: agree_def)
qed

lemma link_load:
  assumes "linkable m root own p l k i q" "own x = Some y" "j < 512"
  shows "load64 (linked m p i q) (x + 8 * of_nat j) =
    (if x = p \<and> j = i then PA2PTE q OR PTE_V else load64 m (x + 8 * of_nat j))"
proof -
  note L = linkableD [OF assms(1)]
  have x: "page_aligned x" "x \<noteq> q" using pt_ok_page [OF L(1) assms(2)] assms(2) L by auto
  note sx = slot_page [OF x(1) assms(3)]
  have "load64 (linked m p i q) (x + 8 * of_nat j) = (if p + 8 * of_nat i = x + 8 * of_nat j
      then PA2PTE q OR PTE_V else load64 (memset m q 0 4096) (x + 8 * of_nat j))"
    unfolding linked_def by (rule load64_store64 [OF slot_page(2) [OF L(8,3)] sx(2)])
  moreover have "load64 (memset m q 0 4096) (x + 8 * of_nat j) = load64 m (x + 8 * of_nat j)"
    by (rule load64_agree [OF memset_page [OF L(6)] sx(2)]) (use x sx in simp)
  moreover have "p + 8 * of_nat i = x + 8 * of_nat j \<longleftrightarrow> x = p \<and> j = i"
    using slot_inj [OF L(8) x(1) L(3) assms(3)] by auto
  ultimately show ?thesis by simp
qed

lemma link_load_new:
  assumes "linkable m root own p l k i q" "j < 512"
  shows "load64 (linked m p i q) (q + 8 * of_nat j) = 0"
proof -
  note L = linkableD [OF assms(1)]
  note sq = slot_page [OF L(6) assms(2)]
  have "load64 (linked m p i q) (q + 8 * of_nat j) = load64 (memset m q 0 4096) (q + 8 * of_nat j)"
    unfolding linked_def
    by (rule load64_agree [OF store64_agree [OF slot_page(2,1) [OF L(8,3)]] sq(2)])
      (use L sq in simp)
  then show ?thesis using load64_memset0 [OF L(6) assms(2)] by simp
qed

lemma link_pt_ok:
  assumes L: "linkable m root own p l k i q"
  shows "pt_ok (linked m p i q) root (own(q \<mapsto> (l, k * 512 + i)))"
proof -
  note D = linkableD [OF L]
  have "(own(q \<mapsto> (l, k * 512 + i))) (PTE2PA (load64 (linked m p i q) (x + 8 * of_nat j))) =
      Some (lx, kx * 512 + j) \<and>
      load64 (linked m p i q) (x + 8 * of_nat j) AND (PTE_R OR PTE_W OR PTE_X) = 0"
    if x: "(own(q \<mapsto> (l, k * 512 + i))) x = Some (Suc lx, kx)" "j < 512"
      "valid (load64 (linked m p i q) (x + 8 * of_nat j))" for x lx kx j
  proof (cases "x = q")
    case True
    then show ?thesis using x link_load_new [OF L] by simp
  next
    case False
    with x(1) have own_x: "own x = Some (Suc lx, kx)" by simp
    show ?thesis
    proof (cases "x = p \<and> j = i")
      case True
      with own_x D have "lx = l" "kx = k" by auto
      with True show ?thesis
        using link_load [OF L own_x x(2)] by (simp add: PTE2PA_link [OF D(6)] link_not_leaf)
    next
      case False
      then have e: "load64 (linked m p i q) (x + 8 * of_nat j) = load64 m (x + 8 * of_nat j)"
        using link_load [OF L own_x x(2)] by auto
      then have "own (PTE2PA (load64 m (x + 8 * of_nat j))) = Some (lx, kx * 512 + j) \<and>
          load64 m (x + 8 * of_nat j) AND (PTE_R OR PTE_W OR PTE_X) = 0"
        using D(1) own_x x(2,3) unfolding pt_ok_def by simp
      with e D(5) show ?thesis by auto
    qed
  qed
  then show ?thesis using D pt_ok_root [OF D(1)] unfolding pt_ok_def by auto
qed

lemma pte_from_new:
  assumes "linkable m root own p l k i q"
  shows "pte_from j (linked m p i q) q va = 0"
  using link_load_new [OF assms idx_bound, of j va]
  by (cases j) (simp_all add: pte_from_simps pte_addr_idx Let_def)

lemma link_pte_from:
  assumes L: "linkable m root own p l k i q"
  shows "own x = Some (j, kx) \<Longrightarrow> pte_from j (linked m p i q) x va = pte_from j m x va"
proof (induction j arbitrary: x kx)
  case 0
  then have "\<not> (x = p \<and> idx 0 va = i)" using linkableD(2) [OF L] by auto
  then have "load64 (linked m p i q) (x + 8 * of_nat (idx 0 va)) = load64 m (x + 8 * of_nat (idx 0 va))"
    using link_load [OF L 0 idx_bound [of 0 va]] by auto
  then show ?case by (simp add: pte_from_simps pte_addr_idx)
next
  case (Suc j)
  note load = link_load [OF L Suc.prems idx_bound [of "Suc j" va]]
  show ?case
  proof (cases "x = p \<and> idx (Suc j) va = i")
    case True
    with load have "load64 (linked m p i q) (pte_addr x (Suc j) va) = PA2PTE q OR PTE_V"
      by (simp add: pte_addr_idx)
    then have "pte_from (Suc j) (linked m p i q) x va = 0"
      by (simp add: pte_from_simps Let_def PTE2PA_link [OF linkableD(6) [OF L]] pte_from_new [OF L])
    moreover have "pte_from (Suc j) m x va = 0"
      using True linkableD(4) [OF L] by (simp add: pte_from_simps Let_def pte_addr_idx)
    ultimately show ?thesis by simp
  next
    case False
    with load have "load64 (linked m p i q) (pte_addr x (Suc j) va) = load64 m (pte_addr x (Suc j) va)"
      by (auto simp: pte_addr_idx)
    then show ?thesis using Suc.IH [OF pt_ok_child [OF linkableD(1) [OF L] Suc.prems]]
      by (simp add: pte_from_simps Let_def)
  qed
qed

lemma link_pte_of:
  assumes "linkable m root own p l k i q"
  shows "pte_of (linked m p i q) root va = pte_of m root va"
  unfolding pte_of_def by (rule link_pte_from [OF assms pt_ok_root [OF linkableD(1) [OF assms]]])

section \<open>Walking\<close>

lemma walk_levels_look:
  "walk_levels l p va False s =
     Ret (case wk l (mem s) p va of None \<Rightarrow> 0 | Some t \<Rightarrow> pte_addr t 0 va) s"
  by (induction l arbitrary: p) (simp_all add: kop_simps valid_def Let_def)

lemma walk_look:
  assumes "va < MAXVA"
  shows "walk root va False s =
    Ret (case wk 2 (mem s) root va of None \<Rightarrow> 0 | Some t \<Rightarrow> pte_addr t 0 va) s"
proof -
  have "\<not> MAXVA \<le> va" using assms by simp
  then show ?thesis by (simp add: walk_def walk_levels_look)
qed

text \<open>
  The invariant of a page table in a kernel state: the tables are well formed, their pages come
  from the allocator and are not free.
\<close>

definition vm_inv :: "'z kmem_state_scheme \<Rightarrow> pagetable_t \<Rightarrow> (uint64 \<rightharpoonup> nat \<times> nat) \<Rightarrow> uint64 list \<Rightarrow> bool" where
  "vm_inv s root own ps \<longleftrightarrow> pt_ok (mem s) root own \<and> kmem_pool s ps \<and> dom own \<inter> set ps = {} \<and>
     (\<forall>p\<in>dom own. page_ok (kend s) p)"

definition keeps :: "(uint64 \<rightharpoonup> nat \<times> nat) \<Rightarrow> memory \<Rightarrow> memory \<Rightarrow> bool" where
  "keeps own m m' \<longleftrightarrow> (\<forall>x j c i. own x = Some (Suc j, c) \<longrightarrow> i < 512 \<longrightarrow>
     valid (load64 m (x + 8 * of_nat i)) \<longrightarrow> load64 m' (x + 8 * of_nat i) = load64 m (x + 8 * of_nat i))"

text \<open>
  From \<open>s\<close> to \<open>t\<close> the tables grew by at most \<open>n\<close> pages taken from the free list; what they say and
  all memory outside them and the free list stayed.
\<close>

definition grow where
  "grow n root s own ps t own' ps' \<longleftrightarrow> vm_inv t root own' ps' \<and> kframe s t \<and> own \<subseteq>\<^sub>m own' \<and>
     dom own' \<union> set ps' = dom own \<union> set ps \<and> agree (- (dom own \<union> set ps)) (mem s) (mem t) \<and>
     keeps own (mem s) (mem t) \<and> (\<forall>wa. pte_of (mem t) root wa = pte_of (mem s) root wa) \<and>
     length ps \<le> length ps' + n"

lemma grow_refl: "vm_inv s root own ps \<Longrightarrow> grow 0 root s own ps s own ps"
  by (simp add: grow_def keeps_def)

lemma grow_trans:
  assumes "grow n root s own ps t own' ps'" "grow k root t own' ps' u own'' ps''"
  shows "grow (k + n) root s own ps u own'' ps''"
proof -
  have "keeps own (mem s) (mem u)"
    unfolding keeps_def
  proof (intro allI impI)
    fix x j c i
    assume x: "own x = Some (Suc j, c)" "i < 512" "valid (load64 (mem s) (x + 8 * of_nat i))"
    then have st: "load64 (mem t) (x + 8 * of_nat i) = load64 (mem s) (x + 8 * of_nat i)"
      using assms(1) unfolding grow_def keeps_def by blast
    have "own' x = Some (Suc j, c)" using assms(1) x(1) by (auto simp: grow_def map_le_def dom_def)
    then have "load64 (mem u) (x + 8 * of_nat i) = load64 (mem t) (x + 8 * of_nat i)"
      using assms(2) x(2,3) st unfolding grow_def keeps_def by metis
    with st show "load64 (mem u) (x + 8 * of_nat i) = load64 (mem s) (x + 8 * of_nat i)" by simp
  qed
  then show ?thesis using assms unfolding grow_def
    by (auto intro: kframe_trans agree_trans map_le_trans)
qed

lemma kmem_pool_mem:
  "kmem_pool s ps \<Longrightarrow> agree (set ps) (mem s) m' \<Longrightarrow> kmem_pool (s\<lparr>mem := m'\<rparr>) ps"
  by (simp add: kmem_pool_def kmem_inv_mem state_simps)

lemma kmem_pool_hd:
  assumes "kmem_pool s (q # ps)"
  shows "page_ok (kend s) q" "page_aligned q" "q \<noteq> 0" "q \<notin> set ps"
  using assms kmem_inv_kalloc(2,3) [of s q ps]
  by (auto simp: kmem_pool_def page_ok_def kmem_inv_def)

lemma grow_link:
  assumes inv: "vm_inv s root own (q # ps)" and p: "own p = Some (Suc l, k)" and i: "i < 512"
    and nv: "\<not> valid (load64 (mem s) (p + 8 * of_nat i))"
  defines "s1 \<equiv> after_kalloc q s"
  defines "t \<equiv> s1\<lparr>mem := linked (mem s1) p i q\<rparr>"
  shows "grow 1 root s own (q # ps) t (own(q \<mapsto> (l, k * 512 + i))) ps"
proof -
  have ok: "pt_ok (mem s) root own" and pool: "kmem_pool s (q # ps)"
    and disj: "dom own \<inter> set (q # ps) = {}" and rng: "\<forall>p\<in>dom own. page_ok (kend s) p"
    using inv by (auto simp: vm_inv_def)
  note q = kmem_pool_hd [OF pool]
  have a1: "agree (- {q}) (mem s) (mem s1)" unfolding s1_def by (rule after_kalloc_agree [OF q(2)])
  have qn: "own q = None" using disj by (auto simp: domIff)
  then have dq: "dom own \<subseteq> - {q}" by auto
  note f = pt_frame [OF ok agree_mono [OF a1 dq]]
  have alp: "page_aligned p" using pt_ok_page [OF ok p] by simp
  have "load64 (mem s1) (p + 8 * of_nat i) = load64 (mem s) (p + 8 * of_nat i)"
    by (rule load64_agree [OF a1 slot_page(2) [OF alp i]]) (use slot_page(1) [OF alp i] p qn in auto)
  then have L: "linkable (mem s1) root own p l k i q"
    using f(1) p i nv qn q by (simp add: linkable_def)
  have a2: "agree (- {p, q}) (mem s1) (mem t)" unfolding t_def using link_agree [OF L] by simp
  have a12: "agree (- {p, q}) (mem s) (mem t)"
    using a1 a2 by (auto simp: agree_def)
  have pool_t: "kmem_pool t ps"
    unfolding t_def
  proof (rule kmem_pool_mem)
    show "kmem_pool s1 ps" unfolding s1_def by (rule kalloc_pool(2) [OF pool])
    show "agree (set ps) (mem s1) (linked (mem s1) p i q)"
      using disj p q(4) by (intro agree_mono [OF link_agree [OF L]]) auto
  qed
  have "vm_inv t root (own(q \<mapsto> (l, k * 512 + i))) ps"
    using link_pt_ok [OF L] pool_t disj q rng
    by (auto simp: vm_inv_def t_def s1_def state_simps)
  moreover have "kframe s t" unfolding t_def s1_def by (rule kframe_trans [OF kframe_kalloc kframe_mem])
  moreover have "own \<subseteq>\<^sub>m own(q \<mapsto> (l, k * 512 + i))" using qn by (auto simp: map_le_def)
  moreover have "agree (- (dom own \<union> set (q # ps))) (mem s) (mem t)"
    using p by (intro agree_mono [OF a12]) auto
  moreover have "keeps own (mem s) (mem t)"
    unfolding keeps_def
  proof (intro allI impI)
    fix x j c h
    assume x: "own x = Some (Suc j, c)" "h < 512" "valid (load64 (mem s) (x + 8 * of_nat h))"
    have alx: "page_aligned x" using pt_ok_page [OF ok x(1)] by simp
    have e: "load64 (mem s1) (x + 8 * of_nat h) = load64 (mem s) (x + 8 * of_nat h)"
      by (rule load64_agree [OF a1 slot_page(2) [OF alx x(2)]])
        (use slot_page(1) [OF alx x(2)] x qn in auto)
    have "\<not> (x = p \<and> h = i)" using x(3) nv by auto
    then show "load64 (mem t) (x + 8 * of_nat h) = load64 (mem s) (x + 8 * of_nat h)"
      using link_load [OF L x(1,2)] e by (auto simp: t_def)
  qed
  moreover have "\<forall>wa. pte_of (mem t) root wa = pte_of (mem s) root wa"
    using link_pte_of [OF L] f(2) by (simp add: t_def)
  ultimately show ?thesis by (auto simp: grow_def)
qed

lemma walk_levels_alloc:
  assumes "vm_inv s root own ps" "own p = Some (l, k)"
  shows "\<exists>r t own' ps'. walk_levels l p va True s = Ret r t \<and> grow l root s own ps t own' ps' \<and>
    (if r = 0 then ps' = [] \<and> length ps < l
     else \<exists>tb. r = pte_addr tb 0 va \<and> wk l (mem t) p va = Some tb)"
  using assms
proof (induction l arbitrary: p k s own ps)
  case 0
  have "page_aligned p" "p \<noteq> 0"
    using 0 pt_ok_page [of "mem s" root own p] by (auto simp: vm_inv_def)
  then have "pte_addr p 0 va \<noteq> 0" by (rule pte_addr_nonzero)
  then show ?case using grow_refl [OF 0(1)] by (auto simp: kop_simps)
next
  case (Suc l)
  have ok: "pt_ok (mem s) root own" using Suc.prems(1) by (simp add: vm_inv_def)
  let ?e = "load64 (mem s) (pte_addr p (Suc l) va)"
  have step: "\<exists>r t own' ps'. walk_levels l c va True u = Ret r t \<and>
      grow (Suc l) root s own ps t own' ps' \<and>
      (if r = 0 then ps' = [] \<and> length ps < Suc l
       else \<exists>tb. r = pte_addr tb 0 va \<and> wk (Suc l) (mem t) p va = Some tb)"
    if g: "grow n root s own ps u ownu psu" "n \<le> 1" "length ps = length psu + n"
      and c: "ownu c = Some (l, kc)"
      and e: "valid (load64 (mem u) (pte_addr p (Suc l) va))"
        "PTE2PA (load64 (mem u) (pte_addr p (Suc l) va)) = c" for u n ownu psu c kc
  proof -
    have "vm_inv u root ownu psu" using g(1) by (simp add: grow_def)
    from Suc.IH [OF this c] obtain r t own' ps' where
      t: "walk_levels l c va True u = Ret r t" "grow l root u ownu psu t own' ps'"
        "if r = 0 then ps' = [] \<and> length psu < l
         else \<exists>tb. r = pte_addr tb 0 va \<and> wk l (mem t) c va = Some tb" by blast
    have gt: "grow (l + n) root s own ps t own' ps'" by (rule grow_trans [OF g(1) t(2)])
    have "ownu p = Some (Suc l, k)"
      using g(1) Suc.prems(2) by (auto simp: grow_def map_le_def dom_def)
    then have "load64 (mem t) (pte_addr p (Suc l) va) = load64 (mem u) (pte_addr p (Suc l) va)"
      using t(2) e(1) idx_bound [of "Suc l" va] unfolding grow_def keeps_def pte_addr_idx by blast
    then have "wk (Suc l) (mem t) p va = wk l (mem t) c va" using e by (simp add: Let_def)
    moreover have "grow (Suc l) root s own ps t own' ps'" using gt g(2) by (auto simp: grow_def)
    ultimately show ?thesis using t(1,3) g(2,3) by (auto split: if_splits)
  qed
  show ?case
  proof (cases "valid ?e")
    case True
    have "walk_levels (Suc l) p va True s = walk_levels l (PTE2PA ?e) va True s"
      using True by (simp add: kop_simps valid_def)
    then show ?thesis
      using step [OF grow_refl [OF Suc.prems(1)] _ _ pt_ok_child [OF ok Suc.prems(2) True]] True
      by simp
  next
    case False
    have pool: "kmem_pool s ps" using Suc.prems(1) by (simp add: vm_inv_def)
    show ?thesis
    proof (cases ps)
      case Nil
      have "walk_levels (Suc l) p va True s = Ret 0 (tch s)"
        using False pool Nil kalloc_pool_empty [of s] by (simp add: kop_simps valid_def)
      moreover have "grow (Suc l) root s own ps (tch s) own ps"
        using Suc.prems(1) pool Nil kalloc_pool_empty [of s]
        by (simp add: grow_def vm_inv_def state_simps keeps_def)
      ultimately show ?thesis using Nil by auto
    next
      case (Cons q qs)
      define s1 where "s1 = after_kalloc q s"
      define u where "u = s1\<lparr>mem := linked (mem s1) p (idx (Suc l) va) q\<rparr>"
      note q = kmem_pool_hd [OF pool [unfolded Cons]]
      have g: "grow 1 root s own ps u (own(q \<mapsto> (l, k * 512 + idx (Suc l) va))) qs"
        unfolding u_def s1_def Cons
        by (rule grow_link [OF Suc.prems(1) [unfolded Cons] Suc.prems(2) idx_bound])
          (use False in \<open>simp add: pte_addr_idx\<close>)
      have alp: "page_aligned p" using pt_ok_page [OF ok Suc.prems(2)] by simp
      have e: "load64 (mem u) (pte_addr p (Suc l) va) = PA2PTE q OR PTE_V"
        unfolding u_def linked_def pte_addr_idx
        using slot_page(2) [OF alp idx_bound [of "Suc l" va]] by (simp add: load64_store64)
      have "walk_levels (Suc l) p va True s = walk_levels l q va True u"
        using False kalloc_pool(1) [OF pool [unfolded Cons]] q(3)
        by (simp add: kop_simps valid_def u_def s1_def linked_def pte_addr_idx PGSIZE_def)
      then show ?thesis
        using step [OF g _ _ _, of q "k * 512 + idx (Suc l) va"] e Cons
        by (simp add: valid_or PTE2PA_link [OF q(2)])
    qed
  qed
qed

lemma walk_alloc:
  assumes "vm_inv s root own ps" "va < MAXVA"
  shows "\<exists>r t own' ps'. walk root va True s = Ret r t \<and> grow 2 root s own ps t own' ps' \<and>
    (if r = 0 then ps' = [] \<and> length ps < 2
     else \<exists>tb. r = pte_addr tb 0 va \<and> wk 2 (mem t) root va = Some tb)"
proof -
  have "\<not> MAXVA \<le> va" using assms(2) by simp
  moreover have "own root = Some (2, 0)" using assms(1) pt_ok_root by (auto simp: vm_inv_def)
  ultimately show ?thesis
    using walk_levels_alloc [OF assms(1), of root 2 0 va] by (simp add: walk_def)
qed

section \<open>Mapping pages\<close>

text \<open>
  From \<open>s\<close> to \<open>t\<close> pages may have moved from the free list into the tables, and memory outside both
  is unchanged.
\<close>

definition evolve where
  "evolve root s own ps t own' ps' \<longleftrightarrow> vm_inv t root own' ps' \<and> kframe s t \<and> own \<subseteq>\<^sub>m own' \<and>
     dom own' \<union> set ps' = dom own \<union> set ps \<and> agree (- (dom own \<union> set ps)) (mem s) (mem t)"

lemma evolve_refl: "vm_inv s root own ps \<Longrightarrow> evolve root s own ps s own ps"
  by (simp add: evolve_def)

lemma evolve_trans:
  "evolve root s own ps t own' ps' \<Longrightarrow> evolve root t own' ps' u own'' ps'' \<Longrightarrow>
   evolve root s own ps u own'' ps''"
  unfolding evolve_def by (auto intro: kframe_trans agree_trans map_le_trans)

lemma grow_evolve: "grow n root s own ps t own' ps' \<Longrightarrow> evolve root s own ps t own' ps'"
  by (simp add: grow_def evolve_def)

lemma leaf_update:
  fixes v :: pte_t
  assumes inv: "vm_inv s root own ps" and w: "wk 2 (mem s) root va = Some tb" and va: "va < MAXVA"
  defines "t \<equiv> s\<lparr>mem := store64 (mem s) (pte_addr tb 0 va) v\<rparr>"
  shows "evolve root s own ps t own ps"
    and "wa < MAXVA \<Longrightarrow>
      pte_of (mem t) root wa = (if vpn wa = vpn va then v else pte_of (mem s) root wa)"
proof -
  have ok: "pt_ok (mem s) root own" using inv by (simp add: vm_inv_def)
  note own_tb = wk_root_own [OF ok w]
  have al: "page_aligned tb" using pt_ok_page [OF ok own_tb] by simp
  have ag: "agree (- {tb}) (mem s) (mem t)"
    unfolding t_def using store64_agree [OF pte_addr_page(2,1) [OF al]] by simp
  have "agree (set ps) (mem s) (mem t)"
    using inv own_tb by (intro agree_mono [OF ag]) (auto simp: vm_inv_def)
  then have "kmem_pool t ps"
    using inv kmem_pool_mem [of s ps "mem t"] by (simp add: vm_inv_def t_def)
  moreover have "agree (- (dom own \<union> set ps)) (mem s) (mem t)"
    using own_tb by (intro agree_mono [OF ag]) auto
  ultimately show "evolve root s own ps t own ps"
    using inv leaf_store(1) [OF ok w va, of v] by (auto simp: evolve_def vm_inv_def t_def)
  show "wa < MAXVA \<Longrightarrow>
      pte_of (mem t) root wa = (if vpn wa = vpn va then v else pte_of (mem s) root wa)"
    using leaf_store(2) [OF ok w va] by (simp add: t_def)
qed

text \<open>The distance of \<open>n\<close> pages.\<close>

definition pgs :: "nat \<Rightarrow> uint64" where
  "pgs n = of_nat (4096 * n)"

lemma pgs_0 [simp]: "pgs 0 = 0"
  by (simp add: pgs_def)

lemma pgs_Suc: "pgs (Suc n) = PGSIZE + pgs n"
  by (simp add: pgs_def PGSIZE_def)

lemma unat_pgs: "4096 * n < 2 ^ 64 \<Longrightarrow> unat (pgs n) = 4096 * n"
  unfolding pgs_def unat_of_nat by simp

definition map_range ::
  "(uint64 \<Rightarrow> pte_t) \<Rightarrow> uint64 \<Rightarrow> nat \<Rightarrow> uint64 \<Rightarrow> uint64 \<Rightarrow> uint64 \<Rightarrow> pte_t" where
  "map_range f va n pa perm = (\<lambda>wa. if vpn va \<le> vpn wa \<and> vpn wa < vpn va + n
     then PA2PTE (pa + pgs (vpn wa - vpn va)) OR perm OR PTE_V else f wa)"

lemma map_range_0 [simp]: "map_range f va 0 pa perm = f"
  by (rule ext) (auto simp: map_range_def)

lemma vpn_step: "unat a + 4096 < 2 ^ 64 \<Longrightarrow> vpn (a + PGSIZE) = Suc (vpn a)"
proof -
  assume "unat a + 4096 < 2 ^ 64"
  then have "unat (a + PGSIZE) = unat a + 4096" by (simp add: PGSIZE_def unat_word_ariths)
  then show ?thesis by (simp add: vpn_def)
qed

lemma map_range_step:
  assumes "unat a + 4096 < 2 ^ 64"
  shows "map_range (map_range f a 1 pa perm) (a + PGSIZE) n (pa + PGSIZE) perm =
    map_range f a (Suc n) pa perm"
proof
  fix wa
  show "map_range (map_range f a 1 pa perm) (a + PGSIZE) n (pa + PGSIZE) perm wa =
      map_range f a (Suc n) pa perm wa"
  proof (cases "Suc (vpn a) \<le> vpn wa")
    case True
    then have "vpn wa - vpn a = Suc (vpn wa - Suc (vpn a))" by simp
    then have "pa + pgs (vpn wa - vpn a) = pa + PGSIZE + pgs (vpn wa - Suc (vpn a))"
      by (simp add: pgs_Suc add.assoc)
    with True show ?thesis unfolding map_range_def vpn_step [OF assms] by (simp add: add.assoc)
  next
    case False
    then have "vpn wa = vpn a \<or> vpn wa < vpn a" by auto
    then show ?thesis unfolding map_range_def vpn_step [OF assms] by auto
  qed
qed

text \<open>One round of the loop of \<open>mappages\<close>: either no table page could be allocated, or the entry
  is stored.\<close>

lemma map_one:
  fixes pa perm :: uint64
  assumes "vm_inv s root own ps" "a < MAXVA" "\<not> valid (pte_of (mem s) root a)"
  obtains (oom) t own' where "walk root a True s = Ret 0 t" "evolve root s own ps t own' []"
      "length ps < 2" "\<forall>wa. pte_of (mem t) root wa = pte_of (mem s) root wa"
  | (ok) r t u own' ps' where "walk root a True s = Ret r t" "r \<noteq> 0" "\<not> valid (load64 (mem t) r)"
      "u = t\<lparr>mem := store64 (mem t) r (PA2PTE pa OR perm OR PTE_V)\<rparr>"
      "evolve root s own ps u own' ps'" "length ps \<le> length ps' + 2"
      "\<forall>wa. wa < MAXVA \<longrightarrow> pte_of (mem u) root wa = map_range (pte_of (mem s) root) a 1 pa perm wa"
proof -
  from walk_alloc [OF assms(1,2)] obtain r t own' ps' where
    t: "walk root a True s = Ret r t" "grow 2 root s own ps t own' ps'"
      "if r = 0 then ps' = [] \<and> length ps < 2
       else \<exists>tb. r = pte_addr tb 0 a \<and> wk 2 (mem t) root a = Some tb" by blast
  have g: "length ps \<le> length ps' + 2" "\<forall>wa. pte_of (mem t) root wa = pte_of (mem s) root wa"
    "vm_inv t root own' ps'" using t(2) by (simp_all add: grow_def)
  show ?thesis
  proof (cases "r = 0")
    case True
    with t g grow_evolve [OF t(2)] show ?thesis by (intro oom [of t own']) auto
  next
    case False
    then obtain tb where tb: "r = pte_addr tb 0 a" "wk 2 (mem t) root a = Some tb" using t(3) by auto
    note up = leaf_update [OF g(3) tb(2) assms(2), where v = "PA2PTE pa OR perm OR PTE_V"]
    have "load64 (mem t) r = pte_of (mem t) root a" using tb by (simp add: pte_of_def pte_from_def)
    then have "load64 (mem t) r = pte_of (mem s) root a" using g(2) by simp
    then have "\<not> valid (load64 (mem t) r)" using assms(3) by simp
    moreover have "pte_of (store64 (mem t) r (PA2PTE pa OR perm OR PTE_V)) root wa =
        map_range (pte_of (mem s) root) a 1 pa perm wa" if "wa < MAXVA" for wa
      using up(2) [OF that] g(2) tb(1) by (auto simp: map_range_def)
    ultimately show ?thesis
      using t(1) False g(1) evolve_trans [OF grow_evolve [OF t(2)] up(1)] tb(1)
      by (intro ok [of r t _ own' ps']) auto
  qed
qed

lemma mappages_loop_ok:
  assumes "vm_inv s root own ps" "unat a + 4096 * n < 2 ^ 38" "page_aligned a"
    and "\<forall>wa. wa < MAXVA \<longrightarrow> vpn a \<le> vpn wa \<longrightarrow> vpn wa \<le> vpn a + n \<longrightarrow>
      \<not> valid (pte_of (mem s) root wa)"
  shows "\<exists>j t own' ps'.
    mappages_loop n root a (a + pgs n) pa perm s = Ret (if j = Suc n then 0 else - 1) t \<and>
    j \<le> Suc n \<and> evolve root s own ps t own' ps' \<and>
    (\<forall>wa. wa < MAXVA \<longrightarrow> pte_of (mem t) root wa = map_range (pte_of (mem s) root) a j pa perm wa) \<and>
    length ps \<le> length ps' + 2 * Suc n \<and> (j \<noteq> Suc n \<longrightarrow> ps' = [] \<and> length ps < 2 * Suc n)"
  using assms
proof (induction n arbitrary: a pa s own ps)
  case (0 a pa s own ps)
  have a: "a < MAXVA" using 0 by (simp add: word_less_nat_alt unat_MAXVA)
  have nv: "\<not> valid (pte_of (mem s) root a)" using 0(4) a by simp
  from 0(1) a nv show ?case
  proof (cases rule: map_one [where pa = pa and perm = perm])
    case (oom t own')
    then show ?thesis
      by (intro exI [of _ 0] exI [of _ t] exI [of _ own'] exI [of _ "[]"])
        (subst mappages_loop.simps, simp add: kop_simps)
  next
    case (ok r t u own' ps')
    then show ?thesis
      by (intro exI [of _ 1] exI [of _ u] exI [of _ own'] exI [of _ ps'])
        (subst mappages_loop.simps, simp add: kop_simps valid_def)
  qed
next
  case (Suc n a pa s own ps)
  have a: "a < MAXVA" using Suc.prems(2) by (simp add: word_less_nat_alt unat_MAXVA)
  have nv: "\<not> valid (pte_of (mem s) root a)" using Suc.prems(4) a by simp
  have un: "unat a + 4096 < 2 ^ 64" using Suc.prems(2) by simp
  have last': "a + PGSIZE + pgs n = a + pgs (Suc n)"
    by (simp add: pgs_Suc add.assoc)
  have "unat (pgs (Suc n)) \<noteq> 0" using Suc.prems(2) by (subst unat_pgs) simp_all
  then have ne: "a \<noteq> a + pgs (Suc n)" by auto
  from Suc.prems(1) a nv show ?case
  proof (cases rule: map_one [where pa = pa and perm = perm])
    case (oom t own')
    then show ?thesis
      by (intro exI [of _ 0] exI [of _ t] exI [of _ own'] exI [of _ "[]"])
        (subst mappages_loop.simps, simp add: kop_simps)
  next
    case (ok r t u own' ps')
    have inv_u: "vm_inv u root own' ps'" using ok(5) by (simp add: evolve_def)
    have step: "mappages_loop (Suc n) root a (a + pgs (Suc n)) pa perm s =
        mappages_loop n root (a + PGSIZE) (a + PGSIZE + pgs n) (pa + PGSIZE) perm u"
      using ok(1-4) ne by (subst mappages_loop.simps) (simp add: kop_simps valid_def last')
    have "unat (a + PGSIZE) = unat a + 4096" using un by (simp add: PGSIZE_def unat_word_ariths)
    then have b: "unat (a + PGSIZE) + 4096 * n < 2 ^ 38" "page_aligned (a + PGSIZE)"
      using Suc.prems(2,3) by (simp_all add: page_aligned_def)
    have "\<forall>wa. wa < MAXVA \<longrightarrow> vpn (a + PGSIZE) \<le> vpn wa \<longrightarrow> vpn wa \<le> vpn (a + PGSIZE) + n \<longrightarrow>
        \<not> valid (pte_of (mem u) root wa)"
      using Suc.prems(4) ok(7) by (auto simp: vpn_step [OF un] map_range_def)
    from Suc.IH [OF inv_u b this, of "pa + PGSIZE"] obtain j v own'' ps'' where
      v: "mappages_loop n root (a + PGSIZE) (a + PGSIZE + pgs n) (pa + PGSIZE) perm u =
          Ret (if j = Suc n then 0 else - 1) v" "j \<le> Suc n"
        "evolve root u own' ps' v own'' ps''"
        "\<forall>wa. wa < MAXVA \<longrightarrow> pte_of (mem v) root wa =
           map_range (pte_of (mem u) root) (a + PGSIZE) j (pa + PGSIZE) perm wa"
        "length ps' \<le> length ps'' + 2 * Suc n"
        "j \<noteq> Suc n \<longrightarrow> ps'' = [] \<and> length ps' < 2 * Suc n" by blast
    have "pte_of (mem v) root wa = map_range (pte_of (mem s) root) a (Suc j) pa perm wa"
      if w: "wa < MAXVA" for wa
    proof -
      have "pte_of (mem v) root wa =
          map_range (map_range (pte_of (mem s) root) a 1 pa perm) (a + PGSIZE) j (pa + PGSIZE) perm wa"
        using v(4) w ok(7) by (simp add: map_range_def)
      then show ?thesis unfolding map_range_step [OF un] .
    qed
    moreover have "length ps \<le> length ps'' + 2 * Suc (Suc n)" using v(5) ok(6) by simp
    moreover have "Suc j \<noteq> Suc (Suc n) \<longrightarrow> ps'' = [] \<and> length ps < 2 * Suc (Suc n)"
      using v(6) ok(6) by auto
    ultimately show ?thesis using step v(1,2) evolve_trans [OF ok(5) v(3)]
      by (intro exI [of _ "Suc j"] exI [of _ v] exI [of _ own''] exI [of _ ps'']) simp
  qed
qed

lemma aligned_pgs:
  assumes "page_aligned a" "page_aligned b" "unat a \<le> unat b"
  shows "b = a + pgs (unat (b - a) div 4096)" "unat (b - a) div 4096 = vpn b - vpn a"
    "unat a + 4096 * (unat (b - a) div 4096) = unat b"
proof -
  define n where "n = (unat b - unat a) div 4096"
  have d: "unat (b - a) = unat b - unat a" using assms(3) by (simp add: unat_diff_cases)
  have n: "unat a + 4096 * n = unat b"
    using assms unfolding n_def page_aligned_def by (intro aligned_diff)
  have "4096 * n \<le> unat b" using n by simp
  also have "unat b < 2 ^ 64" by simp
  finally have "4096 * n < 2 ^ 64" .
  then have "unat (pgs n) = unat (b - a)" using n d by (simp add: unat_pgs)
  then have "pgs n = b - a" by (simp add: word_unat_eq_iff)
  then show "b = a + pgs (unat (b - a) div 4096)" by (simp add: d n_def)
  show "unat a + 4096 * (unat (b - a) div 4096) = unat b" using n by (simp add: d n_def)
  show "unat (b - a) div 4096 = vpn b - vpn a"
    unfolding d n_def [symmetric] vpn_def n [symmetric] by simp
qed

lemma vpn_PGROUNDDOWN [simp]: "vpn (PGROUNDDOWN a) = vpn a"
  by (simp add: vpn_def unat_PGROUNDDOWN)

lemma mappages_ok:
  assumes "vm_inv s root own ps" "sz \<noteq> 0" "unat va + unat sz \<le> 2 ^ 38"
    and "\<forall>wa. wa < MAXVA \<longrightarrow> vpn va \<le> vpn wa \<longrightarrow> vpn wa \<le> vpn (va + sz - 1) \<longrightarrow>
      \<not> valid (pte_of (mem s) root wa)"
  defines "n \<equiv> Suc (vpn (va + sz - 1) - vpn va)"
  shows "\<exists>j t own' ps'.
    mappages root va sz pa perm s = Ret (if j = n then 0 else - 1) t \<and>
    j \<le> n \<and> evolve root s own ps t own' ps' \<and>
    (\<forall>wa. wa < MAXVA \<longrightarrow> pte_of (mem t) root wa = map_range (pte_of (mem s) root) va j pa perm wa) \<and>
    length ps \<le> length ps' + 2 * n \<and> (j \<noteq> n \<longrightarrow> ps' = [] \<and> length ps < 2 * n)"
proof -
  define a where "a = PGROUNDDOWN va"
  define b where "b = PGROUNDDOWN (va + sz - 1)"
  have z: "0 < unat sz" using assms(2) by (simp add: unat_gt_0)
  have u: "unat (va + sz - 1) = unat va + unat sz - 1"
  proof -
    have "unat (va + sz) = unat va + unat sz" using assms(3) by (simp add: unat_word_ariths)
    moreover from this z have "va + sz \<noteq> 0" by auto
    ultimately show ?thesis by (simp add: unat_minus_one)
  qed
  have al: "page_aligned a" "page_aligned b" by (simp_all add: a_def b_def PGROUNDDOWN_aligned)
  have le: "unat a \<le> unat b"
    unfolding a_def b_def unat_PGROUNDDOWN u using z by (intro mult_le_mono1 div_le_mono) simp
  note ap = aligned_pgs [OF al le]
  have vp: "vpn a = vpn va" "vpn b = vpn (va + sz - 1)" by (simp_all add: a_def b_def)
  have vle: "vpn va \<le> vpn (va + sz - 1)" using le by (simp add: vpn_def [of va] vpn_def [of "va + sz - 1"]
        a_def b_def unat_PGROUNDDOWN)
  have "unat b \<le> unat (va + sz - 1)" by (simp add: b_def unat_PGROUNDDOWN)
  then have lt: "unat a + 4096 * (unat (b - a) div 4096) < 2 ^ 38"
    using ap(3) u z assms(3) by simp
  have "\<forall>wa. wa < MAXVA \<longrightarrow> vpn a \<le> vpn wa \<longrightarrow> vpn wa \<le> vpn a + unat (b - a) div 4096 \<longrightarrow>
      \<not> valid (pte_of (mem s) root wa)"
    using assms(4) vle by (simp add: ap(2) vp)
  note L = mappages_loop_ok [OF assms(1) lt al(1) this, of pa perm]
  have "mappages root va sz pa perm s =
      mappages_loop (unat (b - a) div 4096) root a (a + pgs (unat (b - a) div 4096)) pa perm s"
    using assms(2) by (simp add: mappages_def Let_def a_def [symmetric] b_def [symmetric]
        ap(1) [symmetric])
  moreover have "Suc (unat (b - a) div 4096) = n" by (simp add: ap(2) vp n_def)
  moreover have "map_range f a j pa perm = map_range f va j pa perm" for f j
    unfolding map_range_def vp(1) ..
  ultimately show ?thesis using L by simp
qed

lemma mappages_remap:
  assumes "pt_ok (mem s) root own" "va < MAXVA" "sz \<noteq> 0" "valid (pte_of (mem s) root va)"
  shows "mappages root va sz pa perm s = Panic ''mappages: remap''"
proof -
  have vp: "vpn (PGROUNDDOWN va) = vpn va" by simp
  have "PGROUNDDOWN va < MAXVA"
    using assms(2) by (simp add: word_less_nat_alt unat_PGROUNDDOWN le_less_trans [OF div_times_less_eq_dividend])
  moreover obtain t where t: "wk 2 (mem s) root va = Some t" "valid (load64 (mem s) (pte_addr t 0 va))"
    using assms(4) by (auto simp: pte_of_def pte_from_def split: option.splits)
  have "wk l m p (PGROUNDDOWN va) = wk l m p va" for l m p by (rule wk_vpn [OF vp])
  moreover have "walk_levels l p (PGROUNDDOWN va) True s = Ret (pte_addr t 0 va) s"
    if "wk l (mem s) p va = Some t" for l p
    using that
  proof (induction l arbitrary: p)
    case 0
    then show ?case using vpn_PX [OF vp, of 0] by (simp add: kop_simps pte_addr_def)
  next
    case (Suc l)
    then show ?case using vpn_PX [OF vp, of "Suc l"]
      by (auto simp: kop_simps valid_def pte_addr_def Let_def split: if_splits)
  qed
  moreover have "pte_addr t 0 va \<noteq> 0"
    using wk_root_own [OF assms(1) t(1)] pt_ok_page [OF assms(1)] pte_addr_nonzero by blast
  ultimately show ?thesis using t assms(3)
    by (simp add: mappages_def Let_def, subst mappages_loop.simps)
      (simp add: kop_simps walk_def valid_def not_le)
qed

section \<open>Translating addresses\<close>

lemma walkaddr_eq:
  assumes "pt_ok (mem s) root own"
  shows "walkaddr root va s =
    Ret (if va < MAXVA \<and> valid (pte_of (mem s) root va) \<and> pte_of (mem s) root va AND PTE_U \<noteq> 0
         then PTE2PA (pte_of (mem s) root va) else 0) s"
proof (cases "va < MAXVA")
  case True
  then have ge: "\<not> MAXVA \<le> va" by simp
  show ?thesis
  proof (cases "wk 2 (mem s) root va")
    case None
    then show ?thesis using True ge
      by (simp add: walkaddr_def kop_simps walk_look pte_of_def pte_from_def)
  next
    case (Some t)
    have "pte_addr t 0 va \<noteq> 0"
      using wk_root_own [OF assms Some] pt_ok_page [OF assms] pte_addr_nonzero by blast
    then show ?thesis using True ge Some
      by (simp add: walkaddr_def kop_simps walk_look pte_of_def pte_from_def valid_def)
  qed
next
  case False
  then have "MAXVA \<le> va" by simp
  with False show ?thesis by (auto simp: walkaddr_def kop_simps)
qed

section \<open>Unmapping pages\<close>

definition unmap_range :: "(uint64 \<Rightarrow> pte_t) \<Rightarrow> uint64 \<Rightarrow> nat \<Rightarrow> uint64 \<Rightarrow> pte_t" where
  "unmap_range f va n = (\<lambda>wa. if vpn va \<le> vpn wa \<and> vpn wa < vpn va + n then 0 else f wa)"

definition leaf :: "pte_t \<Rightarrow> bool" where
  "leaf e \<longleftrightarrow> valid e \<and> PTE_FLAGS e \<noteq> PTE_V"

text \<open>The physical pages behind \<open>n\<close> virtual pages from \<open>a\<close>.\<close>

definition phys :: "(uint64 \<Rightarrow> pte_t) \<Rightarrow> uint64 \<Rightarrow> nat \<Rightarrow> uint64 list" where
  "phys f a n = map (\<lambda>i. PTE2PA (f (a + pgs i))) [0..<n]"

lemma phys_Suc: "phys f a (Suc n) = PTE2PA (f a) # phys f (a + PGSIZE) n"
  unfolding phys_def
  by (subst upt_conv_Cons) (simp_all add: map_Suc_upt [symmetric] pgs_Suc add.assoc o_def del: upt_Suc)

lemma phys_cong: "(\<And>i. i < n \<Longrightarrow> f (a + pgs i) = g (a + pgs i)) \<Longrightarrow> phys f a n = phys g a n"
  by (simp add: phys_def)

lemma vm_inv_kfree:
  assumes "vm_inv s root own ps" "page_ok (kend s) p" "p \<notin> dom own" "p \<notin> set ps"
  shows "kfree p s = Ret () (after_kfree p s)" "vm_inv (after_kfree p s) root own (p # ps)"
    "pte_of (mem (after_kfree p s)) root wa = pte_of (mem s) root wa"
    "agree (- {p}) (mem s) (mem (after_kfree p s))"
proof -
  have al: "page_aligned p" using assms(2) by (simp add: page_ok_def)
  show ag: "agree (- {p}) (mem s) (mem (after_kfree p s))" by (rule after_kfree_agree [OF al])
  have "dom own \<subseteq> - {p}" using assms(3) by auto
  note f = pt_frame [OF _ agree_mono [OF ag this], of root]
  have pool: "kmem_pool s ps" using assms(1) by (simp add: vm_inv_def)
  have "kmem_owns s p" using assms(2) by (simp add: kmem_owns_def)
  note kp = kfree_pool [OF pool this assms(4)]
  show "kfree p s = Ret () (after_kfree p s)" by (rule kp(1))
  show "vm_inv (after_kfree p s) root own (p # ps)"
    using assms(1,3) f(1) kp(2) by (auto simp: vm_inv_def state_simps)
  show "pte_of (mem (after_kfree p s)) root wa = pte_of (mem s) root wa"
    using assms(1) by (intro f(2)) (simp add: vm_inv_def)
qed

lemma unmap_one:
  assumes inv: "vm_inv s root own ps" and a: "a < MAXVA" and lf: "leaf (pte_of (mem s) root a)"
    and fr: "df \<longrightarrow> page_ok (kend s) (PTE2PA (pte_of (mem s) root a)) \<and>
      PTE2PA (pte_of (mem s) root a) \<notin> dom own \<union> set ps"
    and lt: "a < lim"
  defines "p \<equiv> PTE2PA (pte_of (mem s) root a)"
  shows "\<exists>u. uvmunmap_loop (Suc k) root a lim df s = uvmunmap_loop k root (a + PGSIZE) lim df u \<and>
    vm_inv u root own (if df then p # ps else ps) \<and> kframe s u \<and>
    agree (- (dom own \<union> set ps \<union> (if df then {p} else {}))) (mem s) (mem u) \<and>
    (\<forall>wa. wa < MAXVA \<longrightarrow>
       pte_of (mem u) root wa = (if vpn wa = vpn a then 0 else pte_of (mem s) root wa))"
proof -
  have ok: "pt_ok (mem s) root own" using inv by (simp add: vm_inv_def)
  obtain tb where tb: "wk 2 (mem s) root a = Some tb"
    using lf by (auto simp: leaf_def pte_of_def pte_from_def split: option.splits)
  have e: "load64 (mem s) (pte_addr tb 0 a) = pte_of (mem s) root a"
    using tb by (simp add: pte_of_def pte_from_def)
  have nz: "pte_addr tb 0 a \<noteq> 0"
    using wk_root_own [OF ok tb] pt_ok_page [OF ok] pte_addr_nonzero by blast
  define s1 where "s1 = (if df then after_kfree p s else s)"
  have s1: "vm_inv s1 root own (if df then p # ps else ps)" "kframe s s1"
    "\<And>wa. pte_of (mem s1) root wa = pte_of (mem s) root wa"
    "agree (- (if df then {p} else {})) (mem s) (mem s1)"
    "whenk df (kfree p) s = Ret () s1"
    using vm_inv_kfree [OF inv, of p] inv fr unfolding s1_def p_def [symmetric]
    by (auto simp: kop_simps)
  have ok1: "pt_ok (mem s1) root own" using s1(1) by (simp add: vm_inv_def)
  have "agree (dom own) (mem s) (mem s1)"
    using fr unfolding p_def [symmetric] by (intro agree_mono [OF s1(4)]) auto
  then have tb1: "wk 2 (mem s1) root a = Some tb"
    using wk_agree [OF ok pt_ok_root [OF ok], of "dom own" "mem s1" a] tb by auto
  define u where "u = s1\<lparr>mem := store64 (mem s1) (pte_addr tb 0 a) 0\<rparr>"
  note up = leaf_update [OF s1(1) tb1 a, where v = 0, folded u_def]
  have "uvmunmap_loop (Suc k) root a lim df s = uvmunmap_loop k root (a + PGSIZE) lim df u"
    using lt a tb nz e lf s1(5)
    by (subst uvmunmap_loop.simps)
      (simp add: kop_simps walk_look leaf_def valid_def u_def p_def)
  moreover have "agree (- (dom own \<union> set ps \<union> (if df then {p} else {}))) (mem s) (mem u)"
  proof (rule agree_trans)
    show "agree (- (dom own \<union> set ps \<union> (if df then {p} else {}))) (mem s) (mem s1)"
      by (rule agree_mono [OF s1(4)]) auto
    show "agree (- (dom own \<union> set ps \<union> (if df then {p} else {}))) (mem s1) (mem u)"
      using up(1) unfolding evolve_def by (auto intro: agree_mono split: if_splits)
  qed
  moreover have "kframe s u" using kframe_trans [OF s1(2)] up(1) by (simp add: evolve_def)
  ultimately show ?thesis using up s1(3) by (auto simp: evolve_def)
qed

lemma pgs_step: "a + PGSIZE + pgs n = a + pgs (Suc n)"
  by (simp add: pgs_Suc add.assoc)

lemma unat_add_pgs: "unat a + 4096 * n < 2 ^ 64 \<Longrightarrow> unat (a + pgs n) = unat a + 4096 * n"
  by (subst unat_word_ariths) (simp add: unat_pgs)

lemma vpn_add_pgs: "unat a + 4096 * n < 2 ^ 64 \<Longrightarrow> vpn (a + pgs n) = vpn a + n"
  by (simp add: vpn_def unat_add_pgs)

lemma uvmunmap_loop_ok:
  assumes "vm_inv s root own ps" "unat a + 4096 * n \<le> 2 ^ 38" "n \<le> k"
    and "\<forall>i<n. leaf (pte_of (mem s) root (a + pgs i))"
    and "df \<longrightarrow> distinct (phys (pte_of (mem s) root) a n) \<and>
      (\<forall>p\<in>set (phys (pte_of (mem s) root) a n). page_ok (kend s) p \<and> p \<notin> dom own \<union> set ps)"
  defines "fr \<equiv> if df then phys (pte_of (mem s) root) a n else []"
  shows "\<exists>t. uvmunmap_loop k root a (a + pgs n) df s = Ret () t \<and> vm_inv t root own (rev fr @ ps) \<and>
    kframe s t \<and> agree (- (dom own \<union> set ps \<union> set fr)) (mem s) (mem t) \<and>
    (\<forall>wa. wa < MAXVA \<longrightarrow> pte_of (mem t) root wa = unmap_range (pte_of (mem s) root) a n wa)"
  using assms(1-5) unfolding fr_def
proof (induction n arbitrary: a s ps k)
  case 0
  then show ?case
    by (subst uvmunmap_loop.simps) (auto simp: kop_simps unmap_range_def phys_def)
next
  case (Suc n)
  let ?f = "pte_of (mem s) root"
  obtain k' where k: "k = Suc k'" using Suc.prems(3) by (cases k) auto
  have a: "a < MAXVA" using Suc.prems(2) by (simp add: word_less_nat_alt unat_MAXVA)
  have un: "unat a + 4096 < 2 ^ 64" using Suc.prems(2) by simp
  have "unat (a + pgs (Suc n)) = unat a + 4096 * Suc n" using Suc.prems(2) by (intro unat_add_pgs) simp
  then have lt: "a < a + pgs (Suc n)" by (simp add: word_less_nat_alt)
  have lf: "leaf (?f a)" using Suc.prems(4) by force
  have fr1: "df \<longrightarrow> page_ok (kend s) (PTE2PA (?f a)) \<and> PTE2PA (?f a) \<notin> dom own \<union> set ps"
    using Suc.prems(5) by (auto simp: phys_Suc)
  from unmap_one [OF Suc.prems(1) a lf fr1 lt, of k'] obtain u where
    u: "uvmunmap_loop k root a (a + pgs (Suc n)) df s =
        uvmunmap_loop k' root (a + PGSIZE) (a + PGSIZE + pgs n) df u"
      "vm_inv u root own (if df then PTE2PA (?f a) # ps else ps)" "kframe s u"
      "agree (- (dom own \<union> set ps \<union> (if df then {PTE2PA (?f a)} else {}))) (mem s) (mem u)"
      "\<forall>wa. wa < MAXVA \<longrightarrow> pte_of (mem u) root wa = (if vpn wa = vpn a then 0 else ?f wa)"
    unfolding k pgs_step by blast
  have va: "unat (a + PGSIZE + pgs i) = unat a + 4096 * Suc i" if "i < n" for i
    unfolding pgs_step using that Suc.prems(2) by (intro unat_add_pgs) simp
  have same: "pte_of (mem u) root (a + PGSIZE + pgs i) = ?f (a + PGSIZE + pgs i)" if "i < n" for i
  proof -
    have "a + PGSIZE + pgs i < MAXVA" using va [OF that] that Suc.prems(2)
      by (simp add: word_less_nat_alt unat_MAXVA)
    moreover have "vpn (a + PGSIZE + pgs i) \<noteq> vpn a"
      unfolding vpn_def va [OF that] by simp
    ultimately show ?thesis using u(5) by simp
  qed
  have ph: "phys (pte_of (mem u) root) (a + PGSIZE) n = phys ?f (a + PGSIZE) n"
    by (rule phys_cong) (rule same)
  have "unat (a + PGSIZE) + 4096 * n \<le> 2 ^ 38"
    using Suc.prems(2) un by (simp add: PGSIZE_def unat_word_ariths)
  moreover have "n \<le> k'" using Suc.prems(3) k by simp
  moreover have "\<forall>i<n. leaf (pte_of (mem u) root (a + PGSIZE + pgs i))"
  proof (intro allI impI)
    fix i assume i: "i < n"
    then have "leaf (?f (a + pgs (Suc i)))" using Suc.prems(4) by blast
    then show "leaf (pte_of (mem u) root (a + PGSIZE + pgs i))" using same [OF i] by (simp add: pgs_step)
  qed
  moreover have "df \<longrightarrow> distinct (phys ?f (a + PGSIZE) n) \<and> (\<forall>p\<in>set (phys ?f (a + PGSIZE) n).
      page_ok (kend u) p \<and> p \<notin> dom own \<union> set (if df then PTE2PA (?f a) # ps else ps))"
    using Suc.prems(5) kframe_state(5) [OF u(3)] by (auto simp: phys_Suc)
  ultimately obtain t where t: "uvmunmap_loop k' root (a + PGSIZE) (a + PGSIZE + pgs n) df u = Ret () t"
    "vm_inv t root own (rev (if df then phys ?f (a + PGSIZE) n else []) @
       (if df then PTE2PA (?f a) # ps else ps))" "kframe u t"
    "agree (- (dom own \<union> set (if df then PTE2PA (?f a) # ps else ps) \<union>
       set (if df then phys ?f (a + PGSIZE) n else []))) (mem u) (mem t)"
    "\<forall>wa. wa < MAXVA \<longrightarrow>
       pte_of (mem t) root wa = unmap_range (pte_of (mem u) root) (a + PGSIZE) n wa"
    using Suc.IH [OF u(2), of "a + PGSIZE" k'] unfolding ph by blast
  have "vm_inv t root own (rev (if df then phys ?f a (Suc n) else []) @ ps)"
    using t(2) by (auto simp: phys_Suc split: if_splits)
  moreover have "agree (- (dom own \<union> set ps \<union> set (if df then phys ?f a (Suc n) else []))) (mem s) (mem t)"
    by (rule agree_trans [OF agree_mono [OF u(4)] agree_mono [OF t(4)]]) (auto simp: phys_Suc)
  moreover have "pte_of (mem t) root wa = unmap_range ?f a (Suc n) wa" if "wa < MAXVA" for wa
    using t(5) u(5) that unfolding unmap_range_def vpn_step [OF un] by auto
  ultimately show ?case using u(1) t(1) kframe_trans [OF u(3) t(3)] by auto
qed

lemma uvmunmap_ok:
  assumes "vm_inv s root own ps" "page_aligned va" "unat va + 4096 * unat n \<le> 2 ^ 38"
    and "\<forall>i<unat n. leaf (pte_of (mem s) root (va + pgs i))"
    and "df \<longrightarrow> distinct (phys (pte_of (mem s) root) va (unat n)) \<and>
      (\<forall>p\<in>set (phys (pte_of (mem s) root) va (unat n)). page_ok (kend s) p \<and> p \<notin> dom own \<union> set ps)"
  defines "fr \<equiv> if df then phys (pte_of (mem s) root) va (unat n) else []"
  shows "\<exists>t. uvmunmap root va n df s = Ret () t \<and> vm_inv t root own (rev fr @ ps) \<and>
    kframe s t \<and> agree (- (dom own \<union> set ps \<union> set fr)) (mem s) (mem t) \<and>
    (\<forall>wa. wa < MAXVA \<longrightarrow> pte_of (mem t) root wa = unmap_range (pte_of (mem s) root) va (unat n) wa)"
proof -
  have e: "va + n * PGSIZE = va + pgs (unat n)" by (simp add: pgs_def PGSIZE_def mult.commute)
  have "unat (va + pgs (unat n)) = unat va + 4096 * unat n"
    using assms(3) by (intro unat_add_pgs) simp
  then have "rounds va (va + n * PGSIZE) = unat n" unfolding rounds_def e by simp
  then have "uvmunmap root va n df s = uvmunmap_loop (unat n) root va (va + pgs (unat n)) df s"
    using assms(2) by (simp add: uvmunmap_def mod_PGSIZE e)
  then show ?thesis using uvmunmap_loop_ok [OF assms(1,3) order_refl assms(4,5)]
    unfolding fr_def by simp
qed

section \<open>A new page table\<close>

lemma zero_table:
  assumes "page_aligned root" "root \<noteq> 0" "\<And>i. i < 512 \<Longrightarrow> load64 m (root + 8 * of_nat i) = 0"
  shows "pt_ok m root [root \<mapsto> (2, 0)]" "pte_of m root va = 0"
proof -
  show "pt_ok m root [root \<mapsto> (2, 0)]" using assms by (auto simp: pt_ok_def)
  show "pte_of m root va = 0"
    using assms(3) [OF idx_bound [of 2 va]]
    by (simp add: pte_of_def pte_from_def numeral_2_eq_2 Let_def pte_addr_idx)
qed

lemma uvmcreate_ok:
  assumes "kmem_pool s ps"
  shows "\<exists>r t. uvmcreate s = Ret r t \<and> kframe s t \<and>
    (case ps of [] \<Rightarrow> r = 0 \<and> kmem_pool t []
     | q # qs \<Rightarrow> r = q \<and> vm_inv t q [q \<mapsto> (2, 0)] qs \<and> (\<forall>va. pte_of (mem t) q va = 0) \<and>
         agree (- {q}) (mem s) (mem t))"
proof (cases ps)
  case Nil
  then have "uvmcreate s = Ret 0 (tch s)"
    using assms kalloc_pool_empty [of s] by (simp add: uvmcreate_def kop_simps)
  then show ?thesis using Nil assms kalloc_pool_empty [of s] by auto
next
  case (Cons q qs)
  note q = kmem_pool_hd [OF assms [unfolded Cons]]
  define s1 where "s1 = after_kalloc q s"
  define t where "t = s1\<lparr>mem := memset (mem s1) q 0 4096\<rparr>"
  have ag: "agree (- {q}) (mem s1) (mem t)" using memset_page [OF q(2)] by (simp add: t_def)
  have "kmem_pool s1 qs" unfolding s1_def by (rule kalloc_pool(2) [OF assms [unfolded Cons]])
  then have "kmem_pool t qs"
    unfolding t_def using ag q(4) by (intro kmem_pool_mem) (auto simp: t_def intro: agree_mono)
  moreover have "load64 (mem t) (q + 8 * of_nat i) = 0" if "i < 512" for i
    using load64_memset0 [OF q(2) that] by (simp add: t_def)
  note z = zero_table [OF q(2,3) this]
  moreover have "agree (- {q}) (mem s) (mem t)"
    using after_kalloc_agree [OF q(2), of s] ag unfolding s1_def [symmetric] by (rule agree_trans)
  moreover have "kframe s t" unfolding t_def s1_def by (rule kframe_trans [OF kframe_kalloc kframe_mem])
  moreover have "uvmcreate s = Ret q t"
    using kalloc_pool(1) [OF assms [unfolded Cons]] q(3)
    by (simp add: uvmcreate_def kop_simps t_def s1_def PGSIZE_def)
  ultimately show ?thesis using q Cons
    by (auto simp: vm_inv_def t_def s1_def state_simps)
qed

section \<open>Properties\<close>

text \<open>
  C10. \<open>mappages\<close> on pages that are not mapped: it maps a prefix of the range and returns 0 exactly
  when that is the whole range; the mapped pages translate to consecutive physical pages with the
  requested permission bits, every other virtual page keeps its entry, the tables stay well
  formed, and memory outside the tables and the free pages is unchanged.  It fails only when
  memory runs out: two free pages per mapped page are always enough.
\<close>

theorem mappages_correct:
  assumes "vm_inv s root own ps" "sz \<noteq> 0" "unat va + unat sz \<le> 2 ^ 38"
    and "\<forall>wa. wa < MAXVA \<longrightarrow> vpn va \<le> vpn wa \<longrightarrow> vpn wa \<le> vpn (va + sz - 1) \<longrightarrow>
      \<not> valid (pte_of (mem s) root wa)"
  defines "n \<equiv> Suc (vpn (va + sz - 1) - vpn va)"
  shows "\<exists>j t own' ps'.
    mappages root va sz pa perm s = Ret (if j = n then 0 else - 1) t \<and>
    j \<le> n \<and> evolve root s own ps t own' ps' \<and>
    (\<forall>wa. wa < MAXVA \<longrightarrow> pte_of (mem t) root wa = map_range (pte_of (mem s) root) va j pa perm wa) \<and>
    length ps \<le> length ps' + 2 * n \<and> (j \<noteq> n \<longrightarrow> ps' = [] \<and> length ps < 2 * n)"
  unfolding n_def by (rule mappages_ok [OF assms(1-4)])

text \<open>A page table whose root page is zero, with three free pages.\<close>

definition vm0 :: kmem_state where
  "vm0 = after_kfree 0x87FFD000 (after_kfree 0x87FFC000 (after_kfree 0x87FFB000
     (kmem0\<lparr>kend := 0x87FF0000\<rparr>)))"

lemma vm0_inv:
  "vm_inv vm0 0x87FFE000 [0x87FFE000 \<mapsto> (2, 0)] [0x87FFD000, 0x87FFC000, 0x87FFB000]"
  "pte_of (mem vm0) 0x87FFE000 va = 0"
proof -
  let ?k = "kmem0\<lparr>kend := 0x87FF0000\<rparr>"
  have z: "load64 (mem ?k) a = 0" for a
    by (simp add: kmem0_def machine0_def machine.extend_def load64_def load_bytes_def
        le_word_zeros map_replicate_const)
  note zt = zero_table [where root = "0x87FFE000" and m = "mem ?k"]
  have po: "page_ok 0x87FF0000 0x87FFB000" "page_ok 0x87FF0000 0x87FFC000"
    "page_ok 0x87FF0000 0x87FFD000" "page_ok 0x87FF0000 0x87FFE000"
    by (simp_all add: page_ok_def page_aligned_def PHYSTOP_def KERNBASE_def)
  have "pt_ok (mem ?k) 0x87FFE000 [0x87FFE000 \<mapsto> (2, 0)]"
    by (rule zt(1)) (use z in \<open>simp_all add: page_aligned_def\<close>)
  then have i0: "vm_inv ?k 0x87FFE000 [0x87FFE000 \<mapsto> (2, 0)] []"
    using po by (simp add: vm_inv_def kmem_pool_def kmem_inv_def state_simps KERNBASE_def)
  note i1 = vm_inv_kfree [OF i0, where p = "0x87FFB000"]
  note i2 = vm_inv_kfree [OF i1(2), where p = "0x87FFC000"]
  note i3 = vm_inv_kfree [OF i2(2), where p = "0x87FFD000"]
  show "vm_inv vm0 0x87FFE000 [0x87FFE000 \<mapsto> (2, 0)] [0x87FFD000, 0x87FFC000, 0x87FFB000]"
    unfolding vm0_def using po by (intro i3(2)) (simp_all add: state_simps)
  have "pte_of (mem vm0) 0x87FFE000 va = pte_of (mem ?k) 0x87FFE000 va"
    unfolding vm0_def using po by (simp add: i3(3) i2(3) i1(3) state_simps)
  moreover have "pte_of (mem ?k) 0x87FFE000 va = 0"
    by (rule zt(2)) (use z in \<open>simp_all add: page_aligned_def\<close>)
  ultimately show "pte_of (mem vm0) 0x87FFE000 va = 0" by simp
qed

theorem mappages_correct_witness:
  "\<exists>t. mappages 0x87FFE000 0x3000 4096 0x80005000 (PTE_R OR PTE_U) vm0 = Ret 0 t \<and>
     pte_of (mem t) 0x87FFE000 0x3000 = PA2PTE 0x80005000 OR (PTE_R OR PTE_U) OR PTE_V"
proof -
  have n: "Suc (vpn (0x3000 + 4096 - 1) - vpn 0x3000) = 1" by (simp add: vpn_def)
  have nv: "\<forall>wa. wa < MAXVA \<longrightarrow> vpn 0x3000 \<le> vpn wa \<longrightarrow> vpn wa \<le> vpn (0x3000 + 4096 - 1) \<longrightarrow>
      \<not> valid (pte_of (mem vm0) 0x87FFE000 wa)" by (simp add: vm0_inv(2))
  have "(4096 :: uint64) \<noteq> 0" "unat (0x3000 :: uint64) + unat (4096 :: uint64) \<le> 2 ^ 38" by simp_all
  from mappages_correct [OF vm0_inv(1) this nv, unfolded n, of "0x80005000" "PTE_R OR PTE_U"]
  obtain j t ps' where
    t: "mappages 0x87FFE000 0x3000 4096 0x80005000 (PTE_R OR PTE_U) vm0 = Ret (if j = 1 then 0 else - 1) t"
    "\<forall>wa. wa < MAXVA \<longrightarrow> pte_of (mem t) 0x87FFE000 wa =
       map_range (pte_of (mem vm0) 0x87FFE000) 0x3000 j 0x80005000 (PTE_R OR PTE_U) wa"
    "j \<noteq> 1 \<longrightarrow> length [0x87FFD000, 0x87FFC000, 0x87FFB000 :: uint64] < 2 * 1"
    by blast
  then have "j = 1" by simp
  moreover have "(0x3000 :: uint64) < MAXVA" by (simp add: MAXVA_def)
  ultimately show ?thesis using t(1) t(2) [rule_format, of "0x3000"]
    by (simp add: map_range_def)
qed

text \<open>
  C11. Mapping and translation round trip: after \<open>mappages\<close> of one page with a user permission,
  \<open>walkaddr\<close> sends every address of that virtual page to the physical page given, and every other
  virtual address where it went before.
\<close>

theorem mappages_walkaddr:
  assumes "vm_inv s root own ps" "2 \<le> length ps" "unat va + 4096 \<le> 2 ^ 38"
    and "page_aligned va" "\<not> valid (pte_of (mem s) root va)"
    and "page_aligned pa" "take_bit 10 perm = perm" "perm AND PTE_U \<noteq> 0"
  shows "\<exists>t. mappages root va PGSIZE pa perm s = Ret 0 t \<and>
    (\<forall>wa. vpn wa = vpn va \<longrightarrow> walkaddr root wa t = Ret pa t) \<and>
    (\<forall>wa r. vpn wa \<noteq> vpn va \<longrightarrow> walkaddr root wa s = Ret r s \<longrightarrow> walkaddr root wa t = Ret r t)"
proof -
  have u: "unat (va + PGSIZE - 1) = unat va + 4095"
  proof -
    have e: "va + PGSIZE - 1 = va + 4095" by (simp add: PGSIZE_def add_diff_eq [symmetric])
    show ?thesis unfolding e using assms(3) by (simp add: unat_word_ariths)
  qed
  have lp: "vpn (va + PGSIZE - 1) = vpn va"
    using assms(4) unfolding vpn_def u page_aligned_def by (simp add: div_add1_eq)
  have nv: "\<forall>wa. wa < MAXVA \<longrightarrow> vpn va \<le> vpn wa \<longrightarrow> vpn wa \<le> vpn (va + PGSIZE - 1) \<longrightarrow>
      \<not> valid (pte_of (mem s) root wa)"
  proof (intro allI impI)
    fix wa assume "vpn va \<le> vpn wa" "vpn wa \<le> vpn (va + PGSIZE - 1)"
    then have "vpn wa = vpn va" by (simp add: lp)
    then show "\<not> valid (pte_of (mem s) root wa)"
      using assms(5) pte_of_vpn [of wa va "mem s" root] by simp
  qed
  have "PGSIZE \<noteq> 0" "unat va + unat PGSIZE \<le> 2 ^ 38" using assms(3) by (simp_all add: PGSIZE_def)
  from mappages_ok [OF assms(1) this nv, of pa perm] obtain j t own' ps' where
    t: "mappages root va PGSIZE pa perm s = Ret (if j = 1 then 0 else - 1) t"
      "evolve root s own ps t own' ps'" "j \<noteq> 1 \<longrightarrow> length ps < 2"
      "\<forall>wa. wa < MAXVA \<longrightarrow> pte_of (mem t) root wa = map_range (pte_of (mem s) root) va j pa perm wa"
    by (auto simp: lp)
  have j: "j = 1" using t(3) assms(2) by auto
  define e where "e = PA2PTE pa OR perm OR PTE_V"
  have e: "valid e" "e AND PTE_U \<noteq> 0" "PTE2PA e = pa"
  proof -
    show "valid e" unfolding e_def or.assoc [symmetric] by (rule valid_or)
    have "take_bit 10 (perm OR PTE_V) = perm OR PTE_V"
      using assms(7) by (simp add: take_bit_or PTE_V_def)
    then show "PTE2PA e = pa" unfolding e_def by (rule PTE2PA_or [OF assms(6)])
    have "bit perm 4"
    proof (rule ccontr)
      assume "\<not> bit perm 4"
      then have "perm AND PTE_U = 0" by (intro bit_word_eqI) (auto simp: bit_and_iff pte_bits)
      with assms(8) show False by simp
    qed
    then have "bit (e AND PTE_U) 4" by (simp add: e_def bit_and_iff bit_or_iff pte_bits)
    then show "e AND PTE_U \<noteq> 0" by auto
  qed
  have ok: "pt_ok (mem s) root own" "pt_ok (mem t) root own'"
    using assms(1) t(2) by (simp_all add: vm_inv_def evolve_def)
  have pt: "pte_of (mem t) root wa = (if vpn wa = vpn va then e else pte_of (mem s) root wa)"
    if "wa < MAXVA" for wa
    using t(4) that j by (auto simp: map_range_def e_def)
  have "walkaddr root wa t = Ret pa t" if "vpn wa = vpn va" for wa
  proof -
    have "unat wa < unat va + 4096"
      using that assms(4) unfolding vpn_def page_aligned_def by (metis add_less_cancel_left
          div_mult_mod_eq mod_less_divisor mult.commute zero_less_numeral add.right_neutral)
    then have "wa < MAXVA" using assms(3) by (simp add: word_less_nat_alt unat_MAXVA)
    then show ?thesis using pt that e by (simp add: walkaddr_eq [OF ok(2)])
  qed
  moreover have "walkaddr root wa t = Ret r t" if "vpn wa \<noteq> vpn va" "walkaddr root wa s = Ret r s"
    for wa r
    using that pt [of wa] by (auto simp: walkaddr_eq [OF ok(1)] walkaddr_eq [OF ok(2)] split: if_splits)
  ultimately show ?thesis using t(1) j by auto
qed

theorem mappages_walkaddr_witness:
  "\<exists>t. mappages 0x87FFE000 0x3000 PGSIZE 0x80005000 (PTE_R OR PTE_U) vm0 = Ret 0 t \<and>
     walkaddr 0x87FFE000 0x3123 t = Ret 0x80005000 t"
proof -
  have "take_bit 10 (PTE_R OR PTE_U) = PTE_R OR PTE_U" "(PTE_R OR PTE_U) AND PTE_U \<noteq> 0"
    "page_aligned 0x3000" "page_aligned 0x80005000"
    by (simp_all add: pte_bit_defs page_aligned_def)
  moreover have "vpn 0x3123 = vpn 0x3000" by (simp add: vpn_def)
  ultimately show ?thesis
    using mappages_walkaddr [OF vm0_inv(1), of "0x3000" "0x80005000" "PTE_R OR PTE_U"]
    by (auto simp: vm0_inv(2))
qed

text \<open>
  C12. \<open>uvmunmap\<close> of \<open>n\<close> mapped leaf pages returns, invalidates exactly their entries, keeps the
  tables well formed, and with \<open>do_free\<close> gives their physical pages back to the allocator, the last
  one on top.
\<close>

theorem uvmunmap_correct:
  assumes "vm_inv s root own ps" "page_aligned va" "unat va + 4096 * unat n \<le> 2 ^ 38"
    and "\<forall>i<unat n. leaf (pte_of (mem s) root (va + pgs i))"
    and "df \<longrightarrow> distinct (phys (pte_of (mem s) root) va (unat n)) \<and>
      (\<forall>p\<in>set (phys (pte_of (mem s) root) va (unat n)). page_ok (kend s) p \<and> p \<notin> dom own \<union> set ps)"
  defines "fr \<equiv> if df then phys (pte_of (mem s) root) va (unat n) else []"
  shows "\<exists>t. uvmunmap root va n df s = Ret () t \<and> vm_inv t root own (rev fr @ ps) \<and>
    kframe s t \<and> agree (- (dom own \<union> set ps \<union> set fr)) (mem s) (mem t) \<and>
    (\<forall>wa. wa < MAXVA \<longrightarrow> pte_of (mem t) root wa = unmap_range (pte_of (mem s) root) va (unat n) wa)"
  unfolding fr_def by (rule uvmunmap_ok [OF assms(1-5)])

lemma vm0_mapped:
  fixes pa :: uint64
  shows "\<exists>t own' ps'. mappages 0x87FFE000 0x3000 PGSIZE pa (PTE_R OR PTE_U) vm0 = Ret 0 t \<and>
     vm_inv t 0x87FFE000 own' ps' \<and> kend t = 0x87FF0000 \<and>
     dom own' \<union> set ps' = {0x87FFE000, 0x87FFD000, 0x87FFC000, 0x87FFB000} \<and>
     pte_of (mem t) 0x87FFE000 0x3000 = PA2PTE pa OR (PTE_R OR PTE_U) OR PTE_V \<and>
     (\<forall>wa. wa < MAXVA \<longrightarrow> vpn wa \<noteq> 3 \<longrightarrow> pte_of (mem t) 0x87FFE000 wa = 0)"
proof -
  have n: "Suc (vpn (0x3000 + PGSIZE - 1) - vpn 0x3000) = 1" by (simp add: vpn_def PGSIZE_def)
  have nv: "\<forall>wa. wa < MAXVA \<longrightarrow> vpn 0x3000 \<le> vpn wa \<longrightarrow> vpn wa \<le> vpn (0x3000 + PGSIZE - 1) \<longrightarrow>
      \<not> valid (pte_of (mem vm0) 0x87FFE000 wa)" by (simp add: vm0_inv(2))
  have "PGSIZE \<noteq> 0" "unat (0x3000 :: uint64) + unat PGSIZE \<le> 2 ^ 38" by (simp_all add: PGSIZE_def)
  from mappages_ok [OF vm0_inv(1) this nv, unfolded n, of pa "PTE_R OR PTE_U"]
  obtain j t own' ps' where
    t: "mappages 0x87FFE000 0x3000 PGSIZE pa (PTE_R OR PTE_U) vm0 =
      Ret (if j = 1 then 0 else - 1) t"
    "\<forall>wa. wa < MAXVA \<longrightarrow> pte_of (mem t) 0x87FFE000 wa =
       map_range (pte_of (mem vm0) 0x87FFE000) 0x3000 j pa (PTE_R OR PTE_U) wa"
    "evolve 0x87FFE000 vm0 [0x87FFE000 \<mapsto> (2, 0)] [0x87FFD000, 0x87FFC000, 0x87FFB000] t own' ps'"
    "j \<noteq> 1 \<longrightarrow> length [0x87FFD000, 0x87FFC000, 0x87FFB000 :: uint64] < 2 * 1"
    by blast
  then have j: "j = 1" by simp
  have "(0x3000 :: uint64) < MAXVA" by (simp add: MAXVA_def)
  then have "pte_of (mem t) 0x87FFE000 0x3000 = PA2PTE pa OR (PTE_R OR PTE_U) OR PTE_V"
    using t(2) j by (simp add: map_range_def)
  moreover have "pte_of (mem t) 0x87FFE000 wa = 0" if "wa < MAXVA" "vpn wa \<noteq> 3" for wa
  proof -
    have "vpn 0x3000 = 3" by (simp add: vpn_def)
    then show ?thesis using that t(2) j by (auto simp: map_range_def vm0_inv(2))
  qed
  moreover have "kend t = 0x87FF0000"
    using t(3) kframe_state(5) [of vm0 t] by (simp add: evolve_def vm0_def state_simps)
  moreover have "dom own' \<union> set ps' = {0x87FFE000, 0x87FFD000, 0x87FFC000, 0x87FFB000}"
    "vm_inv t 0x87FFE000 own' ps'" using t(3) by (auto simp: evolve_def)
  ultimately show ?thesis using t(1) j by auto
qed

theorem uvmunmap_correct_witness:
  "\<exists>s t own ps. mappages 0x87FFE000 0x3000 PGSIZE 0x87FF5000 (PTE_R OR PTE_U) vm0 = Ret 0 s \<and>
     vm_inv s 0x87FFE000 own ps \<and> uvmunmap 0x87FFE000 0x3000 1 True s = Ret () t \<and>
     vm_inv t 0x87FFE000 own (0x87FF5000 # ps) \<and> pte_of (mem t) 0x87FFE000 0x3000 = 0"
proof -
  let ?e = "PA2PTE 0x87FF5000 OR (PTE_R OR PTE_U) OR PTE_V"
  from vm0_mapped [of "0x87FF5000"] obtain s own ps where
    s: "mappages 0x87FFE000 0x3000 PGSIZE 0x87FF5000 (PTE_R OR PTE_U) vm0 = Ret 0 s"
      "vm_inv s 0x87FFE000 own ps" "kend s = 0x87FF0000"
      "dom own \<union> set ps = {0x87FFE000, 0x87FFD000, 0x87FFC000, 0x87FFB000}"
      "pte_of (mem s) 0x87FFE000 0x3000 = ?e" by blast
  have "leaf ?e" "PTE2PA ?e = 0x87FF5000"
    by (simp_all add: leaf_def valid_def pte_bit_defs PA2PTE_def PTE2PA_def PTE_FLAGS_def)
  then have lf: "\<forall>i<unat (1 :: uint64). leaf (pte_of (mem s) 0x87FFE000 (0x3000 + pgs i))"
    and ph: "phys (pte_of (mem s) 0x87FFE000) 0x3000 (unat (1 :: uint64)) = [0x87FF5000]"
    using s(5) by (simp_all add: phys_def)
  have "page_ok (kend s) 0x87FF5000" by (simp add: page_ok_def page_aligned_def PHYSTOP_def KERNBASE_def s(3))
  then have fr: "True \<longrightarrow> distinct (phys (pte_of (mem s) 0x87FFE000) 0x3000 (unat (1 :: uint64))) \<and>
      (\<forall>p\<in>set (phys (pte_of (mem s) 0x87FFE000) 0x3000 (unat (1 :: uint64))). page_ok (kend s) p \<and> p \<notin> dom own \<union> set ps)"
    unfolding ph s(4) by simp
  have "page_aligned 0x3000" "unat (0x3000 :: uint64) + 4096 * unat (1 :: uint64) \<le> 2 ^ 38"
    by (simp_all add: page_aligned_def)
  from uvmunmap_correct [OF s(2) this lf fr] obtain t where
    "uvmunmap 0x87FFE000 0x3000 1 True s = Ret () t" "vm_inv t 0x87FFE000 own (0x87FF5000 # ps)"
    "\<forall>wa. wa < MAXVA \<longrightarrow> pte_of (mem t) 0x87FFE000 wa =
       unmap_range (pte_of (mem s) 0x87FFE000) 0x3000 (unat (1 :: uint64)) wa" unfolding ph by auto
  moreover have "(0x3000 :: uint64) < MAXVA" by (simp add: MAXVA_def)
  ultimately show ?thesis using s(1,2) by (auto simp: unmap_range_def)
qed

end
