(* ===== verification/Usermem.thy ===== *)
theory Usermem
  imports Pagetable
begin

text \<open>
  User memory as a process sees it.  \<open>uview\<close> gives the byte at a virtual address, when the page table
  maps it for user access; \<open>um_ok\<close> says that the mapped pages are no page-table pages and that no
  physical page is mapped twice.  \<open>copyout\<close> writes a range of that view and \<open>copyin\<close> and
  \<open>copyinstr\<close> read one, across page boundaries.
\<close>

definition umapped :: "memory \<Rightarrow> pagetable_t \<Rightarrow> uint64 \<Rightarrow> bool" where
  "umapped m root va \<longleftrightarrow> va < MAXVA \<and> valid (pte_of m root va) \<and> pte_of m root va AND PTE_U \<noteq> 0"

definition upage :: "memory \<Rightarrow> pagetable_t \<Rightarrow> uint64 \<Rightarrow> uint64" where
  "upage m root va = PTE2PA (pte_of m root va)"

definition uview :: "memory \<Rightarrow> pagetable_t \<Rightarrow> uint64 \<Rightarrow> uint8 option" where
  "uview m root va =
     (if umapped m root va then Some (m (upage m root va + of_nat (unat va mod 4096))) else None)"

definition um_ok :: "memory \<Rightarrow> pagetable_t \<Rightarrow> (uint64 \<rightharpoonup> nat \<times> nat) \<Rightarrow> bool" where
  "um_ok m root own \<longleftrightarrow>
     (\<forall>va. umapped m root va \<longrightarrow> upage m root va \<notin> dom own \<and> upage m root va \<noteq> 0) \<and>
     (\<forall>va wa. umapped m root va \<longrightarrow> umapped m root wa \<longrightarrow>
        upage m root va = upage m root wa \<longrightarrow> vpn va = vpn wa)"

lemma um_okD:
  assumes "um_ok m root own" "umapped m root va"
  shows "upage m root va \<notin> dom own" "upage m root va \<noteq> 0"
  using assms unfolding um_ok_def by blast+

lemma umapped_vpn:
  assumes "vpn wa = vpn va" "va < MAXVA" "wa < MAXVA"
  shows "umapped m root wa = umapped m root va" "upage m root wa = upage m root va"
  using pte_of_vpn [OF assms(1), of m root] assms(2,3) by (simp_all add: umapped_def upage_def)

lemma upage_aligned: "page_aligned (upage m root va)"
  by (simp add: upage_def PTE2PA_aligned)

lemma walkaddr_umapped:
  assumes "pt_ok (mem s) root own"
  shows "walkaddr root va s = Ret (if umapped (mem s) root va then upage (mem s) root va else 0) s"
  by (simp add: walkaddr_eq [OF assms] umapped_def upage_def)

section \<open>Writing one page\<close>

lemma page_byte:
  assumes "page_aligned p" "i < 4096"
  shows "unat (p + of_nat i) = unat p + i" "PGROUNDDOWN (p + of_nat i) = p"
  using page_offset [of p i] assms by (simp_all add: page_aligned_def PGROUNDDOWN_id)

lemma page_byte_eq:
  assumes "page_aligned p" "page_aligned q" "i < 4096" "j < 4096" "p + of_nat i = q + of_nat j"
  shows "p = q \<and> i = j"
proof -
  have "p = q" using page_byte(2) assms by metis
  moreover have "unat p + i = unat q + j" using page_byte(1) assms by metis
  ultimately show ?thesis by simp
qed

lemma store_page:
  assumes "page_aligned p" "k + length bs \<le> 4096" "i < 4096"
  shows "store_bytes m (p + of_nat k) bs (p + of_nat i) =
    (if k \<le> i \<and> i < k + length bs then bs ! (i - k) else m (p + of_nat i))"
proof (cases "bs = []")
  case False
  then have k: "k < 4096" using assms(2) by (cases bs) auto
  have "unat (p + of_nat i - (p + of_nat k)) =
      (if k \<le> i then i - k else 2 ^ 64 + i - k)"
    unfolding unat_diff_cases page_byte(1) [OF assms(1,3)] page_byte(1) [OF assms(1) k] by auto
  then show ?thesis using assms(2,3) k by (auto simp: store_bytes_def)
qed (auto simp: store_bytes_def)

definition put_range :: "(uint64 \<Rightarrow> uint8 option) \<Rightarrow> uint64 \<Rightarrow> uint8 list \<Rightarrow> uint64 \<Rightarrow> uint8 option" where
  "put_range g a bs = (\<lambda>wa. if unat a \<le> unat wa \<and> unat wa < unat a + length bs
     then Some (bs ! (unat wa - unat a)) else g wa)"

lemma put_range_append:
  assumes "unat b = unat a + length xs"
  shows "put_range (put_range g a xs) b ys = put_range g a (xs @ ys)"
  using assms by (auto simp: put_range_def nth_append fun_eq_iff)

lemma put_range_Nil [simp]: "put_range g a [] = g"
  by (auto simp: put_range_def fun_eq_iff)

lemma same_page_range:
  assumes "unat va mod 4096 + n \<le> 4096" "unat va \<le> unat wa" "unat wa < unat va + n"
  shows "vpn wa = vpn va" "unat wa mod 4096 = unat va mod 4096 + (unat wa - unat va)"
proof -
  define i where "i = unat wa - unat va"
  have wa: "wa = va + of_nat i" and i: "i < n"
    using assms(2,3) by (simp_all add: i_def word_unat_eq_iff unat_word_ariths unat_of_nat)
  have f: "unat va mod 4096 + i < 4096" using assms(1) i by simp
  have u: "unat wa = unat va + i" using page_offset(1) [OF f] wa by simp
  show "vpn wa = vpn va"
    using arg_cong [OF page_offset(2) [OF f], of vpn] wa by simp
  show "unat wa mod 4096 = unat va mod 4096 + (unat wa - unat va)"
  proof -
    have "unat va + i = unat va div 4096 * 4096 + (unat va mod 4096 + i)" by simp
    then have "(unat va + i) mod 4096 = (unat va mod 4096 + i) mod 4096" by (metis mod_mult_self3)
    also have "\<dots> = unat va mod 4096 + i" using f by (rule mod_less)
    finally show ?thesis by (simp only: u add_diff_cancel_left')
  qed
qed

lemma uview_store:
  assumes ok: "pt_ok m root own" and um: "um_ok m root own" and va: "umapped m root va"
    and fit: "unat va mod 4096 + length bs \<le> 4096"
  defines "m' \<equiv> store_bytes m (upage m root va + of_nat (unat va mod 4096)) bs"
  shows "agree (- {upage m root va}) m m'" "pt_ok m' root own" "pte_of m' root wa = pte_of m root wa"
    "um_ok m' root own" "uview m' root = put_range (uview m root) va bs"
proof -
  let ?p = "upage m root va" and ?k = "unat va mod 4096"
  have k: "?k < 4096" by simp
  have al: "page_aligned ?p" by (rule upage_aligned)
  show ag: "agree (- {?p}) m m'"
    unfolding m'_def
  proof (rule store_bytes_agree)
    show "unat (?p + of_nat ?k) mod 4096 + length bs \<le> 4096"
    proof -
      obtain q where "unat ?p = 4096 * q" using al unfolding page_aligned_def by (auto elim: dvdE)
      then show ?thesis using fit unfolding page_byte(1) [OF al k] by simp
    qed
    show "PGROUNDDOWN (?p + of_nat ?k) = ?p" by (rule page_byte(2) [OF al k])
  qed
  have "dom own \<subseteq> - {?p}" using um_okD(1) [OF um va] by blast
  note fr = pt_frame [OF ok agree_mono [OF ag this]]
  show "pt_ok m' root own" by (rule fr(1))
  show pt: "pte_of m' root wa = pte_of m root wa" for wa by (rule fr(2))
  have same: "umapped m' root = umapped m root" "upage m' root = upage m root"
    using pt by (simp_all add: umapped_def upage_def fun_eq_iff)
  show "um_ok m' root own" using um unfolding um_ok_def same .
  show "uview m' root = put_range (uview m root) va bs"
  proof
    fix wa :: uint64
    let ?j = "unat wa mod 4096"
    show "uview m' root wa = put_range (uview m root) va bs wa"
    proof (cases "umapped m root wa")
      case True
      show ?thesis
      proof (cases "vpn wa = vpn va")
        case eq: True
        have "wa < MAXVA" "va < MAXVA" using True va by (simp_all add: umapped_def)
        then have up: "upage m root wa = ?p" by (intro umapped_vpn(2) [OF eq])
        have un: "unat wa = vpn va * 4096 + ?j" "unat va = vpn va * 4096 + ?k"
          using eq unfolding vpn_def by (metis div_mult_mod_eq) simp
        have "m' (?p + of_nat ?j) = (if ?k \<le> ?j \<and> ?j < ?k + length bs then bs ! (?j - ?k)
            else m (?p + of_nat ?j))"
          unfolding m'_def by (rule store_page [OF al fit]) simp
        moreover have "?k \<le> ?j \<longleftrightarrow> unat va \<le> unat wa" "?j < ?k + length bs \<longleftrightarrow> unat wa < unat va + length bs"
          "?j - ?k = unat wa - unat va" using un by linarith+
        ultimately show ?thesis using True up by (simp add: uview_def same put_range_def)
      next
        case False
        then have "upage m root wa \<noteq> ?p" using um True va unfolding um_ok_def by metis
        then have "m' (upage m root wa + of_nat ?j) = m (upage m root wa + of_nat ?j)"
          using ag page_byte(2) [OF upage_aligned, of ?j m root wa] by (simp add: agree_def)
        moreover have "\<not> (unat va \<le> unat wa \<and> unat wa < unat va + length bs)"
          using same_page_range(1) [OF fit] False by blast
        ultimately show ?thesis using True by (auto simp: uview_def same put_range_def)
      qed
    next
      case False
      have "\<not> (unat va \<le> unat wa \<and> unat wa < unat va + length bs)"
      proof
        assume r: "unat va \<le> unat wa \<and> unat wa < unat va + length bs"
        then have eq: "vpn wa = vpn va" using same_page_range(1) [OF fit] by blast
        have "va < MAXVA" using va by (simp add: umapped_def)
        then have "unat va div 4096 < 2 ^ 26"
          by (simp add: word_less_nat_alt unat_MAXVA less_mult_imp_div_less)
        then have "unat wa div 4096 < 2 ^ 26" using eq by (simp add: vpn_def)
        then have "unat wa < 2 ^ 26 * 4096" by (subst (asm) div_less_iff_less_mult) simp_all
        then have "wa < MAXVA" by (simp add: word_less_nat_alt unat_MAXVA)
        with False va umapped_vpn(1) [OF eq \<open>va < MAXVA\<close>] show False by simp
      qed
      with False show ?thesis by (auto simp: uview_def same put_range_def)
    qed
  qed
qed

section \<open>The copying routines\<close>

text \<open>All bytes of a range are mapped for user access.\<close>

definition urange :: "memory \<Rightarrow> pagetable_t \<Rightarrow> uint64 \<Rightarrow> nat \<Rightarrow> bool" where
  "urange m root va n \<longleftrightarrow> unat va + n \<le> 2 ^ 38 \<and>
     (\<forall>wa. unat va \<le> unat wa \<longrightarrow> unat wa < unat va + n \<longrightarrow> umapped m root wa)"

lemma chunk_cases:
  assumes "0 < n"
  shows "unat va mod 4096 + chunk va n \<le> 4096" "chunk va n \<le> n" "0 < chunk va n"
    "chunk va n < n \<Longrightarrow> unat va + n \<le> 2 ^ 38 \<Longrightarrow>
      unat (PGROUNDDOWN va + PGSIZE) = unat va + chunk va n"
proof -
  have lt: "unat va mod 4096 < 4096" by simp
  show "unat va mod 4096 + chunk va n \<le> 4096" "chunk va n \<le> n" "0 < chunk va n"
    using assms lt unfolding chunk_eq by auto
  assume c: "chunk va n < n" "unat va + n \<le> 2 ^ 38"
  then have ch: "chunk va n = 4096 - unat va mod 4096" unfolding chunk_eq by auto
  have e: "unat va div 4096 * 4096 + unat va mod 4096 = unat va" by simp
  have "unat (PGROUNDDOWN va + PGSIZE) = unat va div 4096 * 4096 + 4096"
    using c e by (simp add: PGSIZE_def unat_word_ariths unat_PGROUNDDOWN)
  then show "unat (PGROUNDDOWN va + PGSIZE) = unat va + chunk va n"
    unfolding ch using e lt by linarith
qed

lemma urange_page:
  assumes "urange m root va n" "0 < n"
  shows "umapped m root va" "umapped m root (PGROUNDDOWN va)"
    "upage m root (PGROUNDDOWN va) = upage m root va"
proof -
  show u: "umapped m root va" using assms by (simp add: urange_def)
  then have va: "va < MAXVA" by (simp add: umapped_def)
  then have pva: "PGROUNDDOWN va < MAXVA"
    by (simp add: word_less_nat_alt unat_PGROUNDDOWN le_less_trans [OF div_times_less_eq_dividend])
  show "umapped m root (PGROUNDDOWN va)" "upage m root (PGROUNDDOWN va) = upage m root va"
    using umapped_vpn [OF vpn_PGROUNDDOWN va pva] u by simp_all
qed

lemma page_off_word: "va - PGROUNDDOWN va = of_nat (unat va mod 4096)"
  by (simp add: word_unat_eq_iff unat_page_off unat_of_nat)

lemma copyout_ok:
  assumes "pt_ok (mem s) root own" "um_ok (mem s) root own" "urange (mem s) root va (length bs)"
  shows "\<exists>m'. copyout root va bs s = Ret 0 (s\<lparr>mem := m'\<rparr>) \<and> pt_ok m' root own \<and> um_ok m' root own \<and>
    uview m' root = put_range (uview (mem s) root) va bs \<and>
    (\<forall>wa. pte_of m' root wa = pte_of (mem s) root wa) \<and>
    agree (- {p. \<exists>wa. umapped (mem s) root wa \<and> p = upage (mem s) root wa}) (mem s) m'"
  using assms
proof (induction "length bs" arbitrary: va bs s rule: less_induct)
  case less
  show ?case
  proof (cases "bs = []")
    case True
    then show ?thesis using less.prems
      by (subst copyout.simps) (auto simp: kop_simps intro!: exI [of _ "mem s"])
  next
    case False
    define c where "c = chunk va (length bs)"
    have pos: "0 < length bs" using False by simp
    note cc = chunk_cases [OF pos, of va, folded c_def]
    note up = urange_page [OF less.prems(3) pos]
    define m1 where "m1 = store_bytes (mem s) (upage (mem s) root va + of_nat (unat va mod 4096)) (take c bs)"
    have fit: "unat va mod 4096 + length (take c bs) \<le> 4096" using cc by simp
    note st = uview_store [OF less.prems(1,2) up(1) fit, folded m1_def]
    define s1 where "s1 = s\<lparr>mem := m1\<rparr>"
    have nz: "upage (mem s) root va \<noteq> 0" by (rule um_okD(2) [OF less.prems(2) up(1)])
    have step: "copyout root va bs s = copyout root (PGROUNDDOWN va + PGSIZE) (drop c bs) s1"
      using False up nz
      by (subst copyout.simps)
        (simp add: kop_simps walkaddr_umapped [OF less.prems(1)] page_off_word c_def s1_def m1_def)
    have um: "umapped m1 root = umapped (mem s) root" "upage m1 root = upage (mem s) root"
      using st(3) by (simp_all add: umapped_def upage_def fun_eq_iff)
    have r1: "urange m1 root (PGROUNDDOWN va + PGSIZE) (length (drop c bs))"
    proof (cases "c < length bs")
      case True
      then have u: "unat (PGROUNDDOWN va + PGSIZE) = unat va + c"
        using cc(4) less.prems(3) by (simp add: urange_def)
      show ?thesis using less.prems(3) True unfolding urange_def u um by auto
    next
      case False
      have "unat (PGROUNDDOWN va) < 2 ^ 38" using up(2) by (simp add: umapped_def word_less_nat_alt unat_MAXVA)
      then have "unat (PGROUNDDOWN va + PGSIZE) \<le> 2 ^ 38"
        using aligned_step [of "unat (PGROUNDDOWN va)" "2 ^ 38"] PGROUNDDOWN_aligned [of va]
        by (simp add: page_aligned_def PGSIZE_def unat_word_ariths)
      with False show ?thesis by (simp add: urange_def)
    qed
    have "length (drop c bs) < length bs" using cc pos by simp
    from less.hyps [OF this, of s1 "PGROUNDDOWN va + PGSIZE"] st(2,4) r1 obtain m2 where
      m2: "copyout root (PGROUNDDOWN va + PGSIZE) (drop c bs) s1 = Ret 0 (s1\<lparr>mem := m2\<rparr>)"
        "pt_ok m2 root own" "um_ok m2 root own"
        "uview m2 root = put_range (uview m1 root) (PGROUNDDOWN va + PGSIZE) (drop c bs)"
        "\<forall>wa. pte_of m2 root wa = pte_of m1 root wa"
        "agree (- {p. \<exists>wa. umapped m1 root wa \<and> p = upage m1 root wa}) m1 m2"
      by (auto simp: s1_def)
    have "uview m2 root = put_range (uview (mem s) root) va bs"
    proof (cases "c < length bs")
      case True
      then have "unat (PGROUNDDOWN va + PGSIZE) = unat va + length (take c bs)"
        using cc(4) less.prems(3) by (simp add: urange_def)
      then show ?thesis unfolding m2(4) st(5) by (simp add: put_range_append)
    next
      case False
      then show ?thesis using m2(4) st(5) by simp
    qed
    moreover have "agree (- {p. \<exists>wa. umapped (mem s) root wa \<and> p = upage (mem s) root wa}) (mem s) m2"
    proof (rule agree_trans)
      show "agree (- {p. \<exists>wa. umapped (mem s) root wa \<and> p = upage (mem s) root wa}) (mem s) m1"
        by (rule agree_mono [OF st(1)]) (use up(1) in auto)
      show "agree (- {p. \<exists>wa. umapped (mem s) root wa \<and> p = upage (mem s) root wa}) m1 m2"
        using m2(6) unfolding um .
    qed
    ultimately show ?thesis using step m2 st(3) by (auto simp: s1_def)
  qed
qed

definition uread :: "memory \<Rightarrow> pagetable_t \<Rightarrow> uint64 \<Rightarrow> nat \<Rightarrow> uint8 option list" where
  "uread m root va n = map (\<lambda>i. uview m root (va + of_nat i)) [0..<n]"

lemma length_uread [simp]: "length (uread m root va n) = n"
  by (simp add: uread_def)

lemma uread_append:
  "uread m root va (k + n) = uread m root va k @ uread m root (va + of_nat k) n"
proof (rule nth_equalityI)
  fix i assume "i < length (uread m root va (k + n))"
  then have "i < k + n" by simp
  then show "uread m root va (k + n) ! i =
      (uread m root va k @ uread m root (va + of_nat k) n) ! i"
    by (auto simp: uread_def nth_append add.assoc simp flip: of_nat_add)
qed simp

lemma page_next:
  assumes "0 < n" "chunk va n < n" "unat va + n \<le> 2 ^ 38"
  shows "PGROUNDDOWN va + PGSIZE = va + of_nat (chunk va n)"
proof -
  have "unat (PGROUNDDOWN va + PGSIZE) = unat va + chunk va n" by (rule chunk_cases(4) [OF assms])
  moreover have "unat (va + of_nat (chunk va n)) = unat va + chunk va n"
    using assms by (simp add: unat_word_ariths unat_of_nat)
  ultimately show ?thesis by (simp add: word_unat_eq_iff)
qed

lemma uread_page:
  assumes "umapped m root va" "unat va mod 4096 + c \<le> 4096"
  shows "uread m root va c =
    map Some (load_bytes m (upage m root va + of_nat (unat va mod 4096)) c)"
proof -
  have "uview m root (va + of_nat i) = Some (m (upage m root va + of_nat (unat va mod 4096) + of_nat i))"
    if i: "i < c" for i
  proof -
    have f: "unat va mod 4096 + i < 4096" using i assms(2) by simp
    have u: "unat (va + of_nat i) = unat va + i" by (rule page_offset(1) [OF f])
    have "unat va \<le> unat (va + of_nat i)" "unat (va + of_nat i) < unat va + c" using u i by simp_all
    note sp = same_page_range [OF assms(2) this]
    have va: "va < MAXVA" using assms(1) by (simp add: umapped_def)
    have "unat va + i < 2 ^ 38"
    proof -
      have "unat (PGROUNDDOWN va) < 2 ^ 38" using va unat_MAXVA
        by (simp add: word_less_nat_alt unat_PGROUNDDOWN le_less_trans [OF div_times_less_eq_dividend])
      then have "unat (PGROUNDDOWN va) + 4096 \<le> 2 ^ 38"
        using aligned_step [of "unat (PGROUNDDOWN va)" "2 ^ 38"] PGROUNDDOWN_aligned [of va]
        by (simp add: page_aligned_def)
      moreover have "unat va = unat (PGROUNDDOWN va) + unat va mod 4096" by (simp add: unat_PGROUNDDOWN)
      ultimately show ?thesis using f by linarith
    qed
    then have wa: "va + of_nat i < MAXVA" by (simp add: word_less_nat_alt unat_MAXVA u)
    have "umapped m root (va + of_nat i)" "upage m root (va + of_nat i) = upage m root va"
      using umapped_vpn [OF sp(1) va wa] assms(1) by simp_all
    moreover have "unat (va + of_nat i) mod 4096 = unat va mod 4096 + i" using sp(2) u by simp
    ultimately show ?thesis by (simp add: uview_def add.assoc)
  qed
  then show ?thesis by (simp add: uread_def load_bytes_def)
qed

lemma urange_next:
  assumes "urange m root va n" "chunk va n < n"
  shows "urange m root (va + of_nat (chunk va n)) (n - chunk va n)"
proof -
  have "unat (va + of_nat (chunk va n)) = unat va + chunk va n"
    using assms by (simp add: urange_def unat_word_ariths unat_of_nat)
  then show ?thesis using assms unfolding urange_def by auto
qed

lemma copyin_0: "copyin root va 0 s = Ret (0, []) s"
  by (subst copyin.simps) (simp add: kop_simps)

lemma copyin_ok:
  assumes "pt_ok (mem s) root own" "um_ok (mem s) root own" "urange (mem s) root va n"
  shows "\<exists>bs. copyin root va n s = Ret (0, bs) s \<and> map Some bs = uread (mem s) root va n"
  using assms(3)
proof (induction n arbitrary: va rule: less_induct)
  case (less n)
  show ?case
  proof (cases "n = 0")
    case True
    then show ?thesis by (subst copyin.simps) (simp add: kop_simps uread_def)
  next
    case False
    define c where "c = chunk va n"
    have pos: "0 < n" using False by simp
    note cc = chunk_cases [OF pos, of va, folded c_def]
    note up = urange_page [OF less.prems pos]
    define xs where "xs = load_bytes (mem s) (upage (mem s) root va + of_nat (unat va mod 4096)) c"
    have xs: "map Some xs = uread (mem s) root va c" unfolding xs_def
      by (rule uread_page [OF up(1) cc(1), symmetric])
    have nz: "upage (mem s) root va \<noteq> 0" by (rule um_okD(2) [OF assms(2) up(1)])
    have step: "copyin root va n s = bnd (copyin root (PGROUNDDOWN va + PGSIZE) (n - c)) (\<lambda>(r, rest).
        ret (r, xs @ rest)) s"
      using False up nz
      by (subst copyin.simps)
        (simp add: kop_simps walkaddr_umapped [OF assms(1)] page_off_word c_def xs_def)
    show ?thesis
    proof (cases "c < n")
      case True
      have next': "PGROUNDDOWN va + PGSIZE = va + of_nat c"
        using page_next [OF pos] True less.prems by (simp add: c_def urange_def)
      have "n - c < n" using cc pos by simp
      from less.IH [OF this urange_next [OF less.prems True [unfolded c_def], folded c_def]]
      obtain ys where "copyin root (va + of_nat c) (n - c) s = Ret (0, ys) s"
        "map Some ys = uread (mem s) root (va + of_nat c) (n - c)" by blast
      then show ?thesis using step next' xs uread_append [of "mem s" root va c "n - c"] cc
        by (simp add: kop_simps)
    next
      case False
      then have "n - c = 0" "c = n" using cc by simp_all
      then show ?thesis using step xs by (simp add: kop_simps copyin_0)
    qed
  qed
qed

text \<open>A page that is not mapped makes \<open>copyin\<close> fail.\<close>

lemma copyin_fail:
  assumes "pt_ok (mem s) root own" "um_ok (mem s) root own" "unat va + n \<le> 2 ^ 38"
    and "\<not> urange (mem s) root va n"
  shows "\<exists>bs. copyin root va n s = Ret (- 1, bs) s"
  using assms(3,4)
proof (induction n arbitrary: va rule: less_induct)
  case (less n)
  have pos: "0 < n" using less.prems by (auto simp: urange_def)
  define c where "c = chunk va n"
  note cc = chunk_cases [OF pos, of va, folded c_def]
  have lt: "va < MAXVA" using less.prems pos by (simp add: word_less_nat_alt unat_MAXVA)
  then have pva: "PGROUNDDOWN va < MAXVA"
    by (simp add: word_less_nat_alt unat_PGROUNDDOWN le_less_trans [OF div_times_less_eq_dividend])
  note um = umapped_vpn [OF vpn_PGROUNDDOWN lt pva, of "mem s" root]
  show ?case
  proof (cases "umapped (mem s) root va")
    case False
    then show ?thesis using pos um
      by (subst copyin.simps) (simp add: kop_simps walkaddr_umapped [OF assms(1)])
  next
    case True
    have nz: "upage (mem s) root va \<noteq> 0" by (rule um_okD(2) [OF assms(2) True])
    have in_page: "umapped (mem s) root wa" if "unat va \<le> unat wa" "unat wa < unat va + c" for wa
    proof -
      have "wa < MAXVA" using that cc(2) less.prems by (simp add: word_less_nat_alt unat_MAXVA)
      then show ?thesis using umapped_vpn(1) [OF same_page_range(1) [OF cc(1) that] lt] True by simp
    qed
    have "c < n"
    proof (rule ccontr)
      assume "\<not> c < n"
      then have "c = n" using cc(2) by simp
      with in_page less.prems show False by (auto simp: urange_def)
    qed
    then have next': "PGROUNDDOWN va + PGSIZE = va + of_nat c" "unat (va + of_nat c) = unat va + c"
      using page_next [OF pos] less.prems by (simp_all add: c_def unat_word_ariths unat_of_nat)
    have "\<not> urange (mem s) root (va + of_nat c) (n - c)"
    proof
      assume u: "urange (mem s) root (va + of_nat c) (n - c)"
      have "umapped (mem s) root wa" if "unat va \<le> unat wa" "unat wa < unat va + n" for wa
        using in_page [of wa] u that cc(2) unfolding urange_def next'(2)
        by (cases "unat wa < unat va + c") auto
      with less.prems show False by (auto simp: urange_def)
    qed
    with less.IH [of "n - c" "va + of_nat c"] obtain bs where
      "copyin root (va + of_nat c) (n - c) s = Ret (- 1, bs) s"
      using cc pos less.prems next' \<open>c < n\<close> by auto
    then show ?thesis using pos True um nz next'
      by (subst copyin.simps)
        (simp add: kop_simps walkaddr_umapped [OF assms(1)] c_def)
  qed
qed

lemma page_next':
  assumes "chunk va n < n" "unat va < 2 ^ 38"
  shows "PGROUNDDOWN va + PGSIZE = va + of_nat (chunk va n)"
proof -
  have ch: "chunk va n = 4096 - unat va mod 4096" using assms(1) unfolding chunk_eq by auto
  have "unat va = unat (PGROUNDDOWN va) + unat va mod 4096" by (simp add: unat_PGROUNDDOWN)
  moreover have "unat va mod 4096 < 4096" by simp
  ultimately have e: "unat va + chunk va n = unat (PGROUNDDOWN va) + 4096" unfolding ch by linarith
  have "unat (va + of_nat (chunk va n)) = unat va + chunk va n"
  proof -
    have "chunk va n \<le> 4096" using ch by simp
    then show ?thesis using assms(2) by (simp add: unat_word_ariths unat_of_nat)
  qed
  moreover have "unat (PGROUNDDOWN va + PGSIZE) = unat (PGROUNDDOWN va) + 4096"
    using assms(2) e by (simp add: PGSIZE_def unat_word_ariths unat_PGROUNDDOWN
        le_less_trans [OF div_times_less_eq_dividend])
  ultimately show ?thesis using e by (simp add: word_unat_eq_iff)
qed

lemma copyinstr_page_none:
  "0 \<notin> set (load_bytes m p n) \<Longrightarrow> copyinstr_page m p n = (False, load_bytes m p n)"
  by (induction n arbitrary: p) (auto simp: load_bytes_Suc, simp add: load_bytes_def)

lemma copyinstr_page_nul:
  assumes "load_bytes m p (Suc (length xs)) = xs @ [0]" "0 \<notin> set xs" "length xs < n"
  shows "copyinstr_page m p n = (True, xs @ [0])"
  using assms
proof (induction n arbitrary: p xs)
  case (Suc n)
  then show ?case by (cases xs) (auto simp: load_bytes_Suc)
qed simp

lemma uread_Some_umapped:
  assumes "map Some ys = uread m root va n" "0 < n"
  shows "umapped m root va"
proof -
  have "uread m root va n ! 0 = Some (ys ! 0)" using assms by (metis length_map length_uread nth_map)
  then show ?thesis using assms(2) by (auto simp: uread_def uview_def split: if_splits)
qed

lemma copyinstr_ok:
  assumes "pt_ok (mem s) root own" "um_ok (mem s) root own"
    and "map Some (xs @ [0]) = uread (mem s) root va (Suc (length xs))" "0 \<notin> set xs" "length xs < n"
  shows "copyinstr root va n s = Ret (0, xs @ [0]) s"
  using assms(3-5)
proof (induction n arbitrary: va xs rule: less_induct)
  case (less n)
  have pos: "0 < n" using less.prems by simp
  define c where "c = chunk va n"
  note cc = chunk_cases [OF pos, of va, folded c_def]
  have um: "umapped (mem s) root va" by (rule uread_Some_umapped [OF less.prems(1)]) simp
  then have lt: "va < MAXVA" by (simp add: umapped_def)
  then have pva: "PGROUNDDOWN va < MAXVA"
    by (simp add: word_less_nat_alt unat_PGROUNDDOWN le_less_trans [OF div_times_less_eq_dividend])
  note up = umapped_vpn [OF vpn_PGROUNDDOWN lt pva, of "mem s" root]
  note nz = um_okD(2) [OF assms(2) um]
  let ?p = "upage (mem s) root va + of_nat (unat va mod 4096)"
  have inj: "map Some as = map Some bs \<Longrightarrow> as = bs" for as bs :: "uint8 list"
    by (simp add: inj_map_eq_map)
  have step: "copyinstr root va n s = (case copyinstr_page (mem s) ?p c of
      (True, bs) \<Rightarrow> Ret (0, bs) s
    | (False, bs) \<Rightarrow> bnd (copyinstr root (PGROUNDDOWN va + PGSIZE) (n - c)) (\<lambda>(r, rest).
        ret (r, bs @ rest)) s)"
    using pos um up nz
    by (subst copyinstr.simps)
      (simp add: kop_simps walkaddr_umapped [OF assms(1)] page_off_word c_def split: prod.split bool.split)
  show ?case
  proof (cases "length xs < c")
    case True
    then have "unat va mod 4096 + Suc (length xs) \<le> 4096" using cc(1) by simp
    from inj [OF less.prems(1) [unfolded uread_page [OF um this]]]
    have "load_bytes (mem s) ?p (Suc (length xs)) = xs @ [0]" by simp
    from copyinstr_page_nul [OF this less.prems(2) True] show ?thesis using step by simp
  next
    case False
    then have cn: "c < n" "Suc (length xs) = c + Suc (length xs - c)" using less.prems(3) by simp_all
    have "map Some (take c xs) @ map Some (drop c xs @ [0]) = map Some (xs @ [0])"
      by (simp add: map_append [symmetric] del: map_append)
    also have "\<dots> = uread (mem s) root va c @ uread (mem s) root (va + of_nat c) (Suc (length xs - c))"
      using less.prems(1) unfolding cn(2) uread_append .
    finally have sp: "map Some (take c xs) = uread (mem s) root va c"
      "map Some (drop c xs @ [0]) = uread (mem s) root (va + of_nat c) (Suc (length xs - c))"
      using False by (simp_all add: append_eq_append_conv)
    have "take c xs = load_bytes (mem s) ?p c"
      by (rule inj) (use sp(1) uread_page [OF um cc(1)] in simp)
    moreover have "0 \<notin> set (take c xs)" using less.prems(2) by (auto dest: in_set_takeD)
    ultimately have pg: "copyinstr_page (mem s) ?p c = (False, take c xs)"
      using copyinstr_page_none [of "mem s" ?p c] by simp
    have next': "PGROUNDDOWN va + PGSIZE = va + of_nat c"
      using page_next' [of va n] cn(1) lt by (simp add: c_def word_less_nat_alt unat_MAXVA)
    have "copyinstr root (va + of_nat c) (n - c) s = Ret (0, drop c xs @ [0]) s"
      using sp(2) less.prems(2,3) False cc pos
      by (intro less.IH) (auto dest: in_set_dropD)
    then show ?thesis using step pg next' by (simp add: kop_simps)
  qed
qed

section \<open>Properties\<close>

text \<open>
  C13. \<open>copyout\<close> followed by \<open>copyin\<close>: when the range is mapped for user access, \<open>copyout\<close> returns 0
  and changes the process's view of its memory exactly on that range, across page boundaries;
  \<open>copyin\<close> of the same range then returns 0 and the bytes written.
\<close>

theorem copyout_copyin:
  assumes "pt_ok (mem s) root own" "um_ok (mem s) root own" "urange (mem s) root va (length bs)"
  shows "\<exists>t. copyout root va bs s = Ret 0 t \<and>
    uview (mem t) root = put_range (uview (mem s) root) va bs \<and>
    copyin root va (length bs) t = Ret (0, bs) t"
proof -
  from copyout_ok [OF assms] obtain m' where
    m': "copyout root va bs s = Ret 0 (s\<lparr>mem := m'\<rparr>)" "pt_ok m' root own" "um_ok m' root own"
      "uview m' root = put_range (uview (mem s) root) va bs"
      "\<forall>wa. pte_of m' root wa = pte_of (mem s) root wa" by blast
  let ?t = "s\<lparr>mem := m'\<rparr>"
  have "urange (mem ?t) root va (length bs)"
    using assms(3) m'(5) by (simp add: urange_def umapped_def)
  from copyin_ok [of ?t root own va "length bs", OF _ _ this] m'(2,3) obtain ys where
    ys: "copyin root va (length bs) ?t = Ret (0, ys) ?t" "map Some ys = uread m' root va (length bs)"
    by auto
  have "map Some ys = map Some bs"
  proof (rule nth_equalityI)
    show len: "length (map Some ys) = length (map Some bs)" using ys(2) by (metis length_map length_uread)
    fix i assume "i < length (map Some ys)"
    then have i: "i < length bs" using len by simp
    have "unat (va + of_nat i) = unat va + i"
      using assms(3) i by (simp add: urange_def unat_word_ariths unat_of_nat)
    then have "uread m' root va (length bs) ! i = Some (bs ! i)"
      using i by (simp add: uread_def m'(4) put_range_def)
    then show "map Some ys ! i = map Some bs ! i" using ys(2) i by simp
  qed
  then have "ys = bs" by (simp add: inj_map_eq_map)
  then show ?thesis using m' ys by auto
qed

text \<open>A page table with one user page, at \<open>0x3000\<close>.\<close>

lemma vm0_user:
  "\<exists>t own. mappages 0x87FFE000 0x3000 PGSIZE 0x80005000 (PTE_R OR PTE_U) vm0 = Ret 0 t \<and>
     pt_ok (mem t) 0x87FFE000 own \<and> um_ok (mem t) 0x87FFE000 own \<and>
     (\<forall>va. umapped (mem t) 0x87FFE000 va \<longleftrightarrow> va < MAXVA \<and> vpn va = 3) \<and>
     (\<forall>va. umapped (mem t) 0x87FFE000 va \<longrightarrow> upage (mem t) 0x87FFE000 va = 0x80005000)"
proof -
  from vm0_mapped [of "0x80005000"] obtain t own ps where
    t: "mappages 0x87FFE000 0x3000 PGSIZE 0x80005000 (PTE_R OR PTE_U) vm0 = Ret 0 t"
      "vm_inv t 0x87FFE000 own ps" "kend t = 0x87FF0000"
      "pte_of (mem t) 0x87FFE000 0x3000 = PA2PTE 0x80005000 OR (PTE_R OR PTE_U) OR PTE_V"
      "\<forall>wa. wa < MAXVA \<longrightarrow> vpn wa \<noteq> 3 \<longrightarrow> pte_of (mem t) 0x87FFE000 wa = 0" by blast
  let ?m = "mem t" and ?r = "0x87FFE000 :: uint64"
  have three: "vpn 0x3000 = 3" by (simp add: vpn_def)
  have e: "pte_of ?m ?r va = PA2PTE 0x80005000 OR (PTE_R OR PTE_U) OR PTE_V" if "vpn va = 3" for va
    using that t(4) pte_of_vpn [of va "0x3000" ?m ?r] three by simp
  have val: "valid (PA2PTE 0x80005000 OR (PTE_R OR PTE_U) OR PTE_V)"
    "(PA2PTE 0x80005000 OR (PTE_R OR PTE_U) OR PTE_V) AND PTE_U \<noteq> 0"
    "PTE2PA (PA2PTE 0x80005000 OR (PTE_R OR PTE_U) OR PTE_V) = 0x80005000"
    by (simp_all add: valid_def pte_bit_defs PA2PTE_def PTE2PA_def)
  have um: "umapped ?m ?r va \<longleftrightarrow> va < MAXVA \<and> vpn va = 3" for va
    using e [of va] t(5) val by (auto simp: umapped_def)
  have up: "umapped ?m ?r va \<Longrightarrow> upage ?m ?r va = 0x80005000" for va
    using e [of va] um [of va] val by (simp add: upage_def)
  have "0x80005000 \<notin> dom own"
  proof
    assume "0x80005000 \<in> dom own"
    then have "page_ok (kend t) 0x80005000" using t(2) by (auto simp: vm_inv_def)
    then show False by (simp add: page_ok_def t(3))
  qed
  then have "um_ok ?m ?r own"
    unfolding um_ok_def
  proof (intro conjI allI impI)
    fix va wa
    assume u: "umapped ?m ?r va"
    show "upage ?m ?r va \<notin> dom own" "upage ?m ?r va \<noteq> 0"
      using up [OF u] \<open>0x80005000 \<notin> dom own\<close> by simp_all
    assume "umapped ?m ?r wa"
    with u show "vpn va = vpn wa" using um by simp
  qed
  moreover have "pt_ok ?m ?r own" using t(2) by (simp add: vm_inv_def)
  ultimately show ?thesis using t(1) um up by blast
qed

lemma vm0_range:
  assumes "\<forall>va. umapped m r va \<longleftrightarrow> va < MAXVA \<and> vpn va = 3"
    and "0x3000 \<le> unat va" "unat va + n \<le> 0x4000"
  shows "urange m r va n"
  unfolding urange_def
proof (intro conjI allI impI)
  show "unat va + n \<le> 2 ^ 38" using assms(3) by simp
  fix wa :: uint64
  assume w: "unat va \<le> unat wa" "unat wa < unat va + n"
  then have "unat wa div 4096 = 3" using assms(2,3) by (intro div_nat_eqI) simp_all
  moreover have "unat wa < 2 ^ 38" using w assms(3) by simp
  ultimately show "umapped m r wa"
    using assms(1) by (simp add: vpn_def word_less_nat_alt unat_MAXVA)
qed

theorem copyout_copyin_witness:
  "\<exists>s t. mappages 0x87FFE000 0x3000 PGSIZE 0x80005000 (PTE_R OR PTE_U) vm0 = Ret 0 s \<and>
     copyout 0x87FFE000 0x3FFE [7, 9] s = Ret 0 t \<and> copyin 0x87FFE000 0x3FFE 2 t = Ret (0, [7, 9]) t"
proof -
  from vm0_user obtain s own where
    s: "mappages 0x87FFE000 0x3000 PGSIZE 0x80005000 (PTE_R OR PTE_U) vm0 = Ret 0 s"
      "pt_ok (mem s) 0x87FFE000 own" "um_ok (mem s) 0x87FFE000 own"
      "\<forall>va. umapped (mem s) 0x87FFE000 va \<longleftrightarrow> va < MAXVA \<and> vpn va = 3" by blast
  have "urange (mem s) 0x87FFE000 0x3FFE (length [7, 9 :: uint8])"
    by (rule vm0_range [OF s(4)]) simp_all
  from copyout_copyin [OF s(2,3) this] s(1) show ?thesis by (auto simp: numeral_2_eq_2)
qed

text \<open>
  C14. \<open>copyinstr\<close> fetches a user string: when the string and its NUL are mapped and fit in \<open>max\<close>
  bytes, it returns 0 and stores exactly the string with its NUL, also across page boundaries.
\<close>

theorem copyinstr_correct:
  assumes "pt_ok (mem s) root own" "um_ok (mem s) root own"
    and "map Some (xs @ [0]) = uread (mem s) root va (Suc (length xs))" "0 \<notin> set xs" "length xs < n"
  shows "copyinstr root va n s = Ret (0, xs @ [0]) s"
  using assms by (rule copyinstr_ok)

theorem copyinstr_correct_witness:
  "\<exists>(s :: kmem_state) t. copyout 0x87FFE000 0x3010 [104, 105, 0] s = Ret 0 t \<and>
     copyinstr 0x87FFE000 0x3010 16 t = Ret (0, [104, 105, 0]) t"
proof -
  from vm0_user obtain s :: kmem_state and own where
    s: "pt_ok (mem s) 0x87FFE000 own" "um_ok (mem s) 0x87FFE000 own"
      "\<forall>va. umapped (mem s) 0x87FFE000 va \<longleftrightarrow> va < MAXVA \<and> vpn va = 3"
    by blast
  have "urange (mem s) 0x87FFE000 0x3010 (length [104, 105, 0 :: uint8])"
    by (rule vm0_range [OF s(3)]) simp_all
  from copyout_ok [OF s(1,2) this] obtain m' where
    m': "copyout 0x87FFE000 0x3010 [104, 105, 0] s = Ret 0 (s\<lparr>mem := m'\<rparr>)" "pt_ok m' 0x87FFE000 own"
      "um_ok m' 0x87FFE000 own"
      "uview m' 0x87FFE000 = put_range (uview (mem s) 0x87FFE000) 0x3010 [104, 105, 0]"
    by blast
  let ?t = "s\<lparr>mem := m'\<rparr>"
  have "map Some ([104, 105] @ [0]) = uread (mem ?t) 0x87FFE000 0x3010 (Suc (length [104, 105 :: uint8]))"
    by (simp add: uread_def m'(4) put_range_def)
  moreover have "pt_ok (mem ?t) 0x87FFE000 own" "um_ok (mem ?t) 0x87FFE000 own"
    using m'(2,3) by simp_all
  ultimately have "copyinstr 0x87FFE000 0x3010 16 ?t = Ret (0, [104, 105] @ [0]) ?t"
    by (intro copyinstr_correct) simp_all
  with m'(1) show ?thesis by (intro exI [of _ s] exI [of _ ?t]) simp
qed

end
