(* ===== verification/Proc.thy ===== *)
theory Proc
  imports Usermem
begin

text \<open>
  \<open>kernel/proc.c\<close> and \<open>kernel/proc.h\<close>: the process table, allocation and release of process slots,
  sleeping and waking, \<open>kill\<close>, \<open>wait\<close>, the scheduler's scan, and copying to and from the current
  process.  The functions that need the file system (\<open>userinit\<close>, \<open>fork\<close>, \<open>exit\<close>, \<open>forkret\<close>) are in a
  later theory.

  A process is its index in the table.  A wait channel, an address in the code, is the kernel
  object it points to.  \<open>swtch\<close> suspends the kernel thread; what follows it runs on the state in
  which the thread is resumed.  A loop around \<open>sleep\<close> is followed for \<open>WAITS\<close> wake-ups.  A function
  called without a current process would dereference a null pointer, which ends in
  \<open>panic("kerneltrap")\<close>.
\<close>

section \<open>State\<close>

record ctx =
  ctx_ra :: uint64
  ctx_sp :: uint64
  ctx_s0 :: uint64
  ctx_s1 :: uint64
  ctx_s2 :: uint64
  ctx_s3 :: uint64
  ctx_s4 :: uint64
  ctx_s5 :: uint64
  ctx_s6 :: uint64
  ctx_s7 :: uint64
  ctx_s8 :: uint64
  ctx_s9 :: uint64
  ctx_s10 :: uint64
  ctx_s11 :: uint64

definition ctx_zero :: ctx where
  "ctx_zero = \<lparr>ctx_ra = 0, ctx_sp = 0, ctx_s0 = 0, ctx_s1 = 0, ctx_s2 = 0, ctx_s3 = 0, ctx_s4 = 0,
     ctx_s5 = 0, ctx_s6 = 0, ctx_s7 = 0, ctx_s8 = 0, ctx_s9 = 0, ctx_s10 = 0, ctx_s11 = 0\<rparr>"

datatype procstate = UNUSED | USED | SLEEPING | RUNNABLE | RUNNING | ZOMBIE

datatype chan =
    ChProc nat
  | ChSleep sleepid
  | ChLog
  | ChTicks
  | ChCons
  | ChUart
  | ChDiskFree
  | ChBuf nat
  | ChPipeRead uint64
  | ChPipeWrite uint64

record proc =
  p_state :: procstate
  p_chan :: "chan option"
  p_killed :: int
  p_xstate :: int
  p_pid :: int
  p_parent :: "nat option"
  p_kstack :: uint64
  p_sz :: uint64
  p_pagetable :: pagetable_t
  p_trapframe :: uint64
  p_context :: ctx
  p_ofile :: "nat \<Rightarrow> nat option"
  p_cwd :: "nat option"
  p_name :: "uint8 list"

text \<open>The offsets of the trapframe fields that kernel code reads or writes.\<close>

definition TF_kernel_satp :: uint64 where "TF_kernel_satp = 0"
definition TF_kernel_sp :: uint64 where "TF_kernel_sp = 8"
definition TF_kernel_trap :: uint64 where "TF_kernel_trap = 16"
definition TF_epc :: uint64 where "TF_epc = 24"
definition TF_kernel_hartid :: uint64 where "TF_kernel_hartid = 32"
definition TF_sp :: uint64 where "TF_sp = 48"
definition TF_a0 :: uint64 where "TF_a0 = 112"
definition TF_a1 :: uint64 where "TF_a1 = 120"
definition TF_a7 :: uint64 where "TF_a7 = 168"
definition TF_size :: nat where "TF_size = 288"

record proc_state = vm_state +
  procs :: "nat \<Rightarrow> proc"
  initproc :: "nat option"
  nextpid :: int
  forkret_sym :: uint64

lemma proc_upd_order [upd_order]:
  "mem_update f_mem (procs_update g_procs r) = procs_update g_procs (mem_update f_mem r)"
  "mem_update f_mem (initproc_update g_initproc r) = initproc_update g_initproc (mem_update f_mem r)"
  "mem_update f_mem (nextpid_update g_nextpid r) = nextpid_update g_nextpid (mem_update f_mem r)"
  "mem_update f_mem (forkret_sym_update g_forkret_sym r) = forkret_sym_update g_forkret_sym (mem_update f_mem r)"
  "tp_update f_tp (procs_update g_procs r) = procs_update g_procs (tp_update f_tp r)"
  "tp_update f_tp (initproc_update g_initproc r) = initproc_update g_initproc (tp_update f_tp r)"
  "tp_update f_tp (nextpid_update g_nextpid r) = nextpid_update g_nextpid (tp_update f_tp r)"
  "tp_update f_tp (forkret_sym_update g_forkret_sym r) = forkret_sym_update g_forkret_sym (tp_update f_tp r)"
  "sstatus_update f_sstatus (procs_update g_procs r) = procs_update g_procs (sstatus_update f_sstatus r)"
  "sstatus_update f_sstatus (initproc_update g_initproc r) = initproc_update g_initproc (sstatus_update f_sstatus r)"
  "sstatus_update f_sstatus (nextpid_update g_nextpid r) = nextpid_update g_nextpid (sstatus_update f_sstatus r)"
  "sstatus_update f_sstatus (forkret_sym_update g_forkret_sym r) = forkret_sym_update g_forkret_sym (sstatus_update f_sstatus r)"
  "cpus_update f_cpus (procs_update g_procs r) = procs_update g_procs (cpus_update f_cpus r)"
  "cpus_update f_cpus (initproc_update g_initproc r) = initproc_update g_initproc (cpus_update f_cpus r)"
  "cpus_update f_cpus (nextpid_update g_nextpid r) = nextpid_update g_nextpid (cpus_update f_cpus r)"
  "cpus_update f_cpus (forkret_sym_update g_forkret_sym r) = forkret_sym_update g_forkret_sym (cpus_update f_cpus r)"
  "locks_update f_locks (procs_update g_procs r) = procs_update g_procs (locks_update f_locks r)"
  "locks_update f_locks (initproc_update g_initproc r) = initproc_update g_initproc (locks_update f_locks r)"
  "locks_update f_locks (nextpid_update g_nextpid r) = nextpid_update g_nextpid (locks_update f_locks r)"
  "locks_update f_locks (forkret_sym_update g_forkret_sym r) = forkret_sym_update g_forkret_sym (locks_update f_locks r)"
  "kend_update f_kend (procs_update g_procs r) = procs_update g_procs (kend_update f_kend r)"
  "kend_update f_kend (initproc_update g_initproc r) = initproc_update g_initproc (kend_update f_kend r)"
  "kend_update f_kend (nextpid_update g_nextpid r) = nextpid_update g_nextpid (kend_update f_kend r)"
  "kend_update f_kend (forkret_sym_update g_forkret_sym r) = forkret_sym_update g_forkret_sym (kend_update f_kend r)"
  "freelist_update f_freelist (procs_update g_procs r) = procs_update g_procs (freelist_update f_freelist r)"
  "freelist_update f_freelist (initproc_update g_initproc r) = initproc_update g_initproc (freelist_update f_freelist r)"
  "freelist_update f_freelist (nextpid_update g_nextpid r) = nextpid_update g_nextpid (freelist_update f_freelist r)"
  "freelist_update f_freelist (forkret_sym_update g_forkret_sym r) = forkret_sym_update g_forkret_sym (freelist_update f_freelist r)"
  "etext_update f_etext (procs_update g_procs r) = procs_update g_procs (etext_update f_etext r)"
  "etext_update f_etext (initproc_update g_initproc r) = initproc_update g_initproc (etext_update f_etext r)"
  "etext_update f_etext (nextpid_update g_nextpid r) = nextpid_update g_nextpid (etext_update f_etext r)"
  "etext_update f_etext (forkret_sym_update g_forkret_sym r) = forkret_sym_update g_forkret_sym (etext_update f_etext r)"
  "trampoline_update f_trampoline (procs_update g_procs r) = procs_update g_procs (trampoline_update f_trampoline r)"
  "trampoline_update f_trampoline (initproc_update g_initproc r) = initproc_update g_initproc (trampoline_update f_trampoline r)"
  "trampoline_update f_trampoline (nextpid_update g_nextpid r) = nextpid_update g_nextpid (trampoline_update f_trampoline r)"
  "trampoline_update f_trampoline (forkret_sym_update g_forkret_sym r) = forkret_sym_update g_forkret_sym (trampoline_update f_trampoline r)"
  "kernel_pagetable_update f_kernel_pagetable (procs_update g_procs r) = procs_update g_procs (kernel_pagetable_update f_kernel_pagetable r)"
  "kernel_pagetable_update f_kernel_pagetable (initproc_update g_initproc r) = initproc_update g_initproc (kernel_pagetable_update f_kernel_pagetable r)"
  "kernel_pagetable_update f_kernel_pagetable (nextpid_update g_nextpid r) = nextpid_update g_nextpid (kernel_pagetable_update f_kernel_pagetable r)"
  "kernel_pagetable_update f_kernel_pagetable (forkret_sym_update g_forkret_sym r) = forkret_sym_update g_forkret_sym (kernel_pagetable_update f_kernel_pagetable r)"
  "satp_update f_satp (procs_update g_procs r) = procs_update g_procs (satp_update f_satp r)"
  "satp_update f_satp (initproc_update g_initproc r) = initproc_update g_initproc (satp_update f_satp r)"
  "satp_update f_satp (nextpid_update g_nextpid r) = nextpid_update g_nextpid (satp_update f_satp r)"
  "satp_update f_satp (forkret_sym_update g_forkret_sym r) = forkret_sym_update g_forkret_sym (satp_update f_satp r)"
  "procs_update f_procs (initproc_update g_initproc r) = initproc_update g_initproc (procs_update f_procs r)"
  "procs_update f_procs (nextpid_update g_nextpid r) = nextpid_update g_nextpid (procs_update f_procs r)"
  "procs_update f_procs (forkret_sym_update g_forkret_sym r) = forkret_sym_update g_forkret_sym (procs_update f_procs r)"
  "initproc_update f_initproc (nextpid_update g_nextpid r) = nextpid_update g_nextpid (initproc_update f_initproc r)"
  "initproc_update f_initproc (forkret_sym_update g_forkret_sym r) = forkret_sym_update g_forkret_sym (initproc_update f_initproc r)"
  "nextpid_update f_nextpid (forkret_sym_update g_forkret_sym r) = forkret_sym_update g_forkret_sym (nextpid_update f_nextpid r)"
  by simp_all

lemma proc_state_simps [state_simps]:
  "procs (acq lk s) = procs s"
  "acq lk (procs_update f_procs s) = procs_update f_procs (acq lk s)"
  "procs (rel lk s) = procs s"
  "rel lk (procs_update f_procs s) = procs_update f_procs (rel lk s)"
  "procs (tch s) = procs s"
  "tch (procs_update f_procs s) = procs_update f_procs (tch s)"
  "free_lk lk (procs_update f_procs s) = free_lk lk s"
  "held_lk lk (procs_update f_procs s) = held_lk lk s"
  "in_cs (procs_update f_procs s) = in_cs s"
  "irq_ok (procs_update f_procs s) = irq_ok s"
  "intr_get (procs_update f_procs s) = intr_get s"
  "cpuid (procs_update f_procs s) = cpuid s"
  "mycpu (procs_update f_procs s) = mycpu s"
  "initproc (acq lk s) = initproc s"
  "acq lk (initproc_update f_initproc s) = initproc_update f_initproc (acq lk s)"
  "initproc (rel lk s) = initproc s"
  "rel lk (initproc_update f_initproc s) = initproc_update f_initproc (rel lk s)"
  "initproc (tch s) = initproc s"
  "tch (initproc_update f_initproc s) = initproc_update f_initproc (tch s)"
  "free_lk lk (initproc_update f_initproc s) = free_lk lk s"
  "held_lk lk (initproc_update f_initproc s) = held_lk lk s"
  "in_cs (initproc_update f_initproc s) = in_cs s"
  "irq_ok (initproc_update f_initproc s) = irq_ok s"
  "intr_get (initproc_update f_initproc s) = intr_get s"
  "cpuid (initproc_update f_initproc s) = cpuid s"
  "mycpu (initproc_update f_initproc s) = mycpu s"
  "nextpid (acq lk s) = nextpid s"
  "acq lk (nextpid_update f_nextpid s) = nextpid_update f_nextpid (acq lk s)"
  "nextpid (rel lk s) = nextpid s"
  "rel lk (nextpid_update f_nextpid s) = nextpid_update f_nextpid (rel lk s)"
  "nextpid (tch s) = nextpid s"
  "tch (nextpid_update f_nextpid s) = nextpid_update f_nextpid (tch s)"
  "free_lk lk (nextpid_update f_nextpid s) = free_lk lk s"
  "held_lk lk (nextpid_update f_nextpid s) = held_lk lk s"
  "in_cs (nextpid_update f_nextpid s) = in_cs s"
  "irq_ok (nextpid_update f_nextpid s) = irq_ok s"
  "intr_get (nextpid_update f_nextpid s) = intr_get s"
  "cpuid (nextpid_update f_nextpid s) = cpuid s"
  "mycpu (nextpid_update f_nextpid s) = mycpu s"
  "forkret_sym (acq lk s) = forkret_sym s"
  "acq lk (forkret_sym_update f_forkret_sym s) = forkret_sym_update f_forkret_sym (acq lk s)"
  "forkret_sym (rel lk s) = forkret_sym s"
  "rel lk (forkret_sym_update f_forkret_sym s) = forkret_sym_update f_forkret_sym (rel lk s)"
  "forkret_sym (tch s) = forkret_sym s"
  "tch (forkret_sym_update f_forkret_sym s) = forkret_sym_update f_forkret_sym (tch s)"
  "free_lk lk (forkret_sym_update f_forkret_sym s) = free_lk lk s"
  "held_lk lk (forkret_sym_update f_forkret_sym s) = held_lk lk s"
  "in_cs (forkret_sym_update f_forkret_sym s) = in_cs s"
  "irq_ok (forkret_sym_update f_forkret_sym s) = irq_ok s"
  "intr_get (forkret_sym_update f_forkret_sym s) = intr_get s"
  "cpuid (forkret_sym_update f_forkret_sym s) = cpuid s"
  "mycpu (forkret_sym_update f_forkret_sym s) = mycpu s"
  by (simp_all add: in_cs_def lock_defs upd_order)

definition WAITS :: nat where "WAITS = 64"

definition set_proc :: "nat \<Rightarrow> (proc \<Rightarrow> proc) \<Rightarrow> (unit, 'z proc_state_scheme) kop" where
  "set_proc p f = modify (\<lambda>s. s\<lparr>procs := (procs s)(p := f (procs s p))\<rparr>)"

definition get_proc :: "nat \<Rightarrow> (proc, 'z proc_state_scheme) kop" where
  "get_proc p = gets (\<lambda>s. procs s p)"

lemma proc_ops [kop_simps]:
  "set_proc p f s = Ret () (s\<lparr>procs := (procs s)(p := f (procs s p))\<rparr>)"
  "get_proc p s = Ret (procs s p) s"
  by (simp_all add: set_proc_def get_proc_def kop_simps)

section \<open>The process table\<close>

definition procinit :: "(unit, 'z proc_state_scheme) kop" where
  "procinit =
     thn (initlock PidLock ''nextpid'')
    (thn (initlock WaitLock ''wait_lock'')
         (for_each [0..<NPROC] (\<lambda>p.
            thn (initlock (ProcLock p) ''proc'')
           (thn (set_proc p (\<lambda>q. q\<lparr>p_state := UNUSED\<rparr>))
                (set_proc p (\<lambda>q. q\<lparr>p_kstack := KSTACK p\<rparr>))))))"

definition myproc :: "(nat option, 'z machine_scheme) kop" where
  "myproc = thn push_off (bnd (gets mycpu) (\<lambda>c. thn pop_off (ret (cproc c))))"

definition cur_proc :: "(nat, 'z machine_scheme) kop" where
  "cur_proc = bnd myproc (\<lambda>p. case p of None \<Rightarrow> panic ''kerneltrap'' | Some i \<Rightarrow> ret i)"

definition allocpid :: "(int, 'z proc_state_scheme) kop" where
  "allocpid =
     thn (acquire PidLock)
    (bnd (gets nextpid) (\<lambda>pid.
     thn (modify (\<lambda>s. s\<lparr>nextpid := nextpid s + 1\<rparr>))
    (thn (release PidLock)
         (ret pid))))"

definition proc_pagetable :: "nat \<Rightarrow> (pagetable_t, 'z proc_state_scheme) kop" where
  "proc_pagetable p =
     bnd uvmcreate (\<lambda>pagetable.
     if pagetable = 0 then ret 0 else
     bnd (gets trampoline) (\<lambda>tr.
     bnd (mappages pagetable TRAMPOLINE PGSIZE tr (PTE_R OR PTE_X)) (\<lambda>r.
     if r < 0 then thn (uvmfree pagetable 0) (ret 0) else
     bnd (get_proc p) (\<lambda>pr.
     bnd (mappages pagetable TRAPFRAME PGSIZE (p_trapframe pr) (PTE_R OR PTE_W)) (\<lambda>r.
     if r < 0 then
       thn (uvmunmap pagetable TRAMPOLINE 1 False) (thn (uvmfree pagetable 0) (ret 0))
     else ret pagetable)))))"

definition proc_freepagetable :: "pagetable_t \<Rightarrow> uint64 \<Rightarrow> (unit, 'z kmem_state_scheme) kop" where
  "proc_freepagetable pagetable sz =
     thn (uvmunmap pagetable TRAMPOLINE 1 False)
    (thn (uvmunmap pagetable TRAPFRAME 1 False)
         (uvmfree pagetable sz))"

definition freeproc :: "nat \<Rightarrow> (unit, 'z proc_state_scheme) kop" where
  "freeproc p =
     bnd (get_proc p) (\<lambda>pr.
     thn (whenk (p_trapframe pr \<noteq> 0) (kfree (p_trapframe pr)))
    (thn (set_proc p (\<lambda>q. q\<lparr>p_trapframe := 0\<rparr>))
    (thn (whenk (p_pagetable pr \<noteq> 0) (proc_freepagetable (p_pagetable pr) (p_sz pr)))
         (set_proc p (\<lambda>q. q\<lparr>p_pagetable := 0, p_sz := 0, p_pid := 0, p_parent := None,
            p_name := (p_name q)[0 := 0], p_chan := None, p_killed := 0, p_xstate := 0,
            p_state := UNUSED\<rparr>)))))"

text \<open>The search loop of \<open>allocproc\<close>: it ends with the lock of the slot found held.\<close>

fun allocproc_find :: "nat list \<Rightarrow> (nat option, 'z proc_state_scheme) kop" where
  "allocproc_find [] = ret None"
| "allocproc_find (p # ps) =
     thn (acquire (ProcLock p))
    (bnd (get_proc p) (\<lambda>pr.
     if p_state pr = UNUSED then ret (Some p)
     else thn (release (ProcLock p)) (allocproc_find ps)))"

definition allocproc :: "(nat option, 'z proc_state_scheme) kop" where
  "allocproc =
     bnd (allocproc_find [0..<NPROC]) (\<lambda>found.
     case found of None \<Rightarrow> ret None
     | Some p \<Rightarrow>
         bnd allocpid (\<lambda>pid.
         thn (set_proc p (\<lambda>q. q\<lparr>p_pid := pid\<rparr>))
        (thn (set_proc p (\<lambda>q. q\<lparr>p_state := USED\<rparr>))
        (bnd kalloc (\<lambda>tf.
         thn (set_proc p (\<lambda>q. q\<lparr>p_trapframe := tf\<rparr>))
        (if tf = 0 then thn (freeproc p) (thn (release (ProcLock p)) (ret None)) else
         bnd (proc_pagetable p) (\<lambda>pt.
         thn (set_proc p (\<lambda>q. q\<lparr>p_pagetable := pt\<rparr>))
        (if pt = 0 then thn (freeproc p) (thn (release (ProcLock p)) (ret None)) else
         bnd (gets forkret_sym) (\<lambda>ra.
         thn (set_proc p (\<lambda>q. q\<lparr>p_context := ctx_zero\<lparr>ctx_ra := ra, ctx_sp := p_kstack q + PGSIZE\<rparr>\<rparr>))
             (ret (Some p)))))))))))"

definition growproc :: "int \<Rightarrow> (int, 'z proc_state_scheme) kop" where
  "growproc n =
     bnd cur_proc (\<lambda>p.
     bnd (get_proc p) (\<lambda>pr.
     let sz = p_sz pr in
     if n > 0 then
       bnd (uvmalloc (p_pagetable pr) sz (sz + of_int n) PTE_W) (\<lambda>sz'.
       if sz' = 0 then ret (- 1) else thn (set_proc p (\<lambda>q. q\<lparr>p_sz := sz'\<rparr>)) (ret 0))
     else if n < 0 then
       bnd (uvmdealloc (p_pagetable pr) sz (sz + of_int n)) (\<lambda>sz'.
       thn (set_proc p (\<lambda>q. q\<lparr>p_sz := sz'\<rparr>)) (ret 0))
     else thn (set_proc p (\<lambda>q. q\<lparr>p_sz := sz\<rparr>)) (ret 0)))"

section \<open>Switching, sleeping and waking\<close>

definition sched :: "(unit, 'z proc_state_scheme) kop" where
  "sched =
     bnd cur_proc (\<lambda>p.
     bnd (holding (ProcLock p)) (\<lambda>h.
     if \<not> h then panic ''sched p->lock'' else
     bnd (gets mycpu) (\<lambda>c.
     if noff c \<noteq> 1 then panic ''sched locks'' else
     bnd (get_proc p) (\<lambda>pr.
     if p_state pr = RUNNING then panic ''sched running'' else
     bnd (gets intr_get) (\<lambda>on.
     if on then panic ''sched interruptible'' else
     bnd (gets mycpu) (\<lambda>c.
     thn swtch
         (modify (set_mycpu (\<lambda>c'. c'\<lparr>intena := intena c\<rparr>)))))))))"

definition yield :: "(unit, 'z proc_state_scheme) kop" where
  "yield =
     bnd cur_proc (\<lambda>p.
     thn (acquire (ProcLock p))
    (thn (set_proc p (\<lambda>q. q\<lparr>p_state := RUNNABLE\<rparr>))
    (thn sched
         (release (ProcLock p)))))"

text \<open>
  What \<open>sleep\<close> does before it switches to the scheduler, statement by statement, and the statements of
  \<open>wakeup\<close> for one process, none for the caller's own. They are lists because in both functions it
  matters what another hart can do between two of them.
\<close>

definition sleep_enter :: "chan \<Rightarrow> lockid \<Rightarrow> nat \<Rightarrow> (unit, 'z proc_state_scheme) kop list" where
  "sleep_enter ch lk p =
     [acquire (ProcLock p),
      release lk,
      set_proc p (\<lambda>q. q\<lparr>p_chan := Some ch\<rparr>),
      set_proc p (\<lambda>q. q\<lparr>p_state := SLEEPING\<rparr>)]"

definition sleep :: "chan \<Rightarrow> lockid \<Rightarrow> (unit, 'z proc_state_scheme) kop" where
  "sleep ch lk =
     bnd cur_proc (\<lambda>p.
     thn (seqk (sleep_enter ch lk p))
    (thn sched
    (thn (set_proc p (\<lambda>q. q\<lparr>p_chan := None\<rparr>))
    (thn (release (ProcLock p))
         (acquire lk)))))"

definition wakeup_one :: "nat option \<Rightarrow> chan option \<Rightarrow> nat \<Rightarrow> (unit, 'z proc_state_scheme) kop list" where
  "wakeup_one me ch p =
     (if me = Some p then []
      else
        [acquire (ProcLock p),
         set_proc p (\<lambda>q. if p_state q = SLEEPING \<and> p_chan q = ch then q\<lparr>p_state := RUNNABLE\<rparr> else q),
         release (ProcLock p)])"

definition wakeup :: "chan option \<Rightarrow> (unit, 'z proc_state_scheme) kop" where
  "wakeup ch = for_each [0..<NPROC] (\<lambda>p. bnd myproc (\<lambda>me. seqk (wakeup_one me ch p)))"

fun kill_scan :: "nat list \<Rightarrow> int \<Rightarrow> (int, 'z proc_state_scheme) kop" where
  "kill_scan [] pid = ret (- 1)"
| "kill_scan (p # ps) pid =
     thn (acquire (ProcLock p))
    (bnd (get_proc p) (\<lambda>pr.
     if p_pid pr = pid then
       thn (set_proc p (\<lambda>q. q\<lparr>p_killed := 1\<rparr>))
      (thn (set_proc p (\<lambda>q. if p_state q = SLEEPING then q\<lparr>p_state := RUNNABLE\<rparr> else q))
      (thn (release (ProcLock p))
           (ret 0)))
     else thn (release (ProcLock p)) (kill_scan ps pid)))"

definition kill :: "int \<Rightarrow> (int, 'z proc_state_scheme) kop" where
  "kill pid = kill_scan [0..<NPROC] pid"

definition setkilled :: "nat \<Rightarrow> (unit, 'z proc_state_scheme) kop" where
  "setkilled p =
     thn (acquire (ProcLock p))
    (thn (set_proc p (\<lambda>q. q\<lparr>p_killed := 1\<rparr>))
         (release (ProcLock p)))"

definition killed :: "nat \<Rightarrow> (int, 'z proc_state_scheme) kop" where
  "killed p =
     thn (acquire (ProcLock p))
    (bnd (get_proc p) (\<lambda>pr.
     thn (release (ProcLock p))
         (ret (p_killed pr))))"

definition reparent :: "nat \<Rightarrow> (unit, 'z proc_state_scheme) kop" where
  "reparent p = for_each [0..<NPROC] (\<lambda>pp.
     bnd (get_proc pp) (\<lambda>pr.
     whenk (p_parent pr = Some p)
       (bnd (gets initproc) (\<lambda>ip.
        thn (set_proc pp (\<lambda>q. q\<lparr>p_parent := ip\<rparr>))
            (wakeup (map_option ChProc ip))))))"

text \<open>
  One scan of \<open>wait\<close> over the table: \<open>Inl\<close> is a return value, both locks released; \<open>Inr\<close> says
  whether the process has children, \<open>wait_lock\<close> still held.
\<close>

fun wait_scan :: "nat list \<Rightarrow> nat \<Rightarrow> uint64 \<Rightarrow> bool \<Rightarrow> (int + bool, 'z proc_state_scheme) kop" where
  "wait_scan [] p addr havekids = ret (Inr havekids)"
| "wait_scan (pp # ps) p addr havekids =
     bnd (get_proc pp) (\<lambda>q.
     if p_parent q = Some p then
       thn (acquire (ProcLock pp))
      (bnd (get_proc pp) (\<lambda>q.
       if p_state q = ZOMBIE then
         bnd (if addr \<noteq> 0 then
                bnd (get_proc p) (\<lambda>pr.
                copyout (p_pagetable pr) addr (le_bytes 4 (of_int (p_xstate q) :: uint32)))
              else ret 0) (\<lambda>r.
         if r < 0 then
           thn (release (ProcLock pp)) (thn (release WaitLock) (ret (Inl (- 1))))
         else
           thn (freeproc pp)
          (thn (release (ProcLock pp))
          (thn (release WaitLock)
               (ret (Inl (p_pid q))))))
       else thn (release (ProcLock pp)) (wait_scan ps p addr True)))
     else wait_scan ps p addr havekids)"

primrec wait_loop :: "nat \<Rightarrow> nat \<Rightarrow> uint64 \<Rightarrow> (int, 'z proc_state_scheme) kop" where
  "wait_loop 0 p addr = spin"
| "wait_loop (Suc n) p addr =
     bnd (wait_scan [0..<NPROC] p addr False) (\<lambda>r.
     case r of Inl pid \<Rightarrow> ret pid
     | Inr havekids \<Rightarrow>
         bnd (if \<not> havekids then ret 1 else killed p) (\<lambda>k.
         if k \<noteq> 0 then thn (release WaitLock) (ret (- 1)) else
         thn (sleep (ChProc p) WaitLock)
             (wait_loop n p addr)))"

definition wait :: "uint64 \<Rightarrow> (int, 'z proc_state_scheme) kop" where
  "wait addr =
     bnd cur_proc (\<lambda>p.
     thn (acquire WaitLock)
         (wait_loop WAITS p addr))"

text \<open>The scheduler: one scan of the table, and the endless loop followed for \<open>n\<close> scans.\<close>

definition scheduler_scan :: "(unit, 'z proc_state_scheme) kop" where
  "scheduler_scan =
     thn (modify intr_on)
         (for_each [0..<NPROC] (\<lambda>p.
            thn (acquire (ProcLock p))
           (thn (bnd (get_proc p) (\<lambda>pr.
                 whenk (p_state pr = RUNNABLE)
                   (thn (set_proc p (\<lambda>q. q\<lparr>p_state := RUNNING\<rparr>))
                   (thn (modify (set_mycpu (\<lambda>c. c\<lparr>cproc := Some p\<rparr>)))
                   (thn swtch
                        (modify (set_mycpu (\<lambda>c. c\<lparr>cproc := None\<rparr>))))))))
                (release (ProcLock p)))))"

primrec scheduler :: "nat \<Rightarrow> (unit, 'z proc_state_scheme) kop" where
  "scheduler 0 = modify (set_mycpu (\<lambda>c. c\<lparr>cproc := None\<rparr>))"
| "scheduler (Suc n) = thn (scheduler n) scheduler_scan"

definition either_copyout :: "bool \<Rightarrow> uint64 \<Rightarrow> uint8 list \<Rightarrow> (int, 'z proc_state_scheme) kop" where
  "either_copyout user_dst dst src =
     bnd cur_proc (\<lambda>p.
     if user_dst then bnd (get_proc p) (\<lambda>pr. copyout (p_pagetable pr) dst src)
     else thn (put_bytes dst src) (ret 0))"

definition either_copyin :: "bool \<Rightarrow> uint64 \<Rightarrow> nat \<Rightarrow> (int \<times> uint8 list, 'z proc_state_scheme) kop" where
  "either_copyin user_src src len =
     bnd cur_proc (\<lambda>p.
     if user_src then bnd (get_proc p) (\<lambda>pr. copyin (p_pagetable pr) src len)
     else bnd (gets (\<lambda>s. load_bytes (mem s) src len)) (\<lambda>bs. ret (0, bs)))"

section \<open>Execution lemmas\<close>

lemma myproc_eq [kop_simps]: "irq_ok s \<Longrightarrow> myproc s = Ret (cproc (mycpu s)) (tch s)"
  using pop_off_last [of s]
  by (simp add: myproc_def kop_simps push_off_pushed)
    (simp add: pushed_def lock_defs)

lemma cur_proc_eq [kop_simps]:
  "irq_ok s \<Longrightarrow> cproc (mycpu s) = Some p \<Longrightarrow> cur_proc s = Ret p (tch s)"
  by (simp add: cur_proc_def kop_simps)

text \<open>Every process lock is free.\<close>

definition procs_free :: "'z proc_state_scheme \<Rightarrow> bool" where
  "procs_free s \<longleftrightarrow> (\<forall>p<NPROC. free_lk (ProcLock p) s)"

lemma procs_free_state [state_simps]:
  "procs_free (tch s) = procs_free s"
  "procs_free (procs_update f s) = procs_free s"
  "procs_free (mem_update g s) = procs_free s"
  "procs_free (freelist_update g' s) = procs_free s"
  "(\<forall>p. ProcLock p \<noteq> lk) \<Longrightarrow> procs_free (acq lk s) = procs_free s"
  "(\<forall>p. ProcLock p \<noteq> lk) \<Longrightarrow> procs_free (rel lk s) = procs_free s"
  by (simp_all add: procs_free_def state_simps)

text \<open>A critical section of \<open>p->lock\<close> that changes the slot.\<close>

lemma proc_section:
  assumes "free_lk (ProcLock p) s" "irq_ok s"
  shows "thn (acquire (ProcLock p)) (thn (set_proc p f) (release (ProcLock p))) s =
    Ret () ((tch s)\<lparr>procs := (procs s)(p := f (procs s p))\<rparr>)"
  using assms by (simp add: kop_simps state_simps)

definition woken :: "chan option \<Rightarrow> proc \<Rightarrow> proc" where
  "woken ch q = (if p_state q = SLEEPING \<and> p_chan q = ch then q\<lparr>p_state := RUNNABLE\<rparr> else q)"

lemma wakeup_one_woken:
  "wakeup_one me ch p =
     (if me = Some p then [] else [acquire (ProcLock p), set_proc p (woken ch), release (ProcLock p)])"
  by (simp add: wakeup_one_def woken_def [abs_def])

lemma wakeup_eq:
  assumes "procs_free s" "irq_ok s"
  shows "wakeup ch s = Ret () ((tch s)\<lparr>procs := (\<lambda>p. if p < NPROC \<and> cproc (mycpu s) \<noteq> Some p
    then woken ch (procs s p) else procs s p)\<rparr>)"
proof -
  let ?body = "\<lambda>p. bnd myproc (\<lambda>me. seqk (wakeup_one me ch p))"
  have w: "wakeup ch = for_each [0..<NPROC] ?body" by (simp only: wakeup_def)
  have step: "?body p t = Ret () ((tch t)\<lparr>procs := (\<lambda>q. if q = p \<and> cproc (mycpu t) \<noteq> Some p
      then woken ch (procs t q) else procs t q)\<rparr>)"
    if "free_lk (ProcLock p) t" "irq_ok t" for p and t :: "'a proc_state_scheme"
    using that by (simp add: kop_simps wakeup_one_woken state_simps fun_upd_def [abs_def] cong: if_cong)
  have "for_each [0..<n] ?body s = Ret () ((if n = 0 then s else tch s)\<lparr>procs :=
      (\<lambda>p. if p < n \<and> cproc (mycpu s) \<noteq> Some p then woken ch (procs s p) else procs s p)\<rparr>)"
    if "n \<le> NPROC" for n
    using that
  proof (induction n)
    case 0
    then show ?case by (simp add: kop_simps)
  next
    case (Suc n)
    define u where "u = (if n = 0 then s else tch s)\<lparr>procs :=
      (\<lambda>p. if p < n \<and> cproc (mycpu s) \<noteq> Some p then woken ch (procs s p) else procs s p)\<rparr>"
    have u: "free_lk (ProcLock n) u" "irq_ok u" "cproc (mycpu u) = cproc (mycpu s)" "tch u =
      (tch s)\<lparr>procs := (\<lambda>p. if p < n \<and> cproc (mycpu s) \<noteq> Some p then woken ch (procs s p) else procs s p)\<rparr>"
      using assms Suc.prems by (simp_all add: u_def state_simps procs_free_def)
    have "for_each [0..<n] ?body s = Ret () u" using Suc by (simp only: u_def Suc_leD)
    then have "for_each [0..<Suc n] ?body s = ?body n u" by (rule for_each_upt_Suc)
    also have "\<dots> = Ret () ((tch u)\<lparr>procs := (\<lambda>q. if q = n \<and> cproc (mycpu u) \<noteq> Some n
      then woken ch (procs u q) else procs u q)\<rparr>)" by (rule step [OF u(1,2)])
    finally show ?case unfolding u(3,4)
      by (auto simp: u_def less_Suc_eq fun_eq_iff intro!: arg_cong [where f = "\<lambda>x. procs_update (\<lambda>_. x) (tch s)"])
  qed
  from this [of NPROC] show ?thesis by (simp add: w NPROC_def)
qed

text \<open>Taking a second lock and letting go of the first.\<close>

definition handover :: "lockid \<Rightarrow> lockid \<Rightarrow> 'z machine_scheme \<Rightarrow> 'z machine_scheme" where
  "handover lk a s = rel lk (acq a s)"

lemma handover_state [state_simps]:
  "in_cs s \<Longrightarrow> in_cs (handover lk a s)"
  "in_cs s \<Longrightarrow> irq_ok (handover lk a s)"
  "a \<noteq> lk \<Longrightarrow> held_lk a (handover lk a s)"
  "free_lk lk (handover lk a s)"
  "noff (mycpu (handover lk a s)) = noff (mycpu s)"
  "cproc (mycpu (handover lk a s)) = cproc (mycpu s)"
  "cpuid (handover lk a s) = cpuid s"
  "b \<noteq> lk \<Longrightarrow> b \<noteq> a \<Longrightarrow> free_lk b (handover lk a s) = free_lk b s"
  "b \<noteq> lk \<Longrightarrow> b \<noteq> a \<Longrightarrow> held_lk b (handover lk a s) = held_lk b s"
  "mem (handover lk a s) = mem s"
  by (auto simp: handover_def in_cs_def lock_defs)

lemma handover_proc_state [state_simps]:
  "procs (handover lk a s) = procs s"
  "handover lk a (procs_update f s) = procs_update f (handover lk a s)"
  by (simp_all add: handover_def state_simps)

lemma handover_exec:
  assumes "held_lk lk s" "in_cs s" "free_lk a s" "a \<noteq> lk"
  shows "thn (acquire a) (release lk) s = Ret () (handover lk a s)"
proof -
  have "held_lk lk (acq a s)" using assms by (simp add: state_simps)
  moreover have "in_cs (acq a s)" using assms by (simp add: state_simps)
  ultimately show ?thesis using assms(3) by (simp add: kop_simps handover_def)
qed

definition asleep :: "chan \<Rightarrow> proc \<Rightarrow> proc" where
  "asleep ch q = q\<lparr>p_chan := Some ch, p_state := SLEEPING\<rparr>"

lemma sched_eq:
  assumes "held_lk (ProcLock p) s" "in_cs s" "noff (mycpu s) = 1" "cproc (mycpu s) = Some p"
    and "p_state (procs s p) \<noteq> RUNNING"
  shows "sched s = Swtch s (\<lambda>u. Ret () (set_mycpu (\<lambda>c'. c'\<lparr>intena := intena (mycpu s)\<rparr>) u))"
proof -
  have i: "irq_ok s" "tch s = s" "\<not> intr_get s"
    using assms(2) by (simp_all add: state_simps in_cs_def [symmetric]) (simp add: in_cs_def)
  show ?thesis using assms i by (simp add: sched_def kop_simps)
qed

lemma sleep_eq:
  fixes ch :: chan
  assumes "held_lk lk s" "in_cs s" "noff (mycpu s) = 1" "cproc (mycpu s) = Some p"
    and "free_lk (ProcLock p) s" "ProcLock p \<noteq> lk"
  defines "t \<equiv> (handover lk (ProcLock p) s)\<lparr>procs := (procs s)(p := asleep ch (procs s p))\<rparr>"
  shows "\<exists>k. sleep ch lk s = Swtch t k \<and>
    (\<forall>u. held_lk (ProcLock p) u \<longrightarrow> in_cs u \<longrightarrow> noff (mycpu u) = 1 \<longrightarrow> free_lk lk u \<longrightarrow>
      (\<exists>v. k u = Ret () v \<and> held_lk lk v \<and> free_lk (ProcLock p) v \<and> noff (mycpu v) = 1 \<and>
        procs v = (procs u)(p := (procs u p)\<lparr>p_chan := None\<rparr>)))"
proof -
  let ?h = "handover lk (ProcLock p) s"
  let ?set = "\<lambda>u. set_mycpu (\<lambda>c'. c'\<lparr>intena := intena (mycpu t)\<rparr>) u"
  have i: "irq_ok s" "tch s = s" using assms(2) by (simp_all add: state_simps)
  have a: "acquire (ProcLock p) s = Ret () (acq (ProcLock p) s)"
    using assms(5) by (simp add: kop_simps)
  have r: "release lk (acq (ProcLock p) s) = Ret () ?h"
    using handover_exec [OF assms(1,2,5,6)] a by (simp add: kop_simps)
  have t: "held_lk (ProcLock p) t" "in_cs t" "noff (mycpu t) = 1" "cproc (mycpu t) = Some p"
    "p_state (procs t p) \<noteq> RUNNING"
    using assms(2-4,6) by (simp_all add: t_def state_simps asleep_def)
  have "sleep ch lk s = bindo (sched t) (\<lambda>_. thn (set_proc p (\<lambda>q. q\<lparr>p_chan := None\<rparr>))
      (thn (release (ProcLock p)) (acquire lk)))"
    using a r assms(4) i by (simp add: sleep_def sleep_enter_def kop_simps t_def state_simps asleep_def)
  also have "\<dots> = Swtch t (\<lambda>u. thn (set_proc p (\<lambda>q. q\<lparr>p_chan := None\<rparr>))
      (thn (release (ProcLock p)) (acquire lk)) (?set u))"
    by (simp add: sched_eq [OF t])
  finally have e: "sleep ch lk s = Swtch t (\<lambda>u. thn (set_proc p (\<lambda>q. q\<lparr>p_chan := None\<rparr>))
      (thn (release (ProcLock p)) (acquire lk)) (?set u))" .
  have "\<exists>v. thn (set_proc p (\<lambda>q. q\<lparr>p_chan := None\<rparr>)) (thn (release (ProcLock p)) (acquire lk)) (?set u) =
        Ret () v \<and> held_lk lk v \<and> free_lk (ProcLock p) v \<and> noff (mycpu v) = 1 \<and>
        procs v = (procs u)(p := (procs u p)\<lparr>p_chan := None\<rparr>)"
    if u: "held_lk (ProcLock p) u" "in_cs u" "noff (mycpu u) = 1" "free_lk lk u" for u
  proof -
    let ?u = "(?set u)\<lparr>procs := (procs u)(p := (procs u p)\<lparr>p_chan := None\<rparr>)\<rparr>"
    have w: "held_lk (ProcLock p) ?u" "in_cs ?u" "free_lk lk ?u" "noff (mycpu ?u) = 1"
      "procs (?set u) = procs u" "procs ?u = (procs u)(p := (procs u p)\<lparr>p_chan := None\<rparr>)"
      using u by (simp_all add: in_cs_def lock_defs)
    have "free_lk lk (rel (ProcLock p) ?u)"
      using w(3) assms(6) by (metis (no_types, lifting) rel_state(1) rel_state(3))
    then show ?thesis using w assms(6)
      by (simp add: kop_simps) (simp add: state_simps)
  qed
  then show ?thesis using e by auto
qed

definition slain :: "proc \<Rightarrow> proc" where
  "slain q = (if p_state q = SLEEPING then q\<lparr>p_killed := 1, p_state := RUNNABLE\<rparr> else q\<lparr>p_killed := 1\<rparr>)"

lemma kill_scan_eq:
  assumes "procs_free s" "irq_ok s" "set ps \<subseteq> {..<NPROC}"
  shows "kill_scan ps pid s = (case find (\<lambda>p. p_pid (procs s p) = pid) ps of
      None \<Rightarrow> Ret (- 1) (if ps = [] then s else tch s)
    | Some p \<Rightarrow> Ret 0 ((tch s)\<lparr>procs := (procs s)(p := slain (procs s p))\<rparr>))"
  using assms
proof (induction ps arbitrary: s)
  case Nil
  then show ?case by (simp add: kop_simps)
next
  case (Cons p ps)
  have f: "free_lk (ProcLock p) s" using Cons.prems by (auto simp: procs_free_def)
  show ?case
  proof (cases "p_pid (procs s p) = pid")
    case True
    then show ?thesis using f Cons.prems(2) by (simp add: kop_simps state_simps slain_def)
  next
    case False
    have "kill_scan (p # ps) pid s = kill_scan ps pid (tch s)"
      using False f Cons.prems(2) by (simp add: kop_simps state_simps)
    also have "\<dots> = (case find (\<lambda>p. p_pid (procs s p) = pid) ps of
        None \<Rightarrow> Ret (- 1) (tch s)
      | Some p \<Rightarrow> Ret 0 ((tch s)\<lparr>procs := (procs s)(p := slain (procs s p))\<rparr>))"
      using Cons.IH [of "tch s"] Cons.prems
      by (cases "find (\<lambda>p. p_pid (procs s p) = pid) ps") (simp_all add: state_simps)
    finally show ?thesis using False by simp
  qed
qed

lemma kill_eq:
  assumes "procs_free s" "irq_ok s"
  shows "kill pid s = (case find (\<lambda>p. p_pid (procs s p) = pid) [0..<NPROC] of
      None \<Rightarrow> Ret (- 1) (tch s)
    | Some p \<Rightarrow> Ret 0 ((tch s)\<lparr>procs := (procs s)(p := slain (procs s p))\<rparr>))"
proof -
  have "set [0..<NPROC] \<subseteq> {..<NPROC}" by auto
  moreover have "[0..<NPROC] \<noteq> []" by (simp add: NPROC_def)
  ultimately show ?thesis using kill_scan_eq [OF assms, of "[0..<NPROC]" pid] by (simp only: kill_def if_False)
qed

text \<open>The scheduler's scan switches to the first runnable process.\<close>

lemma scheduler_skip:
  assumes "procs_free s" "irq_ok s" "\<forall>p<n. p_state (procs s p) \<noteq> RUNNABLE" "n \<le> NPROC"
  shows "for_each [0..<n] (\<lambda>p.
      thn (acquire (ProcLock p))
     (thn (bnd (get_proc p) (\<lambda>pr. whenk (p_state pr = RUNNABLE) (run p))) (release (ProcLock p)))) s =
    Ret () (if n = 0 then s else tch s)"
  using assms(3,4)
proof (induction n)
  case (Suc n)
  let ?u = "if n = 0 then s else tch s"
  have "for_each [0..<n] (\<lambda>p. thn (acquire (ProcLock p))
     (thn (bnd (get_proc p) (\<lambda>pr. whenk (p_state pr = RUNNABLE) (run p))) (release (ProcLock p)))) s =
    Ret () ?u" using Suc by simp
  note step = for_each_upt_Suc [OF this]
  have "free_lk (ProcLock n) ?u" "irq_ok ?u" "p_state (procs ?u n) \<noteq> RUNNABLE" "tch ?u = tch s"
    using assms(1,2) Suc.prems by (auto simp: procs_free_def state_simps)
  then show ?case unfolding step by (simp add: kop_simps state_simps)
qed (simp add: kop_simps)

text \<open>
  Called with only \<open>lk\<close> held, \<open>sleep\<close> gives up the processor with \<open>lk\<close> free, the process asleep on the
  channel and its lock still held. A \<open>wakeup\<close> that runs after the scheduler has released that lock
  makes the process runnable, and the resumed thread takes \<open>lk\<close> again and returns.
\<close>

lemma sleep_suspends:
  assumes "held_lk lk s" "in_cs s" "noff (mycpu s) = 1" "cproc (mycpu s) = Some p" "p < NPROC"
    and "\<forall>q<NPROC. free_lk (ProcLock q) s" "\<forall>q. ProcLock q \<noteq> lk"
  shows "\<exists>t k. sleep ch lk s = Swtch t k \<and> free_lk lk t \<and> held_lk (ProcLock p) t \<and>
    p_state (procs t p) = SLEEPING \<and> p_chan (procs t p) = Some ch \<and>
    (\<forall>u. u = set_mycpu (\<lambda>c. c\<lparr>cproc := None\<rparr>) t \<longrightarrow>
      (\<exists>v w. release (ProcLock p) u = Ret () v \<and> wakeup (Some ch) v = Ret () w \<and>
        p_state (procs w p) = RUNNABLE)) \<and>
    (\<forall>u. held_lk (ProcLock p) u \<longrightarrow> in_cs u \<longrightarrow> noff (mycpu u) = 1 \<longrightarrow> free_lk lk u \<longrightarrow>
      (\<exists>v. k u = Ret () v \<and> held_lk lk v \<and> free_lk (ProcLock p) v))"
proof -
  define t where "t = (handover lk (ProcLock p) s)\<lparr>procs := (procs s)(p := asleep ch (procs s p))\<rparr>"
  from sleep_eq [OF assms(1-4), of ch] assms(5-7) obtain k where
    k: "sleep ch lk s = Swtch t k"
      "\<forall>u. held_lk (ProcLock p) u \<longrightarrow> in_cs u \<longrightarrow> noff (mycpu u) = 1 \<longrightarrow> free_lk lk u \<longrightarrow>
        (\<exists>v. k u = Ret () v \<and> held_lk lk v \<and> free_lk (ProcLock p) v)"
    unfolding t_def by blast
  define u where "u = set_mycpu (\<lambda>c. c\<lparr>cproc := None\<rparr>) t"
  have u: "held_lk (ProcLock p) u" "in_cs u" "procs u = procs t" "cproc (mycpu u) = None"
    "\<And>a. free_lk a u = free_lk a t"
  proof -
    have "held_lk (ProcLock p) t" "in_cs t" using assms by (simp_all add: t_def state_simps)
    then show "held_lk (ProcLock p) u" "in_cs u" "procs u = procs t" "cproc (mycpu u) = None"
      "\<And>a. free_lk a u = free_lk a t"
      by (simp_all add: u_def in_cs_def lock_defs)
  qed
  define v where "v = rel (ProcLock p) u"
  have rv: "release (ProcLock p) u = Ret () v" using u by (simp add: kop_simps v_def)
  have irqv: "irq_ok v" using u(2) by (auto simp: v_def in_cs_def lock_defs)
  have "free_lk (ProcLock q) v" if "q < NPROC" for q
    using that assms(6,7) u(5) by (cases "q = p") (simp_all add: v_def t_def state_simps)
  then have fv: "procs_free v" by (simp add: procs_free_def)
  have pv: "procs v p = asleep ch (procs s p)" "cproc (mycpu v) = None"
    using u by (simp_all add: v_def t_def state_simps)
  obtain w where w: "wakeup (Some ch) v = Ret () w" "p_state (procs w p) = RUNNABLE"
    using wakeup_eq [OF fv irqv, of "Some ch"] pv assms(5) by (simp add: woken_def asleep_def)
  have "free_lk lk t" "held_lk (ProcLock p) t" "p_state (procs t p) = SLEEPING"
    "p_chan (procs t p) = Some ch"
    using assms by (simp_all add: t_def state_simps asleep_def)
  then show ?thesis using k rv w unfolding u_def by blast
qed

section \<open>Properties\<close>

text \<open>A machine whose process 0 runs and whose other slots are unused.\<close>

definition proc_blank :: proc where
  "proc_blank = \<lparr>p_state = UNUSED, p_chan = None, p_killed = 0, p_xstate = 0, p_pid = 0,
     p_parent = None, p_kstack = 0, p_sz = 0, p_pagetable = 0, p_trapframe = 0, p_context = ctx_zero,
     p_ofile = (\<lambda>_. None), p_cwd = None, p_name = replicate 16 0\<rparr>"

definition vmst0 :: vm_state where
  "vmst0 = kmem_state.extend kmem0
     \<lparr>etext = 0x80008000, trampoline = 0x80007000, kernel_pagetable = 0, satp = 0\<rparr>"

definition proc0 :: proc_state where
  "proc0 = (vm_state.extend vmst0 \<lparr>procs = (\<lambda>_. proc_blank)(0 := proc_blank\<lparr>p_state := RUNNING, p_pid := 1\<rparr>),
     initproc = Some 0, nextpid = 2, forkret_sym = 0x80001000\<rparr>)
     \<lparr>cpus := (\<lambda>_. \<lparr>cproc = Some 0, noff = 0, intena = False\<rparr>)\<rparr>"

lemmas proc0_defs = proc0_def vmst0_def kmem0_def machine0_def machine.extend_def kmem_state.extend_def
  vm_state.extend_def

lemma proc0_ok [state_simps]:
  "irq_ok proc0" "free_lk lk proc0" "procs_free proc0" "cproc (mycpu proc0) = Some 0"
  "noff (mycpu proc0) = 0"
  "procs proc0 = (\<lambda>_. proc_blank)(0 := proc_blank\<lparr>p_state := RUNNING, p_pid := 1\<rparr>)"
  by (simp_all add: proc0_defs lock_defs procs_free_def)

text \<open>
  C15. \<open>wakeup(chan)\<close> returns with every process that sleeps on \<open>chan\<close>, except the caller, runnable
  and every other process unchanged; nothing but the process table changes.
\<close>

theorem wakeup_wakes_sleepers:
  assumes "procs_free s" "irq_ok s"
  shows "\<exists>t. wakeup ch s = Ret () t \<and> t = (tch s)\<lparr>procs := procs t\<rparr> \<and>
    (\<forall>p<NPROC. cproc (mycpu s) \<noteq> Some p \<longrightarrow>
       (if p_state (procs s p) = SLEEPING \<and> p_chan (procs s p) = ch
        then procs t p = (procs s p)\<lparr>p_state := RUNNABLE\<rparr> else procs t p = procs s p)) \<and>
    (\<forall>p. cproc (mycpu s) = Some p \<longrightarrow> procs t p = procs s p)"
  using wakeup_eq [OF assms, of ch] by (auto simp: woken_def)

theorem wakeup_wakes_sleepers_witness:
  "\<exists>t. wakeup (Some ChLog) (proc0\<lparr>procs := (procs proc0)(5 := asleep ChLog proc_blank)\<rparr>) = Ret () t \<and>
     p_state (procs t 5) = RUNNABLE"
proof -
  let ?s = "proc0\<lparr>procs := (procs proc0)(5 := asleep ChLog proc_blank)\<rparr>"
  have "procs_free ?s" "irq_ok ?s" "cproc (mycpu ?s) = Some 0" by (simp_all add: state_simps)
  from wakeup_wakes_sleepers [OF this(1,2), of "Some ChLog"] this(3) obtain t where
    "wakeup (Some ChLog) ?s = Ret () t" "procs t 5 = (procs ?s 5)\<lparr>p_state := RUNNABLE\<rparr>"
    by (auto simp: NPROC_def asleep_def)
  then show ?thesis by auto
qed

text \<open>
  C17. \<open>kill(pid)\<close> finds the first process with that id, marks it killed, makes it runnable if it
  sleeps and returns 0: the slot keeps every other field, every other slot is unchanged, and so is the
  rest of the kernel state but for the trace of taking a lock. Without such a process it returns -1
  and changes no process.
\<close>

theorem kill_marks_process:
  assumes "procs_free s" "irq_ok s"
  shows "(\<forall>p<NPROC. p_pid (procs s p) = pid \<and> (\<forall>q<p. p_pid (procs s q) \<noteq> pid) \<longrightarrow>
      kill pid s = Ret 0 ((tch s)\<lparr>procs := (procs s)(p := (procs s p)\<lparr>p_killed := 1,
        p_state := (if p_state (procs s p) = SLEEPING then RUNNABLE else p_state (procs s p))\<rparr>)\<rparr>)) \<and>
    ((\<forall>p<NPROC. p_pid (procs s p) \<noteq> pid) \<longrightarrow> kill pid s = Ret (- 1) (tch s))"
proof -
  note e = kill_eq [OF assms, of pid]
  have sl: "slain q = q\<lparr>p_killed := 1, p_state := (if p_state q = SLEEPING then RUNNABLE else p_state q)\<rparr>" for q
    by (cases q) (simp add: slain_def)
  have "find (\<lambda>p. p_pid (procs s p) = pid) [0..<NPROC] = Some p"
    if "p < NPROC" "p_pid (procs s p) = pid" "\<forall>q<p. p_pid (procs s q) \<noteq> pid" for p
    using that by (auto simp: find_Some_iff intro!: exI [of _ p])
  moreover have "find (\<lambda>p. p_pid (procs s p) = pid) [0..<NPROC] = None"
    if "\<forall>p<NPROC. p_pid (procs s p) \<noteq> pid" using that by (auto simp: find_None_iff)
  ultimately show ?thesis using e unfolding sl by auto
qed

theorem kill_marks_process_witness:
  "\<exists>t. kill 7 (proc0\<lparr>procs := (procs proc0)(5 := (asleep ChLog proc_blank)\<lparr>p_pid := 7\<rparr>)\<rparr>) = Ret 0 t \<and>
     procs t 5 = proc_blank\<lparr>p_state := RUNNABLE, p_chan := Some ChLog, p_killed := 1, p_pid := 7\<rparr>"
proof -
  let ?s = "proc0\<lparr>procs := (procs proc0)(5 := (asleep ChLog proc_blank)\<lparr>p_pid := 7\<rparr>)\<rparr>"
  have "kill 7 ?s = Ret 0 ((tch ?s)\<lparr>procs := (procs ?s)(5 := (procs ?s 5)\<lparr>p_killed := 1,
      p_state := (if p_state (procs ?s 5) = SLEEPING then RUNNABLE else p_state (procs ?s 5))\<rparr>)\<rparr>)"
    by (rule kill_marks_process [of ?s 7, THEN conjunct1, rule_format])
      (simp_all add: state_simps NPROC_def proc_blank_def asleep_def)
  then show ?thesis by (simp add: asleep_def proc_blank_def)
qed

text \<open>
  C18. Process id 0 belongs to every unused slot, so \<open>kill(0)\<close> succeeds whenever a slot is unused and
  leaves that free slot marked as killed, where \<open>allocproc\<close> will later find it.
\<close>

theorem kill_zero_marks_unused:
  assumes "procs_free s" "irq_ok s" "p < NPROC" "p_state (procs s p) = UNUSED" "p_pid (procs s p) = 0"
    and "\<forall>q<p. p_pid (procs s q) \<noteq> 0"
  shows "\<exists>t. kill 0 s = Ret 0 t \<and> p_state (procs t p) = UNUSED \<and> p_killed (procs t p) = 1"
proof -
  have "find (\<lambda>p. p_pid (procs s p) = 0) [0..<NPROC] = Some p"
    using assms(3,5,6) by (auto simp: find_Some_iff intro!: exI [of _ p])
  then show ?thesis
    using kill_eq [OF assms(1,2), of 0] assms(4) by (simp add: slain_def)
qed

theorem kill_zero_marks_unused_witness:
  "\<exists>t. kill 0 proc0 = Ret 0 t \<and> p_state (procs t 1) = UNUSED \<and> p_killed (procs t 1) = 1"
  using kill_zero_marks_unused [of proc0 1] by (simp add: state_simps NPROC_def proc_blank_def)

text \<open>
  C19. The scheduler's scan turns interrupts on and switches to the first runnable process, with that
  process marked running and current on this hart and its lock held.
\<close>

theorem scheduler_runs_first_runnable:
  assumes "procs_free s" "noff (mycpu s) = 0" "p < NPROC" "p_state (procs s p) = RUNNABLE"
    and "\<forall>q<p. p_state (procs s q) \<noteq> RUNNABLE"
  shows "\<exists>t k. scheduler_scan s = Swtch t k \<and> p_state (procs t p) = RUNNING \<and>
    cproc (mycpu t) = Some p \<and> held_lk (ProcLock p) t \<and> (\<forall>q. q \<noteq> p \<longrightarrow> procs t q = procs s q)"
proof -
  let ?run = "\<lambda>p. thn (set_proc p (\<lambda>q. q\<lparr>p_state := RUNNING\<rparr>))
    (thn (modify (set_mycpu (\<lambda>c. c\<lparr>cproc := Some p\<rparr>)))
    (thn swtch (modify (set_mycpu (\<lambda>c. c\<lparr>cproc := None\<rparr>)))))"
  let ?body = "\<lambda>p. thn (acquire (ProcLock p))
     (thn (bnd (get_proc p) (\<lambda>pr. whenk (p_state pr = RUNNABLE) (?run p))) (release (ProcLock p)))"
  define s1 where "s1 = intr_on s"
  have s1: "procs_free s1" "irq_ok s1" "procs s1 = procs s"
    using assms(1,2) by (simp_all add: s1_def procs_free_def lock_defs)
  define u where "u = (if p = 0 then s1 else tch s1)"
  have u: "free_lk (ProcLock p) u" "irq_ok u" "procs u = procs s"
    using s1 assms(3) by (simp_all add: u_def procs_free_def state_simps)
  have "for_each [0..<p] ?body s1 = Ret () u"
    unfolding u_def by (rule scheduler_skip) (use s1 assms in simp_all)
  note sk = this
  define t where "t = set_mycpu (\<lambda>c. c\<lparr>cproc := Some p\<rparr>)
    ((acq (ProcLock p) u)\<lparr>procs := (procs s)(p := (procs s p)\<lparr>p_state := RUNNING\<rparr>)\<rparr>)"
  have run: "\<exists>k. ?body p u = Swtch t k"
    using u assms(4) by (simp add: kop_simps state_simps t_def)
  have sp: "[0..<NPROC] = [0..<p] @ p # [Suc p..<NPROC]"
    using assms(3) by (metis upt_add_eq_append le_add_diff_inverse less_imp_le_nat upt_conv_Cons zero_le)
  have "scheduler_scan s = for_each [0..<NPROC] ?body s1"
    by (simp add: scheduler_scan_def kop_simps s1_def)
  also have "\<dots> = bindo (?body p u) (\<lambda>_. for_each [Suc p..<NPROC] ?body)"
    unfolding sp for_each_append using sk by (simp add: thn_apply)
  finally have "\<exists>k. scheduler_scan s = Swtch t k" using run by (auto simp: bindo.simps)
  moreover have "p_state (procs t p) = RUNNING" "\<forall>q. q \<noteq> p \<longrightarrow> procs t q = procs s q"
    "cproc (mycpu t) = Some p" "held_lk (ProcLock p) t"
    using acq_state(3) [of "ProcLock p" u] by (simp_all add: t_def lock_defs)
  ultimately show ?thesis by blast
qed

theorem scheduler_runs_first_runnable_witness:
  "\<exists>t k. scheduler_scan (proc0\<lparr>procs := (procs proc0)(3 := proc_blank\<lparr>p_state := RUNNABLE\<rparr>)\<rparr>) = Swtch t k \<and>
     cproc (mycpu t) = Some 3"
proof -
  let ?s = "proc0\<lparr>procs := (procs proc0)(3 := proc_blank\<lparr>p_state := RUNNABLE\<rparr>)\<rparr>"
  have "procs_free ?s" "noff (mycpu ?s) = 0" "3 < NPROC" "p_state (procs ?s 3) = RUNNABLE"
    "\<forall>q<3. p_state (procs ?s q) \<noteq> RUNNABLE"
    by (simp_all add: state_simps NPROC_def proc_blank_def)
  from scheduler_runs_first_runnable [OF this] show ?thesis by blast
qed

end
