(* ===== verification/Sleepwake.thy ===== *)
theory Sleepwake
  imports Proc
begin

text \<open>
  \<open>sleep\<close> on one hart against \<open>wakeup\<close> on another (\<open>kernel/proc.c\<close>), statement by statement. A hart is
  its own \<open>tp\<close> and \<open>sstatus\<close> registers and the list of statements it still has to execute; memory, the
  \<open>cpus\<close> array, the locks and the process table are shared. A step executes the next statement of one
  of the two harts. A hart whose \<open>acquire\<close> finds the lock taken has no step: it waits. One statement
  is one step, \<open>acquire\<close> and \<open>release\<close> included, which \<open>lk_step\<close> of the theory of spin locks justifies.

  The programs are the lists from which \<open>sleep\<close> and \<open>wakeup\<close> are defined. After the switch the
  sleeping hart runs the scheduler, which clears \<open>c->proc\<close> and releases the lock of the process.
\<close>

section \<open>Two harts\<close>

type_synonym 'z thread = "(uint64 \<times> uint64) \<times> (unit, 'z proc_state_scheme) kop list"

definition as_hart :: "uint64 \<times> uint64 \<Rightarrow> 'z machine_scheme \<Rightarrow> 'z machine_scheme" where
  "as_hart r s = s\<lparr>tp := fst r, sstatus := snd r\<rparr>"

inductive hart_step :: "'z thread \<Rightarrow> 'z proc_state_scheme \<Rightarrow> 'z thread \<Rightarrow> 'z proc_state_scheme \<Rightarrow> bool" where
  "m (as_hart r s) = Ret () t \<Longrightarrow> hart_step (r, m # ms) s ((tp t, sstatus t), ms) t"

inductive par_step :: "'z thread \<times> 'z thread \<times> 'z proc_state_scheme \<Rightarrow>
    'z thread \<times> 'z thread \<times> 'z proc_state_scheme \<Rightarrow> bool" where
  left: "hart_step A s A' t \<Longrightarrow> par_step (A, B, s) (A', B, t)"
| right: "hart_step B s B' t \<Longrightarrow> par_step (A, B, s) (A, B', t)"

inductive_cases hart_stepE: "hart_step A s A' t"
inductive_cases par_stepE: "par_step (A, B, s) c"

text \<open>\<open>sched\<close> ends in \<open>swtch\<close>: the hart continues in the scheduler, in the state it switched in.\<close>

definition to_scheduler :: "(unit, 's) kop \<Rightarrow> (unit, 's) kop" where
  "to_scheduler m s = (case m s of Swtch t k \<Rightarrow> Ret () t | out \<Rightarrow> out)"

definition scheduler_resume :: "nat \<Rightarrow> (unit, 'z proc_state_scheme) kop list" where
  "scheduler_resume p = [modify (set_mycpu (\<lambda>c. c\<lparr>cproc := None\<rparr>)), release (ProcLock p)]"

definition sleeper :: "chan \<Rightarrow> lockid \<Rightarrow> nat \<Rightarrow> (unit, 'z proc_state_scheme) kop list" where
  "sleeper ch lk p = sleep_enter ch lk p @ to_scheduler sched # scheduler_resume p"

text \<open>The other hart takes \<open>lk\<close>, changes the data the sleeper waits for, calls \<open>wakeup\<close> and lets go.\<close>

definition waker :: "nat option \<Rightarrow> chan \<Rightarrow> lockid \<Rightarrow> ('z proc_state_scheme \<Rightarrow> 'z proc_state_scheme) \<Rightarrow>
    (unit, 'z proc_state_scheme) kop list" where
  "waker me ch lk f =
     acquire lk # modify f # concat (map (wakeup_one me (Some ch)) [0..<NPROC]) @ [release lk]"

text \<open>The change of the data leaves the processors, the locks and the process table alone.\<close>

definition data_only :: "('z proc_state_scheme \<Rightarrow> 'z proc_state_scheme) \<Rightarrow> bool" where
  "data_only f \<longleftrightarrow> (\<forall>s. tp (f s) = tp s \<and> sstatus (f s) = sstatus s \<and> cpus (f s) = cpus s \<and>
     locks (f s) = locks s \<and> procs (f s) = procs s)"

text \<open>\<open>scheduler_resume\<close> is what the scheduler's scan does when the process it runs switches back.\<close>

lemma scheduler_resume_scan:
  "thn (thn swtch (modify (set_mycpu (\<lambda>c. c\<lparr>cproc := None\<rparr>)))) (release (ProcLock p)) s =
     Swtch s (seqk (scheduler_resume p))"
proof -
  have "bindo m (\<lambda>_. seqk []) = m" for m :: "(unit, 'a proc_state_scheme) outcome"
    by (induction m) (simp_all add: kop_simps)
  then show ?thesis by (simp add: scheduler_resume_def kop_simps fun_eq_iff)
qed

section \<open>The effect of a statement on one hart\<close>

definition lock_at :: "lockid \<Rightarrow> nat option \<Rightarrow> 'z machine_scheme \<Rightarrow> bool" where
  "lock_at l v s \<longleftrightarrow> (case v of None \<Rightarrow> free_lk l s
     | Some x \<Rightarrow> locked (locks s l) \<noteq> 0 \<and> lcpu (locks s l) = Some x)"

lemma acquire_hart:
  "lock_at l None s \<Longrightarrow> acquire l (as_hart r s) = Ret () (acq l (as_hart r s))"
  "lock_at l (Some x) s \<Longrightarrow> \<nexists>t. acquire l (as_hart r s) = Ret () t"
proof -
  assume "lock_at l None s"
  then have "free_lk l (as_hart r s)" by (simp add: lock_at_def as_hart_def free_lk_def)
  then show "acquire l (as_hart r s) = Ret () (acq l (as_hart r s))" by (rule acquire_free)
next
  assume "lock_at l (Some x) s"
  then have n: "locked (locks (as_hart r s) l) \<noteq> 0" by (simp add: lock_at_def as_hart_def)
  show "\<nexists>t. acquire l (as_hart r s) = Ret () t"
  proof (cases "lcpu (locks (as_hart r s) l) = Some (cpuid (as_hart r s))")
    case True
    then show ?thesis using n by (simp add: acquire_again held_lk_def)
  next
    case False
    then show ?thesis using acquire_other [OF n] by auto
  qed
qed

lemma release_hart:
  assumes "lock_at l (Some (unat (fst r))) s" "snd r AND SSTATUS_SIE = 0" "1 \<le> noff (cpus s (unat (fst r)))"
  shows "release l (as_hart r s) = Ret () (rel l (as_hart r s))"
  using assms by (intro release_held) (simp_all add: lock_at_def as_hart_def lock_defs)

lemma acq_hart:
  fixes s :: "'z proc_state_scheme" and r :: "uint64 \<times> uint64" and l :: lockid
  defines "t \<equiv> acq l (as_hart r s)"
  shows "tp t = fst r" "sstatus t AND SSTATUS_SIE = 0" "procs t = procs s"
    "noff (cpus t x) = (if x = unat (fst r) then noff (cpus s x) + 1 else noff (cpus s x))"
    "cproc (cpus t x) = cproc (cpus s x)"
    "lock_at l' v t = (if l' = l then v = Some (unat (fst r)) else lock_at l' v s)"
  by (auto simp: t_def as_hart_def lock_at_def lock_defs split: option.splits)

lemma rel_hart:
  fixes s :: "'z proc_state_scheme" and r :: "uint64 \<times> uint64" and l :: lockid
  defines "t \<equiv> rel l (as_hart r s)"
  shows "tp t = fst r" "procs t = procs s"
    "noff (cpus s (unat (fst r))) = 2 \<Longrightarrow> sstatus t = snd r"
    "noff (cpus t x) = (if x = unat (fst r) then noff (cpus s x) - 1 else noff (cpus s x))"
    "cproc (cpus t x) = cproc (cpus s x)"
    "lock_at l' v t = (if l' = l then v = None else lock_at l' v s)"
  by (auto simp: t_def as_hart_def lock_at_def lock_defs split: option.splits)

section \<open>The invariant of the two programs\<close>

text \<open>Where the waker is: \<open>qs\<close> is the processes it visits, \<open>rem\<close> those it has not come to.\<close>

datatype phase = Before | Setup | Mid "nat list" | Test nat "nat list" | Unlock nat "nat list" | After

definition visits :: "chan \<Rightarrow> lockid \<Rightarrow> nat list \<Rightarrow> (unit, 'z proc_state_scheme) kop list" where
  "visits ch lk qs =
     concat (map (\<lambda>q. [acquire (ProcLock q), set_proc q (woken (Some ch)), release (ProcLock q)]) qs) @ [release lk]"

fun waker_ops :: "chan \<Rightarrow> lockid \<Rightarrow> ('z proc_state_scheme \<Rightarrow> 'z proc_state_scheme) \<Rightarrow> nat list \<Rightarrow> phase \<Rightarrow>
    (unit, 'z proc_state_scheme) kop list" where
  "waker_ops ch lk f qs Before = acquire lk # modify f # visits ch lk qs"
| "waker_ops ch lk f qs Setup = modify f # visits ch lk qs"
| "waker_ops ch lk f qs (Mid rem) = visits ch lk rem"
| "waker_ops ch lk f qs (Test q rem) = set_proc q (woken (Some ch)) # release (ProcLock q) # visits ch lk rem"
| "waker_ops ch lk f qs (Unlock q rem) = release (ProcLock q) # visits ch lk rem"
| "waker_ops ch lk f qs After = []"

lemma waker_Before: "waker me ch lk f = waker_ops ch lk f (filter (\<lambda>q. me \<noteq> Some q) [0..<NPROC]) Before"
proof -
  have "concat (map (wakeup_one me (Some ch)) qs) @ [release lk] =
    visits ch lk (filter (\<lambda>q. me \<noteq> Some q) qs)" for qs
    by (induction qs) (auto simp: visits_def wakeup_one_woken)
  then show ?thesis by (simp add: waker_def)
qed

definition busy :: "phase \<Rightarrow> bool" where
  "busy ph \<longleftrightarrow> ph \<noteq> Before \<and> ph \<noteq> After"

fun visiting :: "phase \<Rightarrow> nat option" where
  "visiting (Test q rem) = Some q"
| "visiting (Unlock q rem) = Some q"
| "visiting ph = None"

fun to_visit :: "nat list \<Rightarrow> phase \<Rightarrow> nat set" where
  "to_visit qs Before = set qs"
| "to_visit qs Setup = set qs"
| "to_visit qs (Mid rem) = set rem"
| "to_visit qs (Test q rem) = insert q (set rem)"
| "to_visit qs (Unlock q rem) = set rem"
| "to_visit qs After = {}"

text \<open>Who holds a lock when the sleeper has executed \<open>i\<close> statements and the waker is in phase \<open>ph\<close>.\<close>

definition holder :: "nat \<Rightarrow> nat \<Rightarrow> lockid \<Rightarrow> nat \<Rightarrow> nat \<Rightarrow> phase \<Rightarrow> lockid \<Rightarrow> nat option" where
  "holder h g lk p i ph l =
     (if l = lk then if i \<le> 1 then Some h else if busy ph then Some g else None
      else if l = ProcLock p \<and> 1 \<le> i \<and> i \<le> 6 then Some h
      else if map_option ProcLock (visiting ph) = Some l then Some g else None)"

definition sleeper_at :: "nat \<Rightarrow> nat \<Rightarrow> uint64 \<Rightarrow> nat \<Rightarrow> 'z proc_state_scheme \<Rightarrow> bool" where
  "sleeper_at h p ss i s \<longleftrightarrow> (i \<le> 6 \<longrightarrow> ss AND SSTATUS_SIE = 0) \<and> (i \<le> 5 \<longrightarrow> cproc (cpus s h) = Some p) \<and>
     noff (cpus s h) = (if i = 1 then 2 else if i = 7 then 0 else 1)"

definition waker_at :: "nat \<Rightarrow> uint64 \<Rightarrow> phase \<Rightarrow> 'z proc_state_scheme \<Rightarrow> bool" where
  "waker_at g ss ph s \<longleftrightarrow> (busy ph \<longrightarrow> ss AND SSTATUS_SIE = 0) \<and>
     noff (cpus s g) = (if busy ph then if visiting ph = None then 1 else 2 else 0)"

definition slot_at :: "chan \<Rightarrow> nat \<Rightarrow> nat list \<Rightarrow> nat \<Rightarrow> phase \<Rightarrow> proc \<Rightarrow> bool" where
  "slot_at ch p qs i ph q \<longleftrightarrow> (3 \<le> i \<longrightarrow> p_chan q = Some ch) \<and>
     (4 \<le> i \<longrightarrow> p_state q = SLEEPING \<or> i = 7 \<and> p_state q = RUNNABLE) \<and>
     (p \<notin> to_visit qs ph \<longrightarrow> i = 7 \<and> p_state q = RUNNABLE)"

definition locks_at :: "nat \<Rightarrow> nat \<Rightarrow> lockid \<Rightarrow> nat \<Rightarrow> nat \<Rightarrow> phase \<Rightarrow> 'z proc_state_scheme \<Rightarrow> bool" where
  "locks_at h g lk p i ph s \<longleftrightarrow>
     (\<forall>l\<in>insert lk (ProcLock ` {..<NPROC}). lock_at l (holder h g lk p i ph l) s)"

text \<open>The waker does not start before \<open>lk\<close> is free and does not look at \<open>p\<close> before \<open>p->lock\<close> is.\<close>

definition order_ok :: "nat \<Rightarrow> nat list \<Rightarrow> nat \<Rightarrow> phase \<Rightarrow> bool" where
  "order_ok p qs i ph \<longleftrightarrow> i \<le> 7 \<and> (i \<le> 1 \<longrightarrow> ph = Before) \<and> to_visit qs ph \<subseteq> {..<NPROC} \<and>
     (\<forall>q. visiting ph = Some q \<longrightarrow> q < NPROC) \<and> (visiting ph = Some p \<longrightarrow> i = 7)"

definition race_inv :: "uint64 \<Rightarrow> uint64 \<Rightarrow> chan \<Rightarrow> lockid \<Rightarrow> nat \<Rightarrow> ('z proc_state_scheme \<Rightarrow> 'z proc_state_scheme) \<Rightarrow>
    nat list \<Rightarrow> nat \<Rightarrow> phase \<Rightarrow> 'z thread \<times> 'z thread \<times> 'z proc_state_scheme \<Rightarrow> bool" where
  "race_inv a b ch lk p f qs i ph c \<longleftrightarrow> (case c of ((ra, As), (rb, Bs), s) \<Rightarrow>
     As = drop i (sleeper ch lk p) \<and> Bs = waker_ops ch lk f qs ph \<and> fst ra = a \<and> fst rb = b \<and>
     sleeper_at (unat a) p (snd ra) i s \<and> waker_at (unat b) (snd rb) ph s \<and>
     locks_at (unat a) (unat b) lk p i ph s \<and> slot_at ch p qs i ph (procs s p) \<and> order_ok p qs i ph)"

lemmas race_defs = race_inv_def sleeper_at_def waker_at_def locks_at_def slot_at_def order_ok_def

definition race_pre :: "uint64 \<Rightarrow> uint64 \<Rightarrow> lockid \<Rightarrow> nat \<Rightarrow> nat list \<Rightarrow>
    ('z proc_state_scheme \<Rightarrow> 'z proc_state_scheme) \<Rightarrow> bool" where
  "race_pre a b lk p qs f \<longleftrightarrow> a \<noteq> b \<and> (\<forall>q. ProcLock q \<noteq> lk) \<and> p < NPROC \<and> p \<in> set qs \<and> set qs \<subseteq> {..<NPROC} \<and> data_only f"

lemma sleeper_ops:
  "sleeper ch lk p = [acquire (ProcLock p), release lk, set_proc p (\<lambda>q. q\<lparr>p_chan := Some ch\<rparr>),
     set_proc p (\<lambda>q. q\<lparr>p_state := SLEEPING\<rparr>), to_scheduler sched,
     modify (set_mycpu (\<lambda>c. c\<lparr>cproc := None\<rparr>)), release (ProcLock p)]"
  by (simp add: sleeper_def sleep_enter_def scheduler_resume_def)

lemma length_sleeper: "length (sleeper ch lk p) = 7"
  by (simp add: sleeper_ops)

lemma sleeper_at_statement:
  "i < 7 \<Longrightarrow> drop i (sleeper ch lk p) = sleeper ch lk p ! i # drop (Suc i) (sleeper ch lk p)"
  by (simp only: Cons_nth_drop_Suc length_sleeper)

lemma as_hart_simps [simp]:
  "tp (as_hart r s) = fst r" "sstatus (as_hart r s) = snd r" "cpus (as_hart r s) = cpus s"
  "locks (as_hart r s) = locks s" "procs (as_hart r' u) = procs u" "cpuid (as_hart r s) = unat (fst r)"
  "lock_at l v (as_hart r s) = lock_at l v s" "lock_at l v (procs_update h u) = lock_at l v u"
  "lock_at l v (set_mycpu k s) = lock_at l v s"
  by (simp_all add: as_hart_def cpuid_def lock_at_def free_lk_def set_mycpu_def split: option.splits)

lemma set_mycpu_simps [simp]:
  "tp (set_mycpu k s) = tp s" "sstatus (set_mycpu k s) = sstatus s" "procs (set_mycpu k u) = procs u"
  "cpus (set_mycpu k s) = (cpus s)(cpuid s := k (cpus s (cpuid s)))"
  by (simp_all add: set_mycpu_def)

lemma to_scheduler_sched:
  assumes "lock_at (ProcLock p) (Some (unat (fst r))) s" "snd r AND SSTATUS_SIE = 0"
    "noff (cpus s (unat (fst r))) = 1" "cproc (cpus s (unat (fst r))) = Some p" "p_state (procs s p) \<noteq> RUNNING"
  shows "to_scheduler sched (as_hart r s) = Ret () (as_hart r s)"
proof -
  have "held_lk (ProcLock p) (as_hart r s)" "in_cs (as_hart r s)" "noff (mycpu (as_hart r s)) = 1"
    "cproc (mycpu (as_hart r s)) = Some p" "p_state (procs (as_hart r s) p) \<noteq> RUNNING"
    using assms by (simp_all add: held_lk_def lock_at_def in_cs_def intr_get_def mycpu_def)
  then show ?thesis unfolding to_scheduler_def by (simp add: sched_eq)
qed

lemma locks_at_upd:
  assumes "locks_at h g lk p i ph s" "\<And>l v. lock_at l v t = (if l = l0 then v = v0 else lock_at l v s)"
    "\<And>l. holder h g lk p i' ph' l = (if l = l0 then v0 else holder h g lk p i ph l)"
  shows "locks_at h g lk p i' ph' t"
  using assms by (simp add: locks_at_def)

lemma locks_at_same:
  assumes "locks_at h g lk p i ph s" "\<And>l v. lock_at l v t = lock_at l v s"
    "\<And>l. holder h g lk p i' ph' l = holder h g lk p i ph l"
  shows "locks_at h g lk p i' ph' t"
  using assms by (simp add: locks_at_def)

text \<open>The next statement of the sleeper always returns, and keeps the invariant.\<close>

lemma sleeper_runs:
  assumes pre: "race_pre a b lk p qs f" and inv: "race_inv a b ch lk p f qs i ph ((ra, As), (rb, Bs), s)" and i: "i < 7"
  shows "\<exists>t. (sleeper ch lk p ! i) (as_hart ra s) = Ret () t \<and> tp t = a \<and>
    sleeper_at (unat a) p (sstatus t) (Suc i) t \<and> waker_at (unat b) (snd rb) ph t \<and>
    locks_at (unat a) (unat b) lk p (Suc i) ph t \<and> slot_at ch p qs (Suc i) ph (procs t p) \<and> order_ok p qs (Suc i) ph"
proof -
  have ab: "unat a \<noteq> unat b" and lp: "\<And>q. ProcLock q \<noteq> lk" "\<And>q. lk \<noteq> ProcLock q" and p: "p < NPROC" "p \<in> set qs"
    using pre by (auto simp: race_pre_def word_unat_eq_iff)
  have ra: "fst ra = a" and sl: "sleeper_at (unat a) p (snd ra) i s" and wk: "waker_at (unat b) (snd rb) ph s"
    and lo: "locks_at (unat a) (unat b) lk p i ph s" and st: "slot_at ch p qs i ph (procs s p)" and od: "order_ok p qs i ph"
    using inv by (simp_all add: race_inv_def)
  have l: "lock_at lk (holder (unat a) (unat b) lk p i ph lk) s"
    "lock_at (ProcLock p) (holder (unat a) (unat b) lk p i ph (ProcLock p)) s"
    using lo p(1) by (simp_all add: locks_at_def)
  consider "i = 0" | "i = 1" | "i = 2" | "i = 3" | "i = 4" | "i = 5" | "i = 6" using i by linarith
  then show ?thesis
  proof cases
    case 1
    have ph: "ph = Before" using od 1 by (simp add: order_ok_def)
    have "acquire (ProcLock p) (as_hart ra s) = Ret () (acq (ProcLock p) (as_hart ra s))"
      using l(2) 1 lp ph by (intro acquire_hart) (simp add: holder_def)
    then show ?thesis using ab lp p ra sl wk lo st od 1 ph
      by (auto simp: sleeper_ops sleeper_at_def waker_at_def locks_at_def slot_at_def order_ok_def acq_hart holder_def busy_def)
  next
    case 2
    have ph: "ph = Before" using od 2 by (simp add: order_ok_def)
    have "release lk (as_hart ra s) = Ret () (rel lk (as_hart ra s))"
      using l(1) 2 sl ra by (intro release_hart) (simp_all add: holder_def sleeper_at_def)
    then show ?thesis using ab lp p ra sl wk lo st od 2 ph
      by (auto simp: sleeper_ops sleeper_at_def waker_at_def locks_at_def slot_at_def order_ok_def rel_hart holder_def busy_def)
  next
    case 3
    then show ?thesis using ab lp p ra sl wk lo st od
      by (auto simp: sleeper_ops kop_simps sleeper_at_def waker_at_def locks_at_def slot_at_def order_ok_def holder_def)
  next
    case 4
    then show ?thesis using ab lp p ra sl wk lo st od
      by (auto simp: sleeper_ops kop_simps sleeper_at_def waker_at_def locks_at_def slot_at_def order_ok_def holder_def)
  next
    case 5
    have "to_scheduler sched (as_hart ra s) = Ret () (as_hart ra s)"
      using l(2) 5 lp sl ra st by (intro to_scheduler_sched) (auto simp: holder_def sleeper_at_def slot_at_def)
    then show ?thesis using 5 ab lp p ra sl wk lo st od
      by (auto simp: sleeper_ops sleeper_at_def waker_at_def locks_at_def slot_at_def order_ok_def holder_def)
  next
    case 6
    then show ?thesis using ab lp p ra sl wk lo st od
      by (auto simp: sleeper_ops kop_simps sleeper_at_def waker_at_def locks_at_def slot_at_def order_ok_def holder_def)
  next
    case 7
    have "release (ProcLock p) (as_hart ra s) = Ret () (rel (ProcLock p) (as_hart ra s))"
      using l(2) 7 sl ra lp by (intro release_hart) (simp_all add: holder_def sleeper_at_def)
    moreover have "locks_at (unat a) (unat b) lk p 7 ph (rel (ProcLock p) (as_hart ra s))"
      using od 7 lp by (intro locks_at_upd [OF lo]) (auto simp: rel_hart holder_def order_ok_def)
    ultimately show ?thesis using ab lp p ra sl wk st od 7
      by (auto simp: sleeper_ops sleeper_at_def waker_at_def slot_at_def order_ok_def rel_hart)
  qed
qed

text \<open>
  The waker waits for \<open>lk\<close>, and for \<open>p->lock\<close> when it comes to \<open>p\<close>. A statement of it that returns keeps the
  invariant, and once the sleeper's hart is done every statement returns.
\<close>

lemma data_only_simps:
  assumes "data_only f"
  shows "tp (f s) = tp s" "sstatus (f s) = sstatus s" "cpus (f s) = cpus s" "procs (f s) = procs s"
    "lock_at l v (f s) = lock_at l v s"
  using assms by (simp_all add: data_only_def lock_at_def free_lk_def split: option.splits)

lemma visits_simps:
  "visits ch lk [] = [release lk]"
  "visits ch lk (q # qs) = acquire (ProcLock q) # set_proc q (woken (Some ch)) # release (ProcLock q) # visits ch lk qs"
  by (simp_all add: visits_def)

lemma waker_runs:
  assumes pre: "race_pre a b lk p qs f" and inv: "race_inv a b ch lk p f qs i ph ((ra, As), (rb, Bs), s)"
    and ph: "ph \<noteq> After" and can: "i = 7 \<or> (\<exists>t. hd Bs (as_hart rb s) = Ret () t)"
  shows "\<exists>t ph'. Bs = hd Bs # waker_ops ch lk f qs ph' \<and> hd Bs (as_hart rb s) = Ret () t \<and> tp t = b \<and>
    sleeper_at (unat a) p (snd ra) i t \<and> waker_at (unat b) (sstatus t) ph' t \<and>
    locks_at (unat a) (unat b) lk p i ph' t \<and> slot_at ch p qs i ph' (procs t p) \<and> order_ok p qs i ph'"
proof -
  have ab: "unat a \<noteq> unat b" and lp: "\<And>q. ProcLock q \<noteq> lk" "\<And>q. lk \<noteq> ProcLock q" and p: "p < NPROC" "p \<in> set qs"
    and qs: "set qs \<subseteq> {..<NPROC}" and f: "data_only f"
    using pre by (auto simp: race_pre_def word_unat_eq_iff)
  have rb: "fst rb = b" and bs: "Bs = waker_ops ch lk f qs ph" and sl: "sleeper_at (unat a) p (snd ra) i s"
    and wk: "waker_at (unat b) (snd rb) ph s" and lo: "locks_at (unat a) (unat b) lk p i ph s"
    and st: "slot_at ch p qs i ph (procs s p)" and od: "order_ok p qs i ph"
    using inv by (simp_all add: race_inv_def)
  have lk: "lock_at lk (holder (unat a) (unat b) lk p i ph lk) s"
    and pl: "\<And>q. q < NPROC \<Longrightarrow> lock_at (ProcLock q) (holder (unat a) (unat b) lk p i ph (ProcLock q)) s"
    using lo by (simp_all add: locks_at_def)
  note ds = sleeper_at_def waker_at_def slot_at_def order_ok_def busy_def
  show ?thesis
  proof (cases ph)
    case Before
    have i: "\<not> i \<le> 1" using lk can acquire_hart(2) [of lk "unat a" s rb] by (auto simp: Before bs holder_def)
    have "acquire lk (as_hart rb s) = Ret () (acq lk (as_hart rb s))"
      using lk i by (intro acquire_hart) (simp add: Before holder_def busy_def)
    moreover have "locks_at (unat a) (unat b) lk p i Setup (acq lk (as_hart rb s))"
      using i rb by (intro locks_at_upd [OF lo]) (auto simp: acq_hart holder_def busy_def Before)
    ultimately show ?thesis using Before ab p rb sl wk st od bs i qs
      by (intro exI [of _ "acq lk (as_hart rb s)"] exI [of _ Setup]) (auto simp: ds acq_hart)
  next
    case Setup
    have "locks_at (unat a) (unat b) lk p i (Mid qs) (f (as_hart rb s))"
      by (intro locks_at_same [OF lo]) (simp_all add: data_only_simps [OF f] holder_def busy_def Setup)
    then show ?thesis using Setup rb sl wk st od bs qs
      by (intro exI [of _ "f (as_hart rb s)"] exI [of _ "Mid qs"]) (auto simp: ds data_only_simps [OF f] kop_simps)
  next
    case (Mid rem)
    show ?thesis
    proof (cases rem)
      case Nil
      have i: "\<not> i \<le> 1" using od Mid by (auto simp: order_ok_def)
      have "release lk (as_hart rb s) = Ret () (rel lk (as_hart rb s))"
        using lk i wk rb by (intro release_hart) (simp_all add: Mid holder_def ds)
      moreover have "locks_at (unat a) (unat b) lk p i After (rel lk (as_hart rb s))"
        using i by (intro locks_at_upd [OF lo]) (auto simp: rel_hart holder_def busy_def Mid)
      ultimately show ?thesis using Mid Nil ab rb sl wk st od bs
        by (intro exI [of _ "rel lk (as_hart rb s)"] exI [of _ After]) (auto simp: ds rel_hart visits_simps)
    next
      case (Cons q rem')
      have q: "q < NPROC" using od by (simp add: order_ok_def Mid Cons)
      have i: "\<not> i \<le> 1" using od Mid by (auto simp: order_ok_def)
      have m: "hd Bs = acquire (ProcLock q)" by (simp add: bs Mid Cons visits_simps)
      have qp: "i = 7" if "q = p"
        using pl [OF q] can od i that lp acquire_hart(2) [of "ProcLock q" "unat a" s rb]
        by (auto simp: m holder_def order_ok_def split: if_splits)
      have "acquire (ProcLock q) (as_hart rb s) = Ret () (acq (ProcLock q) (as_hart rb s))"
        using pl [OF q] qp lp by (intro acquire_hart) (auto simp: Mid holder_def split: if_splits)
      moreover have "locks_at (unat a) (unat b) lk p i (Test q rem') (acq (ProcLock q) (as_hart rb s))"
        using lp qp rb by (intro locks_at_upd [OF lo]) (auto simp: acq_hart holder_def busy_def Mid)
      ultimately show ?thesis using Mid Cons ab rb sl wk st od bs q qp
        by (intro exI [of _ "acq (ProcLock q) (as_hart rb s)"] exI [of _ "Test q rem'"])
          (auto simp: ds acq_hart visits_simps)
    qed
  next
    case (Test q rem)
    let ?t = "(as_hart rb s)\<lparr>procs := (procs s)(q := woken (Some ch) (procs s q))\<rparr>"
    have "locks_at (unat a) (unat b) lk p i (Unlock q rem) ?t"
      by (intro locks_at_same [OF lo]) (simp_all add: holder_def busy_def Test)
    moreover have "slot_at ch p qs i (Unlock q rem) (procs ?t p)"
      using st od by (auto simp: slot_at_def order_ok_def Test woken_def)
    ultimately show ?thesis using Test rb sl wk st od bs
      by (intro exI [of _ ?t] exI [of _ "Unlock q rem"]) (auto simp: sleeper_at_def waker_at_def order_ok_def busy_def kop_simps)
  next
    case (Unlock q rem)
    have q: "q < NPROC" "q = p \<longrightarrow> i = 7" using od by (auto simp: order_ok_def Unlock)
    have "release (ProcLock q) (as_hart rb s) = Ret () (rel (ProcLock q) (as_hart rb s))"
      using pl [OF q(1)] q(2) lp wk rb by (intro release_hart) (auto simp: Unlock holder_def ds split: if_splits)
    moreover have "locks_at (unat a) (unat b) lk p i (Mid rem) (rel (ProcLock q) (as_hart rb s))"
      using lp q by (intro locks_at_upd [OF lo]) (auto simp: rel_hart holder_def busy_def Unlock)
    ultimately show ?thesis using Unlock ab rb sl wk st od bs
      by (intro exI [of _ "rel (ProcLock q) (as_hart rb s)"] exI [of _ "Mid rem"]) (auto simp: ds rel_hart)
  qed (use ph in simp)
qed

lemma race_step:
  assumes pre: "race_pre a b lk p qs f" and inv: "race_inv a b ch lk p f qs i ph c" and step: "par_step c c'"
  shows "\<exists>i' ph'. race_inv a b ch lk p f qs i' ph' c'"
proof -
  obtain ra As rb Bs s where c: "c = ((ra, As), (rb, Bs), s)" by (metis prod.exhaust)
  have AB: "As = drop i (sleeper ch lk p)" "Bs = waker_ops ch lk f qs ph" "fst ra = a" "fst rb = b"
    using inv by (simp_all add: c race_inv_def)
  from step [unfolded c] consider
    m ms t where "As = m # ms" "m (as_hart ra s) = Ret () t" "c' = (((tp t, sstatus t), ms), (rb, Bs), t)"
  | m ms t where "Bs = m # ms" "m (as_hart rb s) = Ret () t" "c' = ((ra, As), ((tp t, sstatus t), ms), t)"
    by (auto elim!: par_stepE hart_stepE)
  then show ?thesis
  proof cases
    case (1 m ms t)
    then have i: "i < 7" using AB(1) by (cases "i < 7") (simp_all add: length_sleeper)
    have "m = sleeper ch lk p ! i" "ms = drop (Suc i) (sleeper ch lk p)"
      using 1(1) AB(1) unfolding sleeper_at_statement [OF i] by simp_all
    then show ?thesis using sleeper_runs [OF pre inv [unfolded c] i] 1 AB
      by (intro exI [of _ "Suc i"] exI [of _ ph]) (auto simp: race_inv_def)
  next
    case (2 m ms t)
    then have ph: "ph \<noteq> After" using AB(2) by auto
    have "i = 7 \<or> (\<exists>t. hd Bs (as_hart rb s) = Ret () t)" using 2 by simp
    from waker_runs [OF pre inv [unfolded c] ph this] obtain ph' where
      "ms = waker_ops ch lk f qs ph'" "tp t = b" "sleeper_at (unat a) p (snd ra) i t" "waker_at (unat b) (sstatus t) ph' t"
      "locks_at (unat a) (unat b) lk p i ph' t" "slot_at ch p qs i ph' (procs t p)" "order_ok p qs i ph'"
      using 2 by auto
    then show ?thesis using 2(3) AB by (intro exI [of _ i] exI [of _ ph']) (simp add: race_inv_def)
  qed
qed

lemma race_progress:
  assumes pre: "race_pre a b lk p qs f" and inv: "race_inv a b ch lk p f qs i ph (A, B, s)" and "snd A \<noteq> [] \<or> snd B \<noteq> []"
  shows "\<exists>c. par_step (A, B, s) c"
proof -
  obtain ra As rb Bs where AB: "A = (ra, As)" "B = (rb, Bs)" by (metis prod.exhaust)
  note inv' = inv [unfolded AB]
  have As: "As = drop i (sleeper ch lk p)" and Bs: "Bs = waker_ops ch lk f qs ph" and i: "i \<le> 7"
    using inv' by (simp_all add: race_inv_def order_ok_def)
  show ?thesis
  proof (cases "i < 7")
    case True
    then have "As = sleeper ch lk p ! i # drop (Suc i) (sleeper ch lk p)"
      using As by (simp only: sleeper_at_statement)
    then show ?thesis using sleeper_runs [OF pre inv' True] unfolding AB
      by (metis hart_step.intros par_step.left)
  next
    case False
    then have "i = 7" using i by simp
    then have "ph \<noteq> After" using assms(3) As Bs AB by (auto simp: length_sleeper)
    from waker_runs [OF pre inv' this] \<open>i = 7\<close> show ?thesis unfolding AB
      by (metis hart_step.intros par_step.right)
  qed
qed

lemma race_done:
  assumes "race_inv a b ch lk p f qs i ph (A, B, s)" "snd B = []"
  shows "snd A = [] \<and> p_state (procs s p) = RUNNABLE"
proof -
  have "ph = After" using assms by (cases ph) (auto simp: race_inv_def visits_def split: prod.splits)
  then show ?thesis using assms by (auto simp: race_inv_def slot_at_def sleeper_ops split: prod.splits)
qed

lemma race_reach:
  assumes "race_pre a b lk p qs f" "race_inv a b ch lk p f qs i ph c" "par_step\<^sup>*\<^sup>* c c'"
  shows "\<exists>i ph. race_inv a b ch lk p f qs i ph c'"
  using assms(3)
proof (induction rule: rtranclp_induct)
  case base
  then show ?case using assms(2) by blast
next
  case (step y z)
  then show ?case using race_step [OF assms(1)] by blast
qed

lemma race_init:
  assumes "a \<noteq> b" "\<forall>q. ProcLock q \<noteq> lk" "p < NPROC" "me \<noteq> Some p" "data_only f"
    and "lock_at lk (Some (unat a)) s" "sa AND SSTATUS_SIE = 0" "noff (cpus s (unat a)) = 1" "cproc (cpus s (unat a)) = Some p"
    and "noff (cpus s (unat b)) = 0" "\<forall>q<NPROC. free_lk (ProcLock q) s"
  shows "race_pre a b lk p (filter (\<lambda>q. me \<noteq> Some q) [0..<NPROC]) f"
    "race_inv a b ch lk p f (filter (\<lambda>q. me \<noteq> Some q) [0..<NPROC]) 0 Before
      (((a, sa), sleeper ch lk p), ((b, sb), waker me ch lk f), s)"
proof -
  show "race_pre a b lk p (filter (\<lambda>q. me \<noteq> Some q) [0..<NPROC]) f"
    using assms by (auto simp: race_pre_def)
  have "locks_at (unat a) (unat b) lk p 0 Before s"
    using assms by (auto simp: locks_at_def holder_def lock_at_def)
  then show "race_inv a b ch lk p f (filter (\<lambda>q. me \<noteq> Some q) [0..<NPROC]) 0 Before
      (((a, sa), sleeper ch lk p), ((b, sb), waker me ch lk f), s)"
    using assms by (auto simp: race_inv_def waker_Before sleeper_at_def waker_at_def slot_at_def order_ok_def busy_def)
qed

text \<open>A step consumes a statement, so a run that always has a next step comes to its end.\<close>

lemma race_finishes:
  assumes pre: "race_pre a b lk p qs f"
  shows "race_inv a b ch lk p f qs i ph (A, B, s) \<Longrightarrow> \<exists>A' B' t. par_step\<^sup>*\<^sup>* (A, B, s) (A', B', t) \<and> snd A' = [] \<and> snd B' = []"
proof (induction "length (snd A) + length (snd B)" arbitrary: A B s i ph rule: less_induct)
  case less
  show ?case
  proof (cases "snd A = [] \<and> snd B = []")
    case False
    then obtain A' B' t where c: "par_step (A, B, s) (A', B', t)"
      using race_progress [OF pre less.prems] by (metis prod.exhaust)
    have "length (snd A') + length (snd B') < length (snd A) + length (snd B)"
      using c by (auto elim!: par_stepE hart_stepE)
    moreover obtain i' ph' where "race_inv a b ch lk p f qs i' ph' (A', B', t)"
      using race_step [OF pre less.prems c] by blast
    ultimately obtain A'' B'' u where "par_step\<^sup>*\<^sup>* (A', B', t) (A'', B'', u)" "snd A'' = []" "snd B'' = []"
      using less.hyps by blast
    then show ?thesis using c by (meson converse_rtranclp_into_rtranclp)
  qed blast
qed

section \<open>Properties\<close>

text \<open>
  C16. \<open>sleep\<close> cannot miss a wakeup, whatever the order in which two harts execute their statements.
  One hart is about to put process \<open>p\<close> to sleep, holding only the lock \<open>lk\<close> of the condition it has
  tested; the other takes \<open>lk\<close>, changes the condition, calls \<open>wakeup\<close> and releases \<open>lk\<close>. In every
  interleaving the waker cannot come to the end before the sleeper's hart has switched to the
  scheduler, and when it has come to the end \<open>p\<close> is runnable. No interleaving panics or gets stuck.
\<close>

theorem sleep_no_lost_wakeup:
  assumes "a \<noteq> b" "\<forall>q. ProcLock q \<noteq> lk" "p < NPROC" "cproc (cpus s (unat b)) \<noteq> Some p" "data_only f"
    and "lock_at lk (Some (unat a)) s" "sa AND SSTATUS_SIE = 0" "noff (cpus s (unat a)) = 1" "cproc (cpus s (unat a)) = Some p"
    and "noff (cpus s (unat b)) = 0" "\<forall>q<NPROC. free_lk (ProcLock q) s"
    and "par_step\<^sup>*\<^sup>* (((a, sa), sleeper ch lk p), ((b, sb), waker (cproc (cpus s (unat b))) ch lk f), s) (A, B, t)"
  shows "(snd B = [] \<longrightarrow> snd A = [] \<and> p_state (procs t p) = RUNNABLE) \<and>
    (snd A \<noteq> [] \<or> snd B \<noteq> [] \<longrightarrow> (\<exists>c. par_step (A, B, t) c))"
proof -
  note init = race_init [OF assms(1-11)]
  from race_reach [OF init assms(12)] obtain i ph where
    inv: "race_inv a b ch lk p f (filter (\<lambda>q. cproc (cpus s (unat b)) \<noteq> Some q) [0..<NPROC]) i ph (A, B, t)" by blast
  show ?thesis using race_done [OF inv] race_progress [OF init(1) inv] by blast
qed

text \<open>Process 0 on hart 0 waits for the clock, kept in a byte of memory that hart 1 sets; a run to the end of both programs.\<close>

definition race0 :: proc_state where
  "race0 = (acq TicksLock proc0)\<lparr>cpus := (cpus (acq TicksLock proc0))(1 := \<lparr>cproc = None, noff = 0, intena = False\<rparr>)\<rparr>"

theorem sleep_no_lost_wakeup_witness:
  "\<exists>A B t. par_step\<^sup>*\<^sup>* (((0, 0), sleeper ChTicks TicksLock 0),
       ((1, 0), waker None ChTicks TicksLock (mem_update (\<lambda>m. m(0x80009000 := 1)))), race0) (A, B, t) \<and>
     snd A = [] \<and> snd B = [] \<and> p_state (procs t 0) = RUNNABLE"
proof -
  let ?f = "mem_update (\<lambda>m. m(0x80009000 := 1)) :: proc_state \<Rightarrow> proc_state"
  have c: "cproc (cpus race0 (unat (1 :: uint64))) = None" by (simp add: race0_def)
  have h: "(0 :: uint64) \<noteq> 1" "\<forall>q. ProcLock q \<noteq> TicksLock" "0 < NPROC" "cproc (cpus race0 (unat (1 :: uint64))) \<noteq> Some 0"
    "data_only ?f" "lock_at TicksLock (Some (unat (0 :: uint64))) race0" "(0 :: uint64) AND SSTATUS_SIE = 0"
    "noff (cpus race0 (unat (0 :: uint64))) = 1" "cproc (cpus race0 (unat (0 :: uint64))) = Some 0"
    "noff (cpus race0 (unat (1 :: uint64))) = 0" "\<forall>q<NPROC. free_lk (ProcLock q) race0"
    by (simp_all add: race0_def acq_def enter_cpu_def lock_at_def mycpu_def cpuid_def proc0_defs free_lk_def data_only_def NPROC_def)
  obtain A B t where run: "par_step\<^sup>*\<^sup>* (((0, 0), sleeper ChTicks TicksLock 0),
      ((1, 0), waker None ChTicks TicksLock ?f), race0) (A, B, t)" "snd A = []" "snd B = []"
    using race_finishes [OF race_init [OF h]] unfolding c by blast
  show ?thesis using sleep_no_lost_wakeup [OF h, where ch = ChTicks and sb = 0 and A = A and B = B and t = t] run unfolding c by blast
qed

end
