(* ===== verification/Ulib.thy ===== *)
theory Ulib
  imports Kstring "HOL-Library.List_Lexorder" "HOL-Library.Char_ord"
begin

text \<open>
  The C library of the user programs, \<open>user/ulib.c\<close>. The functions that only read strings take a
  NUL-terminated string as the list of its characters before the NUL; the functions that write
  memory work on the byte memory of the kernel's string routines. \<open>read\<close>, \<open>open\<close>, \<open>fstat\<close> and
  \<open>close\<close> are system calls and come as arguments. \<open>char\<close> is unsigned on this machine, and the
  multiplication and addition of \<open>atoi\<close> wrap at 32 bits.
\<close>

section \<open>Operations\<close>

text \<open>The byte a string pointer points at: the NUL at the end of the string.\<close>

definition byte_at :: "string \<Rightarrow> int" where
  "byte_at s = (case s of [] \<Rightarrow> 0 | c # _ \<Rightarrow> of_char c)"

fun strcmp :: "string \<Rightarrow> string \<Rightarrow> int" where
  "strcmp p q =
     (case p of
        [] \<Rightarrow> byte_at p - byte_at q
      | c # p' \<Rightarrow> (if byte_at p = byte_at q then strcmp p' (tl q) else byte_at p - byte_at q))"

declare strcmp.simps [simp del]

partial_function (option) strcpy_loop :: "memory \<Rightarrow> uint64 \<Rightarrow> uint64 \<Rightarrow> memory option" where
  "strcpy_loop m s t =
     (let m' = m(s := m t) in if m' s \<noteq> 0 then strcpy_loop m' (s + 1) (t + 1) else Some m')"

definition strcpy :: "memory \<Rightarrow> uint64 \<Rightarrow> uint64 \<Rightarrow> (memory \<times> uint64) option" where
  "strcpy m s t = (case strcpy_loop m s t of None \<Rightarrow> None | Some m' \<Rightarrow> Some (m', s))"

definition strlen_u :: "string \<Rightarrow> uint" where
  "strlen_u s = of_nat (length s)"

definition memset_u :: "memory \<Rightarrow> uint64 \<Rightarrow> uint32 \<Rightarrow> uint \<Rightarrow> memory" where
  "memset_u m dst c n = memset_loop m dst (ucast c) 0 (unat n)"

text \<open>\<open>strchr\<close> returns the pointer to the first occurrence: the rest of the string from there.\<close>

fun strchr :: "string \<Rightarrow> char \<Rightarrow> string option" where
  "strchr [] c = None"
| "strchr (x # s) c = (if x = c then Some (x # s) else strchr s c)"

text \<open>
  \<open>gets\<close> reads single bytes with the system call \<open>rd\<close>, which gives \<open>None\<close> at the end of the input
  or on an error and otherwise a byte and the input that is left.
\<close>

function gets_loop :: "('i \<Rightarrow> (uint8 \<times> 'i) option) \<Rightarrow> memory \<Rightarrow> uint64 \<Rightarrow> int \<Rightarrow> int \<Rightarrow> 'i \<Rightarrow>
    memory \<times> int \<times> 'i" where
  "gets_loop rd m buf i mx inp =
     (if i + 1 < mx then
        (case rd inp of
           None \<Rightarrow> (m, i, inp)
         | Some (c, inp') \<Rightarrow>
             (let m' = m(buf + of_int i := c)
              in if c = 10 \<or> c = 13 then (m', i + 1, inp')
                 else gets_loop rd m' buf (i + 1) mx inp'))
      else (m, i, inp))"
  by pat_completeness auto
termination
  by (relation "measure (\<lambda>(rd, m, buf, i, mx, inp). nat (mx - i))") auto

definition gets_u :: "('i \<Rightarrow> (uint8 \<times> 'i) option) \<Rightarrow> memory \<Rightarrow> uint64 \<Rightarrow> int \<Rightarrow> 'i \<Rightarrow> memory \<times> 'i" where
  "gets_u rd m buf mx inp =
     (case gets_loop rd m buf 0 mx inp of (m', i, inp') \<Rightarrow> (m'(buf + of_int i := 0), inp'))"

definition stat_u :: "('w \<Rightarrow> int \<times> 'w) \<Rightarrow> (int \<Rightarrow> 'w \<Rightarrow> int \<times> 'w) \<Rightarrow> (int \<Rightarrow> 'w \<Rightarrow> 'w) \<Rightarrow> 'w \<Rightarrow>
    int \<times> 'w" where
  "stat_u opn fst_call cls w =
     (case opn w of (fd, w1) \<Rightarrow>
        if fd < 0 then (-1, w1)
        else (case fst_call fd w1 of (r, w2) \<Rightarrow> (r, cls fd w2)))"

fun atoi_loop :: "uint32 \<Rightarrow> string \<Rightarrow> uint32" where
  "atoi_loop n [] = n"
| "atoi_loop n (c # s) =
     (if CHR ''0'' \<le> c \<and> c \<le> CHR ''9''
      then atoi_loop (n * 10 + of_nat (of_char c) - of_nat (of_char (CHR ''0''))) s else n)"

definition atoi :: "string \<Rightarrow> uint32" where
  "atoi s =
     (if s \<noteq> [] \<and> hd s = CHR ''-'' then (- 1) * atoi_loop 0 (tl s) else 1 * atoi_loop 0 s)"

definition memmove_u :: "memory \<Rightarrow> uint64 \<Rightarrow> uint64 \<Rightarrow> int \<Rightarrow> memory" where
  "memmove_u m vdst vsrc n =
     (if vsrc > vdst then memmove_fwd m vdst vsrc (nat n)
      else memmove_bwd m (vdst + of_int n) (vsrc + of_int n) (nat n))"

definition memcmp_u :: "memory \<Rightarrow> uint64 \<Rightarrow> uint64 \<Rightarrow> uint \<Rightarrow> int" where
  "memcmp_u m s1 s2 n = memcmp_loop m s1 s2 (unat n)"

definition memcpy_u :: "memory \<Rightarrow> uint64 \<Rightarrow> uint64 \<Rightarrow> uint \<Rightarrow> memory" where
  "memcpy_u m dst src n = memmove_u m dst src (sint n)"

section \<open>String order\<close>

lemma of_char_int: "(of_char c :: int) = int (of_char c)"
  by (simp add: of_nat_of_char)

lemma of_char_int_less: "(of_char c :: int) < of_char d \<longleftrightarrow> c < d"
  unfolding of_char_int less_char_def by simp

lemma of_char_int_pos: "CHR 0x00 \<noteq> c \<Longrightarrow> 0 < (of_char c :: int)"
  using of_char_eq_iff [of c "CHR 0x00", where 'a = nat] unfolding of_char_int by simp

lemma byte_at_simps [simp]: "byte_at [] = 0" "byte_at (c # s) = of_char c"
  by (simp_all add: byte_at_def)

lemma strcmp_Cons:
  "strcmp (c # p) (d # q) = (if c = d then strcmp p q else of_char c - of_char d)"
  by (simp add: strcmp.simps [of "c # p"])

lemma sgn_diff_char: "c \<noteq> d \<Longrightarrow> sgn (of_char c - of_char d :: int) = (if c < d then - 1 else 1)"
  using of_char_int_less [of c d] of_char_int_less [of d c] by (auto simp: sgn_if linorder_neq_iff)

lemma strcmp_sgn:
  assumes "CHR 0x00 \<notin> set p" "CHR 0x00 \<notin> set q"
  shows "sgn (strcmp p q) = (if p = q then 0 else if p < q then - 1 else 1)"
  using assms
proof (induction p arbitrary: q)
  case Nil
  then show ?case
    by (cases q) (simp_all add: strcmp.simps [of "[]"] of_char_int_pos)
next
  case (Cons c p)
  show ?case
  proof (cases q)
    case Nil
    then show ?thesis using Cons.prems by (simp add: strcmp.simps [of "c # p"] of_char_int_pos less_imp_neq [symmetric])
  next
    case (Cons d q')
    then show ?thesis
      using Cons.IH [of q'] Cons.prems
      by (cases "c = d") (simp_all add: strcmp_Cons sgn_diff_char)
  qed
qed

section \<open>Copying\<close>

lemma strcpy_loop_eq:
  assumes "cstr m t xs" "apart s (Suc (length xs)) t (Suc (length xs))" "length xs < 2 ^ 63"
  shows "strcpy_loop m s t = Some (store_bytes m s (xs @ [0]))"
  using assms
proof (induction xs arbitrary: m s t)
  case Nil
  then show ?case
    using store_bytes_Cons [of "[]" m s 0, symmetric] by (simp add: strcpy_loop.simps [of m s t] fun_eq_iff)
next
  case (Cons x xs)
  let ?m = "m(s := x)"
  have "s \<noteq> t + of_nat j" if "j < Suc (Suc (length xs))" for j
    using Cons.prems(2) that unfolding apart_def by force
  then have "s \<noteq> t + 1 + of_nat j" if "j < Suc (length xs)" for j
    using that by (metis Suc_less_eq add.assoc of_nat_Suc)
  then have "cstr ?m (t + 1) xs" using Cons.prems(1) by (intro cstr_upd) auto
  moreover have "apart (s + 1) (Suc (length xs)) (t + 1) (Suc (length xs))"
    using Cons.prems(2) apart_tail by simp
  ultimately have "strcpy_loop ?m (s + 1) (t + 1) = Some (store_bytes ?m (s + 1) (xs @ [0]))"
    using Cons.IH Cons.prems(3) by simp
  then show ?case
    using Cons.prems store_bytes_Cons [of "xs @ [0]" m s x]
    by (simp add: strcpy_loop.simps [of m s t] Let_def)
qed

lemma memmove_u_eq:
  assumes "0 \<le> n" "unat src + nat n < 2 ^ 64" "unat dst + nat n \<le> 2 ^ 64"
  shows "memmove_u m dst src n = store_bytes m dst (load_bytes m src (nat n))"
proof (cases "src > dst")
  case True
  then show ?thesis
    using assms memmove_fwd_eq [of dst src "nat n" m]
    by (simp add: memmove_u_def word_less_nat_alt)
next
  case False
  moreover have "of_int n = (of_nat (nat n) :: uint64)" using assms(1) by (metis int_nat_eq of_int_of_nat_eq)
  ultimately show ?thesis
    using assms memmove_bwd_eq [of src dst "nat n" m]
    by (simp add: memmove_u_def word_less_nat_alt)
qed

section \<open>Properties\<close>

text \<open>
  C38. The user library's \<open>strcmp\<close> orders NUL-terminated strings: its result is negative, zero or
  positive as the first string comes before, equals or comes after the second in the
  lexicographic order of their unsigned bytes.
\<close>

theorem strcmp_order:
  assumes "CHR 0x00 \<notin> set p" "CHR 0x00 \<notin> set q"
  shows "sgn (strcmp p q) = (if p = q then 0 else if p < q then - 1 else 1)"
  using assms by (rule strcmp_sgn)

theorem strcmp_order_witness:
  "sgn (strcmp ''b'' ''ca'') = - 1 \<and> sgn (strcmp ''sh'' ''sh'') = 0"
proof -
  have "''b'' < ''ca''" by simp
  then show ?thesis
    using strcmp_order [of "''b''" "''ca''"] strcmp_order [of "''sh''" "''sh''"] by simp
qed

end
