(* ===== verification/Uprintf.thy ===== *)
theory Uprintf
  imports Ulib
begin

unbundle bit_operations_syntax

text \<open>
  Formatted output of the user programs, \<open>user/printf.c\<close>. Every character goes out through
  \<open>putc\<close>, so a call is modelled by the string it writes to its descriptor. A write past the
  16-byte buffer of \<open>printint\<close>, a digit outside the table and an argument list that does not fit
  the format are undefined in C and have the value \<open>None\<close>.
\<close>

section \<open>Operations\<close>

definition digits :: string where
  "digits = ''0123456789ABCDEF''"

text \<open>
  The digit loop and the sign are the same in the kernel's \<open>printf\<close>, whose digits are in lower
  case: the table is an argument.
\<close>

function printint_loop :: "string \<Rightarrow> uint32 \<Rightarrow> uint32 \<Rightarrow> string \<Rightarrow> string option" where
  "printint_loop dig x base buf =
     (if length buf < 16 \<and> base \<noteq> 0 \<and> unat (x mod base) < length dig then
        let buf' = buf @ [dig ! unat (x mod base)]; x' = x div base
        in if x' \<noteq> 0 then printint_loop dig x' base buf' else Some buf'
      else None)"
  by pat_completeness auto
termination
  by (relation "measure (\<lambda>(dig, x, base, buf). 16 - length buf)") auto

declare printint_loop.simps [simp del]

definition printint :: "string \<Rightarrow> uint32 \<Rightarrow> uint32 \<Rightarrow> bool \<Rightarrow> string option" where
  "printint dig xx base sg =
     (let neg = (sg \<and> sint xx < 0); x = (if neg then - xx else xx)
      in case printint_loop dig x base [] of
           None \<Rightarrow> None
         | Some buf \<Rightarrow>
             if neg then (if length buf < 16 then Some (rev (buf @ ''-'')) else None)
             else Some (rev buf))"

fun printptr_loop :: "string \<Rightarrow> nat \<Rightarrow> uint64 \<Rightarrow> string" where
  "printptr_loop dig 0 x = []"
| "printptr_loop dig (Suc n) x = dig ! unat (drop_bit 60 x) # printptr_loop dig n (push_bit 4 x)"

definition printptr :: "string \<Rightarrow> uint64 \<Rightarrow> string" where
  "printptr dig x = ''0x'' @ printptr_loop dig 16 x"

text \<open>The variable arguments of a call, read in order by \<open>va_arg\<close>.\<close>

datatype vararg = VInt uint32 | VLong uint64 | VStr "string option"

fun va_int :: "vararg list \<Rightarrow> (uint32 \<times> vararg list) option" where
  "va_int (VInt x # ap) = Some (x, ap)"
| "va_int _ = None"

fun va_long :: "vararg list \<Rightarrow> (uint64 \<times> vararg list) option" where
  "va_long (VLong x # ap) = Some (x, ap)"
| "va_long _ = None"

fun va_str :: "vararg list \<Rightarrow> (string option \<times> vararg list) option" where
  "va_str (VStr x # ap) = Some (x, ap)"
| "va_str _ = None"

definition str_or_null :: "string option \<Rightarrow> string" where
  "str_or_null s = (case s of None \<Rightarrow> ''(null)'' | Some t \<Rightarrow> t)"

definition vprintf_conv :: "char \<Rightarrow> vararg list \<Rightarrow> (string \<times> vararg list) option" where
  "vprintf_conv c ap =
     (if c = CHR ''d'' then
        (case va_int ap of None \<Rightarrow> None
         | Some (x, ap') \<Rightarrow> map_option (\<lambda>t. (t, ap')) (printint digits x 10 True))
      else if c = CHR ''l'' then
        (case va_long ap of None \<Rightarrow> None
         | Some (x, ap') \<Rightarrow> map_option (\<lambda>t. (t, ap')) (printint digits (ucast x) 10 False))
      else if c = CHR ''x'' then
        (case va_int ap of None \<Rightarrow> None
         | Some (x, ap') \<Rightarrow> map_option (\<lambda>t. (t, ap')) (printint digits x 16 False))
      else if c = CHR ''p'' then
        (case va_long ap of None \<Rightarrow> None | Some (x, ap') \<Rightarrow> Some (printptr digits x, ap'))
      else if c = CHR ''s'' then
        (case va_str ap of None \<Rightarrow> None | Some (s, ap') \<Rightarrow> Some (str_or_null s, ap'))
      else if c = CHR ''c'' then
        (case va_int ap of None \<Rightarrow> None
         | Some (x, ap') \<Rightarrow> Some ([char_of (unat x)], ap'))
      else if c = CHR ''%'' then Some (''%'', ap)
      else Some ([CHR ''%'', c], ap))"

text \<open>The first argument is the variable \<open>state\<close>: whether the last character was a percent sign.\<close>

fun vprintf_loop :: "bool \<Rightarrow> string \<Rightarrow> vararg list \<Rightarrow> string option" where
  "vprintf_loop state [] ap = Some []"
| "vprintf_loop state (c # fmt) ap =
     (if \<not> state then
        (if c = CHR ''%'' then vprintf_loop True fmt ap
         else map_option ((#) c) (vprintf_loop False fmt ap))
      else
        (case vprintf_conv c ap of
           None \<Rightarrow> None
         | Some (t, ap') \<Rightarrow> map_option ((@) t) (vprintf_loop False fmt ap')))"

definition vprintf :: "string \<Rightarrow> vararg list \<Rightarrow> string option" where
  "vprintf fmt ap = vprintf_loop False fmt ap"

text \<open>\<open>fprintf\<close> and \<open>printf\<close>: the descriptor and what is written to it.\<close>

definition fprintf_u :: "int \<Rightarrow> string \<Rightarrow> vararg list \<Rightarrow> (int \<times> string) option" where
  "fprintf_u fd fmt ap = map_option (Pair fd) (vprintf fmt ap)"

definition printf_u :: "string \<Rightarrow> vararg list \<Rightarrow> (int \<times> string) option" where
  "printf_u fmt ap = map_option (Pair 1) (vprintf fmt ap)"

section \<open>Numerals\<close>

text \<open>
  The digit loop leaves the digits of \<open>x\<close> in the base, least significant first and without
  superfluous zeros; \<open>k\<close> bounds their number.
\<close>

definition numeral_of :: "nat \<Rightarrow> nat \<Rightarrow> nat list \<Rightarrow> bool" where
  "numeral_of base x ds \<longleftrightarrow>
     ds \<noteq> [] \<and> (\<forall>d\<in>set ds. d < base) \<and> horner_sum (\<lambda>d. d) base ds = x \<and>
     (last ds = 0 \<longrightarrow> ds = [0])"

lemma numeral_of_step:
  assumes "numeral_of base (x div base) ds" "x div base \<noteq> 0" "0 < base"
  shows "numeral_of base x (x mod base # ds)"
  using assms by (auto simp: numeral_of_def)

lemma printint_loop_digits:
  assumes "unat x < unat base ^ k" "0 < k" "length buf + k \<le> 16"
    "1 < unat base" "unat base \<le> length dig"
  shows "\<exists>ds. printint_loop dig x base buf = Some (buf @ map ((!) dig) ds) \<and>
    numeral_of (unat base) (unat x) ds \<and> length ds \<le> k"
  using assms
proof (induction k arbitrary: x buf)
  case (Suc k)
  let ?d = "unat (x mod base)" and ?x = "x div base"
  have d: "?d = unat x mod unat base" "?d < unat base" "unat ?x = unat x div unat base" "base \<noteq> 0"
    using Suc.prems(4) by (auto simp: unat_mod unat_div)
  have unfold: "printint_loop dig x base buf =
    (if ?x \<noteq> 0 then printint_loop dig ?x base (buf @ [dig ! ?d]) else Some (buf @ [dig ! ?d]))"
    using Suc.prems d less_le_trans [OF d(2) Suc.prems(5)]
    by (subst printint_loop.simps) (simp add: Let_def)
  show ?case
  proof (cases "?x = 0")
    case True
    then have "unat x div unat base = 0" using d(3) by simp
    then have "unat x < unat base" using Suc.prems(4) by (simp add: div_eq_0_iff)
    then show ?thesis using True unfold d by (intro exI [of _ "[?d]"]) (simp add: numeral_of_def)
  next
    case False
    have lt: "unat ?x < unat base ^ k"
      using Suc.prems(1) d(3) by (simp add: less_mult_imp_div_less mult.commute)
    moreover have "0 < k" using lt False by (cases k) (auto simp: unat_eq_zero)
    ultimately obtain ds where ds: "printint_loop dig ?x base (buf @ [dig ! ?d]) =
      Some ((buf @ [dig ! ?d]) @ map ((!) dig) ds)" "numeral_of (unat base) (unat ?x) ds" "length ds \<le> k"
      using Suc.IH [of ?x "buf @ [dig ! ?d]"] Suc.prems by auto
    have "unat ?x \<noteq> 0" using False by (simp add: unat_eq_zero)
    then have "numeral_of (unat base) (unat x) (?d # ds)"
      using numeral_of_step [of "unat base" "unat x" ds] d(1,3) ds(2) Suc.prems(4) by simp
    then show ?thesis
      using unfold False ds by (intro exI [of _ "?d # ds"]) simp
  qed
qed simp

lemma digit_char:
  assumes "d < 10"
  shows "CHR ''0'' \<le> digits ! d" "digits ! d \<le> CHR ''9''" "digits ! d \<noteq> CHR ''-''"
    "of_char (digits ! d) = 48 + d"
proof -
  have "d = 0 \<or> d = 1 \<or> d = 2 \<or> d = 3 \<or> d = 4 \<or> d = 5 \<or> d = 6 \<or> d = 7 \<or> d = 8 \<or> d = 9"
    using assms by auto
  then show "CHR ''0'' \<le> digits ! d" "digits ! d \<le> CHR ''9''" "digits ! d \<noteq> CHR ''-''"
    "of_char (digits ! d) = 48 + d"
    by (auto simp: digits_def less_eq_char_def)
qed

lemma atoi_loop_digits:
  assumes "\<forall>d\<in>set ds. d < 10"
  shows "atoi_loop n (map ((!) digits) ds) = foldl (\<lambda>n d. n * 10 + of_nat d) n ds"
  using assms by (induction ds arbitrary: n) (simp_all add: digit_char)

lemma foldl_horner:
  "foldl (\<lambda>n d. n * 10 + of_nat d) 0 (rev ds) = (of_nat (horner_sum (\<lambda>d. d) 10 ds) :: uint32)"
  by (simp add: foldl_conv_foldr, induction ds) (simp_all add: algebra_simps)

lemma atoi_numeral:
  assumes "numeral_of 10 x ds"
  shows "atoi_loop 0 (map ((!) digits) (rev ds)) = of_nat x"
    "atoi (map ((!) digits) (rev ds)) = of_nat x"
proof -
  have lt: "\<forall>d\<in>set (rev ds). d < 10" and x: "horner_sum (\<lambda>d. d) 10 ds = x"
    using assms by (auto simp: numeral_of_def)
  show l: "atoi_loop 0 (map ((!) digits) (rev ds)) = of_nat x"
    unfolding atoi_loop_digits [OF lt] foldl_horner x ..
  obtain d es where "rev ds = d # es" using assms by (cases "rev ds") (auto simp: numeral_of_def)
  then have "digits ! d \<noteq> CHR ''-''" "map ((!) digits) (rev ds) = digits ! d # map ((!) digits) es"
    using lt digit_char(3) by auto
  then show "atoi (map ((!) digits) (rev ds)) = of_nat x"
    using l unfolding atoi_def by simp
qed

lemma unat32_decimal: "unat (x :: uint32) < 10 ^ 10"
  using unat32_less [of x] by (rule less_trans) simp

lemma length_digits [simp]: "length digits = 16"
  by (simp add: digits_def)

section \<open>Properties\<close>

text \<open>
  C37. \<open>printint\<close> of the user library stays inside its 16-byte buffer and inside its digit table for
  every 32-bit value and every base from 10 to 16, and writes the numeral of the value in that
  base: at most ten digits, no superfluous zero, whose value is the argument.
\<close>

theorem printint_numeral:
  assumes "10 \<le> unat base" "unat base \<le> 16"
  shows "\<exists>ds. printint digits xx base False = Some (map ((!) digits) (rev ds)) \<and>
    numeral_of (unat base) (unat xx) ds \<and> length ds \<le> 10"
proof -
  have "unat xx < 10 ^ 10" by (rule unat32_decimal)
  also have "(10::nat) ^ 10 \<le> unat base ^ 10" using assms(1) by (rule power_mono) simp
  finally show ?thesis
    using printint_loop_digits [of xx base 10 "[]" digits] assms
    by (auto simp: printint_def rev_map)
qed

theorem printint_numeral_witness:
  "\<exists>ds. printint digits 255 16 False = Some (map ((!) digits) (rev ds)) \<and> numeral_of 16 255 ds \<and>
    length ds \<le> 10"
  using printint_numeral [of 16 255] by simp

text \<open>
  C36. What \<open>printf("%d")\<close> writes, \<open>atoi\<close> reads back: for every 32-bit integer, the most negative one
  included, \<open>printint\<close> writes at most eleven characters and \<open>atoi\<close> returns the integer.
\<close>

theorem printint_atoi:
  "\<exists>s. vprintf ''%d'' [VInt xx] = Some s \<and> length s \<le> 11 \<and> atoi s = xx"
proof -
  let ?neg = "sint xx < 0" and ?x = "if sint xx < 0 then - xx else xx"
  have "unat ?x < unat (10 :: uint32) ^ 10" using unat32_decimal [of ?x] by simp
  then obtain ds where ds: "printint_loop digits ?x 10 [] = Some (map ((!) digits) ds)"
    "numeral_of 10 (unat ?x) ds" "length ds \<le> 10"
    using printint_loop_digits [of ?x 10 10 "[]" digits] by auto
  show ?thesis
  proof (cases ?neg)
    case True
    then have "atoi (CHR ''-'' # map ((!) digits) (rev ds)) = xx"
      using atoi_numeral(1) [OF ds(2)] by (simp add: atoi_def)
    then show ?thesis
      using ds True by (simp add: vprintf_def vprintf_conv_def printint_def rev_map)
  next
    case False
    then show ?thesis
      using ds atoi_numeral(2) [OF ds(2)]
      by (simp add: vprintf_def vprintf_conv_def printint_def rev_map)
  qed
qed

text \<open>\<open>%l\<close> reads a 64-bit argument and prints its low 32 bits only.\<close>

lemma vprintf_l_truncates:
  "\<exists>s. vprintf ''%l'' [VLong x] = Some s \<and> atoi s = ucast x"
proof -
  have "unat (ucast x :: uint32) < unat (10 :: uint32) ^ 10" using unat32_decimal [of "ucast x"] by simp
  then obtain ds where ds: "printint_loop digits (ucast x) 10 [] = Some (map ((!) digits) ds)"
    "numeral_of 10 (unat (ucast x :: uint32)) ds"
    using printint_loop_digits [of "ucast x" 10 10 "[]" digits] by auto
  then show ?thesis
    using atoi_numeral(2) [OF ds(2)]
    by (simp add: vprintf_def vprintf_conv_def printint_def rev_map)
qed

end
