(* ===== verification/Grep.thy ===== *)
theory Grep
  imports Uprintf
begin

text \<open>
  The program \<open>user/grep.c\<close>. Strings are the lists of their characters before the NUL, so a
  pointer into a string is the rest of the list. The buffer is not a string: it holds the bytes read
  and not yet printed, NUL bytes of the file among them, and \<open>strchr\<close> and \<open>match\<close> see of it what comes
  before the first NUL, \<open>before_nul\<close>. \<open>read\<close> and \<open>open\<close> are system calls and come as arguments. The matcher is shown to
  decide a declarative meaning of patterns, and the reading loop to print the matching lines in front
  of the first NUL byte of the file.
\<close>

section \<open>The matcher\<close>

text \<open>\<open>matchhere\<close> and \<open>matchstar\<close> call each other: every call shortens the pattern or the text.\<close>

function matchhere :: "string \<Rightarrow> string \<Rightarrow> bool" and matchstar :: "char \<Rightarrow> string \<Rightarrow> string \<Rightarrow> bool" where
  "matchhere re tx =
     (if re = [] then True
      else if tl re \<noteq> [] \<and> hd (tl re) = CHR ''*'' then matchstar (hd re) (tl (tl re)) tx
      else if hd re = CHR ''$'' \<and> tl re = [] then tx = []
      else if tx \<noteq> [] \<and> (hd re = CHR ''.'' \<or> hd re = hd tx) then matchhere (tl re) (tl tx)
      else False)"
| "matchstar c re tx =
     (if matchhere re tx then True
      else if tx \<noteq> [] \<and> (hd tx = c \<or> c = CHR ''.'') then matchstar c re (tl tx)
      else False)"
  by pat_completeness auto
termination
proof (relation "measure (\<lambda>x. case x of
    Inl (re, tx) \<Rightarrow> 2 * (length re + length tx)
  | Inr (c, re, tx) \<Rightarrow> 2 * (length re + length tx) + 1)")
  fix re tx :: string
  assume "re \<noteq> []" "tl re \<noteq> [] \<and> hd (tl re) = CHR ''*''"
  then show "(Inr (hd re, tl (tl re), tx), Inl (re, tx)) \<in> measure (\<lambda>x. case x of
    Inl (re, tx) \<Rightarrow> 2 * (length re + length tx)
  | Inr (c, re, tx) \<Rightarrow> 2 * (length re + length tx) + 1)"
    by (cases re; cases "tl re") auto
next
  fix re tx :: string
  assume "re \<noteq> []" "tx \<noteq> [] \<and> (hd re = CHR ''.'' \<or> hd re = hd tx)"
  then show "(Inl (tl re, tl tx), Inl (re, tx)) \<in> measure (\<lambda>x. case x of
    Inl (re, tx) \<Rightarrow> 2 * (length re + length tx)
  | Inr (c, re, tx) \<Rightarrow> 2 * (length re + length tx) + 1)"
    by (cases re; cases tx) auto
next
  fix c :: char and re tx :: string
  assume "tx \<noteq> [] \<and> (hd tx = c \<or> c = CHR ''.'')"
  then show "(Inr (c, re, tl tx), Inr (c, re, tx)) \<in> measure (\<lambda>x. case x of
    Inl (re, tx) \<Rightarrow> 2 * (length re + length tx)
  | Inr (c, re, tx) \<Rightarrow> 2 * (length re + length tx) + 1)"
    by (cases tx) auto
qed auto

declare matchhere.simps [simp del] matchstar.simps [simp del]

fun match_loop :: "string \<Rightarrow> string \<Rightarrow> bool" where
  "match_loop re [] = matchhere re []"
| "match_loop re (c # tx) = (matchhere re (c # tx) \<or> match_loop re tx)"

definition match :: "string \<Rightarrow> string \<Rightarrow> bool" where
  "match re tx =
     (if re \<noteq> [] \<and> hd re = CHR ''^'' then matchhere (tl re) tx else match_loop re tx)"

section \<open>The reading loop\<close>

definition newline :: char where
  "newline = CHR 0x0A"

lemma strchr_SomeD: "strchr s c = Some q \<Longrightarrow> \<exists>u q'. s = u @ q \<and> q = c # q' \<and> c \<notin> set u"
proof (induction s)
  case (Cons x s)
  show ?case
  proof (cases "x = c")
    case True
    then show ?thesis using Cons.prems by auto
  next
    case False
    then obtain u q' where "s = u @ q" "q = c # q'" "c \<notin> set u" using Cons by auto
    then have "x # s = (x # u) @ q" "c \<notin> set (x # u)" using False by auto
    then show ?thesis using \<open>q = c # q'\<close> by blast
  qed
qed simp

lemma strchr_None: "strchr s c = None \<longleftrightarrow> c \<notin> set s"
  by (induction s) auto

lemma strchr_append: "c \<notin> set u \<Longrightarrow> strchr (u @ c # v) c = Some (c # v)"
  by (induction u) auto

text \<open>The string that begins at a place of the buffer.\<close>

definition nul :: char where
  "nul = CHR 0x00"

definition before_nul :: "string \<Rightarrow> string" where
  "before_nul p = takeWhile (\<lambda>c. c \<noteq> nul) p"

lemma before_nul_split: "p = before_nul p @ dropWhile (\<lambda>c. c \<noteq> nul) p"
  by (simp add: before_nul_def)

lemma before_nul_no_nul: "nul \<notin> set (before_nul p)"
  by (auto simp: before_nul_def dest: set_takeWhileD)

lemma before_nul_plain: "nul \<notin> set p \<Longrightarrow> before_nul p = p"
  by (auto simp: before_nul_def takeWhile_eq_all_conv)

lemma before_nul_append: "before_nul (u @ v) = (if nul \<in> set u then before_nul u else u @ before_nul v)"
  by (induction u) (auto simp: before_nul_def)

lemma before_nul_rest: "before_nul (dropWhile (\<lambda>c. c \<noteq> nul) p) = []"
  by (induction p) (auto simp: before_nul_def)

text \<open>The inner loop: what it writes, and the bytes it leaves at \<open>p\<close>.\<close>

function grep_lines :: "string \<Rightarrow> string \<Rightarrow> string \<times> string" where
  "grep_lines pattern p =
     (case strchr (before_nul p) newline of
        None \<Rightarrow> ([], p)
      | Some q \<Rightarrow>
          (let n = length (before_nul p) - length q; line = take n p; r = grep_lines pattern (drop (n + 1) p)
           in ((if match pattern line then line @ [newline] else []) @ fst r, snd r)))"
  by pat_completeness auto
termination
proof (relation "measure (\<lambda>(pattern, p). length p)")
  fix pattern p q n line
  assume "strchr (before_nul p) newline = Some q" "n = length (before_nul p) - length q"
  then have "p \<noteq> []" by (auto simp: before_nul_def)
  then show "((pattern, drop (n + 1) p), pattern, p) \<in> measure (\<lambda>(pattern, p). length p)" by simp
qed simp

declare grep_lines.simps [simp del]

text \<open>
  The outer loop. \<open>rd n i\<close> is the call \<open>read(fd, buf+m, n)\<close>: the bytes read, none at the end of the
  file or on an error, and the input that is left.
\<close>

partial_function (option) grep_loop ::
  "(nat \<Rightarrow> 'i \<Rightarrow> string \<times> 'i) \<Rightarrow> string \<Rightarrow> string \<Rightarrow> 'i \<Rightarrow> (string \<times> 'i) option" where
  "grep_loop rd pattern buf i =
     (let r = rd (1024 - length buf - 1) i
      in if fst r = [] then Some ([], snd r)
         else (let l = grep_lines pattern (buf @ fst r)
               in Option.bind (grep_loop rd pattern (snd l) (snd r))
                    (\<lambda>res. Some (fst l @ fst res, snd res))))"

definition grep :: "(nat \<Rightarrow> 'i \<Rightarrow> string \<times> 'i) \<Rightarrow> string \<Rightarrow> 'i \<Rightarrow> (string \<times> 'i) option" where
  "grep rd pattern i = grep_loop rd pattern [] i"

text \<open>
  \<open>main\<close>: the writes to the descriptors 1 and 2 in order, and the exit status. \<open>opn\<close> gives the
  input of a file name, or \<open>None\<close> where \<open>open\<close> fails.
\<close>

fun grep_files :: "(nat \<Rightarrow> 'i \<Rightarrow> string \<times> 'i) \<Rightarrow> (string \<Rightarrow> 'i option) \<Rightarrow> string \<Rightarrow> string list \<Rightarrow>
    ((int \<times> string) list \<times> int) option" where
  "grep_files rd opn pattern [] = Some ([], 0)"
| "grep_files rd opn pattern (a # args) =
     (case opn a of
        None \<Rightarrow> map_option (\<lambda>t. ([t], 1)) (printf_u ''grep: cannot open %s\<newline>'' [VStr (Some a)])
      | Some i \<Rightarrow>
          (case grep rd pattern i of
             None \<Rightarrow> None
           | Some (out, _) \<Rightarrow>
               map_option (\<lambda>r. ((1, out) # fst r, snd r)) (grep_files rd opn pattern args)))"

definition grep_main :: "(nat \<Rightarrow> 'i \<Rightarrow> string \<times> 'i) \<Rightarrow> (string \<Rightarrow> 'i option) \<Rightarrow> 'i \<Rightarrow> string list \<Rightarrow>
    ((int \<times> string) list \<times> int) option" where
  "grep_main rd opn stdin argv =
     (if length argv \<le> 1 then
        map_option (\<lambda>t. ([t], 1)) (fprintf_u 2 ''usage: grep pattern [file ...]\<newline>'' [])
      else if length argv \<le> 2 then
        (case grep rd (argv ! 1) stdin of None \<Rightarrow> None | Some (out, _) \<Rightarrow> Some ([(1, out)], 0))
      else grep_files rd opn (argv ! 1) (drop 2 argv))"

section \<open>The meaning of a pattern\<close>

text \<open>
  A pattern is a sequence of items, one character or any number of them, optionally anchored at
  the beginning and the end. A string is in the language of the items when it splits into one
  piece for each.
\<close>

datatype item = One char | Many char

fun admits :: "char \<Rightarrow> char \<Rightarrow> bool" where
  "admits c x \<longleftrightarrow> c = CHR ''.'' \<or> c = x"

fun item_lang :: "item \<Rightarrow> string set" where
  "item_lang (One c) = {[x] | x. admits c x}"
| "item_lang (Many c) = {w. \<forall>x\<in>set w. admits c x}"

fun lang :: "item list \<Rightarrow> string set" where
  "lang [] = {[]}"
| "lang (i # is) = {u @ v | u v. u \<in> item_lang i \<and> v \<in> lang is}"

fun items :: "string \<Rightarrow> item list \<times> bool" where
  "items [] = ([], False)"
| "items [c] = (if c = CHR ''$'' then ([], True) else ([One c], False))"
| "items (c # d # re) =
     (if d = CHR ''*'' then (case items re of (is, e) \<Rightarrow> (Many c # is, e))
      else (case items (d # re) of (is, e) \<Rightarrow> (One c # is, e)))"

text \<open>The items match a prefix of the text, all of it if the pattern ends with a dollar sign.\<close>

definition here :: "item list \<times> bool \<Rightarrow> string \<Rightarrow> bool" where
  "here r tx \<longleftrightarrow> (\<exists>u v. tx = u @ v \<and> u \<in> lang (fst r) \<and> (snd r \<longrightarrow> v = []))"

lemma here_Nil: "here ([], e) tx \<longleftrightarrow> (e \<longrightarrow> tx = [])"
  by (auto simp: here_def)

lemma here_Cons: "here (i # is, e) tx \<longleftrightarrow> (\<exists>u w. tx = u @ w \<and> u \<in> item_lang i \<and> here (is, e) w)"
proof
  assume "here (i # is, e) tx"
  then obtain u w v where "tx = (u @ w) @ v" "u \<in> item_lang i" "w \<in> lang is" "e \<longrightarrow> v = []"
    unfolding here_def fst_conv snd_conv lang.simps by blast
  then show "\<exists>u w. tx = u @ w \<and> u \<in> item_lang i \<and> here (is, e) w"
    by (intro exI [of _ u] exI [of _ "w @ v"]) (auto simp: here_def)
next
  assume "\<exists>u w. tx = u @ w \<and> u \<in> item_lang i \<and> here (is, e) w"
  then obtain u w where uw: "tx = u @ w" "u \<in> item_lang i" "here (is, e) w" by blast
  then obtain a v where av: "w = a @ v" "a \<in> lang is" "e \<longrightarrow> v = []"
    unfolding here_def fst_conv snd_conv by blast
  have "tx = (u @ a) @ v" "u @ a \<in> lang (i # is)" using uw av by auto
  then show "here (i # is, e) tx" unfolding here_def fst_conv snd_conv using av(3) by blast
qed

lemma here_One: "here (One c # is, e) tx \<longleftrightarrow> tx \<noteq> [] \<and> admits c (hd tx) \<and> here (is, e) (tl tx)"
proof (cases tx)
  case (Cons x t)
  have "(\<exists>u w. x # t = u @ w \<and> (\<exists>y. u = [y] \<and> admits c y) \<and> here (is, e) w) \<longleftrightarrow>
    admits c x \<and> here (is, e) t"
    by (metis append_Cons append_Nil list.inject)
  then show ?thesis using Cons by (simp add: here_Cons del: admits.simps)
qed (simp add: here_Cons del: admits.simps)

lemma here_Many:
  "here (Many c # is, e) tx \<longleftrightarrow>
     here (is, e) tx \<or> (tx \<noteq> [] \<and> admits c (hd tx) \<and> here (Many c # is, e) (tl tx))"
proof -
  have "(\<exists>u w. tx = u @ w \<and> (\<forall>x\<in>set u. admits c x) \<and> here (is, e) w) \<longleftrightarrow>
    here (is, e) tx \<or>
    (\<exists>x t. tx = x # t \<and> admits c x \<and> (\<exists>u w. t = u @ w \<and> (\<forall>x\<in>set u. admits c x) \<and> here (is, e) w))"
    (is "?l \<longleftrightarrow> ?r")
  proof
    assume ?l
    then obtain u w where uw: "tx = u @ w" "\<forall>x\<in>set u. admits c x" "here (is, e) w" by blast
    then show ?r by (cases u) (auto simp del: admits.simps)
  next
    assume ?r
    then consider "here (is, e) tx" |
      x u w where "tx = (x # u) @ w" "\<forall>y\<in>set (x # u). admits c y" "here (is, e) w"
      by (auto simp del: admits.simps)
    then show ?l
    proof cases
      case 1
      then show ?thesis by fastforce
    qed blast
  qed
  then show ?thesis by (cases tx) (simp_all add: here_Cons del: admits.simps)
qed

lemma here_items:
  "here (items []) tx"
  "here (items [c]) tx \<longleftrightarrow> (if c = CHR ''$'' then tx = [] else tx \<noteq> [] \<and> admits c (hd tx))"
  "here (items (c # CHR ''*'' # re)) tx \<longleftrightarrow> here (Many c # fst (items re), snd (items re)) tx"
  "d \<noteq> CHR ''*'' \<Longrightarrow> here (items (c # d # re)) tx \<longleftrightarrow>
     tx \<noteq> [] \<and> admits c (hd tx) \<and> here (items (d # re)) (tl tx)"
  by (simp_all add: here_Nil here_One case_prod_beta del: admits.simps)

lemma matchhere_cases:
  "matchhere [] tx"
  "matchhere [c] tx \<longleftrightarrow>
     (if c = CHR ''$'' then tx = [] else tx \<noteq> [] \<and> admits c (hd tx) \<and> matchhere [] (tl tx))"
  "matchhere (c # CHR ''*'' # re) tx \<longleftrightarrow> matchstar c re tx"
  "d \<noteq> CHR ''*'' \<Longrightarrow> matchhere (c # d # re) tx \<longleftrightarrow>
     tx \<noteq> [] \<and> admits c (hd tx) \<and> matchhere (d # re) (tl tx)"
  by (simp_all add: matchhere.simps [of "[]"] matchhere.simps [of "[c]"] matchhere.simps [of "c # _"])

lemma match_here:
  "matchhere re tx = here (items re) tx"
  "matchstar c re tx = here (Many c # fst (items re), snd (items re)) tx"
proof (induction re tx and c re tx rule: matchhere_matchstar.induct)
  case (1 re tx)
  consider "re = []" | c where "re = [c]" | c re' where "re = c # CHR ''*'' # re'" |
    c d re' where "re = c # d # re'" "d \<noteq> CHR ''*''"
    by (metis neq_Nil_conv)
  then show ?case
  proof cases
    case 1
    then show ?thesis by (simp only: here_items matchhere_cases)
  next
    case (2 c)
    then show ?thesis by (simp only: here_items matchhere_cases simp_thms)
  next
    case (3 c re')
    then show ?thesis using 1(1) unfolding 3 here_items(3) matchhere_cases(3) by simp
  next
    case (4 c d re')
    show ?thesis
    proof (cases "tx \<noteq> [] \<and> admits c (hd tx)")
      case True
      then have "matchhere (d # re') (tl tx) = here (items (d # re')) (tl tx)"
        using 4 1(2) by (auto simp del: items.simps)
      then show ?thesis unfolding 4(1) here_items(4) [OF 4(2)] matchhere_cases(4) [OF 4(2)] by blast
    next
      case False
      then show ?thesis unfolding 4(1) here_items(4) [OF 4(2)] matchhere_cases(4) [OF 4(2)] by blast
    qed
  qed
next
  case (2 c re tx)
  have h: "here (Many c # fst (items re), snd (items re)) tx \<longleftrightarrow> here (items re) tx \<or>
    (tx \<noteq> [] \<and> admits c (hd tx) \<and> here (Many c # fst (items re), snd (items re)) (tl tx))"
    using here_Many [of c "fst (items re)" "snd (items re)" tx] by simp
  show ?case
    using 2(1) 2(2) unfolding h matchstar.simps [of c re tx] admits.simps by (auto simp del: items.simps)
qed

lemma match_loop_here: "match_loop re tx \<longleftrightarrow> (\<exists>u v. tx = u @ v \<and> here (items re) v)"
  by (induction tx) (auto simp: match_here Cons_eq_append_conv)

section \<open>Lines\<close>

text \<open>The complete lines of a text and the unfinished line after them, \<open>acc\<close> being read already.\<close>

fun lines_of :: "string \<Rightarrow> string \<Rightarrow> string list \<times> string" where
  "lines_of acc [] = ([], acc)"
| "lines_of acc (c # s) =
     (if c = newline then (acc # fst (lines_of [] s), snd (lines_of [] s))
      else lines_of (acc @ [c]) s)"

lemma lines_of_append:
  "lines_of acc (s @ t) =
     (fst (lines_of acc s) @ fst (lines_of (snd (lines_of acc s)) t),
      snd (lines_of (snd (lines_of acc s)) t))"
  by (induction acc s rule: lines_of.induct) auto

lemma lines_of_plain: "newline \<notin> set s \<Longrightarrow> lines_of acc s = ([], acc @ s)"
  by (induction s arbitrary: acc) auto

lemma lines_of_start: "newline \<notin> set acc \<Longrightarrow> lines_of [] (acc @ s) = lines_of acc s"
  by (simp add: lines_of_append lines_of_plain)

lemma lines_of_tail: "newline \<notin> set acc \<Longrightarrow> newline \<notin> set (snd (lines_of acc s))"
  by (induction acc s rule: lines_of.induct) auto

lemma lines_of_nul: "nul \<notin> set acc \<Longrightarrow> nul \<notin> set s \<Longrightarrow> nul \<notin> set (snd (lines_of acc s))"
  by (induction acc s rule: lines_of.induct) auto

definition print_lines :: "string \<Rightarrow> string list \<Rightarrow> string" where
  "print_lines pattern ls = concat (map (\<lambda>l. l @ [newline]) (filter (match pattern) ls))"

lemma print_lines_simps:
  "print_lines pattern [] = []"
  "print_lines pattern (l # ls) =
     (if match pattern l then l @ [newline] else []) @ print_lines pattern ls"
  "print_lines pattern (ls @ ls') = print_lines pattern ls @ print_lines pattern ls'"
  by (simp_all add: print_lines_def)

text \<open>The inner loop handles the lines of the string at \<open>p\<close>; what follows a NUL stays where it is.\<close>

lemma grep_lines_eq:
  "grep_lines pattern p = (print_lines pattern (fst (lines_of [] (before_nul p))),
     snd (lines_of [] (before_nul p)) @ dropWhile (\<lambda>c. c \<noteq> nul) p)"
proof (induction pattern p rule: grep_lines.induct)
  case (1 pattern p)
  let ?d = "dropWhile (\<lambda>c. c \<noteq> nul) p"
  show ?case
  proof (cases "strchr (before_nul p) newline")
    case None
    then have "newline \<notin> set (before_nul p)" by (simp add: strchr_None)
    then show ?thesis
      using None before_nul_split [of p] by (simp add: grep_lines.simps [of pattern p] lines_of_plain print_lines_simps)
  next
    case (Some q)
    then obtain u q' where uq: "before_nul p = u @ newline # q'" "q = newline # q'" "newline \<notin> set u"
      using strchr_SomeD by blast
    have p: "p = u @ newline # q' @ ?d" using before_nul_split [of p] uq(1) by simp
    have nq: "nul \<notin> set q'" using before_nul_no_nul [of p] by (simp add: uq(1))
    have n: "length (before_nul p) - length q = length u" by (simp add: uq)
    have tk: "take (length u) p = u" "drop (length u + 1) p = q' @ ?d" by (subst p, simp)+
    have "before_nul ?d = []" by (rule before_nul_rest)
    then have c: "before_nul (q' @ ?d) = q'" using nq by (simp add: before_nul_append)
    have d: "dropWhile (\<lambda>c. c \<noteq> nul) (q' @ ?d) = ?d" using nq by (auto simp: dropWhile_append)
    have ih: "grep_lines pattern (q' @ ?d) = (print_lines pattern (fst (lines_of [] q')), snd (lines_of [] q') @ ?d)"
      using 1 [OF Some refl refl] unfolding n tk c d .
    have "lines_of [] (before_nul p) = (u # fst (lines_of [] q'), snd (lines_of [] q'))"
      using uq by (simp add: lines_of_append lines_of_plain)
    then show ?thesis
      by (simp add: grep_lines.simps [of pattern p] Some Let_def print_lines_simps n [simplified] tk [simplified] ih)
  qed
qed

text \<open>No line, complete or not, fills the buffer.\<close>

definition short_lines :: "string list \<times> string \<Rightarrow> bool" where
  "short_lines r \<longleftrightarrow> (\<forall>l\<in>set (fst r). length l < 1023) \<and> length (snd r) < 1023"

lemma short_lines_start: "short_lines (lines_of acc s) \<Longrightarrow> length acc < 1023"
proof (induction acc s rule: lines_of.induct)
  case (2 acc c s)
  then show ?case by (cases "c = newline") (auto simp: short_lines_def)
qed (simp add: short_lines_def)

text \<open>
  What \<open>read\<close> promises of a regular file: the bytes it returns are the next bytes of the file, no
  more than asked for, and none only at the end or when none are asked for.
\<close>

definition reads_file :: "(nat \<Rightarrow> string \<Rightarrow> string \<times> string) \<Rightarrow> bool" where
  "reads_file rd \<longleftrightarrow>
     (\<forall>n r. r = fst (rd n r) @ snd (rd n r) \<and> length (fst (rd n r)) \<le> n \<and>
        (0 < n \<and> r \<noteq> [] \<longrightarrow> fst (rd n r) \<noteq> []))"

lemma grep_loop_step:
  assumes "r = rd (1024 - length buf - 1) i" "l = grep_lines pattern (buf @ fst r)"
  shows "grep_loop rd pattern buf i = (if fst r = [] then Some ([], snd r)
    else Option.bind (grep_loop rd pattern (snd l) (snd r)) (\<lambda>res. Some (fst l @ fst res, snd res)))"
  unfolding assms by (subst grep_loop.simps) (simp only: Let_def)

text \<open>Once a NUL is in the buffer nothing behind it is looked at: the rest is read and nothing printed.\<close>

lemma grep_loop_nul:
  assumes "reads_file rd" "nul \<in> set buf" "newline \<notin> set (before_nul buf)"
  shows "\<exists>rest. grep_loop rd pattern buf i = Some ([], rest)"
  using assms(2,3)
proof (induction "length i" arbitrary: buf i rule: less_induct)
  case less
  define r where "r = rd (1024 - length buf - 1) i"
  have ri: "i = fst r @ snd r" using assms(1) unfolding reads_file_def r_def by blast
  show ?case
  proof (cases "fst r = []")
    case True
    then show ?thesis by (simp add: grep_loop_step [where rd = rd, OF r_def refl])
  next
    case False
    have c: "before_nul (buf @ fst r) = before_nul buf" using less.prems(1) by (simp add: before_nul_append)
    have l: "grep_lines pattern (buf @ fst r) = ([], buf @ fst r)"
      using less.prems(2) before_nul_split [of "buf @ fst r"] by (simp add: grep_lines_eq c lines_of_plain print_lines_simps)
    have "length (snd r) < length i" using False ri by (metis length_append length_greater_0_conv less_add_same_cancel2)
    moreover have "nul \<in> set (buf @ fst r)" "newline \<notin> set (before_nul (buf @ fst r))" using less.prems c by simp_all
    ultimately obtain rest where "grep_loop rd pattern (buf @ fst r) (snd r) = Some ([], rest)"
      using less.hyps by blast
    then show ?thesis using False l by (simp add: grep_loop_step [where rd = rd, OF r_def refl])
  qed
qed

lemma grep_loop_eq:
  assumes "reads_file rd" "newline \<notin> set buf" "nul \<notin> set buf" "short_lines (lines_of buf (before_nul i))"
  shows "\<exists>rest. grep_loop rd pattern buf i = Some (print_lines pattern (fst (lines_of buf (before_nul i))), rest)"
  using assms(2-4)
proof (induction "length i" arbitrary: buf i rule: less_induct)
  case less
  define r where "r = rd (1024 - length buf - 1) i"
  have ri: "i = fst r @ snd r" "i \<noteq> [] \<Longrightarrow> fst r \<noteq> []"
    using assms(1) short_lines_start [OF less.prems(3)] unfolding reads_file_def r_def by auto
  show ?case
  proof (cases "fst r = []")
    case True
    then have "before_nul i = []" using ri(2) by (cases i) (auto simp: before_nul_def)
    then show ?thesis
      using True by (simp add: grep_loop_step [where rd = rd, OF r_def refl] print_lines_simps)
  next
    case False
    let ?l = "grep_lines pattern (buf @ fst r)" and ?m = "lines_of buf (before_nul (fst r))"
    let ?d = "dropWhile (\<lambda>c. c \<noteq> nul) (buf @ fst r)"
    have cb: "before_nul (buf @ fst r) = buf @ before_nul (fst r)" using less.prems(2) by (simp add: before_nul_append)
    have l: "?l = (print_lines pattern (fst ?m), snd ?m @ ?d)"
      using less.prems(1) by (simp add: grep_lines_eq cb lines_of_start)
    have nl: "newline \<notin> set (snd ?m)" using less.prems(1) by (rule lines_of_tail)
    have nn: "nul \<notin> set (snd ?m)" using lines_of_nul [OF less.prems(2) before_nul_no_nul] .
    have "\<exists>rest. grep_loop rd pattern (snd ?m @ ?d) (snd r) =
      Some (print_lines pattern (drop (length (fst ?m)) (fst (lines_of buf (before_nul i)))), rest) \<and>
      take (length (fst ?m)) (fst (lines_of buf (before_nul i))) = fst ?m"
    proof (cases "nul \<in> set (fst r)")
      case True
      then have ci: "before_nul i = before_nul (fst r)" using ri(1) by (metis before_nul_append)
      have "nul \<in> set ?d" using True cb before_nul_split [of "buf @ fst r"] less.prems(2) before_nul_no_nul [of "fst r"]
        by (metis Un_iff set_append)
      moreover have "before_nul (snd ?m @ ?d) = snd ?m"
        using nn by (simp add: before_nul_append before_nul_rest)
      ultimately show ?thesis using grep_loop_nul [OF assms(1), of "snd ?m @ ?d" pattern "snd r"] nl
        by (simp add: ci print_lines_simps)
    next
      case False
      then have ci: "before_nul i = fst r @ before_nul (snd r)" "before_nul (fst r) = fst r" "?d = []"
        using ri(1) before_nul_append [of "fst r" "snd r"] less.prems(2) by (auto simp: before_nul_plain)
      have split: "lines_of buf (before_nul i) = (fst ?m @ fst (lines_of (snd ?m) (before_nul (snd r))), snd (lines_of (snd ?m) (before_nul (snd r))))"
        by (simp add: ci lines_of_append)
      have "length (snd r) < length i" using \<open>fst r \<noteq> []\<close> ri(1)
        by (metis length_append length_greater_0_conv less_add_same_cancel2)
      moreover have "short_lines (lines_of (snd ?m) (before_nul (snd r)))"
        using less.prems(3) unfolding split short_lines_def by simp
      ultimately obtain rest where "grep_loop rd pattern (snd ?m) (snd r) =
        Some (print_lines pattern (fst (lines_of (snd ?m) (before_nul (snd r)))), rest)"
        using less.hyps nl nn by blast
      then show ?thesis unfolding split ci(3) by simp
    qed
    then obtain rest where g: "grep_loop rd pattern (snd ?m @ ?d) (snd r) =
        Some (print_lines pattern (drop (length (fst ?m)) (fst (lines_of buf (before_nul i)))), rest)"
      "fst (lines_of buf (before_nul i)) = fst ?m @ drop (length (fst ?m)) (fst (lines_of buf (before_nul i)))"
      by (metis append_take_drop_id)
    have "print_lines pattern (fst (lines_of buf (before_nul i))) =
      print_lines pattern (fst ?m) @ print_lines pattern (drop (length (fst ?m)) (fst (lines_of buf (before_nul i))))"
      by (subst g(2)) (simp only: print_lines_simps)
    then show ?thesis
      using False l g(1) by (simp add: grep_loop_step [where rd = rd, OF r_def refl])
  qed
qed

section \<open>Properties\<close>

text \<open>
  C34. The matcher of \<open>grep\<close>, with its mutually recursive functions, terminates on every pattern and
  text and decides the meaning of the pattern: \<open>match\<close> succeeds exactly when a part of the text is
  a sequence of one piece for each item of the pattern, beginning where the text begins if the
  pattern starts with a circumflex and ending where it ends if the pattern ends with a dollar sign.
\<close>

theorem match_meaning:
  "match re tx \<longleftrightarrow>
     (let (caret, body) = (if re \<noteq> [] \<and> hd re = CHR ''^'' then (True, tl re) else (False, re));
          (is, dollar) = items body
      in \<exists>pre mid post. tx = pre @ mid @ post \<and> mid \<in> lang is \<and>
           (caret \<longrightarrow> pre = []) \<and> (dollar \<longrightarrow> post = []))"
  by (auto simp: match_def match_loop_here match_here here_def Let_def split: prod.splits)

theorem match_meaning_witness:
  "match ''a*b'' ''xab'' \<and> (\<exists>pre mid post. ''xab'' = pre @ mid @ post \<and> mid \<in> lang [Many (CHR ''a''), One (CHR ''b'')])"
proof -
  have m: "match ''a*b'' ''xab''" by (simp add: match_def matchhere.simps matchstar.simps)
  then show ?thesis using match_meaning [of "''a*b''" "''xab''"] by simp
qed

text \<open>
  C35. \<open>grep\<close> reads a file in whatever pieces \<open>read\<close> returns and writes exactly the complete lines that
  match, in order, of the part of the file in front of its first NUL byte, which is the whole file
  when there is none; no line of that part may have 1023 characters or more. Lines behind a NUL byte
  are never printed, because \<open>strchr\<close> finds no newline beyond it.
\<close>

theorem grep_prints_matching_lines:
  assumes "reads_file rd" "short_lines (lines_of [] (before_nul i))"
  shows "\<exists>rest. grep rd pattern i = Some (print_lines pattern (fst (lines_of [] (before_nul i))), rest)"
  unfolding grep_def using grep_loop_eq [of rd "[]" i pattern] assms by simp

theorem grep_prints_matching_lines_witness:
  "\<exists>rest. grep (\<lambda>n r. (take (min 3 n) r, drop (min 3 n) r)) ''b*c''
     [CHR ''a'', CHR ''c'', newline, CHR ''b'', newline, CHR ''c'', newline, CHR ''b'', nul, newline, CHR ''c'', newline] =
     Some ([CHR ''a'', CHR ''c'', newline, CHR ''c'', newline], rest)"
proof -
  let ?i = "[CHR ''a'', CHR ''c'', newline, CHR ''b'', newline, CHR ''c'', newline, CHR ''b'', nul, newline, CHR ''c'', newline]"
  let ?rd = "\<lambda>n r. (take (min 3 n) r, drop (min 3 n) r)"
  have c: "before_nul ?i = [CHR ''a'', CHR ''c'', newline, CHR ''b'', newline, CHR ''c'', newline, CHR ''b'']"
    by (simp add: before_nul_def newline_def nul_def)
  have l: "lines_of [] (before_nul ?i) = ([''ac'', ''b'', ''c''], ''b'')" unfolding c by (simp add: newline_def)
  have "reads_file ?rd" by (auto simp: reads_file_def)
  moreover have "short_lines (lines_of [] (before_nul ?i))" unfolding l by (simp add: short_lines_def)
  ultimately have "\<exists>rest. grep ?rd ''b*c'' ?i = Some (print_lines ''b*c'' [''ac'', ''b'', ''c''], rest)"
    using grep_prints_matching_lines [of ?rd ?i "''b*c''"] unfolding l by simp
  moreover have "print_lines ''b*c'' [''ac'', ''b'', ''c''] =
    [CHR ''a'', CHR ''c'', newline, CHR ''c'', newline]"
    by (simp add: print_lines_simps match_def matchhere.simps matchstar.simps)
  ultimately show ?thesis by simp
qed

text \<open>A line that fills the buffer makes \<open>read\<close> return nothing: the rest of the file is ignored.\<close>

lemma grep_long_line_stops:
  assumes "newline \<notin> set l" "length l = 1023"
  shows "grep (\<lambda>n r. (take n r, drop n r)) pattern (l @ rest) = Some ([], rest)"
proof -
  have "newline \<notin> set (before_nul l)" using assms(1) set_takeWhileD unfolding before_nul_def by fast
  then have g: "grep_lines pattern l = ([], l)"
    using before_nul_split [of l] by (simp add: grep_lines_eq lines_of_plain print_lines_simps)
  have "grep_loop (\<lambda>n r. (take n r, drop n r)) pattern l rest = Some ([], rest)"
    using assms(2) by (subst grep_loop.simps) (simp add: Let_def)
  moreover have "take 1023 (l @ rest) = l" "drop 1023 (l @ rest) = rest" "l \<noteq> []" using assms(2) by auto
  ultimately show ?thesis
    unfolding grep_def by (subst grep_loop.simps) (simp add: Let_def g)
qed

end
