(* ===== verification/Sleeplock.thy ===== *)
theory Sleeplock
  imports Proc
begin

text \<open>
  \<open>kernel/sleeplock.c\<close> and \<open>kernel/sleeplock.h\<close>: locks held across long operations.  A sleep lock is
  named by its owner (a buffer or an inode); the spin lock inside it is \<open>SleepLk\<close> of that name and
  its address, the wait channel, is \<open>ChSleep\<close> of that name.
\<close>

section \<open>State and operations\<close>

record sleeplock =
  sl_locked :: uint
  sl_name :: string
  sl_pid :: int

record sleep_state = proc_state +
  sleeps :: "sleepid \<Rightarrow> sleeplock"

lemma sleep_upd_order [upd_order]:
  "mem_update f_mem (sleeps_update g_sleeps r) = sleeps_update g_sleeps (mem_update f_mem r)"
  "tp_update f_tp (sleeps_update g_sleeps r) = sleeps_update g_sleeps (tp_update f_tp r)"
  "sstatus_update f_sstatus (sleeps_update g_sleeps r) = sleeps_update g_sleeps (sstatus_update f_sstatus r)"
  "cpus_update f_cpus (sleeps_update g_sleeps r) = sleeps_update g_sleeps (cpus_update f_cpus r)"
  "locks_update f_locks (sleeps_update g_sleeps r) = sleeps_update g_sleeps (locks_update f_locks r)"
  "kend_update f_kend (sleeps_update g_sleeps r) = sleeps_update g_sleeps (kend_update f_kend r)"
  "freelist_update f_freelist (sleeps_update g_sleeps r) = sleeps_update g_sleeps (freelist_update f_freelist r)"
  "etext_update f_etext (sleeps_update g_sleeps r) = sleeps_update g_sleeps (etext_update f_etext r)"
  "trampoline_update f_trampoline (sleeps_update g_sleeps r) = sleeps_update g_sleeps (trampoline_update f_trampoline r)"
  "kernel_pagetable_update f_kernel_pagetable (sleeps_update g_sleeps r) = sleeps_update g_sleeps (kernel_pagetable_update f_kernel_pagetable r)"
  "satp_update f_satp (sleeps_update g_sleeps r) = sleeps_update g_sleeps (satp_update f_satp r)"
  "procs_update f_procs (sleeps_update g_sleeps r) = sleeps_update g_sleeps (procs_update f_procs r)"
  "initproc_update f_initproc (sleeps_update g_sleeps r) = sleeps_update g_sleeps (initproc_update f_initproc r)"
  "nextpid_update f_nextpid (sleeps_update g_sleeps r) = sleeps_update g_sleeps (nextpid_update f_nextpid r)"
  "forkret_sym_update f_forkret_sym (sleeps_update g_sleeps r) = sleeps_update g_sleeps (forkret_sym_update f_forkret_sym r)"
  by simp_all

lemma sleep_state_simps [state_simps]:
  "sleeps (acq lk s) = sleeps s"
  "acq lk (sleeps_update f_sleeps s) = sleeps_update f_sleeps (acq lk s)"
  "sleeps (rel lk s) = sleeps s"
  "rel lk (sleeps_update f_sleeps s) = sleeps_update f_sleeps (rel lk s)"
  "sleeps (tch s) = sleeps s"
  "tch (sleeps_update f_sleeps s) = sleeps_update f_sleeps (tch s)"
  "free_lk lk (sleeps_update f_sleeps s) = free_lk lk s"
  "held_lk lk (sleeps_update f_sleeps s) = held_lk lk s"
  "in_cs (sleeps_update f_sleeps s) = in_cs s"
  "irq_ok (sleeps_update f_sleeps s) = irq_ok s"
  "intr_get (sleeps_update f_sleeps s) = intr_get s"
  "cpuid (sleeps_update f_sleeps s) = cpuid s"
  "mycpu (sleeps_update f_sleeps s) = mycpu s"
  by (simp_all add: in_cs_def lock_defs upd_order)

definition set_sleep :: "sleepid \<Rightarrow> (sleeplock \<Rightarrow> sleeplock) \<Rightarrow> (unit, 'z sleep_state_scheme) kop" where
  "set_sleep i f = modify (\<lambda>s. s\<lparr>sleeps := (sleeps s)(i := f (sleeps s i))\<rparr>)"

lemma set_sleep_apply [kop_simps]:
  "set_sleep i f s = Ret () (s\<lparr>sleeps := (sleeps s)(i := f (sleeps s i))\<rparr>)"
  by (simp add: set_sleep_def kop_simps)

definition initsleeplock :: "sleepid \<Rightarrow> string \<Rightarrow> (unit, 'z sleep_state_scheme) kop" where
  "initsleeplock i nm =
     thn (initlock (SleepLk i) ''sleep lock'')
    (thn (set_sleep i (\<lambda>l. l\<lparr>sl_name := nm\<rparr>))
    (thn (set_sleep i (\<lambda>l. l\<lparr>sl_locked := 0\<rparr>))
         (set_sleep i (\<lambda>l. l\<lparr>sl_pid := 0\<rparr>))))"

primrec acquiresleep_loop :: "nat \<Rightarrow> sleepid \<Rightarrow> (unit, 'z sleep_state_scheme) kop" where
  "acquiresleep_loop 0 i = spin"
| "acquiresleep_loop (Suc n) i =
     bnd (gets (\<lambda>s. sl_locked (sleeps s i))) (\<lambda>l.
     if l \<noteq> 0 then thn (sleep (ChSleep i) (SleepLk i)) (acquiresleep_loop n i) else ret ())"

definition acquiresleep :: "sleepid \<Rightarrow> (unit, 'z sleep_state_scheme) kop" where
  "acquiresleep i =
     thn (acquire (SleepLk i))
    (thn (acquiresleep_loop WAITS i)
    (thn (set_sleep i (\<lambda>l. l\<lparr>sl_locked := 1\<rparr>))
    (bnd cur_proc (\<lambda>p.
     bnd (get_proc p) (\<lambda>pr.
     thn (set_sleep i (\<lambda>l. l\<lparr>sl_pid := p_pid pr\<rparr>))
         (release (SleepLk i)))))))"

definition releasesleep :: "sleepid \<Rightarrow> (unit, 'z sleep_state_scheme) kop" where
  "releasesleep i =
     thn (acquire (SleepLk i))
    (thn (set_sleep i (\<lambda>l. l\<lparr>sl_locked := 0\<rparr>))
    (thn (set_sleep i (\<lambda>l. l\<lparr>sl_pid := 0\<rparr>))
    (thn (wakeup (Some (ChSleep i)))
         (release (SleepLk i)))))"

definition holdingsleep :: "sleepid \<Rightarrow> (bool, 'z sleep_state_scheme) kop" where
  "holdingsleep i =
     thn (acquire (SleepLk i))
    (bnd (gets (\<lambda>s. sl_locked (sleeps s i))) (\<lambda>l.
     bnd (if l \<noteq> 0 then
            bnd (gets (\<lambda>s. sl_pid (sleeps s i))) (\<lambda>pid.
            bnd cur_proc (\<lambda>p.
            bnd (get_proc p) (\<lambda>pr. ret (pid = p_pid pr))))
          else ret False) (\<lambda>r.
     thn (release (SleepLk i)) (ret r))))"

section \<open>Execution lemmas\<close>

definition cur_pid :: "'z proc_state_scheme \<Rightarrow> int" where
  "cur_pid s = p_pid (procs s (the (cproc (mycpu s))))"

text \<open>Interrupt nesting is consistent, every process lock is free and a process is running.\<close>

definition calm :: "'z proc_state_scheme \<Rightarrow> bool" where
  "calm s \<longleftrightarrow> irq_ok s \<and> procs_free s \<and> cproc (mycpu s) \<noteq> None"

definition sl_free :: "sleepid \<Rightarrow> 'z sleep_state_scheme \<Rightarrow> bool" where
  "sl_free i s \<longleftrightarrow> sl_locked (sleeps s i) = 0"

definition sl_mine :: "sleepid \<Rightarrow> 'z sleep_state_scheme \<Rightarrow> bool" where
  "sl_mine i s \<longleftrightarrow> sl_locked (sleeps s i) \<noteq> 0 \<and> sl_pid (sleeps s i) = cur_pid s"

definition wake_all :: "chan \<Rightarrow> 'z proc_state_scheme \<Rightarrow> nat \<Rightarrow> proc" where
  "wake_all ch s = (\<lambda>p. if p < NPROC \<and> cproc (mycpu s) \<noteq> Some p then woken (Some ch) (procs s p)
     else procs s p)"

lemma wake_all_pid [simp]: "p_pid (wake_all ch s p) = p_pid (procs s p)"
  by (simp add: wake_all_def woken_def)

lemma wake_all_state [state_simps]:
  "wake_all ch (tch s) = wake_all ch s"
  "wake_all ch (acq lk s) = wake_all ch s"
  "wake_all ch (sleeps_update f t) = wake_all ch t"
  by (simp_all add: wake_all_def state_simps cong: if_cong)

lemma cur_pid_state [state_simps]:
  "cur_pid (tch s) = cur_pid s"
  "cur_pid (acq lk s) = cur_pid s"
  "cur_pid (rel lk s) = cur_pid s"
  "cur_pid (sleeps_update f t) = cur_pid t"
  "cur_pid (procs_update (\<lambda>_. wake_all ch u) s) = p_pid (procs u (the (cproc (mycpu s))))"
  by (simp_all add: cur_pid_def state_simps)

lemma procs_free_sleeps [state_simps]: "procs_free (sleeps_update f t) = procs_free t"
  by (simp add: procs_free_def state_simps)

lemma calm_state [state_simps]:
  "calm (tch s) = calm s"
  "calm (procs_update h s) = calm s"
  "calm (sleeps_update f t) = calm t"
  by (simp_all add: calm_def state_simps)

lemma wakeup_calm: "calm s \<Longrightarrow> wakeup (Some ch) s = Ret () ((tch s)\<lparr>procs := wake_all ch s\<rparr>)"
  by (simp add: calm_def wakeup_eq wake_all_def)

lemma acquiresleep_loop_free: "sl_free i s \<Longrightarrow> acquiresleep_loop (Suc n) i s = Ret () s"
  by (simp add: sl_free_def kop_simps)

lemma acquiresleep_eq:
  assumes "calm s" "free_lk (SleepLk i) s" "sl_free i s"
  shows "acquiresleep i s = Ret () ((tch s)\<lparr>sleeps := (sleeps s)(i :=
    (sleeps s i)\<lparr>sl_locked := 1, sl_pid := cur_pid s\<rparr>)\<rparr>)"
proof -
  obtain p where p: "cproc (mycpu s) = Some p" and i: "irq_ok s" using assms(1) by (auto simp: calm_def)
  have l: "acquiresleep_loop WAITS i (acq (SleepLk i) s) = Ret () (acq (SleepLk i) s)"
    using assms(3) acquiresleep_loop_free [of i "acq (SleepLk i) s" 63]
    by (simp add: WAITS_def sl_free_def state_simps)
  show ?thesis using assms(2) p i l
    by (simp add: acquiresleep_def kop_simps state_simps cur_pid_def)
qed

lemma releasesleep_eq:
  assumes "calm s" "free_lk (SleepLk i) s"
  shows "releasesleep i s = Ret () ((tch s)\<lparr>procs := wake_all (ChSleep i) s,
    sleeps := (sleeps s)(i := (sleeps s i)\<lparr>sl_locked := 0, sl_pid := 0\<rparr>)\<rparr>)"
proof -
  let ?u = "(acq (SleepLk i) s)\<lparr>sleeps := (sleeps s)(i := (sleeps s i)\<lparr>sl_locked := 0, sl_pid := 0\<rparr>)\<rparr>"
  have i: "irq_ok s" and c: "calm ?u" using assms(1) by (auto simp: calm_def state_simps)
  show ?thesis using assms(2) i
    by (simp add: releasesleep_def kop_simps wakeup_calm [OF c] upd_order state_simps)
qed

lemma holdingsleep_eq:
  assumes "calm s" "free_lk (SleepLk i) s"
  shows "holdingsleep i s = Ret (sl_mine i s) (tch s)"
proof -
  obtain p where p: "cproc (mycpu s) = Some p" and i: "irq_ok s" using assms(1) by (auto simp: calm_def)
  show ?thesis using assms(2) p i
    by (simp add: holdingsleep_def kop_simps state_simps sl_mine_def cur_pid_def)
qed

end
