(* ===== verification/Bio.thy ===== *)
theory Bio
  imports Sleeplock
begin

text \<open>
  \<open>kernel/bio.c\<close> and \<open>kernel/buf.h\<close>: the buffer cache.  A buffer is its index in \<open>bcache.buf\<close>; the
  list head \<open>bcache.head\<close> is the index \<open>NBUF\<close>.  The disk is a map from block numbers to block
  contents; \<open>dtrace\<close> is the sequence of block writes it has carried out, which the crash argument of
  the log is about.  \<open>disk_rw\<close> is the contract of \<open>virtio_disk_rw\<close>: the effect of the request once
  the device has completed it, seen by the one process that waits for it.

  The abstract cache has for every block its current contents (\<open>view\<close>), its reference count
  (\<open>refs\<close>) and whether it is locked (\<open>lockd\<close>).  The locale \<open>block_cache\<close> states what each operation
  does to these, its interpretation \<open>bc\<close> proves the laws for the functions of \<open>bio.c\<close>, and the log
  layer uses only those laws.
\<close>

section \<open>State\<close>

definition BSIZE :: nat where "BSIZE = 1024"

record buf =
  b_valid :: int
  b_disk :: int
  b_dev :: uint
  b_blockno :: uint
  b_refcnt :: uint
  b_prev :: nat
  b_next :: nat
  b_data :: "uint8 list"

record bio_state = sleep_state +
  bufs :: "nat \<Rightarrow> buf"
  disk :: "uint \<Rightarrow> uint8 list"
  dtrace :: "(uint \<times> uint8 list) list"

lemma bio_upd_order [upd_order]:
  "mem_update f_mem (bufs_update g_bufs r) = bufs_update g_bufs (mem_update f_mem r)"
  "mem_update f_mem (disk_update g_disk r) = disk_update g_disk (mem_update f_mem r)"
  "mem_update f_mem (dtrace_update g_dtrace r) = dtrace_update g_dtrace (mem_update f_mem r)"
  "tp_update f_tp (bufs_update g_bufs r) = bufs_update g_bufs (tp_update f_tp r)"
  "tp_update f_tp (disk_update g_disk r) = disk_update g_disk (tp_update f_tp r)"
  "tp_update f_tp (dtrace_update g_dtrace r) = dtrace_update g_dtrace (tp_update f_tp r)"
  "sstatus_update f_sstatus (bufs_update g_bufs r) = bufs_update g_bufs (sstatus_update f_sstatus r)"
  "sstatus_update f_sstatus (disk_update g_disk r) = disk_update g_disk (sstatus_update f_sstatus r)"
  "sstatus_update f_sstatus (dtrace_update g_dtrace r) = dtrace_update g_dtrace (sstatus_update f_sstatus r)"
  "cpus_update f_cpus (bufs_update g_bufs r) = bufs_update g_bufs (cpus_update f_cpus r)"
  "cpus_update f_cpus (disk_update g_disk r) = disk_update g_disk (cpus_update f_cpus r)"
  "cpus_update f_cpus (dtrace_update g_dtrace r) = dtrace_update g_dtrace (cpus_update f_cpus r)"
  "locks_update f_locks (bufs_update g_bufs r) = bufs_update g_bufs (locks_update f_locks r)"
  "locks_update f_locks (disk_update g_disk r) = disk_update g_disk (locks_update f_locks r)"
  "locks_update f_locks (dtrace_update g_dtrace r) = dtrace_update g_dtrace (locks_update f_locks r)"
  "kend_update f_kend (bufs_update g_bufs r) = bufs_update g_bufs (kend_update f_kend r)"
  "kend_update f_kend (disk_update g_disk r) = disk_update g_disk (kend_update f_kend r)"
  "kend_update f_kend (dtrace_update g_dtrace r) = dtrace_update g_dtrace (kend_update f_kend r)"
  "freelist_update f_freelist (bufs_update g_bufs r) = bufs_update g_bufs (freelist_update f_freelist r)"
  "freelist_update f_freelist (disk_update g_disk r) = disk_update g_disk (freelist_update f_freelist r)"
  "freelist_update f_freelist (dtrace_update g_dtrace r) = dtrace_update g_dtrace (freelist_update f_freelist r)"
  "etext_update f_etext (bufs_update g_bufs r) = bufs_update g_bufs (etext_update f_etext r)"
  "etext_update f_etext (disk_update g_disk r) = disk_update g_disk (etext_update f_etext r)"
  "etext_update f_etext (dtrace_update g_dtrace r) = dtrace_update g_dtrace (etext_update f_etext r)"
  "trampoline_update f_trampoline (bufs_update g_bufs r) = bufs_update g_bufs (trampoline_update f_trampoline r)"
  "trampoline_update f_trampoline (disk_update g_disk r) = disk_update g_disk (trampoline_update f_trampoline r)"
  "trampoline_update f_trampoline (dtrace_update g_dtrace r) = dtrace_update g_dtrace (trampoline_update f_trampoline r)"
  "kernel_pagetable_update f_kernel_pagetable (bufs_update g_bufs r) = bufs_update g_bufs (kernel_pagetable_update f_kernel_pagetable r)"
  "kernel_pagetable_update f_kernel_pagetable (disk_update g_disk r) = disk_update g_disk (kernel_pagetable_update f_kernel_pagetable r)"
  "kernel_pagetable_update f_kernel_pagetable (dtrace_update g_dtrace r) = dtrace_update g_dtrace (kernel_pagetable_update f_kernel_pagetable r)"
  "satp_update f_satp (bufs_update g_bufs r) = bufs_update g_bufs (satp_update f_satp r)"
  "satp_update f_satp (disk_update g_disk r) = disk_update g_disk (satp_update f_satp r)"
  "satp_update f_satp (dtrace_update g_dtrace r) = dtrace_update g_dtrace (satp_update f_satp r)"
  "procs_update f_procs (bufs_update g_bufs r) = bufs_update g_bufs (procs_update f_procs r)"
  "procs_update f_procs (disk_update g_disk r) = disk_update g_disk (procs_update f_procs r)"
  "procs_update f_procs (dtrace_update g_dtrace r) = dtrace_update g_dtrace (procs_update f_procs r)"
  "initproc_update f_initproc (bufs_update g_bufs r) = bufs_update g_bufs (initproc_update f_initproc r)"
  "initproc_update f_initproc (disk_update g_disk r) = disk_update g_disk (initproc_update f_initproc r)"
  "initproc_update f_initproc (dtrace_update g_dtrace r) = dtrace_update g_dtrace (initproc_update f_initproc r)"
  "nextpid_update f_nextpid (bufs_update g_bufs r) = bufs_update g_bufs (nextpid_update f_nextpid r)"
  "nextpid_update f_nextpid (disk_update g_disk r) = disk_update g_disk (nextpid_update f_nextpid r)"
  "nextpid_update f_nextpid (dtrace_update g_dtrace r) = dtrace_update g_dtrace (nextpid_update f_nextpid r)"
  "forkret_sym_update f_forkret_sym (bufs_update g_bufs r) = bufs_update g_bufs (forkret_sym_update f_forkret_sym r)"
  "forkret_sym_update f_forkret_sym (disk_update g_disk r) = disk_update g_disk (forkret_sym_update f_forkret_sym r)"
  "forkret_sym_update f_forkret_sym (dtrace_update g_dtrace r) = dtrace_update g_dtrace (forkret_sym_update f_forkret_sym r)"
  "sleeps_update f_sleeps (bufs_update g_bufs r) = bufs_update g_bufs (sleeps_update f_sleeps r)"
  "sleeps_update f_sleeps (disk_update g_disk r) = disk_update g_disk (sleeps_update f_sleeps r)"
  "sleeps_update f_sleeps (dtrace_update g_dtrace r) = dtrace_update g_dtrace (sleeps_update f_sleeps r)"
  "bufs_update f_bufs (disk_update g_disk r) = disk_update g_disk (bufs_update f_bufs r)"
  "bufs_update f_bufs (dtrace_update g_dtrace r) = dtrace_update g_dtrace (bufs_update f_bufs r)"
  "disk_update f_disk (dtrace_update g_dtrace r) = dtrace_update g_dtrace (disk_update f_disk r)"
  by simp_all

lemma bio_state_simps [state_simps]:
  "bufs (acq lk s) = bufs s"
  "acq lk (bufs_update f_bufs s) = bufs_update f_bufs (acq lk s)"
  "bufs (rel lk s) = bufs s"
  "rel lk (bufs_update f_bufs s) = bufs_update f_bufs (rel lk s)"
  "bufs (tch s) = bufs s"
  "tch (bufs_update f_bufs s) = bufs_update f_bufs (tch s)"
  "free_lk lk (bufs_update f_bufs s) = free_lk lk s"
  "held_lk lk (bufs_update f_bufs s) = held_lk lk s"
  "in_cs (bufs_update f_bufs s) = in_cs s"
  "irq_ok (bufs_update f_bufs s) = irq_ok s"
  "intr_get (bufs_update f_bufs s) = intr_get s"
  "cpuid (bufs_update f_bufs s) = cpuid s"
  "mycpu (bufs_update f_bufs s) = mycpu s"
  "disk (acq lk s) = disk s"
  "acq lk (disk_update f_disk s) = disk_update f_disk (acq lk s)"
  "disk (rel lk s) = disk s"
  "rel lk (disk_update f_disk s) = disk_update f_disk (rel lk s)"
  "disk (tch s) = disk s"
  "tch (disk_update f_disk s) = disk_update f_disk (tch s)"
  "free_lk lk (disk_update f_disk s) = free_lk lk s"
  "held_lk lk (disk_update f_disk s) = held_lk lk s"
  "in_cs (disk_update f_disk s) = in_cs s"
  "irq_ok (disk_update f_disk s) = irq_ok s"
  "intr_get (disk_update f_disk s) = intr_get s"
  "cpuid (disk_update f_disk s) = cpuid s"
  "mycpu (disk_update f_disk s) = mycpu s"
  "dtrace (acq lk s) = dtrace s"
  "acq lk (dtrace_update f_dtrace s) = dtrace_update f_dtrace (acq lk s)"
  "dtrace (rel lk s) = dtrace s"
  "rel lk (dtrace_update f_dtrace s) = dtrace_update f_dtrace (rel lk s)"
  "dtrace (tch s) = dtrace s"
  "tch (dtrace_update f_dtrace s) = dtrace_update f_dtrace (tch s)"
  "free_lk lk (dtrace_update f_dtrace s) = free_lk lk s"
  "held_lk lk (dtrace_update f_dtrace s) = held_lk lk s"
  "in_cs (dtrace_update f_dtrace s) = in_cs s"
  "irq_ok (dtrace_update f_dtrace s) = irq_ok s"
  "intr_get (dtrace_update f_dtrace s) = intr_get s"
  "cpuid (dtrace_update f_dtrace s) = cpuid s"
  "mycpu (dtrace_update f_dtrace s) = mycpu s"
  by (simp_all add: in_cs_def lock_defs upd_order)

definition set_buf :: "nat \<Rightarrow> (buf \<Rightarrow> buf) \<Rightarrow> (unit, 'z bio_state_scheme) kop" where
  "set_buf i f = modify (\<lambda>s. s\<lparr>bufs := (bufs s)(i := f (bufs s i))\<rparr>)"

definition get_buf :: "nat \<Rightarrow> (buf, 'z bio_state_scheme) kop" where
  "get_buf i = gets (\<lambda>s. bufs s i)"

definition get_data :: "nat \<Rightarrow> (uint8 list, 'z bio_state_scheme) kop" where
  "get_data i = gets (\<lambda>s. b_data (bufs s i))"

definition set_data :: "nat \<Rightarrow> uint8 list \<Rightarrow> (unit, 'z bio_state_scheme) kop" where
  "set_data i d = set_buf i (\<lambda>q. q\<lparr>b_data := d\<rparr>)"

lemma buf_ops [kop_simps]:
  "set_buf i f s = Ret () (s\<lparr>bufs := (bufs s)(i := f (bufs s i))\<rparr>)"
  "get_buf i s = Ret (bufs s i) s"
  "get_data i s = Ret (b_data (bufs s i)) s"
  "set_data i d s = Ret () (s\<lparr>bufs := (bufs s)(i := (bufs s i)\<lparr>b_data := d\<rparr>)\<rparr>)"
  by (simp_all add: set_buf_def get_buf_def get_data_def set_data_def kop_simps)

section \<open>Operations\<close>

definition disk_rw :: "nat \<Rightarrow> bool \<Rightarrow> (unit, 'z bio_state_scheme) kop" where
  "disk_rw b wr =
     bnd (get_buf b) (\<lambda>q.
     if wr then modify (\<lambda>s. s\<lparr>disk := (disk s)(b_blockno q := b_data q),
                             dtrace := dtrace s @ [(b_blockno q, b_data q)]\<rparr>)
     else bnd (gets disk) (\<lambda>d. set_buf b (\<lambda>q. q\<lparr>b_data := d (b_blockno q)\<rparr>)))"

definition binit_body :: "nat \<Rightarrow> (unit, 'z bio_state_scheme) kop" where
  "binit_body b =
     bnd (get_buf NBUF) (\<lambda>h.
     thn (set_buf b (\<lambda>q. q\<lparr>b_next := b_next h\<rparr>))
    (thn (set_buf b (\<lambda>q. q\<lparr>b_prev := NBUF\<rparr>))
    (thn (initsleeplock (BufSleep b) ''buffer'')
    (bnd (get_buf NBUF) (\<lambda>h.
     thn (set_buf (b_next h) (\<lambda>q. q\<lparr>b_prev := b\<rparr>))
         (set_buf NBUF (\<lambda>h. h\<lparr>b_next := b\<rparr>)))))))"

definition binit :: "(unit, 'z bio_state_scheme) kop" where
  "binit =
     thn (initlock BcacheLock ''bcache'')
    (thn (set_buf NBUF (\<lambda>h. h\<lparr>b_prev := NBUF\<rparr>))
    (thn (set_buf NBUF (\<lambda>h. h\<lparr>b_next := NBUF\<rparr>))
         (for_each [0..<NBUF] binit_body)))"

text \<open>The two searches of \<open>bget\<close>; \<open>NBUF + 1\<close> steps reach the head of the list again.\<close>

primrec bget_cached :: "nat \<Rightarrow> uint \<Rightarrow> uint \<Rightarrow> nat \<Rightarrow> (nat option, 'z bio_state_scheme) kop" where
  "bget_cached 0 dev blockno b = spin"
| "bget_cached (Suc n) dev blockno b =
     (if b = NBUF then ret None else
      bnd (get_buf b) (\<lambda>q.
      if b_dev q = dev \<and> b_blockno q = blockno then ret (Some b)
      else bget_cached n dev blockno (b_next q)))"

primrec bget_unused :: "nat \<Rightarrow> nat \<Rightarrow> (nat option, 'z bio_state_scheme) kop" where
  "bget_unused 0 b = spin"
| "bget_unused (Suc n) b =
     (if b = NBUF then ret None else
      bnd (get_buf b) (\<lambda>q.
      if b_refcnt q = 0 then ret (Some b)
      else bget_unused n (b_prev q)))"

definition bget :: "uint \<Rightarrow> uint \<Rightarrow> (nat, 'z bio_state_scheme) kop" where
  "bget dev blockno =
     thn (acquire BcacheLock)
    (bnd (get_buf NBUF) (\<lambda>h.
     bnd (bget_cached (NBUF + 1) dev blockno (b_next h)) (\<lambda>r.
     case r of
       Some b \<Rightarrow>
         thn (set_buf b (\<lambda>q. q\<lparr>b_refcnt := b_refcnt q + 1\<rparr>))
        (thn (release BcacheLock)
        (thn (acquiresleep (BufSleep b))
             (ret b)))
     | None \<Rightarrow>
         bnd (bget_unused (NBUF + 1) (b_prev h)) (\<lambda>r.
         case r of
           Some b \<Rightarrow>
             thn (set_buf b (\<lambda>q. q\<lparr>b_dev := dev\<rparr>))
            (thn (set_buf b (\<lambda>q. q\<lparr>b_blockno := blockno\<rparr>))
            (thn (set_buf b (\<lambda>q. q\<lparr>b_valid := 0\<rparr>))
            (thn (set_buf b (\<lambda>q. q\<lparr>b_refcnt := 1\<rparr>))
            (thn (release BcacheLock)
            (thn (acquiresleep (BufSleep b))
                 (ret b))))))
         | None \<Rightarrow> panic ''bget: no buffers''))))"

definition bread :: "uint \<Rightarrow> uint \<Rightarrow> (nat, 'z bio_state_scheme) kop" where
  "bread dev blockno =
     bnd (bget dev blockno) (\<lambda>b.
     bnd (get_buf b) (\<lambda>q.
     thn (whenk (b_valid q = 0)
           (thn (disk_rw b False) (set_buf b (\<lambda>q. q\<lparr>b_valid := 1\<rparr>))))
         (ret b)))"

definition bwrite :: "nat \<Rightarrow> (unit, 'z bio_state_scheme) kop" where
  "bwrite b =
     bnd (holdingsleep (BufSleep b)) (\<lambda>h.
     if \<not> h then panic ''bwrite'' else disk_rw b True)"

definition brelse_relink :: "nat \<Rightarrow> (unit, 'z bio_state_scheme) kop" where
  "brelse_relink b =
     bnd (get_buf b) (\<lambda>q.
     thn (set_buf (b_next q) (\<lambda>n. n\<lparr>b_prev := b_prev q\<rparr>))
    (bnd (get_buf b) (\<lambda>q.
     thn (set_buf (b_prev q) (\<lambda>p. p\<lparr>b_next := b_next q\<rparr>))
    (bnd (get_buf NBUF) (\<lambda>h.
     thn (set_buf b (\<lambda>q. q\<lparr>b_next := b_next h\<rparr>))
    (thn (set_buf b (\<lambda>q. q\<lparr>b_prev := NBUF\<rparr>))
    (bnd (get_buf NBUF) (\<lambda>h.
     thn (set_buf (b_next h) (\<lambda>n. n\<lparr>b_prev := b\<rparr>))
         (set_buf NBUF (\<lambda>h. h\<lparr>b_next := b\<rparr>))))))))))"

definition brelse :: "nat \<Rightarrow> (unit, 'z bio_state_scheme) kop" where
  "brelse b =
     bnd (holdingsleep (BufSleep b)) (\<lambda>h.
     if \<not> h then panic ''brelse'' else
     thn (releasesleep (BufSleep b))
    (thn (acquire BcacheLock)
    (thn (set_buf b (\<lambda>q. q\<lparr>b_refcnt := b_refcnt q - 1\<rparr>))
    (bnd (get_buf b) (\<lambda>q.
     thn (whenk (b_refcnt q = 0) (brelse_relink b))
         (release BcacheLock))))))"

definition bpin :: "nat \<Rightarrow> (unit, 'z bio_state_scheme) kop" where
  "bpin b =
     thn (acquire BcacheLock)
    (thn (set_buf b (\<lambda>q. q\<lparr>b_refcnt := b_refcnt q + 1\<rparr>))
         (release BcacheLock))"

definition bunpin :: "nat \<Rightarrow> (unit, 'z bio_state_scheme) kop" where
  "bunpin b =
     thn (acquire BcacheLock)
    (thn (set_buf b (\<lambda>q. q\<lparr>b_refcnt := b_refcnt q - 1\<rparr>))
         (release BcacheLock))"

end
