(* ===== verification/Bcache.thy ===== *)
theory Bcache
  imports Bio
begin

text \<open>
  Correctness of the buffer cache.  \<open>ring\<close> says that the \<open>next\<close> and \<open>prev\<close> fields thread a list of
  all buffers, most recently used first.  \<open>bio_inv\<close> is the invariant of the cache, \<open>view\<close>, \<open>refs\<close>
  and \<open>lockd\<close> the abstract cache; the locale \<open>block_cache\<close> and its interpretation \<open>bc\<close> say that the
  functions of \<open>bio.c\<close> implement it.
\<close>

section \<open>Rings threaded through two pointer fields\<close>

fun path :: "(nat \<Rightarrow> nat) \<Rightarrow> nat \<Rightarrow> nat list \<Rightarrow> nat \<Rightarrow> bool" where
  "path nx a [] c \<longleftrightarrow> nx a = c"
| "path nx a (x # xs) c \<longleftrightarrow> nx a = x \<and> path nx x xs c"

lemma path_append: "path nx a (xs @ y # ys) c \<longleftrightarrow> path nx a xs y \<and> path nx y ys c"
  by (induction xs arbitrary: a) auto

lemma path_frame: "(\<forall>x\<in>insert a (set xs). nx' x = nx x) \<Longrightarrow> path nx' a xs c = path nx a xs c"
  by (induction xs arbitrary: a) auto

lemma path_upd [simp]: "y \<noteq> a \<Longrightarrow> y \<notin> set xs \<Longrightarrow> path (nx(y := v)) a xs c = path nx a xs c"
  by (rule path_frame) auto

lemma path_start: "path nx a xs c \<Longrightarrow> nx a = hd (xs @ [c])"
  by (cases xs) auto

lemma path_at: "path nx a (xs @ b # ys) c \<Longrightarrow> nx b = hd (ys @ [c])"
  by (simp add: path_append path_start)

lemma path_remove:
  assumes "path nx a (xs @ b # ys) c" "distinct (a # xs @ b # ys)"
  shows "path (nx(last (a # xs) := nx b)) a (xs @ ys) c"
  using assms
proof (induction xs arbitrary: a)
  case Nil
  then show ?case by (cases ys) (auto simp del: fun_upd_apply simp: fun_upd_same)
next
  case (Cons x xs)
  define l where "l = last (x # xs)"
  have l: "last (a # x # xs) = l" by (simp add: l_def)
  have "path (nx(l := nx b)) x (xs @ ys) c" unfolding l_def by (rule Cons.IH) (use Cons.prems in auto)
  moreover have "a \<noteq> l" using Cons.prems(2) last_in_set [of "x # xs"] by (auto simp: l_def)
  ultimately show ?case unfolding l using Cons.prems(1)
    by (simp del: fun_upd_apply add: fun_upd_other)
qed

lemma path_insert_front:
  assumes "path nx a zs c" "b \<noteq> a" "b \<notin> set zs" "a \<notin> set zs"
  shows "path (nx(b := nx a, a := b)) a (b # zs) c"
  using assms by (cases zs) (simp_all del: fun_upd_apply add: fun_upd_same fun_upd_other)

lemma path_insert_end:
  assumes "path nx a zs c" "distinct (a # zs)" "b \<noteq> a" "b \<notin> set zs"
  shows "path (nx(last (a # zs) := b, b := c)) a (zs @ [b]) c"
  using assms
proof (induction zs arbitrary: a)
  case Nil
  then show ?case by simp
next
  case (Cons z zs)
  define l where "l = last (z # zs)"
  have l: "last (a # z # zs) = l" by (simp add: l_def)
  have "path (nx(l := b, b := c)) z (zs @ [b]) c"
    unfolding l_def by (rule Cons.IH) (use Cons.prems in auto)
  moreover have "a \<noteq> l" using Cons.prems(2) last_in_set [of "z # zs"] by (auto simp: l_def)
  ultimately show ?case unfolding l using Cons.prems(1,3)
    by (simp del: fun_upd_apply add: fun_upd_other)
qed

definition ring :: "(nat \<Rightarrow> buf) \<Rightarrow> nat list \<Rightarrow> bool" where
  "ring q xs \<longleftrightarrow> path (\<lambda>i. b_next (q i)) NBUF xs NBUF \<and> path (\<lambda>i. b_prev (q i)) NBUF (rev xs) NBUF \<and>
     distinct xs \<and> set xs = {..<NBUF}"

text \<open>Moving a buffer to the front, as the six assignments of \<open>brelse\<close> do it.\<close>

definition to_front :: "(nat \<Rightarrow> buf) \<Rightarrow> nat \<Rightarrow> nat \<Rightarrow> buf" where
  "to_front q b =
     (let q1 = q(b_next (q b) := (q (b_next (q b)))\<lparr>b_prev := b_prev (q b)\<rparr>);
          q2 = q1(b_prev (q1 b) := (q1 (b_prev (q1 b)))\<lparr>b_next := b_next (q1 b)\<rparr>);
          q3 = q2(b := (q2 b)\<lparr>b_next := b_next (q2 NBUF)\<rparr>);
          q4 = q3(b := (q3 b)\<lparr>b_prev := NBUF\<rparr>);
          q5 = q4(b_next (q4 NBUF) := (q4 (b_next (q4 NBUF)))\<lparr>b_prev := b\<rparr>)
      in q5(NBUF := (q5 NBUF)\<lparr>b_next := b\<rparr>))"

lemma brelse_relink_eq [kop_simps]: "brelse_relink b s = Ret () (s\<lparr>bufs := to_front (bufs s) b\<rparr>)"
  by (simp add: brelse_relink_def kop_simps to_front_def Let_def del: fun_upd_apply)

lemma relink_field:
  "b_valid ((q(k := (q k)\<lparr>b_prev := v\<rparr>)) i) = b_valid (q i)"
  "b_disk ((q(k := (q k)\<lparr>b_prev := v\<rparr>)) i) = b_disk (q i)"
  "b_dev ((q(k := (q k)\<lparr>b_prev := v\<rparr>)) i) = b_dev (q i)"
  "b_blockno ((q(k := (q k)\<lparr>b_prev := v\<rparr>)) i) = b_blockno (q i)"
  "b_refcnt ((q(k := (q k)\<lparr>b_prev := v\<rparr>)) i) = b_refcnt (q i)"
  "b_data ((q(k := (q k)\<lparr>b_prev := v\<rparr>)) i) = b_data (q i)"
  "b_valid ((q(k := (q k)\<lparr>b_next := v\<rparr>)) i) = b_valid (q i)"
  "b_disk ((q(k := (q k)\<lparr>b_next := v\<rparr>)) i) = b_disk (q i)"
  "b_dev ((q(k := (q k)\<lparr>b_next := v\<rparr>)) i) = b_dev (q i)"
  "b_blockno ((q(k := (q k)\<lparr>b_next := v\<rparr>)) i) = b_blockno (q i)"
  "b_refcnt ((q(k := (q k)\<lparr>b_next := v\<rparr>)) i) = b_refcnt (q i)"
  "b_data ((q(k := (q k)\<lparr>b_next := v\<rparr>)) i) = b_data (q i)"
  by simp_all

lemma to_front_fields:
  "b_valid (to_front q b i) = b_valid (q i)"
  "b_disk (to_front q b i) = b_disk (q i)"
  "b_dev (to_front q b i) = b_dev (q i)"
  "b_blockno (to_front q b i) = b_blockno (q i)"
  "b_refcnt (to_front q b i) = b_refcnt (q i)"
  "b_data (to_front q b i) = b_data (q i)"
  unfolding to_front_def Let_def by (simp_all only: relink_field)

lemma ring_to_front:
  assumes r: "ring q (xs @ b # ys)"
  shows "ring (to_front q b) (b # xs @ ys)"
proof -
  let ?nx = "\<lambda>i. b_next (q i)" and ?pv = "\<lambda>i. b_prev (q i)"
  define pb where "pb = last (NBUF # xs)"
  define nb where "nb = hd (ys @ [NBUF])"
  define hb where "hb = hd (xs @ ys @ [NBUF])"
  have f: "path ?nx NBUF (xs @ b # ys) NBUF" and g: "path ?pv NBUF (rev ys @ b # rev xs) NBUF"
    and d: "distinct (xs @ b # ys)" and st: "set (xs @ b # ys) = {..<NBUF}"
    using r by (auto simp: ring_def)
  have H: "NBUF \<notin> set (xs @ b # ys)" unfolding st by simp
  have n: "b_next (q b) = nb" using path_at [OF f] by (simp add: nb_def)
  have p: "b_prev (q b) = pb" using path_at [OF g] by (simp add: pb_def hd_append hd_rev)
  have ne: "nb \<noteq> b" "pb \<noteq> b" "NBUF \<noteq> b" "hb \<noteq> b"
    using H d hd_in_set [of ys] last_in_set [of xs] hd_in_set [of "xs @ ys"]
    by (auto simp: nb_def pb_def hb_def hd_append split: if_splits)
  have n': "last (NBUF # rev ys) = nb" by (simp add: nb_def last_rev hd_append)
  have f1: "path (?nx(pb := nb)) NBUF (xs @ ys) NBUF"
    using path_remove [OF f] H d by (simp add: n pb_def)
  have h1: "(?nx(pb := nb)) NBUF = hb" using path_start [OF f1] by (simp add: hb_def)
  have g1: "path (?pv(nb := pb)) NBUF (rev ys @ rev xs) NBUF"
    using path_remove [OF g] H d unfolding n' p by auto
  have f2: "path ((?nx(pb := nb))(b := hb, NBUF := b)) NBUF (b # xs @ ys) NBUF"
    unfolding h1 [symmetric] using H d by (intro path_insert_front f1) auto
  have l: "last (NBUF # rev ys @ rev xs) = hb"
    by (simp add: hb_def last_rev hd_append last_append)
  have g2: "path ((?pv(nb := pb))(hb := b, b := NBUF)) NBUF ((rev ys @ rev xs) @ [b]) NBUF"
    unfolding l [symmetric] using H d by (intro path_insert_end g1) auto
  define q1 where "q1 = q(nb := (q nb)\<lparr>b_prev := pb\<rparr>)"
  define q2 where "q2 = q1(pb := (q1 pb)\<lparr>b_next := nb\<rparr>)"
  have q1b: "q1 b = q b" using ne by (simp add: q1_def)
  have q2: "b_next (q2 i) = (?nx(pb := nb)) i" "b_prev (q2 i) = (?pv(nb := pb)) i" for i
    by (simp_all add: q2_def q1_def)
  have tf: "to_front q b = (let q4 = q2(b := (q2 b)\<lparr>b_next := hb, b_prev := NBUF\<rparr>);
      q5 = q4(hb := (q4 hb)\<lparr>b_prev := b\<rparr>) in q5(NBUF := (q5 NBUF)\<lparr>b_next := b\<rparr>))"
    using ne h1 unfolding to_front_def Let_def n p q1_def [symmetric] q1b q2_def [symmetric]
    by (simp add: q2 del: fun_upd_apply) (simp add: q2)
  have e1: "(\<lambda>i. b_next (to_front q b i)) = (?nx(pb := nb))(b := hb, NBUF := b)"
    using ne by (intro ext) (simp add: tf Let_def q2 del: fun_upd_apply, simp add: q2)
  have e2: "(\<lambda>i. b_prev (to_front q b i)) = (?pv(nb := pb))(hb := b, b := NBUF)"
    using ne by (intro ext) (simp add: tf Let_def q2 del: fun_upd_apply, simp add: q2)
  have r: "rev (b # xs @ ys) = (rev ys @ rev xs) @ [b]" by simp
  have d': "distinct (b # xs @ ys)" "set (b # xs @ ys) = {..<NBUF}" using d st by auto
  show ?thesis unfolding ring_def e1 e2 r using f2 g2 d' by blast
qed

section \<open>Searching the list\<close>

lemma find_append_none: "\<forall>x\<in>set xs. \<not> P x \<Longrightarrow> find P (xs @ ys) = find P ys"
  by (induction xs) auto

lemma find_SomeD: "find P xs = Some x \<Longrightarrow> x \<in> set xs \<and> P x"
  by (induction xs) (auto split: if_splits)

lemma option_eqI: "(\<And>i. x = Some i \<longleftrightarrow> y = Some i) \<Longrightarrow> x = y"
  by (cases x; cases y) auto

lemma bget_cached_find:
  assumes "path (\<lambda>i. b_next (bufs s i)) a xs NBUF" "NBUF \<notin> set xs" "length xs < n"
  shows "bget_cached n dev bno (b_next (bufs s a)) s =
    Ret (find (\<lambda>i. b_dev (bufs s i) = dev \<and> b_blockno (bufs s i) = bno) xs) s"
  using assms
proof (induction xs arbitrary: a n)
  case Nil
  then show ?case by (cases n) (simp_all add: kop_simps)
next
  case (Cons x xs)
  then obtain m where m: "n = Suc m" by (cases n) auto
  show ?case using Cons.prems Cons.IH [of x m] by (auto simp: m kop_simps)
qed

lemma bget_unused_find:
  assumes "path (\<lambda>i. b_prev (bufs s i)) a xs NBUF" "NBUF \<notin> set xs" "length xs < n"
  shows "bget_unused n (b_prev (bufs s a)) s = Ret (find (\<lambda>i. b_refcnt (bufs s i) = 0) xs) s"
  using assms
proof (induction xs arbitrary: a n)
  case Nil
  then show ?case by (cases n) (simp_all add: kop_simps)
next
  case (Cons x xs)
  then obtain m where m: "n = Suc m" by (cases n) auto
  show ?case using Cons.prems Cons.IH [of x m] by (auto simp: m kop_simps)
qed

section \<open>The invariant and the abstract cache\<close>

definition buf_ok :: "'z bio_state_scheme \<Rightarrow> nat \<Rightarrow> bool" where
  "buf_ok s i \<longleftrightarrow> length (b_data (bufs s i)) = BSIZE \<and> b_dev (bufs s i) \<in> {0, ROOTDEV} \<and>
     (b_refcnt (bufs s i) \<noteq> 0 \<longrightarrow> b_dev (bufs s i) = ROOTDEV) \<and>
     (b_refcnt (bufs s i) = 0 \<longrightarrow> sl_free (BufSleep i) s \<and>
       (b_dev (bufs s i) = ROOTDEV \<and> b_valid (bufs s i) \<noteq> 0 \<longrightarrow>
         b_data (bufs s i) = disk s (b_blockno (bufs s i))))"

definition bufs_unique :: "(nat \<Rightarrow> buf) \<Rightarrow> bool" where
  "bufs_unique q \<longleftrightarrow> (\<forall>i<NBUF. \<forall>j<NBUF. b_dev (q i) = ROOTDEV \<longrightarrow> b_dev (q j) = ROOTDEV \<longrightarrow>
     b_blockno (q i) = b_blockno (q j) \<longrightarrow> i = j)"

definition bio_inv :: "'z bio_state_scheme \<Rightarrow> bool" where
  "bio_inv s \<longleftrightarrow> (\<exists>xs. ring (bufs s) xs) \<and> (\<forall>b. length (disk s b) = BSIZE) \<and>
     (\<forall>i<NBUF. buf_ok s i) \<and> bufs_unique (bufs s)"

definition bio_ready :: "'z bio_state_scheme \<Rightarrow> bool" where
  "bio_ready s \<longleftrightarrow> calm s \<and> free_lk BcacheLock s \<and> (\<forall>i. free_lk (SleepLk (BufSleep i)) s)"

definition bio_ok :: "'z bio_state_scheme \<Rightarrow> bool" where
  "bio_ok s \<longleftrightarrow> bio_ready s \<and> bio_inv s"

definition slot :: "'z bio_state_scheme \<Rightarrow> uint \<Rightarrow> nat option" where
  "slot s b = find (\<lambda>i. b_dev (bufs s i) = ROOTDEV \<and> b_blockno (bufs s i) = b) [0..<NBUF]"

definition view :: "'z bio_state_scheme \<Rightarrow> uint \<Rightarrow> uint8 list" where
  "view s b = (case slot s b of
     Some i \<Rightarrow> if b_valid (bufs s i) \<noteq> 0 then b_data (bufs s i) else disk s b
   | None \<Rightarrow> disk s b)"

definition refs :: "'z bio_state_scheme \<Rightarrow> uint \<Rightarrow> nat" where
  "refs s b = (case slot s b of Some i \<Rightarrow> unat (b_refcnt (bufs s i)) | None \<Rightarrow> 0)"

definition lockd :: "'z bio_state_scheme \<Rightarrow> uint \<Rightarrow> bool" where
  "lockd s b = (case slot s b of Some i \<Rightarrow> \<not> sl_free (BufSleep i) s | None \<Rightarrow> False)"

text \<open>The running process holds buffer \<open>i\<close>, which caches block \<open>b\<close>.\<close>

definition hold :: "'z bio_state_scheme \<Rightarrow> nat \<Rightarrow> uint \<Rightarrow> bool" where
  "hold s i b \<longleftrightarrow> slot s b = Some i \<and> b_valid (bufs s i) \<noteq> 0 \<and> sl_mine (BufSleep i) s \<and>
     b_refcnt (bufs s i) \<noteq> 0"

lemma find_some_iff:
  assumes "\<And>x y. x \<in> set xs \<Longrightarrow> y \<in> set xs \<Longrightarrow> P x \<Longrightarrow> P y \<Longrightarrow> x = y"
  shows "find P xs = Some i \<longleftrightarrow> i \<in> set xs \<and> P i"
  using assms by (induction xs) auto

lemma slot_iff:
  assumes "bufs_unique (bufs s)"
  shows "slot s b = Some i \<longleftrightarrow> i < NBUF \<and> b_dev (bufs s i) = ROOTDEV \<and> b_blockno (bufs s i) = b"
proof -
  have "slot s b = Some i \<longleftrightarrow> i \<in> set [0..<NBUF] \<and> (b_dev (bufs s i) = ROOTDEV \<and> b_blockno (bufs s i) = b)"
    unfolding slot_def by (rule find_some_iff) (use assms in \<open>auto simp: bufs_unique_def\<close>)
  then show ?thesis by simp
qed

lemma slot_none: "slot s b = None \<longleftrightarrow> (\<forall>i<NBUF. \<not> (b_dev (bufs s i) = ROOTDEV \<and> b_blockno (bufs s i) = b))"
  by (auto simp: slot_def find_None_iff)

lemma ring_slot:
  assumes "ring (bufs s) xs" "bufs_unique (bufs s)"
  shows "find (\<lambda>i. b_dev (bufs s i) = ROOTDEV \<and> b_blockno (bufs s i) = b) xs = slot s b"
proof -
  let ?P = "\<lambda>i. b_dev (bufs s i) = ROOTDEV \<and> b_blockno (bufs s i) = b"
  have xs: "i \<in> set xs \<longleftrightarrow> i < NBUF" for i using assms(1) by (simp add: ring_def)
  have u: "x = y" if "x \<in> set xs" "y \<in> set xs" "?P x" "?P y" for x y
    using assms(2) [unfolded bufs_unique_def, rule_format, of x y] that by (simp add: xs)
  have "find ?P xs = Some i \<longleftrightarrow> slot s b = Some i" for i
    unfolding slot_iff [OF assms(2)] xs [symmetric] by (rule find_some_iff) (rule u)
  then show ?thesis by (rule option_eqI)
qed

text \<open>Fields outside the cache that its operations keep.\<close>

definition same_procs :: "'z proc_state_scheme \<Rightarrow> 'z proc_state_scheme \<Rightarrow> bool" where
  "same_procs s t \<longleftrightarrow> (\<forall>p. procs t p = (procs s p)\<lparr>p_state := p_state (procs t p)\<rparr>)"

definition bframe :: "'z bio_state_scheme \<Rightarrow> 'z bio_state_scheme \<Rightarrow> bool" where
  "bframe s t \<longleftrightarrow> tch t = (tch s)\<lparr>procs := procs t, sleeps := sleeps t, bufs := bufs t, disk := disk t,
     dtrace := dtrace t\<rparr> \<and> same_procs s t \<and> (\<forall>k. sleeps t (InodeSleep k) = sleeps s (InodeSleep k))"

lemma same_procs_refl [simp]: "same_procs s s"
  by (simp add: same_procs_def)

lemma same_procs_trans: "same_procs s t \<Longrightarrow> same_procs t u \<Longrightarrow> same_procs s u"
  unfolding same_procs_def by (metis (no_types, lifting) proc.surjective proc.update_convs(1))

lemma bframe_refl [simp, intro]: "bframe s s"
proof -
  have "(tch s)\<lparr>procs := procs (tch s), sleeps := sleeps (tch s), bufs := bufs (tch s), disk := disk (tch s),
     dtrace := dtrace (tch s)\<rparr> = tch s" by simp
  then show ?thesis by (simp add: bframe_def state_simps)
qed

lemma bframe_trans [trans]: "bframe s t \<Longrightarrow> bframe t u \<Longrightarrow> bframe s u"
  using same_procs_trans [of s t u] by (simp add: bframe_def upd_order)

lemma bframe_state:
  assumes "bframe s t"
  shows "free_lk lk t = free_lk lk s" "held_lk lk t = held_lk lk s" "irq_ok t = irq_ok s"
    "in_cs t = in_cs s" "cpuid t = cpuid s" "intr_get t = intr_get s"
    "cproc (mycpu t) = cproc (mycpu s)" "noff (mycpu t) = noff (mycpu s)" "mem t = mem s"
    "p_pid (procs t p) = p_pid (procs s p)" "cur_pid t = cur_pid s" "procs_free t = procs_free s"
    "calm t = calm s" "bio_ready t = bio_ready s"
proof -
  note e = assms [unfolded bframe_def, THEN conjunct1]
  show f: "free_lk lk t = free_lk lk s" for lk using arg_cong [OF e, of "free_lk lk"] by (simp add: state_simps)
  show "held_lk lk t = held_lk lk s" using arg_cong [OF e, of "held_lk lk"] by (simp add: state_simps)
  show i: "irq_ok t = irq_ok s" using arg_cong [OF e, of irq_ok] by (simp add: state_simps)
  show "in_cs t = in_cs s" using arg_cong [OF e, of in_cs] by (simp add: state_simps)
  show "cpuid t = cpuid s" using arg_cong [OF e, of cpuid] by (simp add: state_simps)
  show "intr_get t = intr_get s" using arg_cong [OF e, of intr_get] by (simp add: state_simps)
  show c: "cproc (mycpu t) = cproc (mycpu s)"
    using arg_cong [OF e, of "\<lambda>x. cproc (mycpu x)"] by (simp add: state_simps)
  show "noff (mycpu t) = noff (mycpu s)"
    using arg_cong [OF e, of "\<lambda>x. noff (mycpu x)"] by (simp add: state_simps)
  show "mem t = mem s" using arg_cong [OF e, of mem] by (simp add: state_simps)
  have "procs t p = (procs s p)\<lparr>p_state := p_state (procs t p)\<rparr>" for p
    using assms by (simp add: bframe_def same_procs_def)
  from arg_cong [OF this, of p_pid]
  show p: "p_pid (procs t p) = p_pid (procs s p)" for p by simp
  show "cur_pid t = cur_pid s" by (simp add: cur_pid_def c p)
  show pf: "procs_free t = procs_free s" by (simp add: procs_free_def f)
  show "calm t = calm s" by (simp add: calm_def i pf c)
  then show "bio_ready t = bio_ready s" by (simp add: bio_ready_def f)
qed

lemma bio_fields_state [state_simps]:
  "cur_pid (bufs_update f_bufs s) = cur_pid s"
  "calm (bufs_update f_bufs s) = calm s"
  "procs_free (bufs_update f_bufs s) = procs_free s"
  "sl_free k (bufs_update f_bufs s) = sl_free k s"
  "sl_mine k (bufs_update f_bufs s) = sl_mine k s"
  "cur_pid (disk_update f_disk s) = cur_pid s"
  "calm (disk_update f_disk s) = calm s"
  "procs_free (disk_update f_disk s) = procs_free s"
  "sl_free k (disk_update f_disk s) = sl_free k s"
  "sl_mine k (disk_update f_disk s) = sl_mine k s"
  "cur_pid (dtrace_update f_dtrace s) = cur_pid s"
  "calm (dtrace_update f_dtrace s) = calm s"
  "procs_free (dtrace_update f_dtrace s) = procs_free s"
  "sl_free k (dtrace_update f_dtrace s) = sl_free k s"
  "sl_mine k (dtrace_update f_dtrace s) = sl_mine k s"
  by (simp_all add: cur_pid_def calm_def procs_free_def sl_free_def sl_mine_def state_simps)

lemma sl_state [state_simps]:
  "sl_free k (tch s) = sl_free k s" "sl_free k (acq lk s) = sl_free k s" "sl_free k (rel lk s) = sl_free k s"
  "sl_mine k (tch s) = sl_mine k s" "sl_mine k (acq lk s) = sl_mine k s" "sl_mine k (rel lk s) = sl_mine k s"
  by (simp_all add: sl_free_def sl_mine_def state_simps)

section \<open>Execution of the operations\<close>

definition locked_by :: "'z sleep_state_scheme \<Rightarrow> nat \<Rightarrow> sleepid \<Rightarrow> sleeplock" where
  "locked_by s i = (sleeps s)(BufSleep i := (sleeps s (BufSleep i))\<lparr>sl_locked := 1, sl_pid := cur_pid s\<rparr>)"

lemma bget_search:
  assumes "bio_ok s"
  shows "bget_cached (NBUF + 1) ROOTDEV b (b_next (bufs s NBUF)) (acq BcacheLock s) =
      Ret (slot s b) (acq BcacheLock s)"
    "ring (bufs s) xs \<Longrightarrow> bget_unused (NBUF + 1) (b_prev (bufs s NBUF)) (acq BcacheLock s) =
      Ret (find (\<lambda>i. b_refcnt (bufs s i) = 0) (rev xs)) (acq BcacheLock s)"
proof -
  obtain xs where r: "ring (bufs s) xs" and u: "bufs_unique (bufs s)"
    using assms by (auto simp: bio_ok_def bio_inv_def)
  have x: "NBUF \<notin> set xs" "length xs = NBUF"
    using r distinct_card [of xs] by (simp_all add: ring_def)
  have p: "path (\<lambda>i. b_next (bufs (acq BcacheLock s) i)) NBUF xs NBUF"
    using r by (simp_all add: ring_def state_simps)
  show "bget_cached (NBUF + 1) ROOTDEV b (b_next (bufs s NBUF)) (acq BcacheLock s) =
      Ret (slot s b) (acq BcacheLock s)"
    using bget_cached_find [OF p x(1), of "NBUF + 1" ROOTDEV b] x(2) ring_slot [OF r u]
    by (simp add: state_simps)
next
  assume r: "ring (bufs s) xs"
  have x: "NBUF \<notin> set (rev xs)" "length (rev xs) = NBUF"
    using r distinct_card [of xs] by (simp_all add: ring_def)
  have p: "path (\<lambda>i. b_prev (bufs (acq BcacheLock s) i)) NBUF (rev xs) NBUF"
    using r by (simp_all add: ring_def state_simps)
  show "bget_unused (NBUF + 1) (b_prev (bufs s NBUF)) (acq BcacheLock s) =
      Ret (find (\<lambda>i. b_refcnt (bufs s i) = 0) (rev xs)) (acq BcacheLock s)"
    using bget_unused_find [OF p x(1), of "NBUF + 1"] x(2) by (simp add: state_simps)
qed

lemma bget_tail:
  assumes "bio_ready s" "sl_free (BufSleep i) s"
  shows "thn (release BcacheLock) (thn (acquiresleep (BufSleep i)) (ret i)) ((acq BcacheLock s)\<lparr>bufs := q\<rparr>) =
    Ret i ((tch s)\<lparr>sleeps := locked_by s i, bufs := q\<rparr>)"
proof -
  have r: "irq_ok s" "calm s" "free_lk BcacheLock s" "free_lk (SleepLk (BufSleep i)) s"
    using assms(1) by (auto simp: bio_ready_def calm_def)
  have c: "calm ((tch s)\<lparr>bufs := q\<rparr>)" "free_lk (SleepLk (BufSleep i)) ((tch s)\<lparr>bufs := q\<rparr>)"
    "sl_free (BufSleep i) ((tch s)\<lparr>bufs := q\<rparr>)" using r assms(2) by (simp_all add: state_simps)
  show ?thesis using r
    by (simp add: kop_simps state_simps acquiresleep_eq [OF c] locked_by_def upd_order)
qed

lemma bget_hit:
  assumes ok: "bio_ok s" and i: "slot s b = Some i" and fr: "sl_free (BufSleep i) s"
  shows "bget ROOTDEV b s = Ret i ((tch s)\<lparr>sleeps := locked_by s i,
    bufs := (bufs s)(i := (bufs s i)\<lparr>b_refcnt := b_refcnt (bufs s i) + 1\<rparr>)\<rparr>)"
proof -
  have r: "bio_ready s" "free_lk BcacheLock s" using ok by (auto simp: bio_ok_def bio_ready_def)
  show ?thesis using r(2) bget_search(1) [OF ok, of b] i bget_tail [OF r(1) fr]
    by (simp add: bget_def kop_simps state_simps del: bget_cached.simps bget_unused.simps)
qed

definition recycled :: "'z bio_state_scheme \<Rightarrow> nat \<Rightarrow> uint \<Rightarrow> buf" where
  "recycled s i b = (bufs s i)\<lparr>b_dev := ROOTDEV, b_blockno := b, b_valid := 0, b_refcnt := 1\<rparr>"

lemma bget_miss_at:
  assumes ok: "bio_ok s" and r: "ring (bufs s) xs" and n: "slot s b = None"
    and i: "find (\<lambda>i. b_refcnt (bufs s i) = 0) (rev xs) = Some i"
  shows "bget ROOTDEV b s = Ret i ((tch s)\<lparr>sleeps := locked_by s i, bufs := (bufs s)(i := recycled s i b)\<rparr>)"
proof -
  have l: "bio_ready s" "free_lk BcacheLock s" using ok by (auto simp: bio_ok_def bio_ready_def)
  have "i \<in> set (rev xs)" "b_refcnt (bufs s i) = 0" using find_SomeD [OF i] by simp_all
  then have fr: "sl_free (BufSleep i) s" using ok r by (auto simp: bio_ok_def bio_inv_def buf_ok_def ring_def)
  show ?thesis
    using l(2) bget_search(1) [OF ok, of b] n bget_search(2) [OF ok r] i bget_tail [OF l(1) fr]
    by (simp add: bget_def kop_simps state_simps recycled_def del: bget_cached.simps bget_unused.simps)
qed

lemma bget_miss:
  assumes ok: "bio_ok s" and n: "slot s b = None" and room: "\<exists>i<NBUF. b_refcnt (bufs s i) = 0"
  shows "\<exists>i<NBUF. b_refcnt (bufs s i) = 0 \<and> bget ROOTDEV b s = Ret i ((tch s)\<lparr>sleeps := locked_by s i,
    bufs := (bufs s)(i := recycled s i b)\<rparr>)"
proof -
  obtain xs where r: "ring (bufs s) xs" using ok by (auto simp: bio_ok_def bio_inv_def)
  then have xs: "set (rev xs) = {..<NBUF}" by (simp add: ring_def)
  obtain i where i: "find (\<lambda>i. b_refcnt (bufs s i) = 0) (rev xs) = Some i"
    using room xs by (cases "find (\<lambda>i. b_refcnt (bufs s i) = 0) (rev xs)") (auto simp: find_None_iff)
  then have "i \<in> set (rev xs)" "b_refcnt (bufs s i) = 0" using find_SomeD [OF i] by simp_all
  then show ?thesis using bget_miss_at [OF ok r n i] xs by blast
qed

lemma bget_full:
  assumes ok: "bio_ok s" and n: "slot s b = None" and full: "\<forall>i<NBUF. b_refcnt (bufs s i) \<noteq> 0"
  shows "bget ROOTDEV b s = Panic ''bget: no buffers''"
proof -
  have l: "free_lk BcacheLock s" using ok by (auto simp: bio_ok_def bio_ready_def)
  obtain xs where r: "ring (bufs s) xs" using ok by (auto simp: bio_ok_def bio_inv_def)
  then have "find (\<lambda>i. b_refcnt (bufs s i) = 0) (rev xs) = None" using full by (simp add: find_None_iff ring_def)
  then show ?thesis using l bget_search(1) [OF ok, of b] n bget_search(2) [OF ok r]
    by (simp add: bget_def kop_simps state_simps del: bget_cached.simps bget_unused.simps)
qed

text \<open>The state after \<open>bread\<close>: buffer \<open>i\<close>, locked, holds block \<open>b\<close>.\<close>

definition got :: "'z bio_state_scheme \<Rightarrow> nat \<Rightarrow> uint \<Rightarrow> buf \<Rightarrow> bool" where
  "got s i b q \<longleftrightarrow> i < NBUF \<and> sl_free (BufSleep i) s \<and>
     (slot s b = Some i \<or> slot s b = None \<and> b_refcnt (bufs s i) = 0) \<and>
     b_dev q = ROOTDEV \<and> b_blockno q = b \<and> b_valid q \<noteq> 0 \<and> b_data q = view s b \<and>
     unat (b_refcnt q) = refs s b + 1 \<and> b_next q = b_next (bufs s i) \<and> b_prev q = b_prev (bufs s i)"

lemma used_room:
  assumes ok: "bio_ok s" and c: "card {c. refs s c \<noteq> 0} < NBUF"
  shows "\<exists>i<NBUF. b_refcnt (bufs s i) = 0"
proof (rule ccontr)
  assume "\<not> ?thesis"
  then have nz: "b_refcnt (bufs s i) \<noteq> 0" if "i < NBUF" for i using that by blast
  have d: "b_dev (bufs s i) = ROOTDEV" if "i < NBUF" for i
    using ok nz that by (auto simp: bio_ok_def bio_inv_def buf_ok_def)
  have u: "bufs_unique (bufs s)" using ok by (simp add: bio_ok_def bio_inv_def)
  have "inj_on (\<lambda>i. b_blockno (bufs s i)) {..<NBUF}"
    using u d unfolding bufs_unique_def inj_on_def by blast
  then have "card ((\<lambda>i. b_blockno (bufs s i)) ` {..<NBUF}) = NBUF" by (simp add: card_image)
  moreover have "(\<lambda>i. b_blockno (bufs s i)) ` {..<NBUF} \<subseteq> {c. refs s c \<noteq> 0}"
  proof
    fix c assume "c \<in> (\<lambda>i. b_blockno (bufs s i)) ` {..<NBUF}"
    then obtain i where i: "i < NBUF" "c = b_blockno (bufs s i)" by auto
    then have "slot s c = Some i" using d by (simp add: slot_iff [OF u])
    then show "c \<in> {c. refs s c \<noteq> 0}" using nz [OF i(1)] by (simp add: refs_def unat_gt_0)
  qed
  then have "card ((\<lambda>i. b_blockno (bufs s i)) ` {..<NBUF}) \<le> card {c. refs s c \<noteq> 0}"
    by (intro card_mono) auto
  ultimately show False using c by simp
qed

lemma bread_exec:
  assumes ok: "bio_ok s" and nl: "\<not> lockd s b" and ov: "refs s b < 2 ^ 32 - 1"
    and room: "refs s b \<noteq> 0 \<or> card {c. refs s c \<noteq> 0} < NBUF"
  shows "\<exists>i q. got s i b q \<and>
    bread ROOTDEV b s = Ret i ((tch s)\<lparr>sleeps := locked_by s i, bufs := (bufs s)(i := q)\<rparr>)"
proof (cases "slot s b")
  case (Some i)
  have u: "bufs_unique (bufs s)" using ok by (simp add: bio_ok_def bio_inv_def)
  have i: "i < NBUF" "b_dev (bufs s i) = ROOTDEV" "b_blockno (bufs s i) = b"
    using Some by (simp_all add: slot_iff [OF u])
  have fr: "sl_free (BufSleep i) s" using nl Some by (simp add: lockd_def)
  define q where "q = (bufs s i)\<lparr>b_refcnt := b_refcnt (bufs s i) + 1, b_data := view s b,
    b_valid := (if b_valid (bufs s i) = 0 then 1 else b_valid (bufs s i))\<rparr>"
  have "unat (b_refcnt (bufs s i) + 1) = refs s b + 1"
    using ov Some by (simp add: refs_def unat_word_ariths)
  then have "got s i b q" using i fr Some by (simp add: got_def q_def)
  moreover have "bread ROOTDEV b s = Ret i ((tch s)\<lparr>sleeps := locked_by s i, bufs := (bufs s)(i := q)\<rparr>)"
    using bget_hit [OF ok Some fr] i Some
    by (simp add: bread_def disk_rw_def kop_simps state_simps q_def view_def)
  ultimately show ?thesis by blast
next
  case None
  have r0: "refs s b = 0" using None by (simp add: refs_def)
  then obtain i where i: "i < NBUF" "b_refcnt (bufs s i) = 0" "bget ROOTDEV b s =
      Ret i ((tch s)\<lparr>sleeps := locked_by s i, bufs := (bufs s)(i := recycled s i b)\<rparr>)"
    using bget_miss [OF ok None used_room [OF ok]] room by auto
  define q where "q = (recycled s i b)\<lparr>b_data := disk s b, b_valid := 1\<rparr>"
  have fr: "sl_free (BufSleep i) s" using ok i by (auto simp: bio_ok_def bio_inv_def buf_ok_def)
  have "got s i b q" using i fr None r0 by (simp add: got_def q_def recycled_def view_def)
  moreover have "bread ROOTDEV b s = Ret i ((tch s)\<lparr>sleeps := locked_by s i, bufs := (bufs s)(i := q)\<rparr>)"
    using i(3) by (simp add: bread_def disk_rw_def kop_simps state_simps q_def recycled_def)
  ultimately show ?thesis by blast
qed

lemma ring_cong:
  assumes "\<And>i. b_next (q' i) = b_next (q i)" "\<And>i. b_prev (q' i) = b_prev (q i)"
  shows "ring q' xs = ring q xs"
  using assms by (simp add: ring_def)

lemma view_length: "bio_inv s \<Longrightarrow> length (view s b) = BSIZE"
  by (auto simp: view_def bio_inv_def buf_ok_def slot_iff split: option.splits)

lemma bio_ok_unique: "bio_ok s \<Longrightarrow> bufs_unique (bufs s)"
  by (simp add: bio_ok_def bio_inv_def)

lemma got_only:
  assumes "bio_ok s" "got s i b q" "j < NBUF" "b_dev (bufs s j) = ROOTDEV" "b_blockno (bufs s j) = b"
  shows "j = i"
proof -
  have "slot s b = Some j" unfolding slot_iff [OF bio_ok_unique [OF assms(1)]] using assms(3-5) by blast
  moreover have "slot s b = Some i \<or> slot s b = None" using assms(2) by (simp add: got_def) meson
  ultimately show ?thesis by auto
qed

lemma got_unique:
  assumes "bio_ok s" "got s i b q"
  shows "bufs_unique ((bufs s)(i := q))"
  unfolding bufs_unique_def
proof (intro allI impI)
  note u = bio_ok_unique [OF assms(1), unfolded bufs_unique_def, rule_format]
  note o = got_only [OF assms]
  have i: "b_blockno q = b" using assms(2) by (simp add: got_def)
  let ?q = "(bufs s)(i := q)"
  fix j k assume a: "j < NBUF" "k < NBUF" "b_dev (?q j) = ROOTDEV" "b_dev (?q k) = ROOTDEV"
    "b_blockno (?q j) = b_blockno (?q k)"
  consider "j = i" "k = i" | "j = i" "k \<noteq> i" | "j \<noteq> i" "k = i" | "j \<noteq> i" "k \<noteq> i" by blast
  then show "j = k"
  proof cases
    case 2
    then have "b_blockno (bufs s k) = b" "b_dev (bufs s k) = ROOTDEV" using a(4,5) i by simp_all
    then show ?thesis using o [OF a(2)] 2 by blast
  next
    case 3
    then have "b_blockno (bufs s j) = b" "b_dev (bufs s j) = ROOTDEV" using a(3,5) i by simp_all
    then show ?thesis using o [OF a(1)] 3 by blast
  next
    case 4
    then show ?thesis using a u [OF a(1,2)] by simp
  qed simp
qed

lemma got_slot:
  assumes "bio_ok s" "got s i b q" "t = (tch s)\<lparr>sleeps := l, bufs := (bufs s)(i := q)\<rparr>"
  shows "slot t c = (if c = b then Some i else if slot s c = Some i then None else slot s c)"
proof (rule option_eqI)
  fix j
  note u = bio_ok_unique [OF assms(1)]
  have ut: "bufs_unique (bufs t)" using got_unique [OF assms(1,2)] by (simp add: assms(3))
  have i: "i < NBUF" "b_dev q = ROOTDEV" "b_blockno q = b" using assms(2) by (simp_all add: got_def)
  note o = got_only [OF assms(1,2)]
  have tj: "bufs t j = (if j = i then q else bufs s j)" by (simp add: assms(3))
  show "slot t c = Some j \<longleftrightarrow> (if c = b then Some i else if slot s c = Some i then None else slot s c) = Some j"
  proof (cases "j = i")
    case True
    then show ?thesis unfolding slot_iff [OF ut] tj using i by auto
  next
    case False
    then have "\<not> (j < NBUF \<and> b_dev (bufs s j) = ROOTDEV \<and> b_blockno (bufs s j) = b)" using o by blast
    then show ?thesis unfolding slot_iff [OF ut] tj 
      using False u [unfolded bufs_unique_def, rule_format, of j i] by (auto simp: slot_iff [OF u])
  qed
qed

lemma got_laws:
  assumes ok: "bio_ok s" and g: "got s i b q"
    and t: "t = (tch s)\<lparr>sleeps := locked_by s i, bufs := (bufs s)(i := q)\<rparr>"
  shows "bio_ok t" "bframe s t" "hold t i b" "view t = view s" "refs t = (refs s)(b := refs s b + 1)"
    "lockd t = (lockd s)(b := True)" "disk t = disk s" "dtrace t = dtrace s"
    "\<forall>j c. hold s j c \<longrightarrow> hold t j c"
proof -
  note u = bio_ok_unique [OF ok] and sl = got_slot [OF ok g t]
  have inv: "bio_inv s" "bio_ready s" using ok by (simp_all add: bio_ok_def)
  have old: "b_refcnt (bufs s i) = 0" "view s c = disk s c"
    if "slot s c = Some i" "c \<noteq> b" for c
  proof -
    have "slot s b \<noteq> Some i" using that by (auto simp: slot_iff [OF u])
    then show z: "b_refcnt (bufs s i) = 0" using g by (auto simp: got_def)
    have "i < NBUF" "b_dev (bufs s i) = ROOTDEV" "b_blockno (bufs s i) = c"
      using that(1) by (simp_all add: slot_iff [OF u])
    then show "view s c = disk s c" using that(1) z inv(1) by (auto simp: view_def bio_inv_def buf_ok_def)
  qed
  have bt: "bufs t j = (if j = i then q else bufs s j)" "disk t = disk s" "dtrace t = dtrace s" for j
    by (simp_all add: t state_simps)
  have slt: "sl_free (BufSleep j) t = (j \<noteq> i \<and> sl_free (BufSleep j) s)" for j
    by (simp add: t sl_free_def locked_by_def)
  have cp: "cur_pid t = cur_pid s" by (simp add: t state_simps)
  have ml: "sl_mine (BufSleep j) t = (if j = i then True else sl_mine (BufSleep j) s)" for j
    by (simp add: sl_mine_def cp) (simp add: t locked_by_def)
  show fr: "bframe s t" using bframe_refl [of s]
    by (simp add: bframe_def t state_simps upd_order same_procs_def locked_by_def)
  have "buf_ok t j" if "j < NBUF" for j
  proof (cases "j = i")
    case True
    have "b_refcnt q \<noteq> 0" using g by (auto simp: got_def unat_eq_0 [symmetric])
    then show ?thesis using g view_length [OF inv(1)] by (simp add: buf_ok_def bt True got_def)
  next
    case False
    then show ?thesis using inv(1) that by (simp add: bio_inv_def buf_ok_def bt slt)
  qed
  moreover have "ring (bufs t) xs = ring (bufs s) xs" for xs
    using g by (intro ring_cong) (auto simp: bt got_def)
  ultimately have "bio_inv t" using inv(1) got_unique [OF ok g] by (simp add: bio_inv_def bt(2)) (simp add: t)
  then show "bio_ok t" using inv(2) bframe_state(14) [OF fr] by (simp add: bio_ok_def)
  show "hold t i b" using g by (auto simp: hold_def sl bt ml got_def unat_eq_0 [symmetric])
  show "view t = view s"
  proof
    fix c
    show "view t c = view s c"
      using g old [of c] by (cases "slot s c") (auto simp: view_def sl bt got_def)
  qed
  show "refs t = (refs s)(b := refs s b + 1)"
  proof
    fix c
    show "refs t c = ((refs s)(b := refs s b + 1)) c"
      using g old [of c] by (cases "slot s c") (auto simp: refs_def sl bt got_def)
  qed
  show "lockd t = (lockd s)(b := True)"
  proof
    fix c
    show "lockd t c = ((lockd s)(b := True)) c"
      using g by (cases "slot s c") (auto simp: lockd_def sl slt got_def)
  qed
  show "disk t = disk s" "dtrace t = dtrace s" by (simp_all add: bt)
  show "\<forall>j c. hold s j c \<longrightarrow> hold t j c"
  proof (intro allI impI)
    fix j c assume h: "hold s j c"
    then have "j \<noteq> i" using g by (auto simp: hold_def sl_mine_def got_def sl_free_def)
    moreover have "c \<noteq> b" using h g \<open>j \<noteq> i\<close> by (auto simp: hold_def got_def)
    ultimately show "hold t j c" using h by (simp add: hold_def sl bt ml)
  qed
qed

text \<open>
  The other operations work on one buffer \<open>i\<close> whose identity, block \<open>b\<close>, they keep: \<open>buf_step\<close> says
  which fields may change, and \<open>buf_step_laws\<close> what that means for the abstract cache.
\<close>

definition same_id :: "buf \<Rightarrow> buf \<Rightarrow> bool" where
  "same_id q q' \<longleftrightarrow> b_dev q' = b_dev q \<and> b_blockno q' = b_blockno q \<and> b_valid q' = b_valid q"

definition same_data :: "buf \<Rightarrow> buf \<Rightarrow> bool" where
  "same_data q q' \<longleftrightarrow> b_data q' = b_data q \<and> b_refcnt q' = b_refcnt q"

definition buf_step :: "'z bio_state_scheme \<Rightarrow> nat \<Rightarrow> uint \<Rightarrow> 'z bio_state_scheme \<Rightarrow> bool" where
  "buf_step s i b t \<longleftrightarrow> slot s b = Some i \<and> b_valid (bufs s i) \<noteq> 0 \<and> bframe s t \<and> buf_ok t i \<and>
     (\<exists>xs. ring (bufs t) xs) \<and> (\<forall>k. same_id (bufs s k) (bufs t k)) \<and>
     (\<forall>k. k \<noteq> i \<longrightarrow> same_data (bufs s k) (bufs t k)) \<and>
     (\<forall>k. k \<noteq> i \<longrightarrow> sleeps t (BufSleep k) = sleeps s (BufSleep k)) \<and>
     (\<forall>c. c \<noteq> b \<longrightarrow> disk t c = disk s c) \<and> length (disk t b) = BSIZE"

lemma buf_step_laws:
  assumes ok: "bio_ok s" and st: "buf_step s i b t"
  shows "bio_ok t" "bframe s t" "slot t = slot s" "view t = (view s)(b := b_data (bufs t i))"
    "refs t = (refs s)(b := unat (b_refcnt (bufs t i)))"
    "lockd t = (lockd s)(b := \<not> sl_free (BufSleep i) t)"
    "\<forall>j c. j \<noteq> i \<longrightarrow> hold s j c \<longrightarrow> hold t j c"
proof -
  note u = bio_ok_unique [OF ok]
  have b: "slot s b = Some i" "b_valid (bufs s i) \<noteq> 0" "buf_ok t i"
    and id: "\<And>k. same_id (bufs s k) (bufs t k)" and dt: "\<And>k. k \<noteq> i \<Longrightarrow> same_data (bufs s k) (bufs t k)"
    and sl: "\<And>k. k \<noteq> i \<Longrightarrow> sleeps t (BufSleep k) = sleeps s (BufSleep k)"
    and dk: "\<And>c. c \<noteq> b \<Longrightarrow> disk t c = disk s c"
    using st unfolding buf_step_def by simp_all
  show fr: "bframe s t" using st unfolding buf_step_def by simp
  have i: "i < NBUF" "b_dev (bufs s i) = ROOTDEV" "b_blockno (bufs s i) = b"
    using b(1) by (simp_all add: slot_iff [OF u])
  have ut: "bufs_unique (bufs t)" using u id by (simp add: bufs_unique_def same_id_def)
  show s: "slot t = slot s" using id by (simp add: slot_def [abs_def] same_id_def)
  have sf: "sl_free (BufSleep k) t = sl_free (BufSleep k) s" if "k \<noteq> i" for k
    using sl [OF that] by (simp add: sl_free_def)
  have ne: "b_blockno (bufs s k) \<noteq> b" if "k \<noteq> i" "k < NBUF" "b_dev (bufs s k) = ROOTDEV" for k
    using u [unfolded bufs_unique_def, rule_format, of k i] i that by auto
  have "buf_ok t k" if "k < NBUF" for k
  proof (cases "k = i")
    case True
    then show ?thesis using b(3) by simp
  next
    case False
    have "buf_ok s k" using ok that by (simp add: bio_ok_def bio_inv_def)
    then show ?thesis using id [of k] dt [OF False] sf [OF False] dk [of "b_blockno (bufs s k)"] ne [OF False that]
      by (auto simp: buf_ok_def same_id_def same_data_def)
  qed
  moreover have "length (disk t c) = BSIZE" for c
    using st ok dk [of c] by (cases "c = b") (auto simp: buf_step_def bio_ok_def bio_inv_def)
  ultimately have "bio_inv t" using st ut by (simp add: bio_inv_def buf_step_def)
  then show "bio_ok t" using ok bframe_state(14) [OF fr] by (simp add: bio_ok_def)
  have oth: "k \<noteq> i" if "slot s c = Some k" "c \<noteq> b" for c k
    using that b(1) by (auto simp: slot_iff [OF u])
  show "view t = (view s)(b := b_data (bufs t i))"
  proof
    fix c
    show "view t c = ((view s)(b := b_data (bufs t i))) c"
      using b id [of i] oth [of c] id dt dk [of c]
      by (cases "slot s c") (auto simp: view_def s same_id_def same_data_def)
  qed
  show "refs t = (refs s)(b := unat (b_refcnt (bufs t i)))"
  proof
    fix c
    show "refs t c = ((refs s)(b := unat (b_refcnt (bufs t i)))) c"
      using b oth [of c] dt by (cases "slot s c") (auto simp: refs_def s same_data_def)
  qed
  show "lockd t = (lockd s)(b := \<not> sl_free (BufSleep i) t)"
  proof
    fix c
    show "lockd t c = ((lockd s)(b := \<not> sl_free (BufSleep i) t)) c"
      using b oth [of c] sf by (cases "slot s c") (auto simp: lockd_def s)
  qed
  show "\<forall>j c. j \<noteq> i \<longrightarrow> hold s j c \<longrightarrow> hold t j c"
    using id dt sl bframe_state(11) [OF fr]
    by (auto simp: hold_def s same_id_def same_data_def sl_mine_def)
qed

lemma bframe_upd:
  assumes "\<forall>k. l (InodeSleep k) = sleeps s (InodeSleep k)"
  shows "bframe s ((tch s)\<lparr>procs := procs s, sleeps := l, bufs := q, disk := d, dtrace := e\<rparr>)"
    "bframe s ((tch s)\<lparr>procs := wake_all ch s, sleeps := l, bufs := q, disk := d, dtrace := e\<rparr>)"
  using assms by (simp_all add: bframe_def state_simps upd_order same_procs_def wake_all_def woken_def)

lemma hold_facts:
  assumes "bio_ok s" "hold s i b"
  shows "slot s b = Some i" "i < NBUF" "b_dev (bufs s i) = ROOTDEV" "b_blockno (bufs s i) = b"
    "b_valid (bufs s i) \<noteq> 0" "b_refcnt (bufs s i) \<noteq> 0" "sl_mine (BufSleep i) s" "view s b = b_data (bufs s i)"
    "refs s b = unat (b_refcnt (bufs s i))" "lockd s b" "length (b_data (bufs s i)) = BSIZE" "bio_ready s"
proof -
  show h: "slot s b = Some i" "b_valid (bufs s i) \<noteq> 0" "b_refcnt (bufs s i) \<noteq> 0" "sl_mine (BufSleep i) s"
    using assms(2) by (simp_all add: hold_def)
  show i: "i < NBUF" "b_dev (bufs s i) = ROOTDEV" "b_blockno (bufs s i) = b"
    using h(1) by (simp_all add: slot_iff [OF bio_ok_unique [OF assms(1)]])
  show "view s b = b_data (bufs s i)" "refs s b = unat (b_refcnt (bufs s i))" "lockd s b"
    using h by (auto simp: view_def refs_def lockd_def sl_mine_def sl_free_def)
  show "length (b_data (bufs s i)) = BSIZE" "bio_ready s"
    using assms(1) i(1) by (simp_all add: bio_ok_def bio_inv_def buf_ok_def)
qed

lemma ring_ex: "bio_ok s \<Longrightarrow> \<exists>xs. ring (bufs s) xs"
  by (simp add: bio_ok_def bio_inv_def)

lemma ring_upd_ex:
  assumes "bio_ok s" "b_next q = b_next (bufs s i)" "b_prev q = b_prev (bufs s i)"
  shows "\<exists>xs. ring ((bufs s)(i := q)) xs"
proof -
  have "ring ((bufs s)(i := q)) xs = ring (bufs s) xs" for xs
    using assms(2,3) by (intro ring_cong) simp_all
  then show ?thesis using ring_ex [OF assms(1)] by simp
qed

lemma set_data_law:
  assumes ok: "bio_ok s" and h: "hold s i b" and l: "length d = BSIZE"
  defines "t \<equiv> s\<lparr>bufs := (bufs s)(i := (bufs s i)\<lparr>b_data := d\<rparr>)\<rparr>"
  shows "bio_ok t" "bframe s t" "view t = (view s)(b := d)" "refs t = refs s" "lockd t = lockd s"
    "disk t = disk s" "dtrace t = dtrace s" "\<forall>j c. hold s j c \<longrightarrow> hold t j c"
proof -
  note f = hold_facts [OF ok h]
  have fr: "bframe s t" using bframe_refl [of s] by (simp add: bframe_def t_def state_simps upd_order same_procs_def)
  have "buf_ok t i" using f l by (simp add: buf_ok_def t_def)
  then have st: "buf_step s i b t"
    using f fr ok ring_upd_ex [OF ok, of "(bufs s i)\<lparr>b_data := d\<rparr>" i]
    by (simp add: buf_step_def t_def same_id_def same_data_def bio_ok_def bio_inv_def)
  note laws = buf_step_laws [OF ok st]
  show "bio_ok t" "bframe s t" by (rule laws)+
  show "view t = (view s)(b := d)" using laws(4) by (simp add: t_def)
  show "refs t = refs s" using laws(5) f(9) by (simp add: t_def fun_upd_idem)
  show "lockd t = lockd s" using laws(6) f(7,10) by (simp add: t_def state_simps sl_mine_def sl_free_def fun_upd_idem)
  show "disk t = disk s" "dtrace t = dtrace s" by (simp_all add: t_def)
  have "hold t i b" using f laws(3) by (simp add: hold_def t_def state_simps)
  then show "\<forall>j c. hold s j c \<longrightarrow> hold t j c"
    using laws(7) f(1) laws(3) hold_facts(4) [OF ok] hold_facts(4) [OF ok h] by metis
qed

lemma bwrite_exec:
  assumes ok: "bio_ok s" and h: "hold s i b"
  shows "bwrite i s = Ret () ((tch s)\<lparr>disk := (disk s)(b := view s b), dtrace := dtrace s @ [(b, view s b)]\<rparr>)"
proof -
  note f = hold_facts [OF ok h]
  have "calm s" "free_lk (SleepLk (BufSleep i)) s" using f(12) by (simp_all add: bio_ready_def)
  then show ?thesis using f holdingsleep_eq [of s "BufSleep i"]
    by (simp add: bwrite_def disk_rw_def kop_simps state_simps)
qed

lemma bwrite_law:
  assumes ok: "bio_ok s" and h: "hold s i b"
  defines "t \<equiv> (tch s)\<lparr>disk := (disk s)(b := view s b), dtrace := dtrace s @ [(b, view s b)]\<rparr>"
  shows "bio_ok t" "bframe s t" "view t = view s" "refs t = refs s" "lockd t = lockd s"
    "\<forall>j c. hold s j c \<longrightarrow> hold t j c"
proof -
  note f = hold_facts [OF ok h]
  have fr: "bframe s t" using bframe_refl [of s] by (simp add: bframe_def t_def state_simps upd_order same_procs_def)
  have "buf_ok t i" using f by (simp add: buf_ok_def t_def state_simps)
  then have st: "buf_step s i b t"
    using f fr ok ring_ex [OF ok]
    by (simp add: buf_step_def t_def same_id_def same_data_def bio_ok_def bio_inv_def state_simps)
  note laws = buf_step_laws [OF ok st]
  show "bio_ok t" "bframe s t" by (rule laws)+
  show "view t = view s" using laws(4) f(8) by (simp add: t_def state_simps fun_upd_idem)
  show "refs t = refs s" using laws(5) f(9) by (simp add: t_def state_simps fun_upd_idem)
  show "lockd t = lockd s" using laws(6) f(7,10) by (simp add: t_def state_simps sl_mine_def sl_free_def fun_upd_idem)
  have "hold t i b" using f laws(3) by (simp add: hold_def t_def state_simps)
  then show "\<forall>j c. hold s j c \<longrightarrow> hold t j c"
    using laws(7) f(1) laws(3) hold_facts(4) [OF ok] hold_facts(4) [OF ok h] by metis
qed

lemma refcnt_section:
  assumes "bio_ready s"
  shows "thn (acquire BcacheLock) (thn (set_buf i f) (release BcacheLock)) s =
    Ret () ((tch s)\<lparr>bufs := (bufs s)(i := f (bufs s i))\<rparr>)"
  using assms by (simp add: bio_ready_def calm_def kop_simps state_simps)

text \<open>A change of the reference count of a buffer that stays referenced.\<close>

lemma refcnt_law:
  assumes ok: "bio_ok s" and h: "hold s i b" and n: "n \<noteq> 0"
  defines "t \<equiv> (tch s)\<lparr>bufs := (bufs s)(i := (bufs s i)\<lparr>b_refcnt := n\<rparr>)\<rparr>"
  shows "bio_ok t" "bframe s t" "view t = view s" "refs t = (refs s)(b := unat n)" "lockd t = lockd s"
    "disk t = disk s" "dtrace t = dtrace s" "\<forall>j c. hold s j c \<longrightarrow> hold t j c"
proof -
  note f = hold_facts [OF ok h]
  have fr: "bframe s t" using bframe_refl [of s] by (simp add: bframe_def t_def state_simps upd_order same_procs_def)
  have "buf_ok t i" using f n by (simp add: buf_ok_def t_def)
  then have st: "buf_step s i b t"
    using f fr ok ring_upd_ex [OF ok, of "(bufs s i)\<lparr>b_refcnt := n\<rparr>" i]
    by (simp add: buf_step_def t_def same_id_def same_data_def bio_ok_def bio_inv_def state_simps)
  note laws = buf_step_laws [OF ok st]
  show "bio_ok t" "bframe s t" by (rule laws)+
  show "view t = view s" using laws(4) f(8) by (simp add: t_def fun_upd_idem)
  show "refs t = (refs s)(b := unat n)" using laws(5) by (simp add: t_def)
  show "lockd t = lockd s" using laws(6) f(7,10) by (simp add: t_def state_simps sl_mine_def sl_free_def fun_upd_idem)
  show "disk t = disk s" "dtrace t = dtrace s" by (simp_all add: t_def state_simps)
  have "hold t i b" using f laws(3) n by (simp add: hold_def t_def state_simps)
  then show "\<forall>j c. hold s j c \<longrightarrow> hold t j c"
    using laws(7) f(1) laws(3) hold_facts(4) [OF ok] hold_facts(4) [OF ok h] by metis
qed

definition released :: "'z bio_state_scheme \<Rightarrow> nat \<Rightarrow> nat \<Rightarrow> buf" where
  "released s i = (let q = (bufs s)(i := (bufs s i)\<lparr>b_refcnt := b_refcnt (bufs s i) - 1\<rparr>)
     in if b_refcnt (bufs s i) = 1 then to_front q i else q)"

definition unlocked :: "'z sleep_state_scheme \<Rightarrow> nat \<Rightarrow> sleepid \<Rightarrow> sleeplock" where
  "unlocked s i = (sleeps s)(BufSleep i := (sleeps s (BufSleep i))\<lparr>sl_locked := 0, sl_pid := 0\<rparr>)"

lemma brelse_exec:
  assumes ok: "bio_ok s" and h: "hold s i b"
  shows "brelse i s = Ret () ((tch s)\<lparr>procs := wake_all (ChSleep (BufSleep i)) s, sleeps := unlocked s i,
    bufs := released s i\<rparr>)"
proof -
  note f = hold_facts [OF ok h]
  have r: "calm s" "irq_ok s" "free_lk (SleepLk (BufSleep i)) s" "free_lk BcacheLock s"
    using f(12) by (simp_all add: bio_ready_def calm_def)
  have c: "calm (tch s)" "free_lk (SleepLk (BufSleep i)) (tch s)" using r by (simp_all add: state_simps)
  show ?thesis using r f(7)
    by (simp add: brelse_def kop_simps holdingsleep_eq releasesleep_eq [OF c] state_simps released_def
        unlocked_def Let_def eq_diff_eq)
qed

lemma ring_released:
  assumes "bio_ok s" "i < NBUF"
  shows "\<exists>xs. ring (released s i) xs"
proof -
  let ?q = "(bufs s)(i := (bufs s i)\<lparr>b_refcnt := b_refcnt (bufs s i) - 1\<rparr>)"
  obtain xs where r: "ring ?q xs" using ring_upd_ex [OF assms(1), of "(bufs s i)\<lparr>b_refcnt := b_refcnt (bufs s i) - 1\<rparr>" i] by auto
  then have "i \<in> set xs" using assms(2) by (simp add: ring_def)
  then obtain ys zs where "xs = ys @ i # zs" by (auto simp: in_set_conv_decomp)
  then show ?thesis using r ring_to_front [of ?q ys i zs] by (auto simp: released_def Let_def)
qed

lemma released_fields:
  "b_valid (released s i k) = b_valid (bufs s k)" "b_dev (released s i k) = b_dev (bufs s k)"
  "b_blockno (released s i k) = b_blockno (bufs s k)" "b_data (released s i k) = b_data (bufs s k)"
  "b_refcnt (released s i k) = (if k = i then b_refcnt (bufs s k) - 1 else b_refcnt (bufs s k))"
  by (simp_all add: released_def Let_def to_front_fields)

lemma brelse_law:
  assumes ok: "bio_ok s" and h: "hold s i b" and clean: "refs s b = 1 \<Longrightarrow> view s b = disk s b"
  defines "t \<equiv> (tch s)\<lparr>procs := wake_all (ChSleep (BufSleep i)) s, sleeps := unlocked s i, bufs := released s i\<rparr>"
  shows "bio_ok t" "bframe s t" "view t = view s" "refs t = (refs s)(b := refs s b - 1)"
    "lockd t = (lockd s)(b := False)" "disk t = disk s" "dtrace t = dtrace s"
    "\<forall>j c. c \<noteq> b \<longrightarrow> hold s j c \<longrightarrow> hold t j c"
proof -
  note f = hold_facts [OF ok h]
  have d: "disk t = disk s" "dtrace t = dtrace s" by (simp_all add: t_def state_simps)
  have "t = (tch s)\<lparr>procs := wake_all (ChSleep (BufSleep i)) s, sleeps := unlocked s i, bufs := released s i,
      disk := disk (tch s), dtrace := dtrace (tch s)\<rparr>" by (simp add: t_def)
  then have fr: "bframe s t"
    using bframe_upd(2) [where s = s and ch = "ChSleep (BufSleep i)" and l = "unlocked s i" and
        q = "released s i" and d = "disk s" and e = "dtrace s"]
    by (simp add: unlocked_def state_simps)
  have n: "unat (b_refcnt (bufs s i) - 1) = refs s b - 1"
    using f(6) by (simp add: f(9) unat_minus_one)
  have fl: "sl_free (BufSleep i) t" by (simp add: t_def sl_free_def unlocked_def)
  have "refs s b = 1" if "b_refcnt (bufs s i) = 1" using that by (simp add: f(9))
  then have "buf_ok t i" using f clean d fl
    by (auto simp: buf_ok_def released_fields t_def)
  then have st: "buf_step s i b t"
    using f fr ok ring_released [OF ok f(2)] d
    by (auto simp: buf_step_def same_id_def same_data_def bio_ok_def bio_inv_def released_fields t_def unlocked_def)
  note laws = buf_step_laws [OF ok st]
  show "bio_ok t" "bframe s t" "disk t = disk s" "dtrace t = dtrace s" by (rule laws d)+
  show "view t = view s" using laws(4) f(8) by (simp add: t_def released_fields fun_upd_idem)
  show "refs t = (refs s)(b := refs s b - 1)" using laws(5) n by (simp add: t_def released_fields)
  show "lockd t = (lockd s)(b := False)" using laws(6) fl by simp
  show "\<forall>j c. c \<noteq> b \<longrightarrow> hold s j c \<longrightarrow> hold t j c"
    using laws(7) hold_facts(4) [OF ok] f(4) by metis
qed

section \<open>The contract of the block cache\<close>

record cache =
  c_view :: "uint \<Rightarrow> uint8 list"
  c_disk :: "uint \<Rightarrow> uint8 list"
  c_refs :: "uint \<Rightarrow> nat"
  c_lock :: "uint \<Rightarrow> bool"
  c_trace :: "(uint \<times> uint8 list) list"

definition a_read :: "uint \<Rightarrow> cache \<Rightarrow> cache" where
  "a_read b a = a\<lparr>c_refs := (c_refs a)(b := c_refs a b + 1), c_lock := (c_lock a)(b := True)\<rparr>"

definition a_put :: "uint \<Rightarrow> uint8 list \<Rightarrow> cache \<Rightarrow> cache" where
  "a_put b d a = a\<lparr>c_view := (c_view a)(b := d)\<rparr>"

definition a_write :: "uint \<Rightarrow> cache \<Rightarrow> cache" where
  "a_write b a = a\<lparr>c_disk := (c_disk a)(b := c_view a b), c_trace := c_trace a @ [(b, c_view a b)]\<rparr>"

definition a_release :: "uint \<Rightarrow> cache \<Rightarrow> cache" where
  "a_release b a = a\<lparr>c_refs := (c_refs a)(b := c_refs a b - 1), c_lock := (c_lock a)(b := False)\<rparr>"

definition a_ref :: "uint \<Rightarrow> nat \<Rightarrow> cache \<Rightarrow> cache" where
  "a_ref b n a = a\<lparr>c_refs := (c_refs a)(b := n)\<rparr>"

lemmas a_defs = a_read_def a_put_def a_write_def a_release_def a_ref_def

lemma cache_upd_order [upd_order]:
  "c_view_update f1 (c_disk_update g2 a) = c_disk_update g2 (c_view_update f1 a)"
  "c_view_update f1 (c_refs_update g3 a) = c_refs_update g3 (c_view_update f1 a)"
  "c_view_update f1 (c_lock_update g4 a) = c_lock_update g4 (c_view_update f1 a)"
  "c_view_update f1 (c_trace_update g5 a) = c_trace_update g5 (c_view_update f1 a)"
  "c_disk_update f2 (c_refs_update g3 a) = c_refs_update g3 (c_disk_update f2 a)"
  "c_disk_update f2 (c_lock_update g4 a) = c_lock_update g4 (c_disk_update f2 a)"
  "c_disk_update f2 (c_trace_update g5 a) = c_trace_update g5 (c_disk_update f2 a)"
  "c_refs_update f3 (c_lock_update g4 a) = c_lock_update g4 (c_refs_update f3 a)"
  "c_refs_update f3 (c_trace_update g5 a) = c_trace_update g5 (c_refs_update f3 a)"
  "c_lock_update f4 (c_trace_update g5 a) = c_trace_update g5 (c_lock_update f4 a)"
  by simp_all

lemma a_ref_same: "c_refs a b = n \<Longrightarrow> a_ref b n a = a"
  by (simp add: a_ref_def fun_upd_idem)

text \<open>Block \<open>b\<close> can be read: nobody holds it, its count does not overflow and it has or finds a buffer.\<close>

definition a_avail :: "cache \<Rightarrow> uint \<Rightarrow> bool" where
  "a_avail a b \<longleftrightarrow> \<not> c_lock a b \<and> c_refs a b < 2 ^ 32 - 1 \<and>
     (c_refs a b \<noteq> 0 \<or> card {c. c_refs a c \<noteq> 0} < NBUF)"

text \<open>The combined effect of changing a block in the cache and writing it to disk.\<close>

definition a_store :: "uint \<Rightarrow> uint8 list \<Rightarrow> cache \<Rightarrow> cache" where
  "a_store b d a = a\<lparr>c_view := (c_view a)(b := d), c_disk := (c_disk a)(b := d),
     c_trace := c_trace a @ [(b, d)]\<rparr>"

locale block_cache =
  fixes rd :: "uint \<Rightarrow> (nat, 's) kop"
    and get :: "nat \<Rightarrow> (uint8 list, 's) kop"
    and put :: "nat \<Rightarrow> uint8 list \<Rightarrow> (unit, 's) kop"
    and wr :: "nat \<Rightarrow> (unit, 's) kop"
    and rls :: "nat \<Rightarrow> (unit, 's) kop"
    and pin :: "nat \<Rightarrow> (unit, 's) kop"
    and unpin :: "nat \<Rightarrow> (unit, 's) kop"
    and ok :: "'s \<Rightarrow> bool"
    and abs :: "'s \<Rightarrow> cache"
    and holds :: "'s \<Rightarrow> nat \<Rightarrow> uint \<Rightarrow> bool"
    and frame :: "'s \<Rightarrow> 's \<Rightarrow> bool"
  assumes rd_law: "ok s \<Longrightarrow> a_avail (abs s) b \<Longrightarrow> \<exists>i t. rd b s = Ret i t \<and> ok t \<and> frame s t \<and>
      abs t = a_read b (abs s) \<and> holds t i b \<and> (\<forall>j c. holds s j c \<longrightarrow> holds t j c)"
    and get_law: "ok s \<Longrightarrow> holds s i b \<Longrightarrow> get i s = Ret (c_view (abs s) b) s"
    and put_law: "ok s \<Longrightarrow> holds s i b \<Longrightarrow> length d = BSIZE \<Longrightarrow> \<exists>t. put i d s = Ret () t \<and> ok t \<and>
      frame s t \<and> abs t = a_put b d (abs s) \<and> (\<forall>j c. holds s j c \<longrightarrow> holds t j c)"
    and wr_law: "ok s \<Longrightarrow> holds s i b \<Longrightarrow> \<exists>t. wr i s = Ret () t \<and> ok t \<and> frame s t \<and>
      abs t = a_write b (abs s) \<and> (\<forall>j c. holds s j c \<longrightarrow> holds t j c)"
    and rls_law: "ok s \<Longrightarrow> holds s i b \<Longrightarrow> (c_refs (abs s) b = 1 \<Longrightarrow> c_view (abs s) b = c_disk (abs s) b) \<Longrightarrow>
      \<exists>t. rls i s = Ret () t \<and> ok t \<and> frame s t \<and> abs t = a_release b (abs s) \<and>
        (\<forall>j c. c \<noteq> b \<longrightarrow> holds s j c \<longrightarrow> holds t j c)"
    and pin_law: "ok s \<Longrightarrow> holds s i b \<Longrightarrow> c_refs (abs s) b < 2 ^ 32 - 1 \<Longrightarrow> \<exists>t. pin i s = Ret () t \<and> ok t \<and>
      frame s t \<and> abs t = a_ref b (c_refs (abs s) b + 1) (abs s) \<and> (\<forall>j c. holds s j c \<longrightarrow> holds t j c)"
    and unpin_law: "ok s \<Longrightarrow> holds s i b \<Longrightarrow> 2 \<le> c_refs (abs s) b \<Longrightarrow> \<exists>t. unpin i s = Ret () t \<and> ok t \<and>
      frame s t \<and> abs t = a_ref b (c_refs (abs s) b - 1) (abs s) \<and> (\<forall>j c. holds s j c \<longrightarrow> holds t j c)"
    and clean: "ok s \<Longrightarrow> c_refs (abs s) b = 0 \<Longrightarrow> c_view (abs s) b = c_disk (abs s) b"
    and size_law: "ok s \<Longrightarrow> length (c_view (abs s) b) = BSIZE"
    and frame_trans: "frame s t \<Longrightarrow> frame t u \<Longrightarrow> frame s u"
begin

text \<open>Reading a block and releasing it leaves the cache as it was.\<close>

lemma read_release:
  assumes "ok s" "a_avail (abs s) b"
  obtains i t u where "rd b s = Ret i t" "ok t" "frame s t" "holds t i b" "abs t = a_read b (abs s)"
    "rls i t = Ret () u" "ok u" "frame s u" "abs u = abs s"
proof -
  obtain i t where t: "rd b s = Ret i t" "ok t" "frame s t" "abs t = a_read b (abs s)" "holds t i b"
    using rd_law [OF assms] by blast
  have c: "c_view (abs t) b = c_disk (abs t) b" if "c_refs (abs t) b = 1"
    using clean [OF assms(1), of b] that by (simp add: t(4) a_defs)
  obtain u where u: "rls i t = Ret () u" "ok u" "frame t u" "abs u = a_release b (abs t)"
    using rls_law [OF t(2,5) c] by blast
  have "abs u = abs s" using assms(2) by (simp add: u(4) t(4) a_defs a_avail_def fun_upd_idem)
  then show ?thesis using that t u frame_trans by blast
qed

text \<open>Writing a block through the cache.\<close>

lemma update_block:
  assumes "ok s" "a_avail (abs s) b" "\<And>d. length d = BSIZE \<Longrightarrow> length (f d) = BSIZE"
  shows "\<exists>t. bnd (rd b) (\<lambda>i. bnd (get i) (\<lambda>d. thn (put i (f d)) (thn (wr i) (rls i)))) s = Ret () t \<and>
    ok t \<and> frame s t \<and> abs t = a_store b (f (c_view (abs s) b)) (abs s)"
proof -
  let ?d = "f (c_view (abs s) b)"
  obtain i t where t: "rd b s = Ret i t" "ok t" "frame s t" "abs t = a_read b (abs s)" "holds t i b"
    using rd_law [OF assms(1,2)] by blast
  have g: "get i t = Ret (c_view (abs s) b) t" using get_law [OF t(2,5)] by (simp add: t(4) a_defs)
  obtain u where u: "put i ?d t = Ret () u" "ok u" "frame t u" "abs u = a_put b ?d (abs t)" "holds u i b"
    using put_law [OF t(2,5)] assms(3) size_law [OF assms(1)] t(5) by blast
  obtain v where v: "wr i u = Ret () v" "ok v" "frame u v" "abs v = a_write b (abs u)" "holds v i b"
    using wr_law [OF u(2,5)] u(5) by blast
  have "c_view (abs v) b = c_disk (abs v) b" by (simp add: v(4) a_defs)
  then obtain w where w: "rls i v = Ret () w" "ok w" "frame v w" "abs w = a_release b (abs v)"
    using rls_law [OF v(2,5)] by blast
  have "frame s w" using t(3) u(3) v(3) w(3) frame_trans by blast
  moreover have "abs w = a_store b ?d (abs s)"
    using assms(2) by (simp add: w(4) v(4) u(4) t(4) a_defs a_store_def a_avail_def upd_order fun_upd_idem)
  ultimately show ?thesis using t(1) g u(1) v(1) w by (auto simp: kop_simps)
qed

text \<open>
  Copying block \<open>b\<close> to block \<open>a\<close>, with both locked during the copy.  The first form takes the
  destination first, the second takes the source first and may drop a pin of the destination.
\<close>

lemma copy_block:
  assumes "ok s" "a_avail (abs s) a" "a_avail (a_read a (abs s)) b" "a \<noteq> b"
  shows "\<exists>t. bnd (rd a) (\<lambda>i. bnd (rd b) (\<lambda>j. bnd (get j) (\<lambda>d.
      thn (put i d) (thn (wr i) (thn (rls j) (rls i)))))) s = Ret () t \<and>
    ok t \<and> frame s t \<and> abs t = a_store a (c_view (abs s) b) (abs s)"
proof -
  let ?d = "c_view (abs s) b"
  obtain i t where t: "rd a s = Ret i t" "ok t" "frame s t" "abs t = a_read a (abs s)" "holds t i a"
    using rd_law [OF assms(1,2)] by blast
  obtain j u where u: "rd b t = Ret j u" "ok u" "frame t u" "abs u = a_read b (abs t)" "holds u j b" "holds u i a"
    using rd_law [OF t(2)] assms(3) t(4,5) by metis
  have g: "get j u = Ret ?d u" using get_law [OF u(2,5)] by (simp add: u(4) t(4) a_defs)
  obtain v where v: "put i ?d u = Ret () v" "ok v" "frame u v" "abs v = a_put a ?d (abs u)" "holds v i a" "holds v j b"
    using put_law [OF u(2,6) size_law [OF assms(1)]] u(5,6) by blast
  obtain w where w: "wr i v = Ret () w" "ok w" "frame v w" "abs w = a_write a (abs v)" "holds w i a" "holds w j b"
    using wr_law [OF v(2,5)] v(5,6) by blast
  have "c_view (abs w) b = c_disk (abs w) b" if "c_refs (abs w) b = 1"
    using that clean [OF assms(1), of b] assms(4) by (simp add: w(4) v(4) u(4) t(4) a_defs)
  then obtain x where x: "rls j w = Ret () x" "ok x" "frame w x" "abs x = a_release b (abs w)" "holds x i a"
    using rls_law [OF w(2,6)] w(5) assms(4) by blast
  have "c_view (abs x) a = c_disk (abs x) a" by (simp add: x(4) w(4) a_defs)
  then obtain y where y: "rls i x = Ret () y" "ok y" "frame x y" "abs y = a_release a (abs x)"
    using rls_law [OF x(2,5)] by blast
  have "frame s y" using t(3) u(3) v(3) w(3) x(3) y(3) frame_trans by blast
  moreover have "abs y = a_store a ?d (abs s)"
    using assms by (simp add: y(4) x(4) w(4) v(4) u(4) t(4) a_defs a_store_def a_avail_def upd_order
        fun_upd_twist [of b a] fun_upd_idem)
  ultimately show ?thesis using t(1) g u(1) v(1) w(1) x(1) y by (auto simp: kop_simps)
qed

lemma copy_block_unpin:
  assumes "ok s" "a_avail (abs s) a" "a_avail (a_read a (abs s)) b" "a \<noteq> b"
    and k: "k \<Longrightarrow> 1 \<le> c_refs (abs s) b"
  shows "\<exists>t. bnd (rd a) (\<lambda>i. bnd (rd b) (\<lambda>j. bnd (get i) (\<lambda>d.
      thn (put j d) (thn (wr j) (thn (whenk k (unpin j)) (thn (rls i) (rls j))))))) s = Ret () t \<and>
    ok t \<and> frame s t \<and>
    abs t = a_ref b (c_refs (abs s) b - (if k then 1 else 0)) (a_store b (c_view (abs s) a) (abs s))"
proof -
  let ?d = "c_view (abs s) a" and ?n = "c_refs (abs s) b - (if k then 1 else 0)"
  obtain i t where t: "rd a s = Ret i t" "ok t" "frame s t" "abs t = a_read a (abs s)" "holds t i a"
    using rd_law [OF assms(1,2)] by blast
  obtain j u where u: "rd b t = Ret j u" "ok u" "frame t u" "abs u = a_read b (abs t)" "holds u j b" "holds u i a"
    using rd_law [OF t(2)] assms(3) t(4,5) by metis
  have g: "get i u = Ret ?d u" using get_law [OF u(2,6)] assms(4) by (simp add: u(4) t(4) a_defs)
  obtain v where v: "put j ?d u = Ret () v" "ok v" "frame u v" "abs v = a_put b ?d (abs u)" "holds v i a" "holds v j b"
    using put_law [OF u(2,5) size_law [OF assms(1)]] u(5,6) by blast
  obtain w where w: "wr j v = Ret () w" "ok w" "frame v w" "abs w = a_write b (abs v)" "holds w i a" "holds w j b"
    using wr_law [OF v(2,6)] v(5,6) by blast
  have wr: "c_refs (abs w) b = c_refs (abs s) b + 1" using assms(4) by (simp add: w(4) v(4) u(4) t(4) a_defs)
  obtain x where x: "whenk k (unpin j) w = Ret () x" "ok x" "frame v x"
    "abs x = a_ref b (?n + 1) (abs w)" "holds x i a" "holds x j b"
  proof (cases k)
    case True
    then show ?thesis using unpin_law [OF w(2,6)] k wr w(3,5,6) frame_trans [of v w] that by (auto simp: kop_simps)
  next
    case False
    then show ?thesis using w wr that [of w] by (simp add: kop_simps a_ref_same)
  qed
  have "c_view (abs x) a = c_disk (abs x) a" if "c_refs (abs x) a = 1"
    using that clean [OF assms(1), of a] assms(4) by (simp add: x(4) w(4) v(4) u(4) t(4) a_defs)
  then obtain y where y: "rls i x = Ret () y" "ok y" "frame x y" "abs y = a_release a (abs x)" "holds y j b"
    using rls_law [OF x(2,5)] x(6) assms(4) [symmetric] by blast
  have "c_view (abs y) b = c_disk (abs y) b" using assms(4) by (simp add: y(4) x(4) w(4) a_defs)
  then obtain z where z: "rls j y = Ret () z" "ok z" "frame y z" "abs z = a_release b (abs y)"
    using rls_law [OF y(2,5)] by blast
  have "frame s z" using t(3) u(3) v(3) x(3) y(3) z(3) frame_trans by blast
  moreover have "abs z = a_ref b ?n (a_store b ?d (abs s))"
    using assms(2-4) by (simp add: z(4) y(4) x(4) w(4) v(4) u(4) t(4) a_defs a_store_def a_avail_def upd_order
        fun_upd_twist [of b a] fun_upd_idem)
  ultimately show ?thesis using t(1) g u(1) v(1) w(1) x(1) y(1) z by (auto simp: kop_simps)
qed

end

definition cache_of :: "'z bio_state_scheme \<Rightarrow> cache" where
  "cache_of s = \<lparr>c_view = view s, c_disk = disk s, c_refs = refs s, c_lock = lockd s, c_trace = dtrace s\<rparr>"

lemma unat_lt2p_32: "unat (x :: uint) < 2 ^ 32"
  using unsigned_less [of x] by simp

lemma refcnt_bound: "refs s b < 2 ^ 32"
  using unat_lt2p_32 by (auto simp: refs_def split: option.splits)

lemma bread_law:
  assumes "bio_ok s" "a_avail (cache_of s) b"
  shows "\<exists>i t. bread ROOTDEV b s = Ret i t \<and> bio_ok t \<and> bframe s t \<and> cache_of t = a_read b (cache_of s) \<and>
    hold t i b \<and> (\<forall>j c. hold s j c \<longrightarrow> hold t j c)"
proof -
  have a: "\<not> lockd s b" "refs s b < 2 ^ 32 - 1" "refs s b \<noteq> 0 \<or> card {c. refs s c \<noteq> 0} < NBUF"
    using assms(2) by (simp_all add: a_avail_def cache_of_def)
  obtain i q where g: "got s i b q" and e: "bread ROOTDEV b s =
      Ret i ((tch s)\<lparr>sleeps := locked_by s i, bufs := (bufs s)(i := q)\<rparr>)"
    using bread_exec [OF assms(1) a] by blast
  let ?t = "(tch s)\<lparr>sleeps := locked_by s i, bufs := (bufs s)(i := q)\<rparr>"
  note l = got_laws [OF assms(1) g, of ?t, OF refl]
  have "cache_of ?t = a_read b (cache_of s)"
    unfolding cache_of_def a_read_def l(4-8) by simp
  then show ?thesis using e l(1,2,3,9) by blast
qed

lemma bread_full:
  assumes "bio_ok s" "slot s b = None" "\<forall>i<NBUF. b_refcnt (bufs s i) \<noteq> 0"
  shows "bread ROOTDEV b s = Panic ''bget: no buffers''"
  using bget_full [OF assms] by (simp add: bread_def kop_simps)

lemma refs_zero_clean:
  assumes "bio_ok s" "refs s b = 0"
  shows "view s b = disk s b"
proof (cases "slot s b")
  case (Some i)
  then have i: "i < NBUF" "b_dev (bufs s i) = ROOTDEV" "b_blockno (bufs s i) = b"
    by (simp_all add: slot_iff [OF bio_ok_unique [OF assms(1)]])
  have "b_refcnt (bufs s i) = 0" using assms(2) Some by (simp add: refs_def unat_eq_0)
  then show ?thesis using assms(1) i Some by (simp add: bio_ok_def bio_inv_def buf_ok_def view_def)
qed (simp add: view_def)

lemma word_incr: "unat (x :: uint) < 2 ^ 32 - 1 \<Longrightarrow> unat (x + 1) = unat x + 1"
  by (simp add: unat_word_ariths)

lemma word_decr: "1 \<le> unat (x :: uint) \<Longrightarrow> unat (x - 1) = unat x - 1"
  by (metis One_nat_def unat_eq_0 unat_minus_one not_one_le_zero)

interpretation bc: block_cache "bread ROOTDEV" get_data set_data bwrite brelse bpin bunpin bio_ok cache_of hold bframe
proof
  fix s :: "'z bio_state_scheme" and t u i b d
  show "bio_ok s \<Longrightarrow> a_avail (cache_of s) b \<Longrightarrow> \<exists>i t. bread ROOTDEV b s = Ret i t \<and> bio_ok t \<and> bframe s t \<and>
      cache_of t = a_read b (cache_of s) \<and> hold t i b \<and> (\<forall>j c. hold s j c \<longrightarrow> hold t j c)" by (rule bread_law)
  show "bio_ok s \<Longrightarrow> hold s i b \<Longrightarrow> get_data i s = Ret (c_view (cache_of s) b) s"
    using hold_facts(8) [of s i b] by (simp add: kop_simps cache_of_def)
  show "bio_ok s \<Longrightarrow> hold s i b \<Longrightarrow> length d = BSIZE \<Longrightarrow> \<exists>t. set_data i d s = Ret () t \<and> bio_ok t \<and> bframe s t \<and>
      cache_of t = a_put b d (cache_of s) \<and> (\<forall>j c. hold s j c \<longrightarrow> hold t j c)"
    using set_data_law [of s i b d] by (simp add: kop_simps cache_of_def a_put_def)
  show "bio_ok s \<Longrightarrow> hold s i b \<Longrightarrow> \<exists>t. bwrite i s = Ret () t \<and> bio_ok t \<and> bframe s t \<and>
      cache_of t = a_write b (cache_of s) \<and> (\<forall>j c. hold s j c \<longrightarrow> hold t j c)"
    using bwrite_law [of s i b] by (simp add: bwrite_exec cache_of_def a_write_def)
  show "bio_ok s \<Longrightarrow> hold s i b \<Longrightarrow>
      (c_refs (cache_of s) b = 1 \<Longrightarrow> c_view (cache_of s) b = c_disk (cache_of s) b) \<Longrightarrow>
      \<exists>t. brelse i s = Ret () t \<and> bio_ok t \<and> bframe s t \<and> cache_of t = a_release b (cache_of s) \<and>
        (\<forall>j c. c \<noteq> b \<longrightarrow> hold s j c \<longrightarrow> hold t j c)"
    using brelse_law [of s i b] by (simp add: brelse_exec cache_of_def a_release_def)
  show "bio_ok s \<Longrightarrow> hold s i b \<Longrightarrow> c_refs (cache_of s) b < 2 ^ 32 - 1 \<Longrightarrow> \<exists>t. bpin i s = Ret () t \<and> bio_ok t \<and>
      bframe s t \<and> cache_of t = a_ref b (c_refs (cache_of s) b + 1) (cache_of s) \<and>
      (\<forall>j c. hold s j c \<longrightarrow> hold t j c)"
    using refcnt_law [of s i b "b_refcnt (bufs s i) + 1"] hold_facts(9,12) [of s i b]
      word_incr [of "b_refcnt (bufs s i)"]
    by (auto simp: bpin_def refcnt_section cache_of_def a_ref_def unat_eq_0 [symmetric])
  show "bio_ok s \<Longrightarrow> hold s i b \<Longrightarrow> 2 \<le> c_refs (cache_of s) b \<Longrightarrow> \<exists>t. bunpin i s = Ret () t \<and> bio_ok t \<and>
      bframe s t \<and> cache_of t = a_ref b (c_refs (cache_of s) b - 1) (cache_of s) \<and>
      (\<forall>j c. hold s j c \<longrightarrow> hold t j c)"
    using refcnt_law [of s i b "b_refcnt (bufs s i) - 1"] hold_facts(9,12) [of s i b]
      word_decr [of "b_refcnt (bufs s i)"]
    by (auto simp: bunpin_def refcnt_section cache_of_def a_ref_def unat_eq_0 [symmetric])
  show "bio_ok s \<Longrightarrow> c_refs (cache_of s) b = 0 \<Longrightarrow> c_view (cache_of s) b = c_disk (cache_of s) b"
    by (simp add: cache_of_def refs_zero_clean)
  show "bio_ok s \<Longrightarrow> length (c_view (cache_of s) b) = BSIZE"
    by (simp add: cache_of_def view_length bio_ok_def)
  show "bframe s t \<Longrightarrow> bframe t u \<Longrightarrow> bframe s u" by (rule bframe_trans)
qed

section \<open>Building the list\<close>

text \<open>What the loop of \<open>binit\<close> has established after \<open>n\<close> buffers.\<close>

definition binit_inv :: "'z bio_state_scheme \<Rightarrow> nat \<Rightarrow> 'z bio_state_scheme \<Rightarrow> bool" where
  "binit_inv s n t \<longleftrightarrow>
     path (\<lambda>i. b_next (bufs t i)) NBUF (rev [0..<n]) NBUF \<and> path (\<lambda>i. b_prev (bufs t i)) NBUF [0..<n] NBUF \<and>
     (\<forall>k. same_id (bufs s k) (bufs t k) \<and> same_data (bufs s k) (bufs t k)) \<and>
     (\<forall>k<n. sl_free (BufSleep k) t) \<and> (\<forall>lk. free_lk lk s \<longrightarrow> free_lk lk t) \<and>
     t = s\<lparr>locks := locks t, sleeps := sleeps t, bufs := bufs t\<rparr>"

definition linked_in :: "(nat \<Rightarrow> buf) \<Rightarrow> nat \<Rightarrow> nat \<Rightarrow> buf" where
  "linked_in q b =
     (let q1 = q(b := (q b)\<lparr>b_next := b_next (q NBUF), b_prev := NBUF\<rparr>);
          q2 = q1(b_next (q1 NBUF) := (q1 (b_next (q1 NBUF)))\<lparr>b_prev := b\<rparr>)
      in q2(NBUF := (q2 NBUF)\<lparr>b_next := b\<rparr>))"

lemma initsleeplock_eq [kop_simps]:
  "initsleeplock i nm s = Ret () (s\<lparr>locks := (locks s)(SleepLk i := \<lparr>locked = 0, lname = ''sleep lock'', lcpu = None\<rparr>),
     sleeps := (sleeps s)(i := (sleeps s i)\<lparr>sl_name := nm, sl_locked := 0, sl_pid := 0\<rparr>)\<rparr>)"
  by (cases "locks s (SleepLk i)") (simp add: initsleeplock_def initlock_def kop_simps set_lock_def upd_order)

lemma binit_body_eq:
  "binit_body b t = Ret () (t\<lparr>locks := (locks t)(SleepLk (BufSleep b) := \<lparr>locked = 0, lname = ''sleep lock'', lcpu = None\<rparr>),
     sleeps := (sleeps t)(BufSleep b := (sleeps t (BufSleep b))\<lparr>sl_name := ''buffer'', sl_locked := 0, sl_pid := 0\<rparr>),
     bufs := linked_in (bufs t) b\<rparr>)"
  by (simp add: binit_body_def kop_simps linked_in_def Let_def upd_order del: fun_upd_apply) (simp add: upd_order)

lemma linked_in_fields:
  "same_id (q k) (linked_in q b k)" "same_data (q k) (linked_in q b k)"
  by (simp_all add: linked_in_def Let_def same_id_def same_data_def)

lemma linked_in_paths:
  assumes f: "path (\<lambda>i. b_next (q i)) NBUF (rev [0..<n]) NBUF" and g: "path (\<lambda>i. b_prev (q i)) NBUF [0..<n] NBUF"
    and n: "n < NBUF"
  shows "path (\<lambda>i. b_next (linked_in q n i)) NBUF (rev [0..<Suc n]) NBUF"
    "path (\<lambda>i. b_prev (linked_in q n i)) NBUF [0..<Suc n] NBUF"
proof -
  let ?nx = "\<lambda>i. b_next (q i)" and ?pv = "\<lambda>i. b_prev (q i)"
  define hb where "hb = b_next (q NBUF)"
  have hb: "hb = last (NBUF # [0..<n])" using path_start [OF f] by (cases n) (simp_all add: hb_def)
  then have ne: "hb \<noteq> n" "n \<noteq> NBUF" using n by (cases n; simp)+
  have e1: "(\<lambda>i. b_next (linked_in q n i)) = ?nx(n := hb, NBUF := n)"
    using ne by (intro ext) (simp add: linked_in_def Let_def hb_def)
  have e2: "(\<lambda>i. b_prev (linked_in q n i)) = ?pv(hb := n, n := NBUF)"
    using ne by (intro ext) (simp add: linked_in_def Let_def hb_def)
  show "path (\<lambda>i. b_next (linked_in q n i)) NBUF (rev [0..<Suc n]) NBUF"
    using path_insert_front [OF f, of n] n by (simp add: e1 hb_def)
  show "path (\<lambda>i. b_prev (linked_in q n i)) NBUF [0..<Suc n] NBUF"
    using path_insert_end [OF g, of n] n unfolding e2 hb [symmetric] by simp
qed

lemma binit_step:
  assumes i: "binit_inv s n t" and n: "n < NBUF"
  shows "\<exists>u. binit_body n t = Ret () u \<and> binit_inv s (Suc n) u"
proof (intro exI conjI)
  show "binit_body n t = Ret () (t\<lparr>locks := (locks t)(SleepLk (BufSleep n) := \<lparr>locked = 0, lname = ''sleep lock'', lcpu = None\<rparr>),
     sleeps := (sleeps t)(BufSleep n := (sleeps t (BufSleep n))\<lparr>sl_name := ''buffer'', sl_locked := 0, sl_pid := 0\<rparr>),
     bufs := linked_in (bufs t) n\<rparr>)" (is "_ = Ret () ?u") by (rule binit_body_eq)
  have b: "bufs ?u = linked_in (bufs t) n" by simp
  have sd: "same_id (bufs s k) (bufs ?u k)" "same_data (bufs s k) (bufs ?u k)" for k
    using i linked_in_fields [of "bufs t" k n] by (simp_all add: binit_inv_def same_id_def same_data_def)
  have fl: "free_lk lk ?u" if "free_lk lk s" for lk
    using i that by (simp add: binit_inv_def free_lk_def)
  have sl: "sl_free (BufSleep k) ?u" if "k < Suc n" for k
    using i that by (auto simp: binit_inv_def sl_free_def less_Suc_eq)
  obtain l m q where t: "t = s\<lparr>locks := l, sleeps := m, bufs := q\<rparr>" using i unfolding binit_inv_def by blast
  have "?u = s\<lparr>locks := locks ?u, sleeps := sleeps ?u, bufs := bufs ?u\<rparr>" by (simp add: t upd_order)
  then show "binit_inv s (Suc n) ?u"
    using i linked_in_paths [of "bufs t" n] n sd fl sl unfolding binit_inv_def b by blast
qed

lemma binit_loop:
  assumes "b_next (bufs s NBUF) = NBUF" "b_prev (bufs s NBUF) = NBUF" "n \<le> NBUF"
  shows "\<exists>t. for_each [0..<n] binit_body s = Ret () t \<and> binit_inv s n t"
  using assms(3)
proof (induction n)
  case 0
  then show ?case using assms by (simp add: kop_simps binit_inv_def same_id_def same_data_def)
next
  case (Suc n)
  then obtain t where t: "for_each [0..<n] binit_body s = Ret () t" "binit_inv s n t" by auto
  then show ?case using binit_step [of s n t] Suc.prems for_each_upt_Suc [OF t(1)] by simp
qed

lemma binit_ok:
  assumes z: "\<forall>i<NBUF. b_dev (bufs s i) = 0 \<and> b_refcnt (bufs s i) = 0 \<and> length (b_data (bufs s i)) = BSIZE"
    and d: "\<forall>b. length (disk s b) = BSIZE"
  shows "\<exists>t. binit s = Ret () t \<and> ring (bufs t) (rev [0..<NBUF]) \<and> bio_inv t \<and>
    (\<forall>lk. free_lk lk s \<longrightarrow> free_lk lk t) \<and> t = s\<lparr>locks := locks t, sleeps := sleeps t, bufs := bufs t\<rparr> \<and>
    (\<forall>i<NBUF. b_dev (bufs t i) = 0 \<and> b_refcnt (bufs t i) = 0)"
proof -
  define u where "u = s\<lparr>locks := (locks s)(BcacheLock := (locks s BcacheLock)\<lparr>lname := ''bcache'', locked := 0, lcpu := None\<rparr>),
    bufs := (bufs s)(NBUF := (bufs s NBUF)\<lparr>b_prev := NBUF, b_next := NBUF\<rparr>)\<rparr>"
  obtain t where t: "for_each [0..<NBUF] binit_body u = Ret () t" "binit_inv u NBUF t"
    using binit_loop [of u NBUF] by (auto simp: u_def)
  have b: "binit s = Ret () t"
    using t(1) by (simp add: binit_def initlock_def kop_simps set_lock_def upd_order u_def del: for_each.simps)
  have r: "ring (bufs t) (rev [0..<NBUF])" using t(2) by (auto simp: binit_inv_def ring_def)
  have f: "b_dev (bufs t i) = 0" "b_refcnt (bufs t i) = 0" "length (b_data (bufs t i)) = BSIZE" if "i < NBUF" for i
    using t(2) z that by (simp_all add: binit_inv_def same_id_def same_data_def u_def)
  obtain l m q where e: "t = u\<lparr>locks := l, sleeps := m, bufs := q\<rparr>" using t(2) unfolding binit_inv_def by blast
  then have e: "t = s\<lparr>locks := l, sleeps := m, bufs := q\<rparr>" by (simp add: u_def upd_order)
  have dt: "length (disk t b) = BSIZE" for b using d by (simp add: e)
  have sl: "sl_free (BufSleep k) t" if "k < NBUF" for k using t(2) that by (simp add: binit_inv_def)
  have "bio_inv t"
    using r f dt sl by (auto simp: bio_inv_def buf_ok_def bufs_unique_def ROOTDEV_def)
  moreover have "free_lk lk t" if "free_lk lk s" for lk
    using t(2) that by (auto simp: binit_inv_def u_def free_lk_def)
  ultimately show ?thesis using b r f e by auto
qed

section \<open>Properties\<close>

text \<open>A zeroed cache over a disk of zeros, with process 0 running.\<close>

definition buf_blank :: buf where
  "buf_blank = \<lparr>b_valid = 0, b_disk = 0, b_dev = 0, b_blockno = 0, b_refcnt = 0, b_prev = 0, b_next = 0,
     b_data = replicate BSIZE 0\<rparr>"

definition sleep0 :: sleep_state where
  "sleep0 = proc_state.extend proc0 \<lparr>sleeps = (\<lambda>_. \<lparr>sl_locked = 0, sl_name = [], sl_pid = 0\<rparr>)\<rparr>"

definition bio0 :: bio_state where
  "bio0 = sleep_state.extend sleep0 \<lparr>bufs = (\<lambda>_. buf_blank), disk = (\<lambda>_. replicate BSIZE 0), dtrace = []\<rparr>"

lemmas bio0_defs = bio0_def sleep0_def proc0_defs proc_state.extend_def sleep_state.extend_def

lemma bio0_facts:
  "calm bio0" "free_lk lk bio0" "bufs bio0 i = buf_blank" "disk bio0 b = replicate BSIZE 0" "dtrace bio0 = []"
  by (simp_all add: bio0_defs calm_def lock_defs procs_free_def)

lemma cache_avail_idle:
  assumes "\<forall>c. refs s c = 0" "\<forall>c. \<not> lockd s c"
  shows "a_avail (cache_of s) b"
  using assms by (simp add: a_avail_def cache_of_def NBUF_def MAXOPBLOCKS_def)

lemma binit_boot:
  assumes "calm s" "\<forall>lk. free_lk lk s" "\<forall>i. bufs s i = buf_blank" "\<forall>b. length (disk s b) = BSIZE"
  obtains t l m q where "binit s = Ret () t" "bio_ok t" "\<forall>b. refs t b = 0 \<and> \<not> lockd t b" "\<forall>b. slot t b = None"
    "\<forall>lk. free_lk lk t" "calm t" "ring (bufs t) (rev [0..<NBUF])" "\<forall>i<NBUF. b_refcnt (bufs t i) = 0"
    "t = s\<lparr>locks := l, sleeps := m, bufs := q\<rparr>"
proof -
  obtain t where t: "binit s = Ret () t" "ring (bufs t) (rev [0..<NBUF])" "bio_inv t"
    "\<forall>lk. free_lk lk s \<longrightarrow> free_lk lk t"
    "t = s\<lparr>locks := locks t, sleeps := sleeps t, bufs := bufs t\<rparr>" "\<forall>i<NBUF. b_dev (bufs t i) = 0"
    "\<forall>i<NBUF. b_refcnt (bufs t i) = 0"
    using binit_ok [of s] assms(3,4) by (auto simp: buf_blank_def)
  obtain l m q where e: "t = s\<lparr>locks := l, sleeps := m, bufs := q\<rparr>" using t(5) by blast
  have lk: "free_lk lk t" for lk using t(4) assms(2) by simp
  have c: "irq_ok t = irq_ok s" "cproc (mycpu t) = cproc (mycpu s)" by (simp_all add: e lock_defs)
  have ca: "calm t" using lk c assms(1) by (simp add: calm_def procs_free_def)
  then have ok: "bio_ok t" using lk t(3) by (simp add: bio_ok_def bio_ready_def)
  have s: "slot t b = None" for b using t(6) by (simp add: slot_none ROOTDEV_def)
  then have "refs t b = 0 \<and> \<not> lockd t b" for b by (simp add: refs_def lockd_def)
  then show ?thesis using that [OF t(1) ok _ _ _ ca t(2,7) e] s lk by blast
qed

lemma binit_bio0:
  obtains t where "binit bio0 = Ret () t" "bio_ok t" "\<forall>b. a_avail (cache_of t) b" "disk t = disk bio0"
    "\<forall>b. slot t b = None" "dtrace t = []" "\<forall>lk. free_lk lk t" "calm t" "ring (bufs t) (rev [0..<NBUF])"
    "\<forall>i<NBUF. b_refcnt (bufs t i) = 0"
proof -
  obtain t l m q where t: "binit bio0 = Ret () t" "bio_ok t" "\<forall>b. refs t b = 0 \<and> \<not> lockd t b" "\<forall>b. slot t b = None"
    "\<forall>lk. free_lk lk t" "calm t" "ring (bufs t) (rev [0..<NBUF])" "\<forall>i<NBUF. b_refcnt (bufs t i) = 0"
    "t = bio0\<lparr>locks := l, sleeps := m, bufs := q\<rparr>"
    by (rule binit_boot [of bio0]) (auto simp: bio0_facts)
  then have "\<forall>b. a_avail (cache_of t) b" using cache_avail_idle by blast
  then show ?thesis using that [of t] t by (auto simp: bio0_facts)
qed

text \<open>
  C20. \<open>binit\<close> on a zeroed cache returns, the \<open>next\<close> and \<open>prev\<close> pointers thread one list through all
  \<open>NBUF\<close> buffers, and the invariant of the cache holds; only the locks and buffers changed.
\<close>

theorem binit_establishes_inv:
  assumes "\<forall>i<NBUF. b_dev (bufs s i) = 0 \<and> b_refcnt (bufs s i) = 0 \<and> length (b_data (bufs s i)) = BSIZE"
    and "\<forall>b. length (disk s b) = BSIZE"
  shows "\<exists>t. binit s = Ret () t \<and> ring (bufs t) (rev [0..<NBUF]) \<and> bio_inv t \<and>
    t = s\<lparr>locks := locks t, sleeps := sleeps t, bufs := bufs t\<rparr>"
  using binit_ok [OF assms] by blast

theorem binit_establishes_inv_witness: "\<exists>t :: bio_state. binit bio0 = Ret () t \<and> bio_inv t"
  using binit_establishes_inv [of bio0] by (auto simp: bio0_facts buf_blank_def)

text \<open>
  C21. \<open>bread\<close> of a block that nobody has locked, when the block is cached or some buffer is unused,
  returns a buffer that the process now holds, with the block's current contents; the contents of
  every block, cached or on disk, stay as they were, and the block has one more reference.
\<close>

theorem bread_returns_block:
  assumes "bio_ok s" "a_avail (cache_of s) b"
  shows "\<exists>i t. bread ROOTDEV b s = Ret i t \<and> bio_ok t \<and> bframe s t \<and> hold t i b \<and>
    b_data (bufs t i) = view s b \<and> view t = view s \<and> disk t = disk s \<and>
    refs t = (refs s)(b := refs s b + 1)"
proof -
  obtain i t where t: "bread ROOTDEV b s = Ret i t" "bio_ok t" "bframe s t" "hold t i b"
    "cache_of t = a_read b (cache_of s)" using bc.rd_law [OF assms] by blast
  then show ?thesis using hold_facts(8) [OF t(2,4)] by (auto simp: cache_of_def a_read_def)
qed

theorem bread_returns_block_witness:
  "\<exists>(s :: bio_state) i t. bio_ok s \<and> bread ROOTDEV 7 s = Ret i t \<and> b_data (bufs t i) = replicate BSIZE 0"
proof -
  obtain s :: bio_state where s: "bio_ok s" "\<forall>b. a_avail (cache_of s) b" "disk s = disk bio0"
    "\<forall>b. slot s b = None" using binit_bio0 by metis
  then have "view s 7 = replicate BSIZE 0" by (simp add: view_def bio0_facts)
  then show ?thesis using bread_returns_block [OF s(1), of 7] s(1,2) by metis
qed

text \<open>
  C22. When no buffer caches the block and every buffer is referenced, \<open>bread\<close> ends in
  \<open>panic("bget: no buffers")\<close>.
\<close>

theorem bread_no_buffers:
  assumes "bio_ok s" "slot s b = None" "\<forall>i<NBUF. b_refcnt (bufs s i) \<noteq> 0"
  shows "bread ROOTDEV b s = Panic ''bget: no buffers''"
  by (rule bread_full [OF assms])

text \<open>A cache in which every buffer is referenced.\<close>

definition crowd :: "'z bio_state_scheme \<Rightarrow> 'z bio_state_scheme" where
  "crowd s = s\<lparr>bufs := (\<lambda>i. if i < NBUF then (bufs s i)\<lparr>b_dev := ROOTDEV, b_blockno := of_nat i, b_refcnt := 1\<rparr>
     else bufs s i)\<rparr>"

lemma NBUF_30: "NBUF = 30"
  by (simp add: NBUF_def MAXOPBLOCKS_def)

lemma crowd_ok:
  assumes "bio_ok s"
  shows "bio_ok (crowd s)" "slot (crowd s) 99 = None" "\<forall>i<NBUF. b_refcnt (bufs (crowd s) i) \<noteq> 0"
proof -
  have n: "(of_nat i :: uint) = of_nat j \<longleftrightarrow> i = j" if "i < NBUF" "j < NBUF" for i j
    using that by (simp add: NBUF_30 word_unat_eq_iff unat_of_nat)
  have u: "bufs_unique (bufs (crowd s))" using n by (simp add: bufs_unique_def crowd_def)
  have "ring (bufs (crowd s)) xs = ring (bufs s) xs" for xs by (rule ring_cong) (simp_all add: crowd_def)
  moreover have "buf_ok (crowd s) i" if "i < NBUF" for i
    using assms that by (simp add: bio_ok_def bio_inv_def buf_ok_def crowd_def)
  ultimately have "bio_inv (crowd s)" using assms u by (simp add: bio_ok_def bio_inv_def) (simp add: crowd_def)
  moreover have "bio_ready (crowd s)" using assms by (simp add: bio_ok_def bio_ready_def crowd_def state_simps)
  ultimately show "bio_ok (crowd s)" by (simp add: bio_ok_def)
  have "(of_nat i :: uint) \<noteq> 99" if "i < NBUF" for i
    using that by (simp add: NBUF_30 word_unat_eq_iff unat_of_nat)
  then show "slot (crowd s) 99 = None" by (simp add: slot_none crowd_def)
  show "\<forall>i<NBUF. b_refcnt (bufs (crowd s) i) \<noteq> 0" by (simp add: crowd_def)
qed

theorem bread_no_buffers_witness:
  "\<exists>s :: bio_state. bio_ok s \<and> bread ROOTDEV 99 s = Panic ''bget: no buffers''"
proof -
  obtain s :: bio_state where "bio_ok s" using binit_bio0 by metis
  then show ?thesis using bread_no_buffers [OF crowd_ok] crowd_ok(1) by blast
qed

text \<open>
  C23. A block written through the cache is on disk and is what the next reader gets: after \<open>bread\<close>,
  a change of the buffer to \<open>d\<close>, \<open>bwrite\<close> and \<open>brelse\<close>, the disk block is \<open>d\<close>, it is the only disk
  block written, and \<open>bread\<close> returns \<open>d\<close>.
\<close>

theorem cache_write_read:
  assumes "bio_ok s" "a_avail (cache_of s) b" "length d = BSIZE"
  shows "\<exists>t i u. bnd (bread ROOTDEV b) (\<lambda>i. thn (set_data i d) (thn (bwrite i) (brelse i))) s = Ret () t \<and>
    bio_ok t \<and> disk t = (disk s)(b := d) \<and> dtrace t = dtrace s @ [(b, d)] \<and>
    bread ROOTDEV b t = Ret i u \<and> b_data (bufs u i) = d"
proof -
  obtain t where t: "bnd (bread ROOTDEV b) (\<lambda>i. bnd (get_data i) (\<lambda>_.
      thn (set_data i d) (thn (bwrite i) (brelse i)))) s = Ret () t" "bio_ok t"
    "cache_of t = a_store b d (cache_of s)"
    using bc.update_block [OF assms(1,2), of "\<lambda>_. d"] assms(3) by auto
  have g: "bnd (get_data i) (\<lambda>_. m) = m" for i and m :: "(unit, 'a bio_state_scheme) kop"
    by (rule ext) (simp add: kop_simps)
  have "a_avail (cache_of t) b" using assms(2) by (simp add: t(3) a_avail_def a_store_def)
  then obtain i u where u: "bread ROOTDEV b t = Ret i u" "bio_ok u" "hold u i b"
    "cache_of u = a_read b (cache_of t)" using bc.rd_law [OF t(2)] by blast
  have "b_data (bufs u i) = c_view (cache_of u) b" using hold_facts(8) [OF u(2,3)] by (simp add: cache_of_def)
  then have "b_data (bufs u i) = d" by (simp add: u(4) t(3) a_read_def a_store_def)
  moreover have "disk t = (disk s)(b := d)" "dtrace t = dtrace s @ [(b, d)]"
    using t(3) by (simp_all add: cache_of_def a_store_def)
  ultimately show ?thesis using t(1,2) u(1) by (auto simp: g)
qed

theorem cache_write_read_witness:
  "\<exists>(s :: bio_state) t. bio_ok s \<and> bnd (bread ROOTDEV 5) (\<lambda>i. thn (set_data i (replicate BSIZE 9))
     (thn (bwrite i) (brelse i))) s = Ret () t \<and> disk t 5 = replicate BSIZE 9"
proof -
  obtain s :: bio_state where s: "bio_ok s" "\<forall>b. a_avail (cache_of s) b" using binit_bio0 by metis
  then show ?thesis using cache_write_read [OF s(1), of 5 "replicate BSIZE 9"] by fastforce
qed

text \<open>
  C24. Recycling is least recently used: \<open>brelse\<close> of the last reference moves the buffer to the front
  of the list, and \<open>bread\<close> of a block that is not cached takes the unreferenced buffer nearest to the
  end of the list.
\<close>

theorem brelse_lru:
  assumes "bio_ok s" "ring (bufs s) (xs @ i # ys)"
  shows "(hold s i b \<and> refs s b = 1 \<longrightarrow> (\<exists>t. brelse i s = Ret () t \<and> ring (bufs t) (i # xs @ ys))) \<and>
    (slot s b = None \<and> b_refcnt (bufs s i) = 0 \<and> (\<forall>j\<in>set ys. b_refcnt (bufs s j) \<noteq> 0) \<longrightarrow>
      (\<exists>t. bread ROOTDEV b s = Ret i t))"
proof (intro conjI impI; elim conjE)
  assume h: "hold s i b" "refs s b = 1"
  have o: "b_refcnt (bufs s i) = 1"
    using h hold_facts(9) [OF assms(1) h(1)] by (simp add: word_unat_eq_iff)
  have "ring ((bufs s)(i := (bufs s i)\<lparr>b_refcnt := 0\<rparr>)) (xs @ i # ys)"
    using assms(2) ring_cong [of "(bufs s)(i := (bufs s i)\<lparr>b_refcnt := 0\<rparr>)" "bufs s"] by simp
  then have "ring (released s i) (i # xs @ ys)" using ring_to_front o by (simp add: released_def)
  then show "\<exists>t. brelse i s = Ret () t \<and> ring (bufs t) (i # xs @ ys)"
    using brelse_exec [OF assms(1) h(1)] by simp
next
  assume h: "slot s b = None" "b_refcnt (bufs s i) = 0" "\<forall>j\<in>set ys. b_refcnt (bufs s j) \<noteq> 0"
  have "find (\<lambda>i. b_refcnt (bufs s i) = 0) (rev (xs @ i # ys)) = Some i"
    using h(2,3) find_append_none [of "rev ys"] by simp
  then show "\<exists>t. bread ROOTDEV b s = Ret i t"
    using bget_miss_at [OF assms h(1)] by (simp add: bread_def disk_rw_def kop_simps recycled_def)
qed

theorem brelse_lru_witness:
  "\<exists>(s :: bio_state) t u xs ys. bio_ok s \<and> bread ROOTDEV 3 s = Ret 0 t \<and> ring (bufs t) (xs @ 0 # ys) \<and>
     brelse 0 t = Ret () u \<and> ring (bufs u) (0 # xs @ ys)"
proof -
  obtain s :: bio_state where s: "bio_ok s" "\<forall>b. a_avail (cache_of s) b" "\<forall>b. slot s b = None"
    "ring (bufs s) (rev [0..<NBUF])" "\<forall>i<NBUF. b_refcnt (bufs s i) = 0" using binit_bio0 by metis
  have r: "rev [0..<NBUF] = rev [1..<NBUF] @ 0 # []" by (simp add: NBUF_30 upt_conv_Cons)
  have z: "b_refcnt (bufs s 0) = 0" using s(5) by (simp add: NBUF_30)
  obtain i t where t: "bread ROOTDEV 3 s = Ret i t" "bio_ok t" "hold t i 3" "cache_of t = a_read 3 (cache_of s)"
    using bc.rd_law [OF s(1) s(2) [rule_format]] by blast
  have i: "i = 0" using brelse_lru [OF s(1) s(4) [unfolded r], of 3] s(3) z t(1) by auto
  have "refs s 3 = 0" using s(3) by (simp add: refs_def)
  then have r1: "refs t 3 = 1" using arg_cong [OF t(4), of "\<lambda>a. c_refs a 3"] by (simp add: cache_of_def a_read_def)
  obtain zs where zs: "ring (bufs t) zs" using t(2) by (auto simp: bio_ok_def bio_inv_def)
  have "0 \<in> set zs" using zs by (simp add: ring_def NBUF_30)
  then obtain xs ys where "zs = xs @ 0 # ys" by (auto dest: split_list)
  then show ?thesis using brelse_lru [OF t(2), of xs 0 ys 3] zs t(1,3) r1 s(1) unfolding i by blast
qed

end
