(* ===== verification/Blockdata.thy ===== *)
theory Blockdata
  imports Memory
begin

text \<open>
  Structures laid out in a disk block.  The code casts \<open>b->data\<close> to a pointer to a structure and
  reads or assigns its fields; here a field is a slice of the block's bytes at its offset, read and
  written in little-endian order.
\<close>

definition slice :: "nat \<Rightarrow> nat \<Rightarrow> 'a list \<Rightarrow> 'a list" where
  "slice off n d = take n (drop off d)"

definition splice :: "nat \<Rightarrow> 'a list \<Rightarrow> 'a list \<Rightarrow> 'a list" where
  "splice off bs d = take off d @ bs @ drop (off + length bs) d"

definition get16 :: "nat \<Rightarrow> uint8 list \<Rightarrow> uint16" where
  "get16 off d = le_word (slice off 2 d)"

definition put16 :: "nat \<Rightarrow> uint16 \<Rightarrow> uint8 list \<Rightarrow> uint8 list" where
  "put16 off v d = splice off (le_bytes 2 v) d"

definition get32 :: "nat \<Rightarrow> uint8 list \<Rightarrow> uint32" where
  "get32 off d = le_word (slice off 4 d)"

definition put32 :: "nat \<Rightarrow> uint32 \<Rightarrow> uint8 list \<Rightarrow> uint8 list" where
  "put32 off v d = splice off (le_bytes 4 v) d"

lemma length_slice [simp]: "off + n \<le> length d \<Longrightarrow> length (slice off n d) = n"
  by (simp add: slice_def)

lemma length_splice [simp]: "off + length bs \<le> length d \<Longrightarrow> length (splice off bs d) = length d"
  by (simp add: splice_def)

lemma nth_slice: "i < n \<Longrightarrow> off + n \<le> length d \<Longrightarrow> slice off n d ! i = d ! (off + i)"
  by (simp add: slice_def)

lemma nth_splice:
  assumes "off + length bs \<le> length d" "i < length d"
  shows "splice off bs d ! i = (if off \<le> i \<and> i < off + length bs then bs ! (i - off) else d ! i)"
  using assms by (auto simp: splice_def nth_append min_def)

lemma slice_splice_same: "off + length bs \<le> length d \<Longrightarrow> slice off (length bs) (splice off bs d) = bs"
  by (simp add: slice_def splice_def min_def)

lemma slice_splice_other:
  assumes "off + length bs \<le> length d" "a + n \<le> length d" "a + n \<le> off \<or> off + length bs \<le> a"
  shows "slice a n (splice off bs d) = slice a n d"
proof (rule nth_equalityI)
  show "length (slice a n (splice off bs d)) = length (slice a n d)" using assms by simp
  fix i assume "i < length (slice a n (splice off bs d))"
  then have "i < n" using assms by simp
  then show "slice a n (splice off bs d) ! i = slice a n d ! i"
    using assms by (simp add: nth_slice nth_splice) (metis add.commute le_add2 le_trans less_le_trans nat_add_left_cancel_less not_less)
qed

lemma slice_splice_inside:
  assumes "off + length bs \<le> length d" "off \<le> a" "a + n \<le> off + length bs"
  shows "slice a n (splice off bs d) = slice (a - off) n bs"
proof (rule nth_equalityI)
  show "length (slice a n (splice off bs d)) = length (slice (a - off) n bs)" using assms by simp
  fix i assume "i < length (slice a n (splice off bs d))"
  then show "slice a n (splice off bs d) ! i = slice (a - off) n bs ! i"
    using assms by (simp add: nth_slice nth_splice)
qed

lemma splice_slice: "off + n \<le> length d \<Longrightarrow> splice off (slice off n d) d = d"
  by (rule nth_equalityI) (auto simp: nth_splice nth_slice)

lemma splice_twice:
  assumes "off + length bs \<le> length d" "length cs = length bs"
  shows "splice off cs (splice off bs d) = splice off cs d"
  using assms by (intro nth_equalityI) (auto simp: nth_splice)

lemma length_put [simp]:
  "off + 2 \<le> length d \<Longrightarrow> length (put16 off h d) = length d"
  "off + 4 \<le> length d \<Longrightarrow> length (put32 off w d) = length d"
  by (simp_all add: put16_def put32_def)

lemma get_put_same [simp]:
  "off + 2 \<le> length d \<Longrightarrow> get16 off (put16 off h d) = h"
  "off + 4 \<le> length d \<Longrightarrow> get32 off (put32 off w d) = w"
  using slice_splice_same [of off "le_bytes 2 h" d] slice_splice_same [of off "le_bytes 4 w" d]
  by (simp_all add: get16_def put16_def get32_def put32_def le_word_bytes)

lemma get_put_other:
  "off + 2 \<le> length d \<Longrightarrow> a + 2 \<le> length d \<Longrightarrow> a + 2 \<le> off \<or> off + 2 \<le> a \<Longrightarrow> get16 a (put16 off h d) = get16 a d"
  "off + 4 \<le> length d \<Longrightarrow> a + 4 \<le> length d \<Longrightarrow> a + 4 \<le> off \<or> off + 4 \<le> a \<Longrightarrow> get32 a (put32 off w d) = get32 a d"
  "off + 4 \<le> length d \<Longrightarrow> a + 2 \<le> length d \<Longrightarrow> a + 2 \<le> off \<or> off + 4 \<le> a \<Longrightarrow> get16 a (put32 off w d) = get16 a d"
  "off + 2 \<le> length d \<Longrightarrow> a + 4 \<le> length d \<Longrightarrow> a + 4 \<le> off \<or> off + 2 \<le> a \<Longrightarrow> get32 a (put16 off h d) = get32 a d"
  by (simp_all add: get16_def put16_def get32_def put32_def slice_splice_other)

end
