(* ===== verification/Log.thy ===== *)
theory Log
  imports Bcache Blockdata
begin

text \<open>
  \<open>kernel/log.c\<close>: the redo log of the file system.  \<open>int\<close> fields are integers; a block number in the
  log header, an \<open>int\<close> in the code that is only ever converted from and to \<open>uint\<close>, is kept as its 32
  bits.  The header block holds the count at byte 0 and block number \<open>i\<close> at byte \<open>4 + 4 * i\<close>.  The
  array \<open>block\<close> has \<open>LOGSIZE\<close> entries; the theorems are about headers whose count is less than that, as
  \<open>log_write\<close> keeps it.
\<close>

section \<open>State\<close>

record superblock =
  sb_magic :: uint
  sb_size :: uint
  sb_nblocks :: uint
  sb_ninodes :: uint
  sb_nlog :: uint
  sb_logstart :: uint
  sb_inodestart :: uint
  sb_bmapstart :: uint

record logheader =
  lh_n :: int
  lh_block :: "nat \<Rightarrow> uint"

record log =
  l_start :: int
  l_size :: int
  l_outstanding :: int
  l_committing :: int
  l_dev :: int
  l_lh :: logheader

record log_state = bio_state +
  logs :: log

lemma log_upd_order [upd_order]:
  "mem_update f_mem (logs_update g_logs r) = logs_update g_logs (mem_update f_mem r)"
  "tp_update f_tp (logs_update g_logs r) = logs_update g_logs (tp_update f_tp r)"
  "sstatus_update f_sstatus (logs_update g_logs r) = logs_update g_logs (sstatus_update f_sstatus r)"
  "cpus_update f_cpus (logs_update g_logs r) = logs_update g_logs (cpus_update f_cpus r)"
  "locks_update f_locks (logs_update g_logs r) = logs_update g_logs (locks_update f_locks r)"
  "kend_update f_kend (logs_update g_logs r) = logs_update g_logs (kend_update f_kend r)"
  "freelist_update f_freelist (logs_update g_logs r) = logs_update g_logs (freelist_update f_freelist r)"
  "etext_update f_etext (logs_update g_logs r) = logs_update g_logs (etext_update f_etext r)"
  "trampoline_update f_trampoline (logs_update g_logs r) = logs_update g_logs (trampoline_update f_trampoline r)"
  "kernel_pagetable_update f_kernel_pagetable (logs_update g_logs r) = logs_update g_logs (kernel_pagetable_update f_kernel_pagetable r)"
  "satp_update f_satp (logs_update g_logs r) = logs_update g_logs (satp_update f_satp r)"
  "procs_update f_procs (logs_update g_logs r) = logs_update g_logs (procs_update f_procs r)"
  "initproc_update f_initproc (logs_update g_logs r) = logs_update g_logs (initproc_update f_initproc r)"
  "nextpid_update f_nextpid (logs_update g_logs r) = logs_update g_logs (nextpid_update f_nextpid r)"
  "forkret_sym_update f_forkret_sym (logs_update g_logs r) = logs_update g_logs (forkret_sym_update f_forkret_sym r)"
  "sleeps_update f_sleeps (logs_update g_logs r) = logs_update g_logs (sleeps_update f_sleeps r)"
  "bufs_update f_bufs (logs_update g_logs r) = logs_update g_logs (bufs_update f_bufs r)"
  "disk_update f_disk (logs_update g_logs r) = logs_update g_logs (disk_update f_disk r)"
  "dtrace_update f_dtrace (logs_update g_logs r) = logs_update g_logs (dtrace_update f_dtrace r)"
  by simp_all

lemma log_state_simps [state_simps]:
  "logs (acq lk s) = logs s"
  "acq lk (logs_update f_logs s) = logs_update f_logs (acq lk s)"
  "logs (rel lk s) = logs s"
  "rel lk (logs_update f_logs s) = logs_update f_logs (rel lk s)"
  "logs (tch s) = logs s"
  "tch (logs_update f_logs s) = logs_update f_logs (tch s)"
  "free_lk lk (logs_update f_logs s) = free_lk lk s"
  "held_lk lk (logs_update f_logs s) = held_lk lk s"
  "in_cs (logs_update f_logs s) = in_cs s"
  "irq_ok (logs_update f_logs s) = irq_ok s"
  "intr_get (logs_update f_logs s) = intr_get s"
  "cpuid (logs_update f_logs s) = cpuid s"
  "mycpu (logs_update f_logs s) = mycpu s"
  by (simp_all add: in_cs_def lock_defs upd_order)

definition set_log :: "(log \<Rightarrow> log) \<Rightarrow> (unit, 'z log_state_scheme) kop" where
  "set_log f = modify (\<lambda>s. s\<lparr>logs := f (logs s)\<rparr>)"

definition get_log :: "(log, 'z log_state_scheme) kop" where
  "get_log = gets logs"

lemma log_ops [kop_simps]:
  "set_log f s = Ret () (s\<lparr>logs := f (logs s)\<rparr>)"
  "get_log s = Ret (logs s) s"
  by (simp_all add: set_log_def get_log_def kop_simps)

section \<open>The header block\<close>

definition logheader_size :: nat where "logheader_size = 4 + 4 * LOGSIZE"

definition hdr_n :: "uint8 list \<Rightarrow> int" where
  "hdr_n d = sint (get32 0 d)"

definition hdr_block :: "uint8 list \<Rightarrow> nat \<Rightarrow> uint" where
  "hdr_block d i = get32 (4 + 4 * i) d"

definition write_hdr :: "logheader \<Rightarrow> uint8 list \<Rightarrow> uint8 list" where
  "write_hdr lh d = fold (\<lambda>i. put32 (4 + 4 * i) (lh_block lh i)) [0..<nat (lh_n lh)]
     (put32 0 (word_of_int (lh_n lh)) d)"

definition read_hdr :: "uint8 list \<Rightarrow> logheader \<Rightarrow> logheader" where
  "read_hdr d lh = fold (\<lambda>i lh. lh\<lparr>lh_block := (lh_block lh)(i := hdr_block d i)\<rparr>) [0..<nat (hdr_n d)]
     (lh\<lparr>lh_n := hdr_n d\<rparr>)"

section \<open>Operations\<close>

definition log_blockno :: "log \<Rightarrow> nat \<Rightarrow> uint" where
  "log_blockno l tail = word_of_int (l_start l + int tail + 1)"

definition install_one :: "int \<Rightarrow> nat \<Rightarrow> (unit, 'z log_state_scheme) kop" where
  "install_one recovering tail =
     bnd get_log (\<lambda>l.
     bnd (bread (word_of_int (l_dev l)) (log_blockno l tail)) (\<lambda>lbuf.
     bnd get_log (\<lambda>l.
     bnd (bread (word_of_int (l_dev l)) (lh_block (l_lh l) tail)) (\<lambda>dbuf.
     bnd (get_data lbuf) (\<lambda>d.
     thn (set_data dbuf d)
    (thn (bwrite dbuf)
    (thn (whenk (recovering = 0) (bunpin dbuf))
    (thn (brelse lbuf)
         (brelse dbuf)))))))))"

definition install_trans :: "int \<Rightarrow> (unit, 'z log_state_scheme) kop" where
  "install_trans recovering =
     bnd get_log (\<lambda>l. for_each [0..<nat (lh_n (l_lh l))] (install_one recovering))"

definition read_head :: "(unit, 'z log_state_scheme) kop" where
  "read_head =
     bnd get_log (\<lambda>l.
     bnd (bread (word_of_int (l_dev l)) (word_of_int (l_start l))) (\<lambda>b.
     bnd (get_data b) (\<lambda>d.
     thn (set_log (\<lambda>l. l\<lparr>l_lh := read_hdr d (l_lh l)\<rparr>))
         (brelse b))))"

definition write_head :: "(unit, 'z log_state_scheme) kop" where
  "write_head =
     bnd get_log (\<lambda>l.
     bnd (bread (word_of_int (l_dev l)) (word_of_int (l_start l))) (\<lambda>b.
     bnd (get_data b) (\<lambda>d.
     thn (set_data b (write_hdr (l_lh l) d))
    (thn (bwrite b)
         (brelse b)))))"

definition recover_from_log :: "(unit, 'z log_state_scheme) kop" where
  "recover_from_log =
     thn read_head
    (thn (install_trans 1)
    (thn (set_log (\<lambda>l. l\<lparr>l_lh := (l_lh l)\<lparr>lh_n := 0\<rparr>\<rparr>))
         write_head))"

definition initlog :: "int \<Rightarrow> superblock \<Rightarrow> (unit, 'z log_state_scheme) kop" where
  "initlog dev sb =
     (if logheader_size \<ge> BSIZE then panic ''initlog: too big logheader'' else
     thn (initlock LogLock ''log'')
    (thn (set_log (\<lambda>l. l\<lparr>l_start := sint (sb_logstart sb)\<rparr>))
    (thn (set_log (\<lambda>l. l\<lparr>l_size := sint (sb_nlog sb)\<rparr>))
    (thn (set_log (\<lambda>l. l\<lparr>l_dev := dev\<rparr>))
         recover_from_log))))"

primrec begin_op_loop :: "nat \<Rightarrow> (unit, 'z log_state_scheme) kop" where
  "begin_op_loop 0 = spin"
| "begin_op_loop (Suc n) =
     bnd get_log (\<lambda>l.
     if l_committing l \<noteq> 0 then thn (sleep ChLog LogLock) (begin_op_loop n)
     else if lh_n (l_lh l) + (l_outstanding l + 1) * int MAXOPBLOCKS > int LOGSIZE then
       thn (sleep ChLog LogLock) (begin_op_loop n)
     else
       thn (set_log (\<lambda>l. l\<lparr>l_outstanding := l_outstanding l + 1\<rparr>))
           (release LogLock))"

definition begin_op :: "(unit, 'z log_state_scheme) kop" where
  "begin_op = thn (acquire LogLock) (begin_op_loop WAITS)"

definition write_one :: "nat \<Rightarrow> (unit, 'z log_state_scheme) kop" where
  "write_one tail =
     bnd get_log (\<lambda>l.
     bnd (bread (word_of_int (l_dev l)) (log_blockno l tail)) (\<lambda>to.
     bnd get_log (\<lambda>l.
     bnd (bread (word_of_int (l_dev l)) (lh_block (l_lh l) tail)) (\<lambda>from.
     bnd (get_data from) (\<lambda>d.
     thn (set_data to d)
    (thn (bwrite to)
    (thn (brelse from)
         (brelse to))))))))"

definition write_log :: "(unit, 'z log_state_scheme) kop" where
  "write_log = bnd get_log (\<lambda>l. for_each [0..<nat (lh_n (l_lh l))] write_one)"

definition commit :: "(unit, 'z log_state_scheme) kop" where
  "commit =
     bnd get_log (\<lambda>l.
     whenk (lh_n (l_lh l) > 0)
      (thn write_log
      (thn write_head
      (thn (install_trans 0)
      (thn (set_log (\<lambda>l. l\<lparr>l_lh := (l_lh l)\<lparr>lh_n := 0\<rparr>\<rparr>))
           write_head)))))"

definition end_op :: "(unit, 'z log_state_scheme) kop" where
  "end_op =
     thn (acquire LogLock)
    (thn (set_log (\<lambda>l. l\<lparr>l_outstanding := l_outstanding l - 1\<rparr>))
    (bnd get_log (\<lambda>l.
     if l_committing l \<noteq> 0 then panic ''log.committing'' else
     bnd (if l_outstanding l = 0 then
            thn (set_log (\<lambda>l. l\<lparr>l_committing := 1\<rparr>)) (ret True)
          else thn (wakeup (Some ChLog)) (ret False)) (\<lambda>do_commit.
     thn (release LogLock)
         (whenk do_commit
           (thn commit
           (thn (acquire LogLock)
           (thn (set_log (\<lambda>l. l\<lparr>l_committing := 0\<rparr>))
           (thn (wakeup (Some ChLog))
                (release LogLock))))))))))"

text \<open>The index at which \<open>log_write\<close> leaves its search: that of the block, or the count.\<close>

fun log_find :: "nat list \<Rightarrow> logheader \<Rightarrow> uint \<Rightarrow> nat" where
  "log_find [] lh b = nat (lh_n lh)"
| "log_find (i # is) lh b = (if lh_block lh i = b then i else log_find is lh b)"

definition log_write :: "nat \<Rightarrow> (unit, 'z log_state_scheme) kop" where
  "log_write b =
     thn (acquire LogLock)
    (bnd get_log (\<lambda>l.
     let n = lh_n (l_lh l) in
     if n \<ge> int LOGSIZE \<or> n \<ge> l_size l - 1 then panic ''too big a transaction'' else
     if l_outstanding l < 1 then panic ''log_write outside of trans'' else
     bnd (get_buf b) (\<lambda>q.
     let i = log_find [0..<nat n] (l_lh l) (b_blockno q) in
     thn (set_log (\<lambda>l. l\<lparr>l_lh := (l_lh l)\<lparr>lh_block := (lh_block (l_lh l))(i := b_blockno q)\<rparr>\<rparr>))
    (thn (whenk (int i = n)
           (thn (bpin b)
                (set_log (\<lambda>l. l\<lparr>l_lh := (l_lh l)\<lparr>lh_n := lh_n (l_lh l) + 1\<rparr>\<rparr>))))
         (release LogLock)))))"

end
