(* ===== verification/Logcrash.thy ===== *)
theory Logcrash
  imports Log
begin

text \<open>
  Correctness of the log: what \<open>commit\<close> and recovery do to the disk, and that a crash at any point
  of a commit, followed by any number of interrupted recoveries, leaves either all or none of the
  transaction.  The first half is about disks alone: a disk is a map from block numbers to blocks
  and a run of the system is the list of its block writes.  The second half shows that \<open>commit\<close> and
  \<open>initlog\<close> perform exactly these writes, through the contract of the buffer cache.
\<close>

section \<open>Header blocks\<close>

lemma LOGSIZE_30: "LOGSIZE = 30"
  by (simp add: LOGSIZE_def MAXOPBLOCKS_def)

lemma write_hdr_fold:
  assumes "m \<le> LOGSIZE" "length d = BSIZE"
  shows "length (fold (\<lambda>i. put32 (4 + 4 * i) (bl i)) [0..<m] d) = BSIZE"
    "get32 0 (fold (\<lambda>i. put32 (4 + 4 * i) (bl i)) [0..<m] d) = get32 0 d"
    "j < LOGSIZE \<Longrightarrow> get32 (4 + 4 * j) (fold (\<lambda>i. put32 (4 + 4 * i) (bl i)) [0..<m] d) =
       (if j < m then bl j else get32 (4 + 4 * j) d)"
  using assms(1)
proof (induction m)
  case 0
  { case 1 then show ?case using assms(2) by simp }
  { case 2 then show ?case by simp }
  { case 3 then show ?case by simp }
next
  case (Suc m)
  let ?d = "fold (\<lambda>i. put32 (4 + 4 * i) (bl i)) [0..<m] d"
  have b: "4 + 4 * m + 4 \<le> BSIZE" if "m < LOGSIZE" for m using that by (simp add: LOGSIZE_30 BSIZE_def)
  { case 1 then show ?case using Suc.IH(1) b [of m] by simp }
  { case 2
    then show ?case using Suc.IH(1,2) b [of m] by (simp add: get_put_other) }
  { case 3
    then show ?case using Suc.IH(1,3) b [of m] b [of j]
      by (cases "j = m") (auto simp: get_put_other less_Suc_eq) }
qed

lemma sint_small: "0 \<le> n \<Longrightarrow> n \<le> int LOGSIZE \<Longrightarrow> sint (word_of_int n :: uint) = n"
  by (simp add: LOGSIZE_30 signed_of_int signed_take_bit_int_eq_self)

lemma write_hdr_facts:
  assumes "0 \<le> lh_n lh" "lh_n lh \<le> int LOGSIZE" "length d = BSIZE"
  shows "length (write_hdr lh d) = BSIZE" "hdr_n (write_hdr lh d) = lh_n lh"
    "i < nat (lh_n lh) \<Longrightarrow> hdr_block (write_hdr lh d) i = lh_block lh i"
proof -
  have m: "nat (lh_n lh) \<le> LOGSIZE" using assms by simp
  have l: "length (put32 0 (word_of_int (lh_n lh)) d) = BSIZE" using assms(3) by (simp add: BSIZE_def)
  note f = write_hdr_fold [OF m l]
  show "length (write_hdr lh d) = BSIZE" using f(1) by (simp add: write_hdr_def)
  show "hdr_n (write_hdr lh d) = lh_n lh"
    using f(2) assms sint_small [OF assms(1,2)] by (simp add: write_hdr_def hdr_n_def BSIZE_def)
  show "i < nat (lh_n lh) \<Longrightarrow> hdr_block (write_hdr lh d) i = lh_block lh i"
    using f(3) m by (simp add: write_hdr_def hdr_block_def)
qed

lemma read_hdr_fold:
  "lh_n (fold (\<lambda>i lh. lh\<lparr>lh_block := (lh_block lh)(i := bl i)\<rparr>) is lh) = lh_n lh"
  "lh_block (fold (\<lambda>i lh. lh\<lparr>lh_block := (lh_block lh)(i := bl i)\<rparr>) is lh) j =
     (if j \<in> set is then bl j else lh_block lh j)"
  by (induction "is" arbitrary: lh) auto

lemma read_hdr_facts:
  "lh_n (read_hdr d lh) = hdr_n d"
  "i < nat (hdr_n d) \<Longrightarrow> lh_block (read_hdr d lh) i = hdr_block d i"
  by (simp_all add: read_hdr_def read_hdr_fold)

section \<open>Commits and crashes on a disk\<close>

type_synonym diskmap = "uint \<Rightarrow> uint8 list"
type_synonym writes = "(uint \<times> uint8 list) list"

definition apply_writes :: "writes \<Rightarrow> diskmap \<Rightarrow> diskmap" where
  "apply_writes ws D = fold (\<lambda>(b, d) D. D(b := d)) ws D"

text \<open>
  The log starts at block \<open>st\<close>; log block \<open>i\<close> follows the header. \<open>mkfs\<close> gives the log \<open>LOGSIZE\<close> blocks with
  the header among them, and \<open>log_write\<close> accepts no block when \<open>log.size - 1\<close> are logged, so a header
  names at most \<open>LOGSIZE - 1\<close> blocks.
\<close>

definition log_blk :: "uint \<Rightarrow> nat \<Rightarrow> uint" where
  "log_blk st i = st + of_nat i + 1"

definition log_area :: "uint \<Rightarrow> uint set" where
  "log_area st = insert st (log_blk st ` {..<LOGSIZE - 1})"

text \<open>The writes of a commit of the blocks \<open>hs\<close> with contents \<open>V\<close>, and those of a recovery.\<close>

definition commit_writes :: "uint \<Rightarrow> diskmap \<Rightarrow> diskmap \<Rightarrow> logheader \<Rightarrow> writes" where
  "commit_writes st D V lh =
     (let n = nat (lh_n lh) in
      map (\<lambda>i. (log_blk st i, V (lh_block lh i))) [0..<n] @
      [(st, write_hdr lh (D st))] @
      map (\<lambda>i. (lh_block lh i, V (lh_block lh i))) [0..<n] @
      [(st, write_hdr (lh\<lparr>lh_n := 0\<rparr>) (write_hdr lh (D st)))])"

definition recover_writes :: "uint \<Rightarrow> diskmap \<Rightarrow> writes" where
  "recover_writes st D =
     map (\<lambda>i. (hdr_block (D st) i, D (log_blk st i))) [0..<nat (hdr_n (D st))] @ [(st, put32 0 0 (D st))]"

definition recovered :: "uint \<Rightarrow> diskmap \<Rightarrow> diskmap" where
  "recovered st D = apply_writes (recover_writes st D) D"

text \<open>Recoveries that crash after \<open>j\<close> of their writes, one after the other.\<close>

definition crashed_recoveries :: "uint \<Rightarrow> nat list \<Rightarrow> diskmap \<Rightarrow> diskmap" where
  "crashed_recoveries st js D = fold (\<lambda>j D. apply_writes (take j (recover_writes st D)) D) js D"

lemma apply_writes_simps [simp]:
  "apply_writes [] D = D"
  "apply_writes ((b, d) # ws) D = apply_writes ws (D(b := d))"
  "apply_writes (ws @ vs) D = apply_writes vs (apply_writes ws D)"
  by (simp_all add: apply_writes_def)

lemma apply_writes_notin: "b \<notin> fst ` set ws \<Longrightarrow> apply_writes ws D b = D b"
  by (induction ws arbitrary: D) auto

text \<open>A map of writes whose value depends only on the block written.\<close>

lemma apply_writes_fun:
  assumes "\<And>i. i \<in> set is \<Longrightarrow> g i = V (f i)"
  shows "apply_writes (map (\<lambda>i. (f i, g i)) is) D b = (if b \<in> f ` set is then V b else D b)"
  using assms by (induction "is" arbitrary: D) auto

lemma log_blk_inj: "i < LOGSIZE \<Longrightarrow> j < LOGSIZE \<Longrightarrow> log_blk st i = log_blk st j \<longleftrightarrow> i = j"
proof -
  assume "i < LOGSIZE" "j < LOGSIZE"
  then have "unat (of_nat i :: uint) = i" "unat (of_nat j :: uint) = j" by (simp_all add: LOGSIZE_30 unat_of_nat)
  then show ?thesis by (simp add: log_blk_def) metis
qed

lemma log_blk_ne: "i < LOGSIZE \<Longrightarrow> log_blk st i \<noteq> st"
proof
  assume i: "i < LOGSIZE" and "log_blk st i = st"
  then have "of_nat (Suc i) = (0 :: uint)" by (simp add: log_blk_def add.commute)
  then have "unat (of_nat (Suc i) :: uint) = 0" by simp
  then show False using i by (simp add: LOGSIZE_30 unat_of_nat del: of_nat_Suc)
qed

text \<open>
  A transaction: the header \<open>lh\<close> names blocks outside the log, \<open>V\<close> has their new contents.  While it
  is committed the disk is in one of three conditions: the log is empty and the data is old, the log
  is complete, or the log is empty and the data is new.
\<close>

definition txn_ok :: "uint \<Rightarrow> logheader \<Rightarrow> bool" where
  "txn_ok st lh \<longleftrightarrow> 0 \<le> lh_n lh \<and> lh_n lh < int LOGSIZE \<and> (\<forall>i<nat (lh_n lh). lh_block lh i \<notin> log_area st)"

definition homes :: "logheader \<Rightarrow> uint set" where
  "homes lh = lh_block lh ` {..<nat (lh_n lh)}"

definition idle_disk :: "uint \<Rightarrow> diskmap \<Rightarrow> diskmap \<Rightarrow> bool" where
  "idle_disk st D D' \<longleftrightarrow> hdr_n (D' st) = 0 \<and> length (D' st) = BSIZE \<and> (\<forall>b. b \<notin> log_area st \<longrightarrow> D' b = D b)"

definition logged_disk :: "uint \<Rightarrow> diskmap \<Rightarrow> diskmap \<Rightarrow> logheader \<Rightarrow> diskmap \<Rightarrow> bool" where
  "logged_disk st D V lh D' \<longleftrightarrow> hdr_n (D' st) = lh_n lh \<and> length (D' st) = BSIZE \<and>
     (\<forall>i<nat (lh_n lh). hdr_block (D' st) i = lh_block lh i \<and> D' (log_blk st i) = V (lh_block lh i)) \<and>
     (\<forall>b. b \<notin> log_area st \<longrightarrow> b \<notin> homes lh \<longrightarrow> D' b = D b)"

definition new_data :: "diskmap \<Rightarrow> diskmap \<Rightarrow> logheader \<Rightarrow> diskmap" where
  "new_data D V lh b = (if b \<in> homes lh then V b else D b)"

lemma in_log_area: "st \<in> log_area st" "i < LOGSIZE - 1 \<Longrightarrow> log_blk st i \<in> log_area st"
  by (auto simp: log_area_def)

lemma hdr_clear: "length d = BSIZE \<Longrightarrow> hdr_n (put32 0 0 d) = 0 \<and> length (put32 0 0 d) = BSIZE"
  by (simp add: hdr_n_def BSIZE_def)

lemma idle_recovery:
  assumes "idle_disk st D D'"
  shows "idle_disk st D (apply_writes (take j (recover_writes st D')) D')"
proof -
  have w: "recover_writes st D' = [(st, put32 0 0 (D' st))]"
    using assms by (simp add: recover_writes_def idle_disk_def)
  have "take j (recover_writes st D') = [] \<or> take j (recover_writes st D') = recover_writes st D'"
    by (cases j) (simp_all add: w)
  then show ?thesis using assms hdr_clear [of "D' st"] in_log_area(1) [of st]
    by (auto simp: w idle_disk_def)
qed

lemma logged_installing:
  assumes t: "txn_ok st lh" and l: "logged_disk st D V lh D'" and m: "m \<le> nat (lh_n lh)"
  defines "E \<equiv> apply_writes (map (\<lambda>i. (lh_block lh i, V (lh_block lh i))) [0..<m]) D'"
  shows "logged_disk st D V lh E" "m = nat (lh_n lh) \<Longrightarrow> b \<notin> log_area st \<Longrightarrow> E b = new_data D V lh b"
proof -
  have h: "lh_block lh i \<notin> log_area st" if "i < nat (lh_n lh)" for i using t that by (simp add: txn_ok_def)
  have E: "E b = (if b \<in> lh_block lh ` set [0..<m] then V b else D' b)" for b
    unfolding E_def by (rule apply_writes_fun) simp
  have a: "E b = D' b" if "b \<in> log_area st" for b using h m that by (auto simp: E)
  have "nat (lh_n lh) \<le> LOGSIZE - 1" using t by (auto simp: txn_ok_def LOGSIZE_30)
  then have al: "E st = D' st" "i < nat (lh_n lh) \<Longrightarrow> E (log_blk st i) = D' (log_blk st i)" for i
    using a in_log_area(1) [of st] in_log_area(2) [of _ st] by auto
  show "logged_disk st D V lh E" using l m
    by (auto simp: logged_disk_def al) (auto simp: E homes_def)
  show "m = nat (lh_n lh) \<Longrightarrow> b \<notin> log_area st \<Longrightarrow> E b = new_data D V lh b"
    using l by (auto simp: E new_data_def homes_def logged_disk_def lessThan_atLeast0)
qed

lemma logged_recover_writes:
  assumes "txn_ok st lh" "logged_disk st D V lh D'"
  shows "recover_writes st D' = map (\<lambda>i. (lh_block lh i, V (lh_block lh i))) [0..<nat (lh_n lh)] @
    [(st, put32 0 0 (D' st))]"
  using assms by (simp add: recover_writes_def logged_disk_def)

lemma cleared_idle:
  assumes "length (E st) = BSIZE" "\<And>b. b \<notin> log_area st \<Longrightarrow> E b = N b"
  shows "idle_disk st N (E(st := put32 0 0 (E st)))"
  using assms hdr_clear [of "E st"] in_log_area(1) [of st] by (auto simp: idle_disk_def)

lemma logged_recovery:
  assumes t: "txn_ok st lh" and l: "logged_disk st D V lh D'"
  shows "logged_disk st D V lh (apply_writes (take j (recover_writes st D')) D') \<or>
    idle_disk st (new_data D V lh) (apply_writes (take j (recover_writes st D')) D')"
    "idle_disk st (new_data D V lh) (recovered st D')"
proof -
  let ?n = "nat (lh_n lh)" and ?ws = "map (\<lambda>i. (lh_block lh i, V (lh_block lh i))) [0..<nat (lh_n lh)]"
  let ?E = "apply_writes ?ws D'"
  note w = logged_recover_writes [OF t l]
  note E = logged_installing [OF t l order_refl]
  have st: "?E st = D' st"
    by (rule apply_writes_notin) (use t in_log_area(1) [of st] in \<open>auto simp: txn_ok_def\<close>)
  have fin: "idle_disk st (new_data D V lh) (apply_writes (recover_writes st D') D')"
    using cleared_idle [where E = ?E and st = st and N = "new_data D V lh"] E l by (simp add: w st logged_disk_def)
  then show "idle_disk st (new_data D V lh) (recovered st D')" by (simp add: recovered_def)
  show "logged_disk st D V lh (apply_writes (take j (recover_writes st D')) D') \<or>
    idle_disk st (new_data D V lh) (apply_writes (take j (recover_writes st D')) D')"
  proof (cases "j \<le> ?n")
    case True
    then have "take j (recover_writes st D') = map (\<lambda>i. (lh_block lh i, V (lh_block lh i))) [0..<j]"
      by (simp add: w take_map)
    then show ?thesis using logged_installing(1) [OF t l True] by simp
  next
    case False
    then have "take j (recover_writes st D') = recover_writes st D'" by (simp add: w)
    then show ?thesis using fin by simp
  qed
qed

lemma take_map_upt: "take k (map f [0..<n]) = map f [0..<min k n]"
  by (simp add: take_map min_def)

lemma log_writes_at:
  assumes "m \<le> LOGSIZE" "i < m"
  shows "apply_writes (map (\<lambda>i. (log_blk st i, g i)) [0..<m]) D (log_blk st i) = g i"
  using assms
proof (induction m)
  case (Suc m)
  have "log_blk st i \<noteq> log_blk st m" if "i < m" using log_blk_inj [of i m st] that Suc.prems by simp
  then show ?case using Suc by (cases "i = m") auto
qed simp

lemma commit_logging:
  fixes V :: diskmap
  assumes t: "txn_ok st lh" and m: "m \<le> nat (lh_n lh)" and d: "hdr_n (D st) = 0" "length (D st) = BSIZE"
  defines "E \<equiv> apply_writes (map (\<lambda>i. (log_blk st i, V (lh_block lh i))) [0..<m]) D"
  shows "idle_disk st D E" "E st = D st" "i < m \<Longrightarrow> E (log_blk st i) = V (lh_block lh i)"
    "b \<notin> log_area st \<Longrightarrow> E b = D b"
proof -
  have n: "m \<le> LOGSIZE" "m \<le> LOGSIZE - 1" using t m by (auto simp: txn_ok_def LOGSIZE_30)
  have o: "E b = D b" if "b \<notin> log_blk st ` {..<m}" for b
    unfolding E_def by (rule apply_writes_notin) (use that in \<open>auto simp: lessThan_atLeast0\<close>)
  show b: "b \<notin> log_area st \<Longrightarrow> E b = D b" for b using o [of b] n by (force simp: log_area_def)
  show st: "E st = D st" 
  proof -
    have "st \<noteq> log_blk st i" if "i < m" for i using log_blk_ne [where i = i and st = st] that n by auto
    then show ?thesis by (intro o) auto
  qed
  show "idle_disk st D E" using d st b by (simp add: idle_disk_def)
  show "i < m \<Longrightarrow> E (log_blk st i) = V (lh_block lh i)" using log_writes_at [of m i] n by (simp add: E_def)
qed

lemma commit_header:
  fixes V :: diskmap
  assumes t: "txn_ok st lh" and d: "hdr_n (D st) = 0" "length (D st) = BSIZE"
  defines "E \<equiv> apply_writes (map (\<lambda>i. (log_blk st i, V (lh_block lh i))) [0..<nat (lh_n lh)]) D"
  shows "logged_disk st D V lh (E(st := write_hdr lh (D st)))"
proof -
  note f = write_hdr_facts [of lh "D st"] and e = commit_logging [where D = D and V = V, OF t order_refl d, folded E_def]
  have n: "nat (lh_n lh) \<le> LOGSIZE" "0 \<le> lh_n lh" "lh_n lh \<le> int LOGSIZE" using t by (auto simp: txn_ok_def)
  have ne: "log_blk st i \<noteq> st" if "i < nat (lh_n lh)" for i using log_blk_ne that n by auto
  show ?thesis using f n d e(3,4) ne in_log_area(1) [of st] unfolding logged_disk_def by auto
qed

lemma commit_prefix:
  fixes V :: diskmap and k :: nat
  assumes t: "txn_ok st lh" and d: "hdr_n (D st) = 0" "length (D st) = BSIZE"
  defines "E \<equiv> apply_writes (take k (commit_writes st D V lh)) D"
  shows "if k \<le> nat (lh_n lh) then idle_disk st D E
    else logged_disk st D V lh E \<or> idle_disk st (new_data D V lh) E"
proof -
  let ?n = "nat (lh_n lh)"
  let ?w1 = "map (\<lambda>i. (log_blk st i, V (lh_block lh i))) [0..<?n]"
  let ?w2 = "map (\<lambda>i. (lh_block lh i, V (lh_block lh i))) [0..<?n]"
  let ?H = "write_hdr lh (D st)"
  let ?L = "(apply_writes ?w1 D)(st := ?H)"
  note lg = commit_header [where D = D and V = V, OF t d]
  have cw: "commit_writes st D V lh = ?w1 @ (st, ?H) # ?w2 @ [(st, put32 0 0 ?H)]"
    by (simp add: commit_writes_def Let_def write_hdr_def)
  consider "k \<le> ?n" | "?n < k" "k \<le> ?n + 1 + ?n" | "?n + 1 + ?n < k" by linarith
  then show ?thesis
  proof cases
    case 1
    then have "E = apply_writes (map (\<lambda>i. (log_blk st i, V (lh_block lh i))) [0..<k]) D"
      unfolding E_def cw by (simp add: take_map_upt)
    then show ?thesis using 1 commit_logging(1) [where D = D and V = V, OF t 1 d] by simp
  next
    case 2
    then obtain j where j: "k = ?n + 1 + j" "j \<le> ?n" by (metis add.commute add_le_cancel_left le_Suc_ex less_eq_Suc_le plus_1_eq_Suc)
    then have "E = apply_writes (map (\<lambda>i. (lh_block lh i, V (lh_block lh i))) [0..<j]) ?L"
      unfolding E_def cw by (simp add: take_map_upt)
    then show ?thesis using 2 logged_installing(1) [OF t lg j(2)] by simp
  next
    case 3
    let ?I = "apply_writes ?w2 ?L"
    have "?I st = ?L st"
      by (rule apply_writes_notin) (use t in_log_area(1) [of st] in \<open>auto simp: txn_ok_def\<close>)
    then have "E = ?I(st := put32 0 0 (?I st))" using 3 unfolding E_def cw by simp
    moreover have "length (?I st) = BSIZE" using logged_installing(1) [OF t lg order_refl] by (simp add: logged_disk_def)
    ultimately show ?thesis using 3 cleared_idle [where E = ?I and st = st and N = "new_data D V lh"] logged_installing(2) [OF t lg order_refl] by simp
  qed
qed

lemma commit_end:
  assumes "txn_ok st lh" "length (D st) = BSIZE"
  shows "hdr_n (apply_writes (commit_writes st D V lh) D st) = 0"
proof -
  have "length (write_hdr lh (D st)) = BSIZE" using assms by (intro write_hdr_facts(1)) (auto simp: txn_ok_def)
  then show ?thesis using hdr_clear by (simp add: commit_writes_def Let_def write_hdr_def [of "lh\<lparr>lh_n := 0\<rparr>"])
qed

lemma crashed_recoveries_idle:
  "idle_disk st D E \<Longrightarrow> idle_disk st D (crashed_recoveries st js E)"
  unfolding crashed_recoveries_def by (induction js arbitrary: E) (simp_all add: idle_recovery)

lemma crashed_recoveries_logged:
  assumes "txn_ok st lh" "logged_disk st D V lh E \<or> idle_disk st (new_data D V lh) E"
  shows "logged_disk st D V lh (crashed_recoveries st js E) \<or> idle_disk st (new_data D V lh) (crashed_recoveries st js E)"
  using assms(2) unfolding crashed_recoveries_def
proof (induction js arbitrary: E)
  case (Cons j js)
  let ?F = "apply_writes (take j (recover_writes st E)) E"
  have "logged_disk st D V lh ?F \<or> idle_disk st (new_data D V lh) ?F"
    using Cons.prems logged_recovery(1) [OF assms(1), of D V E j] idle_recovery [of st "new_data D V lh" E j] by blast
  then show ?case using Cons.IH [of ?F] by simp
qed simp

text \<open>Crash safety of the protocol: old data up to the header write, new data from then on.\<close>

lemma crash_safe:
  fixes V :: diskmap and k :: nat and js :: "nat list"
  assumes t: "txn_ok st lh" and d: "hdr_n (D st) = 0" "length (D st) = BSIZE"
  defines "E \<equiv> crashed_recoveries st js (apply_writes (take k (commit_writes st D V lh)) D)"
  shows "idle_disk st (if k \<le> nat (lh_n lh) then D else new_data D V lh) (recovered st E)"
proof (cases "k \<le> nat (lh_n lh)")
  case True
  then have "idle_disk st D E" using commit_prefix [where D = D and V = V and k = k, OF t d] by (simp add: E_def crashed_recoveries_idle)
  then have "idle_disk st D (apply_writes (take (length (recover_writes st E)) (recover_writes st E)) E)"
    by (rule idle_recovery)
  then show ?thesis using True by (simp add: recovered_def)
next
  case False
  let ?N = "new_data D V lh"
  have "logged_disk st D V lh E \<or> idle_disk st ?N E"
    using commit_prefix [where D = D and V = V and k = k, OF t d] False crashed_recoveries_logged [OF t] by (simp add: E_def)
  then show ?thesis using False logged_recovery(2) [OF t] idle_recovery [of st ?N E "length (recover_writes st E)"]
    by (auto simp: recovered_def)
qed

section \<open>The functions of the log\<close>

definition a_stores :: "writes \<Rightarrow> cache \<Rightarrow> cache" where
  "a_stores ws a = a\<lparr>c_view := apply_writes ws (c_view a), c_disk := apply_writes ws (c_disk a),
     c_trace := c_trace a @ ws\<rparr>"

lemma a_stores_snoc: "a_stores (ws @ [(b, d)]) a = a_store b d (a_stores ws a)"
  by (simp add: a_stores_def a_store_def upd_order)

lemma a_stores_Nil [simp]: "a_stores [] a = a"
  by (simp add: a_stores_def)

lemma a_stores_append: "a_stores (ws @ vs) a = a_stores vs (a_stores ws a)"
  by (simp add: a_stores_def upd_order)

lemma a_stores_fields [simp]:
  "c_refs (a_stores ws a) = c_refs a" "c_lock (a_stores ws a) = c_lock a"
  "c_view (a_stores ws a) = apply_writes ws (c_view a)" "c_disk (a_stores ws a) = apply_writes ws (c_disk a)"
  "c_trace (a_stores ws a) = c_trace a @ ws"
  by (simp_all add: a_stores_def)

definition log_cfg :: "uint \<Rightarrow> 'z log_state_scheme \<Rightarrow> bool" where
  "log_cfg st s \<longleftrightarrow> bio_ok s \<and> word_of_int (l_dev (logs s)) = ROOTDEV \<and> word_of_int (l_start (logs s)) = st"

lemma bframe_logs: "bframe s t \<Longrightarrow> logs t = logs s"
proof -
  assume "bframe s t"
  note e = this [unfolded bframe_def, THEN conjunct1]
  show ?thesis using arg_cong [OF e, of logs] by (simp add: state_simps)
qed

lemma log_cfg_frame: "log_cfg st s \<Longrightarrow> bio_ok t \<Longrightarrow> bframe s t \<Longrightarrow> log_cfg st t"
  by (simp add: log_cfg_def bframe_logs)

lemma log_blockno_blk: "log_cfg st s \<Longrightarrow> log_blockno (logs s) i = log_blk st i"
  by (simp add: log_cfg_def log_blockno_def log_blk_def)

abbreviation home_at :: "'z log_state_scheme \<Rightarrow> nat \<Rightarrow> uint" where
  "home_at s i \<equiv> lh_block (l_lh (logs s)) i"

lemma write_one_law:
  assumes c: "log_cfg st s" and av: "a_avail (cache_of s) (log_blk st i)"
    "a_avail (a_read (log_blk st i) (cache_of s)) (home_at s i)" and ne: "log_blk st i \<noteq> home_at s i"
  shows "\<exists>t. write_one i s = Ret () t \<and> log_cfg st t \<and> bframe s t \<and>
    cache_of t = a_store (log_blk st i) (view s (home_at s i)) (cache_of s)"
proof -
  have ok: "bio_ok s" and d: "word_of_int (l_dev (logs s)) = ROOTDEV" using c by (simp_all add: log_cfg_def)
  obtain j u where u: "bread ROOTDEV (log_blk st i) s = Ret j u" "bframe s u" using bc.rd_law [OF ok av(1)] by blast
  have e: "write_one i s = bnd (bread ROOTDEV (log_blk st i)) (\<lambda>to. bnd (bread ROOTDEV (home_at s i)) (\<lambda>from.
      bnd (get_data from) (\<lambda>d. thn (set_data to d) (thn (bwrite to) (thn (brelse from) (brelse to)))))) s"
    using u(1) bframe_logs [OF u(2)] d log_blockno_blk [OF c] by (simp add: write_one_def kop_simps)
  obtain t where "write_one i s = Ret () t" "bio_ok t" "bframe s t"
    "cache_of t = a_store (log_blk st i) (c_view (cache_of s) (home_at s i)) (cache_of s)"
    using bc.copy_block [OF ok av ne] unfolding e by blast
  then show ?thesis using log_cfg_frame [OF c] by (auto simp: cache_of_def)
qed

lemma install_one_law:
  assumes c: "log_cfg st s" and av: "a_avail (cache_of s) (log_blk st i)"
    "a_avail (a_read (log_blk st i) (cache_of s)) (home_at s i)" and ne: "log_blk st i \<noteq> home_at s i"
    and k: "r = 0 \<Longrightarrow> 1 \<le> refs s (home_at s i)"
  shows "\<exists>t. install_one r i s = Ret () t \<and> log_cfg st t \<and> bframe s t \<and>
    cache_of t = a_ref (home_at s i) (refs s (home_at s i) - (if r = 0 then 1 else 0))
      (a_store (home_at s i) (view s (log_blk st i)) (cache_of s))"
proof -
  have ok: "bio_ok s" and d: "word_of_int (l_dev (logs s)) = ROOTDEV" using c by (simp_all add: log_cfg_def)
  obtain j u where u: "bread ROOTDEV (log_blk st i) s = Ret j u" "bframe s u" using bc.rd_law [OF ok av(1)] by blast
  have e: "install_one r i s = bnd (bread ROOTDEV (log_blk st i)) (\<lambda>lb. bnd (bread ROOTDEV (home_at s i)) (\<lambda>db.
      bnd (get_data lb) (\<lambda>d. thn (set_data db d) (thn (bwrite db) (thn (whenk (r = 0) (bunpin db))
        (thn (brelse lb) (brelse db))))))) s"
    using u(1) bframe_logs [OF u(2)] d log_blockno_blk [OF c] by (simp add: install_one_def kop_simps)
  have k': "r = 0 \<Longrightarrow> 1 \<le> c_refs (cache_of s) (home_at s i)" using k by (simp add: cache_of_def)
  obtain t where "install_one r i s = Ret () t" "bio_ok t" "bframe s t"
    "cache_of t = a_ref (home_at s i) (c_refs (cache_of s) (home_at s i) - (if r = 0 then 1 else 0))
      (a_store (home_at s i) (c_view (cache_of s) (log_blk st i)) (cache_of s))"
    using bc.copy_block_unpin [OF ok av ne k'] unfolding e by blast
  then show ?thesis using log_cfg_frame [OF c] by (auto simp: cache_of_def)
qed

lemma write_head_law:
  assumes c: "log_cfg st s" and av: "a_avail (cache_of s) st"
    and n: "0 \<le> lh_n (l_lh (logs s))" "lh_n (l_lh (logs s)) \<le> int LOGSIZE"
  shows "\<exists>t. write_head s = Ret () t \<and> log_cfg st t \<and> bframe s t \<and>
    cache_of t = a_store st (write_hdr (l_lh (logs s)) (view s st)) (cache_of s)"
proof -
  have ok: "bio_ok s" and d: "word_of_int (l_dev (logs s)) = ROOTDEV" "word_of_int (l_start (logs s)) = st"
    using c by (simp_all add: log_cfg_def)
  have e: "write_head s = bnd (bread ROOTDEV st) (\<lambda>b. bnd (get_data b) (\<lambda>d.
      thn (set_data b (write_hdr (l_lh (logs s)) d)) (thn (bwrite b) (brelse b)))) s"
    using d by (simp add: write_head_def kop_simps)
  obtain t where "write_head s = Ret () t" "bio_ok t" "bframe s t"
    "cache_of t = a_store st (write_hdr (l_lh (logs s)) (c_view (cache_of s) st)) (cache_of s)"
    using bc.update_block [OF ok av, of "write_hdr (l_lh (logs s))"] write_hdr_facts(1) [OF n] unfolding e by blast
  then show ?thesis using log_cfg_frame [OF c] by (auto simp: cache_of_def)
qed

lemma logs_upd_cache [state_simps]:
  "bio_ok (s\<lparr>logs := l\<rparr>) = bio_ok s" "cache_of (s\<lparr>logs := l\<rparr>) = cache_of s" "hold (s\<lparr>logs := l\<rparr>) i b = hold s i b"
  "calm (s\<lparr>logs := l\<rparr>) = calm s" "cur_pid (s\<lparr>logs := l\<rparr>) = cur_pid s"
proof -
  have a: "slot (s\<lparr>logs := l\<rparr>) = slot s" "sl_free k (s\<lparr>logs := l\<rparr>) = sl_free k s" for k
    by (simp_all add: slot_def [abs_def] sl_free_def)
  show cp: "cur_pid (s\<lparr>logs := l\<rparr>) = cur_pid s" by (simp add: cur_pid_def state_simps)
  show c: "calm (s\<lparr>logs := l\<rparr>) = calm s" by (simp add: calm_def procs_free_def state_simps)
  show "bio_ok (s\<lparr>logs := l\<rparr>) = bio_ok s"
    by (simp add: bio_ok_def bio_ready_def bio_inv_def buf_ok_def state_simps c a)
  show "cache_of (s\<lparr>logs := l\<rparr>) = cache_of s"
    by (auto simp: cache_of_def view_def refs_def lockd_def a fun_eq_iff split: option.split)
  show "hold (s\<lparr>logs := l\<rparr>) i b = hold s i b" by (simp add: hold_def a sl_mine_def cp)
qed

lemma bframe_logs_upd: "bframe s t \<Longrightarrow> bframe (s\<lparr>logs := l\<rparr>) (t\<lparr>logs := l\<rparr>)"
  by (simp add: bframe_def state_simps upd_order same_procs_def)

lemma read_head_law:
  assumes c: "log_cfg st s" and av: "a_avail (cache_of s) st"
  defines "l \<equiv> (logs s)\<lparr>l_lh := read_hdr (view s st) (l_lh (logs s))\<rparr>"
  shows "\<exists>t. read_head s = Ret () t \<and> log_cfg st t \<and> bframe (s\<lparr>logs := l\<rparr>) t \<and> cache_of t = cache_of s \<and> logs t = l"
proof -
  have ok: "bio_ok s" and d: "word_of_int (l_dev (logs s)) = ROOTDEV" "word_of_int (l_start (logs s)) = st"
    using c by (simp_all add: log_cfg_def)
  obtain i t where t: "bread ROOTDEV st s = Ret i t" "bio_ok t" "bframe s t" "cache_of t = a_read st (cache_of s)"
    "hold t i st" using bc.rd_law [OF ok av] by blast
  have lt: "logs t = logs s" using bframe_logs [OF t(3)] .
  have "view t = view s" using arg_cong [OF t(4), of c_view] by (simp add: cache_of_def a_read_def)
  then have g: "get_data i t = Ret (view s st) t" using bc.get_law [OF t(2,5)] by (simp add: cache_of_def)
  let ?t = "t\<lparr>logs := l\<rparr>"
  have h: "bio_ok ?t" "hold ?t i st" using t(2,5) by (simp_all add: state_simps)
  have "c_view (cache_of ?t) st = c_disk (cache_of ?t) st" if "c_refs (cache_of ?t) st = 1"
    using that bc.clean [OF ok, of st] by (simp add: state_simps t(4) a_read_def)
  then obtain u where u: "brelse i ?t = Ret () u" "bio_ok u" "bframe ?t u" "cache_of u = a_release st (cache_of ?t)"
    using bc.rls_law [OF h] by blast
  have "read_head s = Ret () u" using t(1) g u(1) d lt by (simp add: read_head_def kop_simps l_def)
  moreover have f: "bframe (s\<lparr>logs := l\<rparr>) u" using bframe_trans [OF bframe_logs_upd [OF t(3)] u(3)] .
  moreover have "logs u = l" using bframe_logs [OF f] by simp
  moreover have "log_cfg st u" using u(2) d \<open>logs u = l\<close> by (simp add: log_cfg_def l_def)
  moreover have "cache_of u = cache_of s"
    using av by (simp add: u(4) t(4) state_simps a_defs a_avail_def fun_upd_idem)
  ultimately show ?thesis by blast
qed

text \<open>Room in the cache: nothing is locked, no count is near its limit and \<open>k\<close> buffers are unused.\<close>

definition a_idle :: "nat \<Rightarrow> cache \<Rightarrow> bool" where
  "a_idle k a \<longleftrightarrow> (\<forall>b. \<not> c_lock a b) \<and> (\<forall>b. c_refs a b < 2 ^ 31) \<and> card {b. c_refs a b \<noteq> 0} + k \<le> NBUF"

lemma a_idle_avail: "a_idle k a \<Longrightarrow> 1 \<le> k \<Longrightarrow> a_avail a b"
  using less_trans [of "c_refs a b" "2 ^ 31" "2 ^ 32 - 1"] by (auto simp: a_idle_def a_avail_def)

lemma a_idle_pair:
  assumes "a_idle k a" "b \<noteq> c" "2 \<le> k \<or> c_refs a c \<noteq> 0"
  shows "a_avail (a_read b a) c"
proof -
  have r: "\<not> c_lock a c" "c_refs a c < 2 ^ 31" "card {b. c_refs a b \<noteq> 0} + k \<le> NBUF"
    using assms(1) by (simp_all add: a_idle_def)
  have "{x. c_refs (a_read b a) x \<noteq> 0} = insert b {b. c_refs a b \<noteq> 0}" by (auto simp: a_read_def)
  then have m: "card {x. c_refs (a_read b a) x \<noteq> 0} \<le> card {b. c_refs a b \<noteq> 0} + 1"
    by (simp add: card_insert_if)
  have "c_lock (a_read b a) c = c_lock a c" "c_refs (a_read b a) c = c_refs a c"
    using assms(2) by (simp_all add: a_read_def)
  then show ?thesis using r assms(3) m unfolding a_avail_def by auto
qed

lemma a_idle_stores [simp]: "a_idle k (a_stores ws a) = a_idle k a"
  by (simp add: a_idle_def)

lemma a_idle_refs:
  assumes "a_idle k a" "\<And>b. c_refs a' b \<le> c_refs a b" "c_lock a' = c_lock a"
  shows "a_idle k a'"
proof -
  have "{b. c_refs a' b \<noteq> 0} \<subseteq> {b. c_refs a b \<noteq> 0}" using assms(2) by (metis (mono_tags, lifting) Collect_mono le_zero_eq)
  then have "card {b. c_refs a' b \<noteq> 0} \<le> card {b. c_refs a b \<noteq> 0}" by (intro card_mono) auto
  then show ?thesis using assms le_less_trans [OF assms(2)] by (auto simp: a_idle_def)
qed

lemma txn_blocks:
  assumes "txn_ok st lh" "i < nat (lh_n lh)" "j < nat (lh_n lh)"
  shows "log_blk st i \<noteq> lh_block lh j" "lh_block lh i \<noteq> st"
proof -
  have "i < LOGSIZE - 1" using assms by (auto simp: txn_ok_def LOGSIZE_30)
  then have "log_blk st i \<in> log_area st" by (rule in_log_area(2))
  moreover have "lh_block lh j \<notin> log_area st" "lh_block lh i \<notin> log_area st" using assms by (simp_all add: txn_ok_def)
  ultimately show "log_blk st i \<noteq> lh_block lh j" "lh_block lh i \<noteq> st" using in_log_area(1) [of st] by auto
qed

lemma write_log_law:
  assumes c: "log_cfg st s" and t: "txn_ok st (l_lh (logs s))" and id: "a_idle 1 (cache_of s)"
    and pin: "\<And>i. i < nat (lh_n (l_lh (logs s))) \<Longrightarrow> refs s (home_at s i) \<noteq> 0"
  shows "\<exists>t. write_log s = Ret () t \<and> log_cfg st t \<and> bframe s t \<and>
    cache_of t = a_stores (map (\<lambda>i. (log_blk st i, view s (home_at s i))) [0..<nat (lh_n (l_lh (logs s)))]) (cache_of s)"
proof -
  let ?n = "nat (lh_n (l_lh (logs s)))" and ?w = "\<lambda>m. map (\<lambda>i. (log_blk st i, view s (home_at s i))) [0..<m]"
  have "\<exists>t. for_each [0..<m] write_one s = Ret () t \<and> log_cfg st t \<and> bframe s t \<and>
      cache_of t = a_stores (?w m) (cache_of s)" if "m \<le> ?n" for m
    using that
  proof (induction m)
    case 0
    then show ?case using c by (simp add: kop_simps)
  next
    case (Suc m)
    then obtain t where u: "for_each [0..<m] write_one s = Ret () t" "log_cfg st t" "bframe s t"
      "cache_of t = a_stores (?w m) (cache_of s)" by auto
    have m: "m < ?n" using Suc.prems by simp
    have l: "logs t = logs s" by (rule bframe_logs [OF u(3)])
    note ne = txn_blocks [OF t m m]
    have "a_idle 1 (cache_of t)" using id by (simp add: u(4))
    moreover have "c_refs (cache_of t) (home_at t m) \<noteq> 0" using pin [OF m] by (simp add: u(4) l) (simp add: cache_of_def)
    ultimately have av: "a_avail (cache_of t) (log_blk st m)" "a_avail (a_read (log_blk st m) (cache_of t)) (home_at t m)"
      using a_idle_avail [of 1] a_idle_pair [of 1 "cache_of t"] ne by (auto simp: l)
    have "log_blk st i \<noteq> home_at s m" if "i < m" for i using txn_blocks(1) [OF t _ m, of i] that m by simp
    then have "home_at s m \<notin> fst ` set (?w m)" by force
    then have "apply_writes (?w m) (view s) (home_at s m) = view s (home_at s m)" by (rule apply_writes_notin)
    moreover have "view t = apply_writes (?w m) (view s)" using arg_cong [OF u(4), of c_view] by (simp add: cache_of_def)
    ultimately have v: "view t (home_at t m) = view s (home_at s m)" by (simp add: l)
    have ne': "log_blk st m \<noteq> home_at t m" using ne by (simp add: l)
    obtain t' where "write_one m t = Ret () t'" "log_cfg st t'" "bframe t t'"
      "cache_of t' = a_store (log_blk st m) (view s (home_at s m)) (cache_of t)"
      using write_one_law [OF u(2) av ne'] v by auto
    then show ?case using for_each_upt_Suc [OF u(1)] bframe_trans [OF u(3)]
      by (auto simp: u(4) a_stores_snoc [symmetric])
  qed
  from this [of ?n] show ?thesis by (simp add: write_log_def kop_simps)
qed

lemma install_trans_law:
  assumes c: "log_cfg st s" and t: "txn_ok st (l_lh (logs s))" and id: "a_idle k (cache_of s)" "1 \<le> k"
    and pin: "\<And>i. r = 0 \<Longrightarrow> i < nat (lh_n (l_lh (logs s))) \<Longrightarrow> refs s (home_at s i) \<noteq> 0"
    and dis: "r = 0 \<Longrightarrow> inj_on (home_at s) {..<nat (lh_n (l_lh (logs s)))}" and two: "r \<noteq> 0 \<Longrightarrow> 2 \<le> k"
  shows "\<exists>t. install_trans r s = Ret () t \<and> log_cfg st t \<and> bframe s t \<and>
    cache_of t = (a_stores (map (\<lambda>i. (home_at s i, view s (log_blk st i))) [0..<nat (lh_n (l_lh (logs s)))]) (cache_of s))
      \<lparr>c_refs := (\<lambda>b. if r = 0 \<and> b \<in> homes (l_lh (logs s)) then refs s b - 1 else refs s b)\<rparr>"
proof -
  let ?n = "nat (lh_n (l_lh (logs s)))" and ?w = "\<lambda>m. map (\<lambda>i. (home_at s i, view s (log_blk st i))) [0..<m]"
  let ?R = "\<lambda>m b. if r = 0 \<and> b \<in> home_at s ` {..<m} then refs s b - 1 else refs s b"
  have "\<exists>t. for_each [0..<m] (install_one r) s = Ret () t \<and> log_cfg st t \<and> bframe s t \<and>
      cache_of t = (a_stores (?w m) (cache_of s))\<lparr>c_refs := ?R m\<rparr>" if "m \<le> ?n" for m
    using that
  proof (induction m)
    case 0
    then show ?case using c by (simp add: kop_simps cache_of_def)
  next
    case (Suc m)
    then obtain t where u: "for_each [0..<m] (install_one r) s = Ret () t" "log_cfg st t" "bframe s t"
      "cache_of t = (a_stores (?w m) (cache_of s))\<lparr>c_refs := ?R m\<rparr>" by auto
    have m: "m < ?n" using Suc.prems by simp
    have l: "logs t = logs s" by (rule bframe_logs [OF u(3)])
    have rt: "refs t = ?R m" using arg_cong [OF u(4), of c_refs] by (simp add: cache_of_def)
    have nin: "home_at s m \<notin> home_at s ` {..<m}" if "r = 0"
      using inj_on_image_mem_iff [OF dis [OF that], of m "{..<m}"] m by auto
    have rh: "refs t (home_at s m) = refs s (home_at s m)" using nin by (auto simp: rt)
    have lt: "lockd t = lockd s" using arg_cong [OF u(4), of c_lock] by (simp add: cache_of_def)
    have "a_idle k (cache_of t)" by (rule a_idle_refs [OF id(1)]) (simp_all add: cache_of_def rt lt)
    moreover have "2 \<le> k \<or> c_refs (cache_of t) (home_at t m) \<noteq> 0"
      using two pin [OF _ m] rh by (cases "r = 0") (simp_all add: l cache_of_def)
    ultimately have av: "a_avail (cache_of t) (log_blk st m)" "a_avail (a_read (log_blk st m) (cache_of t)) (home_at t m)"
      using a_idle_avail [of k "cache_of t"] a_idle_pair [of k "cache_of t" "log_blk st m" "home_at t m"] id(2)
        txn_blocks [OF t m m] by (simp_all add: l)
    have "log_blk st m \<noteq> home_at s i" if "i < m" for i using txn_blocks(1) [OF t m, of i] that m by simp
    then have "log_blk st m \<notin> fst ` set (?w m)" by force
    then have "apply_writes (?w m) (view s) (log_blk st m) = view s (log_blk st m)" by (rule apply_writes_notin)
    moreover have "view t = apply_writes (?w m) (view s)" using arg_cong [OF u(4), of c_view] by (simp add: cache_of_def)
    ultimately have v: "view t (log_blk st m) = view s (log_blk st m)" by simp
    have ne: "log_blk st m \<noteq> home_at t m" using txn_blocks(1) [OF t m m] by (simp add: l)
    have k: "r = 0 \<Longrightarrow> 1 \<le> refs t (home_at t m)" using pin [OF _ m] rh by (simp add: l)
    obtain t' where t': "install_one r m t = Ret () t'" "log_cfg st t'" "bframe t t'"
      "cache_of t' = a_ref (home_at s m) (refs s (home_at s m) - (if r = 0 then 1 else 0))
         (a_store (home_at s m) (view s (log_blk st m)) (cache_of t))"
      using install_one_law [OF u(2) av ne k] v rh l by auto
    have "(?R m)(home_at s m := refs s (home_at s m) - (if r = 0 then 1 else 0)) = ?R (Suc m)"
      by (auto simp: fun_eq_iff lessThan_Suc)
    then have "cache_of t' = (a_stores (?w (Suc m)) (cache_of s))\<lparr>c_refs := ?R (Suc m)\<rparr>"
      by (simp add: t'(4) u(4) a_stores_snoc a_ref_def a_store_def upd_order)
    then show ?case using for_each_upt_Suc [OF u(1)] t'(1-3) bframe_trans [OF u(3)] by auto
  qed
  from this [of ?n] show ?thesis by (simp add: install_trans_def kop_simps homes_def)
qed

lemma bframe_trans_logs:
  assumes "bframe s t" "bframe (t\<lparr>logs := l\<rparr>) u"
  shows "bframe (s\<lparr>logs := l\<rparr>) u"
  using bframe_trans [OF bframe_logs_upd [OF assms(1)] assms(2)] .

definition log_cleared :: "log \<Rightarrow> log" where
  "log_cleared l = l\<lparr>l_lh := (l_lh l)\<lparr>lh_n := 0\<rparr>\<rparr>"

text \<open>The first half of a commit writes the log and its header, the second half installs it.\<close>

lemma commit_log_phase:
  assumes c: "log_cfg st s" and t: "txn_ok st (l_lh (logs s))" and id: "a_idle 1 (cache_of s)" and st: "refs s st = 0"
    and pin: "\<And>i. i < nat (lh_n (l_lh (logs s))) \<Longrightarrow> refs s (home_at s i) \<noteq> 0"
  shows "\<exists>v. thn write_log write_head s = Ret () v \<and> log_cfg st v \<and> bframe s v \<and>
    cache_of v = a_stores (map (\<lambda>i. (log_blk st i, view s (home_at s i))) [0..<nat (lh_n (l_lh (logs s)))] @
      [(st, write_hdr (l_lh (logs s)) (disk s st))]) (cache_of s)"
proof -
  let ?lh = "l_lh (logs s)" let ?n = "nat (lh_n ?lh)" let ?H = "write_hdr ?lh (disk s st)"
  let ?w1 = "map (\<lambda>i. (log_blk st i, view s (home_at s i))) [0..<?n]"
  have nn: "0 \<le> lh_n ?lh" "lh_n ?lh \<le> int LOGSIZE" "?n \<le> LOGSIZE" using t by (auto simp: txn_ok_def)
  obtain u where u: "write_log s = Ret () u" "log_cfg st u" "bframe s u" "cache_of u = a_stores ?w1 (cache_of s)"
    using write_log_law [OF c t id pin] by blast
  have lu: "logs u = logs s" by (rule bframe_logs [OF u(3)])
  have vu: "view u = apply_writes ?w1 (view s)"
    using arg_cong [OF u(4), of c_view] by (simp add: cache_of_def)
  have "st \<noteq> log_blk st i" if "i < ?n" for i using log_blk_ne [of i st] that nn(3) by auto
  then have "view u st = view s st" unfolding vu by (intro apply_writes_notin) force
  also have "\<dots> = disk s st" using refs_zero_clean [of s st] st c by (simp add: log_cfg_def)
  finally have us: "view u st = disk s st" .
  obtain v where v: "write_head u = Ret () v" "log_cfg st v" "bframe u v" "cache_of v = a_store st ?H (cache_of u)"
    using write_head_law [OF u(2) a_idle_avail [of 1]] id nn lu us by (auto simp: u(4))
  show ?thesis using u(1) v bframe_trans [OF u(3) v(3)]
    by (intro exI [of _ v]) (simp add: kop_simps u(4) a_stores_snoc)
qed

lemma commit_install_phase:
  assumes c: "log_cfg st v" and t: "txn_ok st (l_lh (logs v))" and id: "a_idle 1 (cache_of v)"
    and pin: "\<And>i. i < nat (lh_n (l_lh (logs v))) \<Longrightarrow> refs v (home_at v i) \<noteq> 0"
    and dis: "inj_on (home_at v) {..<nat (lh_n (l_lh (logs v)))}"
  defines "w2 \<equiv> map (\<lambda>i. (home_at v i, view v (log_blk st i))) [0..<nat (lh_n (l_lh (logs v)))]"
  shows "\<exists>y. thn (install_trans 0) (thn (set_log log_cleared) write_head) v = Ret () y \<and> log_cfg st y \<and>
    bframe (v\<lparr>logs := log_cleared (logs v)\<rparr>) y \<and>
    cache_of y = (a_stores (w2 @ [(st, write_hdr ((l_lh (logs v))\<lparr>lh_n := 0\<rparr>) (view v st))]) (cache_of v))
      \<lparr>c_refs := (\<lambda>b. if b \<in> homes (l_lh (logs v)) then refs v b - 1 else refs v b)\<rparr>"
proof -
  let ?lh = "l_lh (logs v)" let ?R = "\<lambda>b. if b \<in> homes ?lh then refs v b - 1 else refs v b"
  obtain w where w: "install_trans 0 v = Ret () w" "log_cfg st w" "bframe v w"
    "cache_of w = (a_stores w2 (cache_of v))\<lparr>c_refs := ?R\<rparr>"
    using install_trans_law [OF c t id, of 0] pin dis by (auto simp: w2_def)
  have lw: "logs w = logs v" by (rule bframe_logs [OF w(3)])
  define x where "x = w\<lparr>logs := log_cleared (logs v)\<rparr>"
  have cx: "cache_of x = cache_of w" "logs x = log_cleared (logs v)" by (simp_all add: x_def state_simps)
  have xc: "log_cfg st x" using w(2) by (simp add: x_def log_cfg_def log_cleared_def lw state_simps)
  have vx: "view x = apply_writes w2 (view v)" using arg_cong [OF w(4), of c_view] cx(1) by (simp add: cache_of_def)
  have "home_at v i \<noteq> st" if "i < nat (lh_n ?lh)" for i using txn_blocks(2) [OF t that that] .
  then have xs: "view x st = view v st" unfolding vx w2_def by (intro apply_writes_notin) force
  have "a_idle 1 (cache_of x)" by (rule a_idle_refs [OF id]) (simp_all add: cx w(4), simp add: cache_of_def)
  then obtain y where y: "write_head x = Ret () y" "log_cfg st y" "bframe x y"
    "cache_of y = a_store st (write_hdr (?lh\<lparr>lh_n := 0\<rparr>) (view v st)) (cache_of x)"
    using write_head_law [OF xc a_idle_avail [of 1]] xs by (auto simp: cx(2) log_cleared_def)
  have "cache_of y = (a_stores (w2 @ [(st, write_hdr (?lh\<lparr>lh_n := 0\<rparr>) (view v st))]) (cache_of v))\<lparr>c_refs := ?R\<rparr>"
    by (simp add: y(4) cx(1) w(4) a_stores_def a_store_def upd_order)
  moreover have "bframe (v\<lparr>logs := log_cleared (logs v)\<rparr>) y" using bframe_trans_logs [OF w(3)] y(3) by (simp add: x_def)
  ultimately show ?thesis using w(1) y(1,2) by (simp add: kop_simps x_def lw)
qed

lemma commit_law:
  assumes c: "log_cfg st s" and t: "txn_ok st (l_lh (logs s))" and n: "0 < lh_n (l_lh (logs s))"
    and id: "a_idle 1 (cache_of s)" and st: "refs s st = 0"
    and pin: "\<And>i. i < nat (lh_n (l_lh (logs s))) \<Longrightarrow> refs s (home_at s i) \<noteq> 0"
    and dis: "inj_on (home_at s) {..<nat (lh_n (l_lh (logs s)))}"
  shows "\<exists>t. commit s = Ret () t \<and> log_cfg st t \<and> bframe (s\<lparr>logs := log_cleared (logs s)\<rparr>) t \<and>
    cache_of t = (a_stores (commit_writes st (disk s) (view s) (l_lh (logs s))) (cache_of s))
      \<lparr>c_refs := (\<lambda>b. if b \<in> homes (l_lh (logs s)) then refs s b - 1 else refs s b)\<rparr>"
proof -
  let ?lh = "l_lh (logs s)" let ?n = "nat (lh_n ?lh)" let ?H = "write_hdr ?lh (disk s st)"
  let ?w1 = "map (\<lambda>i. (log_blk st i, view s (home_at s i))) [0..<?n]"
  have nn: "?n \<le> LOGSIZE" using t by (auto simp: txn_ok_def)
  obtain v where v: "thn write_log write_head s = Ret () v" "log_cfg st v" "bframe s v"
    "cache_of v = a_stores (?w1 @ [(st, ?H)]) (cache_of s)" using commit_log_phase [OF c t id st pin] by blast
  have lv: "logs v = logs s" by (rule bframe_logs [OF v(3)])
  have vv: "view v = (apply_writes ?w1 (view s))(st := ?H)" and rv: "refs v = refs s"
    using arg_cong [OF v(4), of c_view] arg_cong [OF v(4), of c_refs] by (simp_all add: cache_of_def)
  have vl: "view v (log_blk st i) = view s (home_at s i)" if "i < ?n" for i
    using log_writes_at [OF nn that, of st] log_blk_ne [of i st] that nn by (simp add: vv)
  have w2: "map (\<lambda>i. (home_at v i, view v (log_blk st i))) [0..<?n] =
      map (\<lambda>i. (home_at s i, view s (home_at s i))) [0..<?n]" using vl by (simp add: lv)
  have vs: "view v st = ?H" by (simp add: vv)
  have "a_idle 1 (cache_of v)" using id by (simp add: v(4))
  then obtain y where y: "thn (install_trans 0) (thn (set_log log_cleared) write_head) v = Ret () y" "log_cfg st y"
    "bframe (v\<lparr>logs := log_cleared (logs v)\<rparr>) y"
    "cache_of y = (a_stores (map (\<lambda>i. (home_at v i, view v (log_blk st i))) [0..<?n] @
       [(st, write_hdr (?lh\<lparr>lh_n := 0\<rparr>) (view v st))]) (cache_of v))
      \<lparr>c_refs := (\<lambda>b. if b \<in> homes ?lh then refs s b - 1 else refs s b)\<rparr>"
    using commit_install_phase [OF v(2)] t pin dis by (auto simp: lv rv cong: if_cong)
  have "cache_of y = (a_stores (commit_writes st (disk s) (view s) ?lh) (cache_of s))
      \<lparr>c_refs := (\<lambda>b. if b \<in> homes ?lh then refs s b - 1 else refs s b)\<rparr>"
    by (simp add: y(4) v(4) w2 vs commit_writes_def Let_def a_stores_def upd_order)
  moreover have "commit s = Ret () y"
    using n v(1) y(1) by (simp add: commit_def kop_simps bindo_assoc log_cleared_def bindo_Ret_iff) auto
  ultimately show ?thesis using y(2,3) bframe_trans_logs [OF v(3), of "log_cleared (logs s)"] lv by auto
qed

text \<open>Recovery reads the header, installs what it names and clears it.\<close>

definition boot_ok :: "uint \<Rightarrow> 'z bio_state_scheme \<Rightarrow> bool" where
  "boot_ok st s \<longleftrightarrow> bio_ok s \<and> (\<forall>b. refs s b = 0 \<and> \<not> lockd s b) \<and>
     0 \<le> hdr_n (disk s st) \<and> hdr_n (disk s st) < int LOGSIZE \<and>
     (\<forall>i<nat (hdr_n (disk s st)). hdr_block (disk s st) i \<notin> log_area st)"

lemma boot_idle: "boot_ok st s \<Longrightarrow> a_idle 2 (cache_of s) \<and> view s = disk s"
  using refs_zero_clean [of s] by (auto simp: boot_ok_def a_idle_def cache_of_def NBUF_30 fun_eq_iff)

lemma recover_law:
  assumes c: "log_cfg st s" and b: "boot_ok st s"
  shows "\<exists>t. recover_from_log s = Ret () t \<and> log_cfg st t \<and> lh_n (l_lh (logs t)) = 0 \<and>
    cache_of t = a_stores (recover_writes st (disk s)) (cache_of s)"
proof -
  have id: "a_idle 2 (cache_of s)" and vd: "view s = disk s" using boot_idle [OF b] by auto
  define l where "l = (logs s)\<lparr>l_lh := read_hdr (view s st) (l_lh (logs s))\<rparr>"
  obtain u where u: "read_head s = Ret () u" "log_cfg st u" "cache_of u = cache_of s" "logs u = l"
    using read_head_law [OF c a_idle_avail [OF id]] by (auto simp: l_def)
  have lh: "lh_n (l_lh l) = hdr_n (disk s st)"
    "i < nat (hdr_n (disk s st)) \<Longrightarrow> lh_block (l_lh l) i = hdr_block (disk s st) i" for i
    by (simp_all add: l_def read_hdr_facts vd)
  have t: "txn_ok st (l_lh (logs u))" using b by (simp add: txn_ok_def u(4) lh boot_ok_def)
  have vu: "view u = disk s" using arg_cong [OF u(3), of c_view] vd by (simp add: cache_of_def)
  have ru: "refs u = refs s" using arg_cong [OF u(3), of c_refs] by (simp add: cache_of_def)
  have idu: "a_idle 2 (cache_of u)" using id by (simp add: u(3))
  let ?w = "map (\<lambda>i. (hdr_block (disk s st) i, disk s (log_blk st i))) [0..<nat (hdr_n (disk s st))]"
  have "map (\<lambda>i. (home_at u i, view u (log_blk st i))) [0..<nat (lh_n (l_lh (logs u)))] = ?w"
    using lh by (simp add: u(4) vu)
  moreover obtain w where "install_trans 1 u = Ret () w" "log_cfg st w" "bframe u w"
    "cache_of w = (a_stores (map (\<lambda>i. (home_at u i, view u (log_blk st i))) [0..<nat (lh_n (l_lh (logs u)))]) (cache_of u))
      \<lparr>c_refs := (\<lambda>b. if 1 = (0 :: int) \<and> b \<in> homes (l_lh (logs u)) then refs u b - 1 else refs u b)\<rparr>"
    using install_trans_law [OF u(2) t idu, of 1] by auto
  ultimately have w: "install_trans 1 u = Ret () w" "log_cfg st w" "bframe u w" "cache_of w = a_stores ?w (cache_of s)"
    by (simp_all add: u(3) ru a_stores_def) (simp add: cache_of_def)
  have lw: "logs w = l" using bframe_logs [OF w(3)] u(4) by simp
  define x where "x = w\<lparr>logs := log_cleared l\<rparr>"
  have cx: "cache_of x = cache_of w" "logs x = log_cleared l" by (simp_all add: x_def state_simps)
  have xc: "log_cfg st x" using w(2) by (simp add: x_def log_cfg_def log_cleared_def lw state_simps)
  have "view x = apply_writes ?w (disk s)" using arg_cong [OF w(4), of c_view] cx(1) vd by (simp add: cache_of_def)
  moreover have "hdr_block (disk s st) i \<noteq> st" if "i < nat (hdr_n (disk s st))" for i
    using b that in_log_area(1) [of st] by (auto simp: boot_ok_def)
  ultimately have xs: "view x st = disk s st"
    using apply_writes_notin [of st ?w "disk s"] by force
  have idx: "a_idle 2 (cache_of x)" using id by (simp add: cx w(4))
  obtain y where y: "write_head x = Ret () y" "log_cfg st y" "bframe x y"
    "cache_of y = a_store st (write_hdr ((l_lh l)\<lparr>lh_n := 0\<rparr>) (disk s st)) (cache_of x)"
    using write_head_law [OF xc a_idle_avail [OF idx]] xs by (auto simp: cx(2) log_cleared_def)
  have "logs y = log_cleared l" using bframe_logs [OF y(3)] cx(2) by simp
  moreover have "cache_of y = a_stores (recover_writes st (disk s)) (cache_of s)"
    by (simp add: y(4) cx(1) w(4) recover_writes_def a_stores_snoc write_hdr_def)
  moreover have "recover_from_log s = Ret () y"
    using u(1) w(1) y(1) by (simp add: recover_from_log_def kop_simps x_def lw log_cleared_def)
  ultimately show ?thesis using y(2) by (auto simp: log_cleared_def)
qed

lemma locks_upd_cache:
  assumes "free_lk BcacheLock (s\<lparr>locks := l\<rparr>) = free_lk BcacheLock s"
    "\<And>i. free_lk (SleepLk i) (s\<lparr>locks := l\<rparr>) = free_lk (SleepLk i) s" "\<And>p. free_lk (ProcLock p) (s\<lparr>locks := l\<rparr>) = free_lk (ProcLock p) s"
  shows "bio_ok (s\<lparr>locks := l\<rparr>) = bio_ok s" "cache_of (s\<lparr>locks := l\<rparr>) = cache_of s"
proof -
  have a: "slot (s\<lparr>locks := l\<rparr>) = slot s" "sl_free k (s\<lparr>locks := l\<rparr>) = sl_free k s" for k
    by (simp_all add: slot_def [abs_def] sl_free_def)
  have c: "calm (s\<lparr>locks := l\<rparr>) = calm s"
    using assms(3) by (simp add: calm_def procs_free_def irq_ok_def mycpu_def cpuid_def intr_get_def)
  show "bio_ok (s\<lparr>locks := l\<rparr>) = bio_ok s"
    using assms by (simp add: bio_ok_def bio_ready_def bio_inv_def buf_ok_def c a)
  show "cache_of (s\<lparr>locks := l\<rparr>) = cache_of s"
    by (auto simp: cache_of_def view_def refs_def lockd_def a fun_eq_iff split: option.split)
qed

lemma initlog_law:
  assumes b: "boot_ok (sb_logstart sb) s"
  shows "\<exists>t. initlog 1 sb s = Ret () t \<and> log_cfg (sb_logstart sb) t \<and> lh_n (l_lh (logs t)) = 0 \<and>
    cache_of t = a_stores (recover_writes (sb_logstart sb) (disk s)) (cache_of s)"
proof -
  define u where "u = s\<lparr>locks := (locks s)(LogLock := (locks s LogLock)\<lparr>lname := ''log'', locked := 0, lcpu := None\<rparr>)\<rparr>"
  have "bio_ok u = bio_ok s" "cache_of u = cache_of s"
    unfolding u_def by (rule locks_upd_cache; simp add: free_lk_def)+
  then have u: "bio_ok u = bio_ok s" "refs u = refs s" "lockd u = lockd s" "disk u = disk s" "cache_of u = cache_of s"
    by (simp_all add: cache_of_def)
  define v where "v = u\<lparr>logs := (logs u)\<lparr>l_start := sint (sb_logstart sb), l_size := sint (sb_nlog sb), l_dev := 1\<rparr>\<rparr>"
  have v: "cache_of v = cache_of s" "bio_ok v = bio_ok s" by (simp_all add: v_def state_simps u)
  have "refs v = refs s" "lockd v = lockd s" and d: "disk v = disk s"
    using v(1) by (simp_all add: cache_of_def)
  then have "boot_ok (sb_logstart sb) v" using b v(2) by (simp add: boot_ok_def)
  moreover have "log_cfg (sb_logstart sb) v" using b v(2) by (simp add: log_cfg_def v_def boot_ok_def ROOTDEV_def)
  moreover have "initlog 1 sb s = recover_from_log v"
    by (simp add: initlog_def initlock_def set_lock_def kop_simps v_def u_def logheader_size_def LOGSIZE_30 BSIZE_def)
  ultimately show ?thesis using recover_law [of "sb_logstart sb" v] by (simp add: v(1) d)
qed

section \<open>Critical sections around cache operations\<close>

lemma bio_ok_acq [state_simps]:
  "irq_ok s \<Longrightarrow> lk \<noteq> BcacheLock \<Longrightarrow> \<forall>i. lk \<noteq> SleepLk i \<Longrightarrow> \<forall>p. lk \<noteq> ProcLock p \<Longrightarrow> bio_ok (acq lk s) = bio_ok s"
  "cache_of (acq lk s) = cache_of s" "hold (acq lk s) i b = hold s i b"
  "cache_of (rel lk s) = cache_of s" "hold (rel lk s) i b = hold s i b"
  "cache_of (tch s) = cache_of s" "hold (tch s) i b = hold s i b" "bio_ok (tch s) = bio_ok s"
proof -
  have a: "slot (acq lk s) = slot s" "slot (rel lk s) = slot s" "slot (tch s) = slot s"
    by (simp_all add: slot_def [abs_def] state_simps)
  show "cache_of (acq lk s) = cache_of s" "cache_of (rel lk s) = cache_of s" "cache_of (tch s) = cache_of s"
    by (auto simp: cache_of_def view_def refs_def lockd_def a fun_eq_iff state_simps split: option.split)
  show "hold (acq lk s) i b = hold s i b" "hold (rel lk s) i b = hold s i b" "hold (tch s) i b = hold s i b"
    by (simp_all add: hold_def a state_simps)
  show "bio_ok (tch s) = bio_ok s"
    by (simp add: bio_ok_def bio_ready_def bio_inv_def buf_ok_def state_simps)
  assume x: "irq_ok s" "lk \<noteq> BcacheLock" "\<forall>i. lk \<noteq> SleepLk i" "\<forall>p. lk \<noteq> ProcLock p"
  then have f: "free_lk BcacheLock (acq lk s) = free_lk BcacheLock s"
    "free_lk (SleepLk i) (acq lk s) = free_lk (SleepLk i) s" "free_lk (ProcLock p) (acq lk s) = free_lk (ProcLock p) s" for i p
    by (metis acq_state(5))+
  have "calm (acq lk s) = calm s" using x(1) f(3) by (simp add: calm_def procs_free_def state_simps)
  then show "bio_ok (acq lk s) = bio_ok s"
    using f by (simp add: bio_ok_def bio_ready_def bio_inv_def buf_ok_def state_simps)
qed

lemma bframe_section:
  assumes fr: "free_lk lk s" and i: "irq_ok s" and b: "bframe (acq lk s) u"
  shows "release lk u = Ret () (rel lk u)" "bframe s (rel lk u)"
proof -
  have cs: "in_cs (acq lk s)" using i by (simp add: state_simps)
  then have cu: "in_cs u" "held_lk lk u" using bframe_state(2,4) [OF b] by (simp_all add: state_simps)
  then show "release lk u = Ret () (rel lk u)" by (simp add: kop_simps)
  have "u = (acq lk s)\<lparr>procs := procs u, sleeps := sleeps u, bufs := bufs u, disk := disk u, dtrace := dtrace u\<rparr>"
    using b [unfolded bframe_def, THEN conjunct1] tch_in_cs [OF cu(1)] tch_in_cs [OF cs] by simp
  then have "rel lk u = rel lk ((acq lk s)\<lparr>procs := procs u, sleeps := sleeps u, bufs := bufs u, disk := disk u, dtrace := dtrace u\<rparr>)"
    by simp
  also have "\<dots> = (tch s)\<lparr>procs := procs u, sleeps := sleeps u, bufs := bufs u, disk := disk u, dtrace := dtrace u\<rparr>"
    using fr i by (simp add: state_simps)
  finally have e: "rel lk u = (tch s)\<lparr>procs := procs u, sleeps := sleeps u, bufs := bufs u, disk := disk u, dtrace := dtrace u\<rparr>" .
  have "same_procs (acq lk s) u" "\<forall>k. sleeps u (InodeSleep k) = sleeps (acq lk s) (InodeSleep k)"
    using b by (simp_all add: bframe_def)
  then show "bframe s (rel lk u)" unfolding e by (simp add: bframe_def same_procs_def state_simps)
qed

lemma bio_ok_frame:
  assumes "bframe s t" "bio_ok s" "bio_ok u" "cache_of t = cache_of u" "bufs t = bufs u" "sleeps t = sleeps u"
  shows "bio_ok t"
proof -
  have "disk t = disk u" using arg_cong [OF assms(4), of c_disk] by (simp add: cache_of_def)
  moreover have "bio_ready t" using assms(1,2) bframe_state(14) by (auto simp: bio_ok_def)
  ultimately show ?thesis using assms(3,5,6) by (simp add: bio_ok_def bio_inv_def buf_ok_def sl_free_def)
qed

lemma log_find_spec:
  assumes "0 \<le> lh_n lh"
  shows "log_find [0..<nat (lh_n lh)] lh b = (if b \<in> homes lh then LEAST i. lh_block lh i = b else nat (lh_n lh))"
proof -
  have f: "log_find is lh b = (if b \<in> lh_block lh ` set is then
      hd (filter (\<lambda>i. lh_block lh i = b) is) else nat (lh_n lh))" for "is"
    by (induction "is") auto
  have h: "homes lh = lh_block lh ` set [0..<nat (lh_n lh)]" by (simp add: homes_def lessThan_atLeast0)
  show ?thesis
  proof (cases "b \<in> homes lh")
    case True
    then obtain j where j: "j < nat (lh_n lh)" "lh_block lh j = b" by (auto simp: homes_def)
    define i where "i = (LEAST i. lh_block lh i = b)"
    have i: "lh_block lh i = b" "i \<le> j" unfolding i_def using j(2) by (auto intro: LeastI Least_le)
    have "\<not> lh_block lh k = b" if "k < i" for k using that not_less_Least by (simp add: i_def)
    moreover have "[0..<nat (lh_n lh)] = [0..<i] @ i # [Suc i..<nat (lh_n lh)]"
      using i(2) j(1) by (simp add: upt_conv_Cons [symmetric]) (metis le_trans less_imp_le_nat upt_add_eq_append le0 le_add_diff_inverse)
    ultimately have "filter (\<lambda>i. lh_block lh i = b) [0..<nat (lh_n lh)] = i # filter (\<lambda>i. lh_block lh i = b) [Suc i..<nat (lh_n lh)]"
      using i(1) by (simp add: filter_empty_conv)
    then show ?thesis using True by (simp add: f h i_def)
  next
    case False
    then show ?thesis by (simp add: f h)
  qed
qed

text \<open>The header after \<open>log_write\<close> of block \<open>b\<close>.\<close>

definition logged_hdr :: "logheader \<Rightarrow> uint \<Rightarrow> logheader" where
  "logged_hdr lh b = (if b \<in> homes lh then lh
     else lh\<lparr>lh_block := (lh_block lh)(nat (lh_n lh) := b), lh_n := lh_n lh + 1\<rparr>)"

lemma log_find_home:
  assumes "0 \<le> lh_n lh" "b \<in> homes lh"
  shows "log_find [0..<nat (lh_n lh)] lh b < nat (lh_n lh)" "lh_block lh (log_find [0..<nat (lh_n lh)] lh b) = b"
proof -
  obtain j where j: "j < nat (lh_n lh)" "lh_block lh j = b" using assms(2) by (auto simp: homes_def)
  have e: "log_find [0..<nat (lh_n lh)] lh b = (LEAST i. lh_block lh i = b)"
    using log_find_spec [OF assms(1), of b] assms(2) by simp
  show "log_find [0..<nat (lh_n lh)] lh b < nat (lh_n lh)" 
    unfolding e using Least_le [of "\<lambda>i. lh_block lh i = b", OF j(2)] j(1) by simp
  show "lh_block lh (log_find [0..<nat (lh_n lh)] lh b) = b" unfolding e using j(2) by (rule LeastI)
qed

definition log_room :: "log \<Rightarrow> bool" where
  "log_room l \<longleftrightarrow> 0 \<le> lh_n (l_lh l) \<and> lh_n (l_lh l) < int LOGSIZE \<and> lh_n (l_lh l) < l_size l - 1 \<and> 1 \<le> l_outstanding l"

lemma logs_same: "logs s = l \<Longrightarrow> s\<lparr>logs := l\<rparr> = s"
  by auto

lemma log_write_gen:
  assumes ok: "bio_ok s" and h: "hold s i b" and fl: "free_lk LogLock s" and rm: "log_room (logs s)"
    and rf: "refs s b < 2 ^ 32 - 1"
  defines "lh \<equiv> l_lh (logs s)"
  shows "\<exists>t. log_write i s = Ret () t \<and> bio_ok t \<and> (\<forall>j c. hold s j c \<longrightarrow> hold t j c) \<and>
    bframe (s\<lparr>logs := (logs s)\<lparr>l_lh := logged_hdr lh b\<rparr>\<rparr>) t \<and>
    cache_of t = (if b \<in> homes lh then cache_of s else a_ref b (refs s b + 1) (cache_of s))"
proof -
  have irq: "irq_ok s" using ok by (simp add: bio_ok_def bio_ready_def calm_def)
  have n: "0 \<le> lh_n lh" "\<not> int LOGSIZE \<le> lh_n lh" "\<not> l_size (logs s) - 1 \<le> lh_n lh" "\<not> l_outstanding (logs s) < 1"
    using rm by (auto simp: log_room_def lh_def)
  have bq: "b_blockno (bufs s i) = b" using hold_facts(4) [OF ok h] .
  define l where "l = (logs s)\<lparr>l_lh := logged_hdr lh b\<rparr>"
  let ?s = "s\<lparr>logs := l\<rparr>"
  have f: "free_lk LogLock ?s" "irq_ok ?s" using fl irq by (simp_all add: state_simps)
  have aq: "bio_ok (acq LogLock ?s)" "\<forall>j c. hold s j c \<longrightarrow> hold (acq LogLock ?s) j c" "cache_of (acq LogLock ?s) = cache_of s"
    using ok irq by (simp_all add: state_simps)
  have fin: ?thesis if u: "log_write i s = release LogLock u" "bio_ok u" "bframe (acq LogLock ?s) u" "\<forall>j c. hold s j c \<longrightarrow> hold u j c"
      "cache_of u = (if b \<in> homes lh then cache_of s else a_ref b (refs s b + 1) (cache_of s))" for u
  proof -
    note sec = bframe_section [OF f u(3)]
    have "bio_ok (rel LogLock u)" by (rule bio_ok_frame [OF sec(2) _ u(2)]) (use ok in \<open>simp_all add: state_simps\<close>)
    then show ?thesis using u sec by (auto simp: l_def state_simps)
  qed
  show ?thesis
  proof (cases "b \<in> homes lh")
    case True
    note lf = log_find_home [OF n(1) True]
    have "lh\<lparr>lh_block := (lh_block lh)(log_find [0..<nat (lh_n lh)] lh b := b)\<rparr> = lh"
      using lf(2) by (simp add: fun_upd_idem)
    moreover have "int (log_find [0..<nat (lh_n lh)] lh b) \<noteq> lh_n lh" using lf(1) by linarith
    moreover have sl: "(acq LogLock s)\<lparr>logs := logs s\<rparr> = acq LogLock s" by (rule logs_same) (simp add: state_simps)
    ultimately have "log_write i s = release LogLock (acq LogLock ?s)"
      using fl n bq True by (simp add: log_write_def kop_simps state_simps Let_def lh_def l_def logged_hdr_def sl)
    then show ?thesis using fin [of "acq LogLock ?s"] aq True by simp
  next
    case False
    have lf: "log_find [0..<nat (lh_n lh)] lh b = nat (lh_n lh)" using log_find_spec [OF n(1), of b] False by simp
    let ?l1 = "(logs s)\<lparr>l_lh := lh\<lparr>lh_block := (lh_block lh)(nat (lh_n lh) := b)\<rparr>\<rparr>"
    let ?a = "acq LogLock (s\<lparr>logs := ?l1\<rparr>)"
    have a1: "bio_ok ?a" "hold ?a i b" "cache_of ?a = cache_of s" "\<forall>j c. hold s j c \<longrightarrow> hold ?a j c"
      using ok h irq by (simp_all add: state_simps)
    then obtain v where v: "bpin i ?a = Ret () v" "bio_ok v" "bframe ?a v"
      "cache_of v = a_ref b (refs s b + 1) (cache_of s)" "\<forall>j c. hold ?a j c \<longrightarrow> hold v j c"
      using bc.pin_law [OF a1(1,2)] rf by (auto simp: cache_of_def)
    have hv: "\<forall>j c. hold s j c \<longrightarrow> hold v j c" using v(5) a1(4) by blast
    have lv: "logs v = ?l1" using bframe_logs [OF v(3)] by (simp add: state_simps)
    let ?u = "v\<lparr>logs := l\<rparr>"
    have "bframe (?a\<lparr>logs := l\<rparr>) ?u" by (rule bframe_logs_upd [OF v(3)])
    then have "bframe (acq LogLock ?s) ?u" by (simp add: state_simps)
    moreover have "log_write i s = release LogLock ?u"
      using fl n lf bq False v(1) lv
      by (simp add: log_write_def kop_simps state_simps Let_def lh_def l_def logged_hdr_def)
    ultimately show ?thesis using fin [of ?u] v(2,4) hv False by (simp add: state_simps)
  qed
qed

lemma log_write_law:
  assumes ok: "bio_ok s" and h: "hold s i b" and fl: "free_lk LogLock s" and rm: "log_room (logs s)"
    and rf: "refs s b < 2 ^ 32 - 1"
  defines "lh \<equiv> l_lh (logs s)"
  shows "\<exists>t. log_write i s = Ret () t \<and> bio_ok t \<and> hold t i b \<and>
    bframe (s\<lparr>logs := (logs s)\<lparr>l_lh := logged_hdr lh b\<rparr>\<rparr>) t \<and>
    cache_of t = (if b \<in> homes lh then cache_of s else a_ref b (refs s b + 1) (cache_of s))"
  using log_write_gen [OF ok h fl rm rf] h unfolding lh_def by blast

section \<open>Properties\<close>

text \<open>What a commit starts from: logged blocks are distinct, pinned and outside the log, and a buffer is unused.\<close>

definition commit_ready :: "uint \<Rightarrow> 'z log_state_scheme \<Rightarrow> bool" where
  "commit_ready st s \<longleftrightarrow> log_cfg st s \<and> txn_ok st (l_lh (logs s)) \<and> 0 < lh_n (l_lh (logs s)) \<and>
     a_idle 1 (cache_of s) \<and> refs s st = 0 \<and> (\<forall>b\<in>homes (l_lh (logs s)). refs s b \<noteq> 0) \<and>
     inj_on (lh_block (l_lh (logs s))) {..<nat (lh_n (l_lh (logs s)))} \<and> hdr_n (disk s st) = 0"

lemma commit_ready_law:
  assumes "commit_ready st s"
  shows "\<exists>t. commit s = Ret () t \<and> log_cfg st t \<and> bframe (s\<lparr>logs := log_cleared (logs s)\<rparr>) t \<and>
    cache_of t = (a_stores (commit_writes st (disk s) (view s) (l_lh (logs s))) (cache_of s))
      \<lparr>c_refs := (\<lambda>b. if b \<in> homes (l_lh (logs s)) then refs s b - 1 else refs s b)\<rparr>"
  using assms by (intro commit_law) (auto simp: commit_ready_def homes_def)

lemma commit_ready_disk:
  "commit_ready st s \<Longrightarrow> hdr_n (disk s st) = 0 \<and> length (disk s st) = BSIZE \<and> txn_ok st (l_lh (logs s))"
  by (auto simp: commit_ready_def log_cfg_def bio_ok_def bio_inv_def)

lemma crash_boot:
  assumes "bio_ok r" "\<forall>b. refs r b = 0 \<and> \<not> lockd r b" "txn_ok st lh"
    and "idle_disk st D (disk r) \<or> logged_disk st D V lh (disk r)"
  shows "boot_ok st r"
  using assms by (auto simp: boot_ok_def idle_disk_def logged_disk_def txn_ok_def)

text \<open>
  C25. Crash safety.  \<open>commit\<close> of a transaction returns, and the disk then has the new contents of the
  logged blocks.  If the machine stops after any number \<open>k\<close> of the block writes that \<open>commit\<close> makes,
  and then after any number of writes in each of any number of recoveries, the next \<open>initlog\<close> on an
  empty cache returns, and outside the \<open>LOGSIZE\<close> blocks of the log the disk is what it was before the transaction (when
  \<open>k\<close> does not reach the header write) or what it is after it (otherwise), for all blocks together.
\<close>

theorem commit_crash_safe:
  fixes s r :: "'z log_state_scheme"
  assumes c: "commit_ready st s" and sb: "sb_logstart sb = st"
  shows "\<exists>t ws. commit s = Ret () t \<and> dtrace t = dtrace s @ ws \<and> disk t = apply_writes ws (disk s) \<and>
    (\<forall>b. b \<notin> log_area st \<longrightarrow> disk t b = new_data (disk s) (view s) (l_lh (logs s)) b) \<and>
    (\<forall>k js r. bio_ok r \<longrightarrow> (\<forall>b. refs r b = 0 \<and> \<not> lockd r b) \<longrightarrow>
       disk r = crashed_recoveries st js (apply_writes (take k ws) (disk s)) \<longrightarrow>
       (\<exists>u. initlog 1 sb (r :: 'z log_state_scheme) = Ret () u \<and> (\<forall>b. b \<notin> log_area st \<longrightarrow>
          disk u b = (if k \<le> nat (lh_n (l_lh (logs s))) then disk s b
                      else new_data (disk s) (view s) (l_lh (logs s)) b))))"
proof -
  let ?D = "disk s" and ?V = "view s" and ?lh = "l_lh (logs s)"
  let ?ws = "commit_writes st ?D ?V ?lh" let ?N = "new_data ?D ?V ?lh"
  have d: "hdr_n (?D st) = 0" "length (?D st) = BSIZE" and tx: "txn_ok st ?lh" using commit_ready_disk [OF c] by auto
  obtain t where t: "commit s = Ret () t" "cache_of t = (a_stores ?ws (cache_of s))
      \<lparr>c_refs := (\<lambda>b. if b \<in> homes ?lh then refs s b - 1 else refs s b)\<rparr>" using commit_ready_law [OF c] by blast
  have dt: "disk t = apply_writes ?ws ?D" "dtrace t = dtrace s @ ?ws"
    using arg_cong [OF t(2), of c_disk] arg_cong [OF t(2), of c_trace] by (simp_all add: cache_of_def)
  have "length ?ws = 2 * nat (lh_n ?lh) + 2" by (simp add: commit_writes_def Let_def)
  then have "logged_disk st ?D ?V ?lh (disk t) \<or> idle_disk st ?N (disk t)"
    using commit_prefix [where D = ?D and V = ?V and k = "length ?ws", OF tx d] by (simp add: dt)
  moreover have "\<not> logged_disk st ?D ?V ?lh (disk t)" using commit_end [where D = ?D, OF tx d(2)] c dt
    by (auto simp: logged_disk_def commit_ready_def)
  ultimately have new: "disk t b = ?N b" if "b \<notin> log_area st" for b using that by (simp add: idle_disk_def)
  have rec: "\<exists>u. initlog 1 sb r = Ret () u \<and> (\<forall>b. b \<notin> log_area st \<longrightarrow>
      disk u b = (if k \<le> nat (lh_n ?lh) then ?D b else ?N b))"
    if r: "bio_ok r" "\<forall>b. refs r b = 0 \<and> \<not> lockd r b" "disk r = crashed_recoveries st js (apply_writes (take k ?ws) ?D)"
    for k js and r :: "'z log_state_scheme"
  proof -
    let ?E = "apply_writes (take k ?ws) ?D"
    have "boot_ok st r"
    proof (cases "k \<le> nat (lh_n ?lh)")
      case True
      then have "idle_disk st ?D (disk r)" using commit_prefix [where D = ?D and V = ?V and k = k, OF tx d] r(3)
        by (simp add: crashed_recoveries_idle)
      then show ?thesis using crash_boot [OF r(1,2) tx] by blast
    next
      case False
      then show ?thesis using commit_prefix [where D = ?D and V = ?V and k = k, OF tx d]
          crashed_recoveries_logged [OF tx, of ?D ?V ?E js] crash_boot [OF r(1,2) tx] r(3) by auto
    qed
    then obtain u where u: "initlog 1 sb r = Ret () u" "cache_of u = a_stores (recover_writes st (disk r)) (cache_of r)"
      using initlog_law [of sb r] sb by auto
    have "disk u = recovered st (disk r)" using arg_cong [OF u(2), of c_disk] by (simp add: cache_of_def recovered_def)
    then show ?thesis using crash_safe [where D = ?D and V = ?V and k = k and js = js, OF tx d] u(1) r(3)
      by (auto simp: idle_disk_def)
  qed
  show ?thesis using t(1) dt new rec by blast
qed

text \<open>A log of 30 blocks at block 2 of a disk of zeros, inside a transaction.\<close>

definition log0 :: log_state where
  "log0 = bio_state.extend bio0 \<lparr>logs = \<lparr>l_start = 2, l_size = 30, l_outstanding = 1, l_committing = 0, l_dev = 1,
     l_lh = \<lparr>lh_n = 0, lh_block = (\<lambda>_. 0)\<rparr>\<rparr>\<rparr>"

definition sb0 :: superblock where
  "sb0 = \<lparr>sb_magic = 0x10203040, sb_size = 2000, sb_nblocks = 1954, sb_ninodes = 200, sb_nlog = 30, sb_logstart = 2,
     sb_inodestart = 32, sb_bmapstart = 45\<rparr>"

lemma log0_facts:
  "calm log0" "free_lk lk log0" "bufs log0 i = buf_blank" "disk log0 b = replicate BSIZE 0" "dtrace log0 = []"
  "logs log0 = \<lparr>l_start = 2, l_size = 30, l_outstanding = 1, l_committing = 0, l_dev = 1,
     l_lh = \<lparr>lh_n = 0, lh_block = (\<lambda>_. 0)\<rparr>\<rparr>"
  by (simp_all add: log0_def bio_state.extend_def bio0_defs calm_def lock_defs procs_free_def)

lemma hdr_zeros: "hdr_n (replicate BSIZE 0) = 0"
  by (simp add: hdr_n_def get32_def slice_def BSIZE_def)

lemma log0_boot:
  obtains t :: log_state where "bio_ok t" "\<forall>b. refs t b = 0 \<and> \<not> lockd t b" "\<forall>b. disk t b = replicate BSIZE 0"
    "logs t = logs log0" "\<forall>lk. free_lk lk t" "log_cfg 2 t" "boot_ok 2 t" "dtrace t = []"
proof -
  obtain t l m q where t: "bio_ok t" "\<forall>b. refs t b = 0 \<and> \<not> lockd t b" "\<forall>lk. free_lk lk t"
    "t = log0\<lparr>locks := l, sleeps := m, bufs := q\<rparr>"
    by (rule binit_boot [of log0]) (auto simp: log0_facts)
  have d: "disk t b = replicate BSIZE 0" and l: "logs t = logs log0" for b by (simp_all add: t(4) log0_facts)
  have "log_cfg 2 t" using t(1) by (simp add: log_cfg_def l log0_facts ROOTDEV_def)
  moreover have "boot_ok 2 t" using t(1,2) by (simp add: boot_ok_def d hdr_zeros LOGSIZE_30)
  moreover have "dtrace t = []" by (simp add: t(4) log0_facts)
  ultimately show ?thesis using that [of t] t(1-3) d l by blast
qed

lemma log_area_two:
  assumes "32 \<le> unat b"
  shows "b \<notin> log_area 2"
proof
  assume "b \<in> log_area 2"
  moreover have "unat (log_blk 2 i) = i + 3" if "i < 29" for i
    using that by (simp add: log_blk_def unat_word_ariths unat_of_nat)
  ultimately show False using assms by (auto simp: log_area_def LOGSIZE_30)
qed

text \<open>The state of a process that has logged one change, of block 32, the first block of the inodes.\<close>

lemma log0_txn:
  obtains s r :: log_state where "commit_ready 2 s" "disk s = disk r" "\<forall>b. disk r b = replicate BSIZE 0"
    "bio_ok r" "\<forall>b. refs r b = 0 \<and> \<not> lockd r b" "view s 32 = replicate BSIZE 9" "homes (l_lh (logs s)) = {32}"
    "lh_n (l_lh (logs s)) = 1"
proof -
  obtain r :: log_state where r: "bio_ok r" "\<forall>b. refs r b = 0 \<and> \<not> lockd r b" "\<forall>b. disk r b = replicate BSIZE 0"
    "logs r = logs log0" "\<forall>lk. free_lk lk r" "log_cfg 2 r" "boot_ok 2 r" using log0_boot by metis
  have av: "a_avail (cache_of r) 32" using cache_avail_idle r(2) by blast
  obtain i t where t: "bio_ok t" "hold t i 32" "bframe r t" "cache_of t = a_read 32 (cache_of r)"
    using bc.rd_law [OF r(1) av] by blast
  obtain u where u: "bio_ok u" "hold u i 32" "bframe t u" "cache_of u = a_put 32 (replicate BSIZE 9) (cache_of t)"
    using bc.put_law [OF t(1,2), of "replicate BSIZE 9"] t(2) by auto
  have fu: "bframe r u" by (rule bframe_trans [OF t(3) u(3)])
  have lu: "logs u = logs log0" using bframe_logs [OF fu] r(4) by simp
  have ru: "refs u = (\<lambda>b. if b = 32 then 1 else 0)"
    using arg_cong [OF u(4) [unfolded t(4)], of c_refs] r(2) by (auto simp: a_defs cache_of_def)
  have fl: "free_lk LogLock u" using bframe_state(1) [OF fu] r(5) by simp
  have h0: "homes (l_lh (logs u)) = {}" by (simp add: lu log0_facts homes_def)
  have rm: "log_room (logs u)" by (simp add: lu log0_facts log_room_def LOGSIZE_30)
  have rf: "refs u 32 < 2 ^ 32 - 1" by (simp add: ru)
  define l where "l = (logs u)\<lparr>l_lh := logged_hdr (l_lh (logs u)) 32\<rparr>"
  obtain v where v: "bio_ok v" "hold v i 32" "bframe (u\<lparr>logs := l\<rparr>) v" "cache_of v = a_ref 32 2 (cache_of u)"
    using log_write_law [OF u(1,2) fl rm rf] by (auto simp: ru h0 l_def numeral_2_eq_2)
  have "c_refs (cache_of v) 32 \<noteq> 1" by (simp add: v(4) a_defs)
  then obtain w where w: "bio_ok w" "bframe v w" "cache_of w = a_release 32 (cache_of v)"
    using bc.rls_law [OF v(1,2)] by blast
  note w' = w(3) [unfolded v(4) u(4) t(4)]
  have lw: "logs w = l" using bframe_logs [OF v(3)] bframe_logs [OF w(2)] by simp
  have l: "lh_n (l_lh l) = 1" "lh_block (l_lh l) 0 = 32" "l_dev l = 1" "l_start l = 2"
    by (simp_all add: l_def logged_hdr_def h0) (simp_all add: lu log0_facts)
  have hw: "homes (l_lh (logs w)) = {32}" by (simp add: lw homes_def l lessThan_Suc)
  have cw: "view w 32 = replicate BSIZE 9" "disk w = disk r" "lockd w = lockd r" "refs w = (\<lambda>b. if b = 32 then 1 else 0)"
    using arg_cong [OF w', of c_view] arg_cong [OF w', of c_disk] arg_cong [OF w', of c_lock]
      arg_cong [OF w', of c_refs] r(2) by (auto simp: a_defs cache_of_def fun_eq_iff)
  have "{b. refs w b \<noteq> 0} = {32}" by (auto simp: cw)
  then have "a_idle 1 (cache_of w)" using r(2) by (simp add: a_idle_def cache_of_def cw NBUF_30)
  moreover have "txn_ok 2 (l_lh (logs w))" by (simp add: txn_ok_def lw l LOGSIZE_30 log_area_two)
  ultimately have "commit_ready 2 w"
    using w(1) r(3) by (simp add: commit_ready_def log_cfg_def lw l ROOTDEV_def hw [unfolded lw] cw hdr_zeros lessThan_Suc)
  then show ?thesis using that [of w r] cw hw r l lw by simp
qed

text \<open>A machine that starts over a disk \<open>D\<close>.\<close>

lemma log_boot_disk:
  fixes D :: diskmap
  assumes "\<forall>b. length (D b) = BSIZE"
  obtains t :: log_state where "bio_ok t" "\<forall>b. refs t b = 0 \<and> \<not> lockd t b" "disk t = D" "dtrace t = []"
proof -
  have e: "calm (log0\<lparr>disk := D\<rparr>)" using log0_facts(1) by (simp add: calm_def procs_free_def lock_defs)
  have f: "free_lk lk (log0\<lparr>disk := D\<rparr>)" for lk using log0_facts(2) [of lk] by (simp add: free_lk_def)
  obtain t l m q where t: "bio_ok t" "\<forall>b. refs t b = 0 \<and> \<not> lockd t b"
    "t = log0\<lparr>disk := D, locks := l, sleeps := m, bufs := q\<rparr>"
    by (rule binit_boot [of "log0\<lparr>disk := D\<rparr>"]) (use e f assms in \<open>auto simp: log0_facts\<close>)
  then show ?thesis using that [of t] by (simp add: log0_facts)
qed

text \<open>The disk on which the machine stops right after the header of that transaction is written.\<close>

lemma log0_crashed:
  assumes "lh_n lh = 1" "lh_block lh 0 = 32" "V 32 = replicate BSIZE 9" "\<forall>b. D b = replicate BSIZE 0"
  defines "E \<equiv> apply_writes (take 2 (commit_writes 2 D V lh)) D"
  shows "\<forall>b. length (E b) = BSIZE" "E 32 = replicate BSIZE 0" "hdr_n (E 2) = 1" "hdr_block (E 2) 0 = 32"
    "E 3 = replicate BSIZE 9"
proof -
  have E: "E = D(3 := replicate BSIZE 9, 2 := write_hdr lh (D 2))"
    using assms(1-3) by (simp add: E_def commit_writes_def Let_def log_blk_def numeral_2_eq_2)
  have w: "length (write_hdr lh (D 2)) = BSIZE" "hdr_n (write_hdr lh (D 2)) = 1" "hdr_block (write_hdr lh (D 2)) 0 = 32"
    using write_hdr_facts [of lh "D 2"] assms(1,2,4) by (simp_all add: LOGSIZE_30)
  then show "\<forall>b. length (E b) = BSIZE" "E 32 = replicate BSIZE 0" "hdr_n (E 2) = 1" "hdr_block (E 2) 0 = 32"
    "E 3 = replicate BSIZE 9" using assms(4) by (simp_all add: E)
qed

theorem commit_crash_safe_witness:
  "\<exists>(s :: log_state) t (r :: log_state) u (r' :: log_state) u'. commit_ready 2 s \<and> commit s = Ret () t \<and>
     disk t 32 = replicate BSIZE 9 \<and> disk r = disk s \<and> initlog 1 sb0 r = Ret () u \<and> disk u 32 = replicate BSIZE 0 \<and>
     disk r' 32 = replicate BSIZE 0 \<and> initlog 1 sb0 r' = Ret () u' \<and> disk u' 32 = replicate BSIZE 9"
proof -
  obtain s r :: log_state where s: "commit_ready 2 s" "disk s = disk r" "\<forall>b. disk r b = replicate BSIZE 0"
    "bio_ok r" "\<forall>b. refs r b = 0 \<and> \<not> lockd r b" "view s 32 = replicate BSIZE 9" "homes (l_lh (logs s)) = {32}"
    "lh_n (l_lh (logs s)) = 1" using log0_txn by metis
  have b0: "lh_block (l_lh (logs s)) 0 = 32" using s(7,8) by (simp add: homes_def lessThan_Suc)
  have dt: "dtrace t = dtrace s @ commit_writes 2 (disk s) (view s) (l_lh (logs s))" if "commit s = Ret () t" for t
    using commit_ready_law [OF s(1)] that by (auto simp: cache_of_def dest!: arg_cong [where f = c_trace])
  obtain t ws where t: "commit s = Ret () t" "dtrace t = dtrace s @ ws"
      "\<forall>b. b \<notin> log_area 2 \<longrightarrow> disk t b = new_data (disk s) (view s) (l_lh (logs s)) b"
    and c: "\<forall>k js r. bio_ok r \<longrightarrow> (\<forall>b. refs r b = 0 \<and> \<not> lockd r b) \<longrightarrow>
       disk r = crashed_recoveries 2 js (apply_writes (take k ws) (disk s)) \<longrightarrow>
       (\<exists>u. initlog 1 sb0 (r :: log_state) = Ret () u \<and> (\<forall>b. b \<notin> log_area 2 \<longrightarrow>
          disk u b = (if k \<le> nat (lh_n (l_lh (logs s))) then disk s b
                      else new_data (disk s) (view s) (l_lh (logs s)) b)))"
    using commit_crash_safe [OF s(1), of sb0] by (auto simp: sb0_def)
  have a: "32 \<notin> log_area 2" by (simp add: log_area_two)
  have ws: "ws = commit_writes 2 (disk s) (view s) (l_lh (logs s))" using dt [OF t(1)] t(2) by simp
  note E = log0_crashed [where V = "view s", OF s(8) b0 s(6) s(3) [folded s(2)], folded ws]
  obtain r' :: log_state where r': "bio_ok r'" "\<forall>b. refs r' b = 0 \<and> \<not> lockd r' b" "disk r' = apply_writes (take 2 ws) (disk s)"
    using log_boot_disk [OF E(1)] by metis
  obtain u where u: "initlog 1 sb0 r = Ret () u" "disk u 32 = disk s 32"
    using c [rule_format, of r "[]" 0] s(2,4,5) a by (auto simp: crashed_recoveries_def)
  obtain u' where u': "initlog 1 sb0 r' = Ret () u'" "disk u' 32 = new_data (disk s) (view s) (l_lh (logs s)) 32"
    using c [rule_format, of r' "[]" 2] r' a s(8) by (auto simp: crashed_recoveries_def)
  have "new_data (disk s) (view s) (l_lh (logs s)) 32 = replicate BSIZE 9" using s(6,7) by (simp add: new_data_def)
  then have "disk t 32 = replicate BSIZE 9" "disk u 32 = replicate BSIZE 0" "disk u' 32 = replicate BSIZE 9"
    using t(3) a u(2) u'(2) s(2,3) by simp_all
  moreover have "disk r' 32 = replicate BSIZE 0" using E(2) by (simp only: r'(3))
  ultimately show ?thesis using s(1) t(1) s(2) u(1) u'(1) by metis
qed

text \<open>
  C26. Recovery.  On an empty cache over a disk whose header names at most \<open>LOGSIZE - 1\<close> blocks, none of
  them a block of the log, \<open>initlog\<close> returns with an empty log; its block writes are, in this order, the logged blocks to their home locations and the
  cleared header.  Recovering again changes no block outside the log.
\<close>

theorem initlog_recovers:
  assumes "boot_ok (sb_logstart sb) s"
  shows "\<exists>t. initlog 1 sb s = Ret () t \<and> bio_ok t \<and> lh_n (l_lh (logs t)) = 0 \<and> hdr_n (disk t (sb_logstart sb)) = 0 \<and>
    dtrace t = dtrace s @ recover_writes (sb_logstart sb) (disk s) \<and> disk t = recovered (sb_logstart sb) (disk s) \<and>
    (\<forall>b. b \<notin> log_area (sb_logstart sb) \<longrightarrow> recovered (sb_logstart sb) (disk t) b = disk t b)"
proof -
  let ?st = "sb_logstart sb"
  obtain t where t: "initlog 1 sb s = Ret () t" "log_cfg ?st t" "lh_n (l_lh (logs t)) = 0"
    "cache_of t = a_stores (recover_writes ?st (disk s)) (cache_of s)" using initlog_law [OF assms] by blast
  have d: "disk t = recovered ?st (disk s)" "dtrace t = dtrace s @ recover_writes ?st (disk s)"
    using arg_cong [OF t(4), of c_disk] arg_cong [OF t(4), of c_trace] by (simp_all add: cache_of_def recovered_def)
  have "length (disk s ?st) = BSIZE" using assms by (simp add: boot_ok_def bio_ok_def bio_inv_def)
  then have h: "hdr_n (disk t ?st) = 0" using hdr_clear by (simp add: d(1) recovered_def recover_writes_def)
  have "length (disk t ?st) = BSIZE" using t(2) by (simp add: log_cfg_def bio_ok_def bio_inv_def)
  then have "idle_disk ?st (disk t) (disk t)" using h by (simp add: idle_disk_def)
  from idle_recovery [OF this, of "length (recover_writes ?st (disk t))"]
  have "\<forall>b. b \<notin> log_area ?st \<longrightarrow> recovered ?st (disk t) b = disk t b" by (simp add: idle_disk_def recovered_def)
  then show ?thesis using t d h by (auto simp: log_cfg_def)
qed

theorem initlog_recovers_witness:
  "\<exists>(s :: log_state) t. boot_ok 2 s \<and> hdr_n (disk s 2) = 1 \<and> hdr_block (disk s 2) 0 = 32 \<and> disk s 32 = replicate BSIZE 0 \<and>
     initlog 1 sb0 s = Ret () t \<and> hdr_n (disk t 2) = 0 \<and> disk t 32 = replicate BSIZE 9"
proof -
  define lh where "lh = \<lparr>lh_n = 1, lh_block = (\<lambda>_. 32)\<rparr>"
  define E where "E = apply_writes (take 2 (commit_writes 2 (\<lambda>_. replicate BSIZE 0) (\<lambda>_. replicate BSIZE 9) lh)) (\<lambda>_. replicate BSIZE 0)"
  have E: "\<forall>b. length (E b) = BSIZE" "E 32 = replicate BSIZE 0" "hdr_n (E 2) = 1" "hdr_block (E 2) 0 = 32"
    "E 3 = replicate BSIZE 9" unfolding E_def by (rule log0_crashed; simp add: lh_def)+
  obtain s :: log_state where s: "bio_ok s" "\<forall>b. refs s b = 0 \<and> \<not> lockd s b" "disk s = E" using log_boot_disk [OF E(1)] by metis
  have b: "boot_ok 2 s" using s E(3,4) by (simp add: boot_ok_def LOGSIZE_30 log_area_two)
  obtain t where t: "initlog 1 sb0 s = Ret () t" "hdr_n (disk t 2) = 0" "disk t = recovered 2 (disk s)"
    using initlog_recovers [of sb0 s] b by (auto simp: sb0_def)
  have "disk t 32 = replicate BSIZE 9"
    using E(3-5) by (simp add: t(3) s(3) recovered_def recover_writes_def log_blk_def)
  then show ?thesis using b t s(3) E by auto
qed

text \<open>
  C27. \<open>log_write\<close> of a held buffer inside a transaction with room adds the block to the log exactly
  once: a block that is already logged is absorbed and nothing changes, a new block is appended and
  its buffer pinned, so that the cache keeps it until it is committed.
\<close>

theorem log_write_absorbs:
  assumes "bio_ok s" "hold s i b" "free_lk LogLock s" "log_room (logs s)" "refs s b < 2 ^ 32 - 1"
  shows "\<exists>t. log_write i s = Ret () t \<and> bio_ok t \<and> hold t i b \<and> view t = view s \<and> disk t = disk s \<and>
    homes (l_lh (logs t)) = insert b (homes (l_lh (logs s))) \<and>
    lh_n (l_lh (logs t)) = lh_n (l_lh (logs s)) + (if b \<in> homes (l_lh (logs s)) then 0 else 1) \<and>
    refs t = (refs s)(b := refs s b + (if b \<in> homes (l_lh (logs s)) then 0 else 1))"
proof -
  let ?lh = "l_lh (logs s)"
  obtain t where t: "log_write i s = Ret () t" "bio_ok t" "hold t i b"
    "bframe (s\<lparr>logs := (logs s)\<lparr>l_lh := logged_hdr ?lh b\<rparr>\<rparr>) t"
    "cache_of t = (if b \<in> homes ?lh then cache_of s else a_ref b (refs s b + 1) (cache_of s))"
    using log_write_law [OF assms] by blast
  have l: "l_lh (logs t) = logged_hdr ?lh b" using bframe_logs [OF t(4)] by simp
  have n: "0 \<le> lh_n ?lh" using assms(4) by (simp add: log_room_def)
  have "homes (logged_hdr ?lh b) = insert b (homes ?lh)"
    using n by (auto simp: logged_hdr_def homes_def nat_add_distrib lessThan_Suc)
  then show ?thesis
    using t by (auto simp: l) (auto simp: logged_hdr_def cache_of_def a_ref_def split: if_splits)
qed

theorem log_write_absorbs_witness:
  "\<exists>(s :: log_state) i t. hold s i 50 \<and> log_write i s = Ret () t \<and> homes (l_lh (logs t)) = {50}"
proof -
  obtain r :: log_state where r: "bio_ok r" "\<forall>b. refs r b = 0 \<and> \<not> lockd r b"
    "logs r = logs log0" "\<forall>lk. free_lk lk r" using log0_boot by metis
  obtain i t where t: "bio_ok t" "hold t i 50" "bframe r t" "cache_of t = a_read 50 (cache_of r)"
    using bc.rd_law [OF r(1) cache_avail_idle] r(2) by blast
  have l: "logs t = logs log0" using bframe_logs [OF t(3)] r(3) by simp
  have "refs t 50 = 1" using arg_cong [OF t(4), of "\<lambda>a. c_refs a 50"] r(2) by (simp add: cache_of_def a_read_def)
  moreover have "free_lk LogLock t" using bframe_state(1) [OF t(3)] r(4) by simp
  moreover have "log_room (logs t)" "homes (l_lh (logs t)) = {}"
    by (simp_all add: l log0_facts log_room_def LOGSIZE_30 homes_def)
  ultimately show ?thesis using log_write_absorbs [OF t(1,2)] t(2) by fastforce
qed

end
