(* ===== verification/Ringbuf.thy ===== *)
theory Ringbuf
  imports Riscv
begin

text \<open>
  Circular buffers with free-running indices, as the pipes, the console input and the UART output
  use them: the read and write indices are machine words that only grow and wrap around, and
  element \<open>i\<close> is stored in slot \<open>i mod N\<close>. The interface fixes how a slot is read and written; the
  lemmas give the queue of the elements between two indices. Since the size divides the range
  of the index type, nothing changes where an index wraps around.
\<close>

text \<open>The elements from index \<open>r\<close> up to index \<open>w\<close>.\<close>

definition ring_queue :: "('b \<Rightarrow> nat \<Rightarrow> 'a) \<Rightarrow> nat \<Rightarrow> 'b \<Rightarrow> 'w::len word \<Rightarrow> 'w word \<Rightarrow> 'a list" where
  "ring_queue get n b r w = map (\<lambda>i. get b ((unat r + i) mod n)) [0..<unat (w - r)]"

locale circular =
  fixes slot_get :: "'b \<Rightarrow> nat \<Rightarrow> 'a"
    and slot_put :: "'b \<Rightarrow> nat \<Rightarrow> 'a \<Rightarrow> 'b"
    and size :: nat
    and width :: "'w::len itself"
    and valid :: "'b \<Rightarrow> bool"
  assumes size_pos: "0 < size"
    and size_dvd: "size dvd 2 ^ LENGTH('w)"
    and put_valid: "valid b \<Longrightarrow> i < size \<Longrightarrow> valid (slot_put b i x)"
    and get_put: "valid b \<Longrightarrow> i < size \<Longrightarrow> j < size \<Longrightarrow>
      slot_get (slot_put b i x) j = (if j = i then x else slot_get b j)"
begin

abbreviation queue :: "'b \<Rightarrow> 'w word \<Rightarrow> 'w word \<Rightarrow> 'a list" where
  "queue \<equiv> ring_queue slot_get size"

lemma length_queue [simp]: "length (queue b r w) = unat (w - r)"
  by (simp add: ring_queue_def)

lemma queue_empty [simp]: "queue b r r = []"
  by (simp add: ring_queue_def)

lemma queue_Nil_iff: "queue b r w = [] \<longleftrightarrow> w = r"
  by (simp add: ring_queue_def unat_eq_zero)

lemma index_mod: "unat (r + of_nat i :: 'w word) mod size = (unat r + i) mod size"
proof -
  have "unat (r + of_nat i) = (unat r + i) mod 2 ^ LENGTH('w)"
    by (simp add: unat_word_ariths unat_of_nat mod_add_right_eq)
  then show ?thesis using size_dvd by (simp add: mod_mod_cancel)
qed

lemma nth_queue: "i < unat (w - r) \<Longrightarrow> queue b r w ! i = slot_get b (unat (r + of_nat i) mod size)"
  by (simp add: ring_queue_def index_mod)

lemma unat_Suc_diff:
  fixes r w :: "'w word"
  shows "w + 1 \<noteq> r \<Longrightarrow> unat (w + 1 - r) = Suc (unat (w - r))"
proof -
  assume "w + 1 \<noteq> r"
  then have "w + 1 - r \<noteq> 0" by simp
  moreover have e: "w + 1 - r = 1 + (w - r)" by simp
  ultimately have "1 + (w - r) \<noteq> 0" by (simp only: not_False_eq_True)
  then show ?thesis unfolding e by (rule unatSuc)
qed

lemma queue_push:
  assumes "valid b" "unat (w - r) < size" "w + 1 \<noteq> r"
  shows "queue (slot_put b (unat w mod size) x) r (w + 1) = queue b r w @ [x]"
proof (rule nth_equalityI)
  show len: "length (queue (slot_put b (unat w mod size) x) r (w + 1)) = length (queue b r w @ [x])"
    using unat_Suc_diff [OF assms(3)] by simp
  fix i assume "i < length (queue (slot_put b (unat w mod size) x) r (w + 1))"
  then have i: "i \<le> unat (w - r)" using len by simp
  have lt: "unat w mod size < size" "(unat r + i) mod size < size" using size_pos by simp_all
  have "i < unat (w + 1 - r)" using i unat_Suc_diff [OF assms(3)] by simp
  then have eq: "queue (slot_put b (unat w mod size) x) r (w + 1) ! i =
    (if (unat r + i) mod size = unat w mod size then x else slot_get b ((unat r + i) mod size))"
    by (simp only: nth_queue index_mod get_put [OF assms(1) lt])
  have ws: "unat w mod size = (unat r + unat (w - r)) mod size"
    using index_mod [of r "unat (w - r)"] by simp
  show "queue (slot_put b (unat w mod size) x) r (w + 1) ! i = (queue b r w @ [x]) ! i"
  proof (cases "i = unat (w - r)")
    case True
    then have "(unat r + i) mod size = unat w mod size" unfolding ws by (rule arg_cong)
    then have "queue (slot_put b (unat w mod size) x) r (w + 1) ! i = x" unfolding eq by (rule if_P)
    then show ?thesis using True by (simp add: nth_append)
  next
    case False
    then have lt: "i < unat (w - r)" using i by simp
    have "(unat r + i) mod size \<noteq> (unat r + unat (w - r)) mod size"
    proof
      assume "(unat r + i) mod size = (unat r + unat (w - r)) mod size"
      then have "size dvd (unat r + unat (w - r)) - (unat r + i)"
        using lt mod_eq_dvd_iff_nat [of "unat r + i" "unat r + unat (w - r)" size] by simp
      then have "size \<le> unat (w - r) - i" using lt by (auto intro: dvd_imp_le)
      then show False using lt assms(2) by linarith
    qed
    then have ne: "(unat r + i) mod size \<noteq> unat w mod size" unfolding ws .
    have "queue (slot_put b (unat w mod size) x) r (w + 1) ! i = slot_get b ((unat r + i) mod size)"
      by (rule trans [OF eq if_not_P [OF ne]])
    then show ?thesis using lt nth_queue [of i w r b] by (simp add: nth_append index_mod)
  qed
qed

lemma queue_split:
  assumes "unat (m - r) \<le> unat (w - r)"
  shows "queue b r w = queue b r m @ queue b m w"
proof -
  have d: "unat (w - m) = unat (w - r) - unat (m - r)"
    using assms unat_sub [of "m - r" "w - r"] by (simp add: word_le_nat_alt)
  have m: "m = r + of_nat (unat (m - r))" by simp
  show ?thesis
  proof (rule nth_equalityI)
    show "length (queue b r w) = length (queue b r m @ queue b m w)" using assms d by simp
    fix i assume i: "i < length (queue b r w)"
    show "queue b r w ! i = (queue b r m @ queue b m w) ! i"
    proof (cases "i < unat (m - r)")
      case True
      then show ?thesis using i by (simp add: nth_append nth_queue)
    next
      case False
      then have "m + of_nat (i - unat (m - r)) = r + of_nat i"
        by (subst m) (simp add: of_nat_diff algebra_simps)
      then show ?thesis using False i d by (simp add: nth_append nth_queue add.commute)
    qed
  qed
qed

lemma queue_one: "w + 1 \<noteq> w \<Longrightarrow> queue b w (w + 1) = [slot_get b (unat w mod size)]"
  using unat_Suc_diff [of w w] by (simp add: ring_queue_def)

lemma queue_pop:
  assumes "r \<noteq> w"
  shows "queue b r w = slot_get b (unat r mod size) # queue b (r + 1) w"
proof -
  have "w - r \<noteq> 0" using assms by simp
  then have "unat (r + 1 - r) \<le> unat (w - r)" by (simp add: unat_gt_0 Suc_le_eq)
  then show ?thesis using queue_split [of "r + 1" r w b] queue_one [of r b] by simp
qed

lemma queue_unpush:
  assumes "r \<noteq> w"
  shows "queue b r (w - 1) = butlast (queue b r w)"
    "last (queue b r w) = slot_get b (unat (w - 1) mod size)"
proof -
  have "w - r \<noteq> 0" using assms by simp
  then have "unat (w - r - 1) \<le> unat (w - r)" by (intro less_imp_le measure_unat)
  moreover have "w - r - 1 = w - 1 - r" by (rule diff_right_commute)
  ultimately have le: "unat (w - 1 - r) \<le> unat (w - r)" by (simp only:)
  have "queue b (w - 1) w = [slot_get b (unat (w - 1) mod size)]"
    using queue_one [of "w - 1" b] by simp
  then have "queue b r w = queue b r (w - 1) @ [slot_get b (unat (w - 1) mod size)]"
    using queue_split [OF le, of b] by (simp only:)
  then show "queue b r (w - 1) = butlast (queue b r w)"
    "last (queue b r w) = slot_get b (unat (w - 1) mod size)" by simp_all
qed

end

end
