(* ===== verification/Uart.thy ===== *)
theory Uart
  imports Logcrash Ringbuf
begin

text \<open>
  \<open>kernel/uart.c\<close>: the driver of the 16550a UART. The device is part of the state: the registers
  the driver has set, the bytes waiting in the receiver, the bytes given to the transmitter, and
  the values the next reads of the line status register will have for the transmitter-idle bit
  (when they are used up the transmitter is idle). A write to register 0 goes to the transmitter
  except while the baud latch is open. The output ring of the driver is shown to be a queue.
\<close>

section \<open>State\<close>

definition RHR :: nat where "RHR = 0"
definition THR :: nat where "THR = 0"
definition IER :: nat where "IER = 1"
definition IER_RX_ENABLE :: uint8 where "IER_RX_ENABLE = 1"
definition IER_TX_ENABLE :: uint8 where "IER_TX_ENABLE = 2"
definition FCR :: nat where "FCR = 2"
definition FCR_FIFO_ENABLE :: uint8 where "FCR_FIFO_ENABLE = 1"
definition FCR_FIFO_CLEAR :: uint8 where "FCR_FIFO_CLEAR = 6"
definition LCR :: nat where "LCR = 3"
definition LCR_EIGHT_BITS :: uint8 where "LCR_EIGHT_BITS = 3"
definition LCR_BAUD_LATCH :: uint8 where "LCR_BAUD_LATCH = 128"
definition LSR :: nat where "LSR = 5"
definition LSR_RX_READY :: uint8 where "LSR_RX_READY = 1"
definition LSR_TX_IDLE :: uint8 where "LSR_TX_IDLE = 32"
definition UART_TX_BUF_SIZE :: nat where "UART_TX_BUF_SIZE = 32"

record uartdev =
  u_reg :: "nat \<Rightarrow> uint8"
  u_idle :: "bool list"
  u_rx :: "uint8 list"
  u_sent :: "uint8 list"
  uart_tx_buf :: "uint8 list"
  uart_tx_w :: uint64
  uart_tx_r :: uint64

lemma uartdev_upd_order [upd_order]:
  "u_reg_update f_u_reg (u_idle_update g_u_idle r) = u_idle_update g_u_idle (u_reg_update f_u_reg r)"
  "u_reg_update f_u_reg (u_rx_update g_u_rx r) = u_rx_update g_u_rx (u_reg_update f_u_reg r)"
  "u_reg_update f_u_reg (u_sent_update g_u_sent r) = u_sent_update g_u_sent (u_reg_update f_u_reg r)"
  "u_reg_update f_u_reg (uart_tx_buf_update g_uart_tx_buf r) = uart_tx_buf_update g_uart_tx_buf (u_reg_update f_u_reg r)"
  "u_reg_update f_u_reg (uart_tx_w_update g_uart_tx_w r) = uart_tx_w_update g_uart_tx_w (u_reg_update f_u_reg r)"
  "u_reg_update f_u_reg (uart_tx_r_update g_uart_tx_r r) = uart_tx_r_update g_uart_tx_r (u_reg_update f_u_reg r)"
  "u_idle_update f_u_idle (u_rx_update g_u_rx r) = u_rx_update g_u_rx (u_idle_update f_u_idle r)"
  "u_idle_update f_u_idle (u_sent_update g_u_sent r) = u_sent_update g_u_sent (u_idle_update f_u_idle r)"
  "u_idle_update f_u_idle (uart_tx_buf_update g_uart_tx_buf r) = uart_tx_buf_update g_uart_tx_buf (u_idle_update f_u_idle r)"
  "u_idle_update f_u_idle (uart_tx_w_update g_uart_tx_w r) = uart_tx_w_update g_uart_tx_w (u_idle_update f_u_idle r)"
  "u_idle_update f_u_idle (uart_tx_r_update g_uart_tx_r r) = uart_tx_r_update g_uart_tx_r (u_idle_update f_u_idle r)"
  "u_rx_update f_u_rx (u_sent_update g_u_sent r) = u_sent_update g_u_sent (u_rx_update f_u_rx r)"
  "u_rx_update f_u_rx (uart_tx_buf_update g_uart_tx_buf r) = uart_tx_buf_update g_uart_tx_buf (u_rx_update f_u_rx r)"
  "u_rx_update f_u_rx (uart_tx_w_update g_uart_tx_w r) = uart_tx_w_update g_uart_tx_w (u_rx_update f_u_rx r)"
  "u_rx_update f_u_rx (uart_tx_r_update g_uart_tx_r r) = uart_tx_r_update g_uart_tx_r (u_rx_update f_u_rx r)"
  "u_sent_update f_u_sent (uart_tx_buf_update g_uart_tx_buf r) = uart_tx_buf_update g_uart_tx_buf (u_sent_update f_u_sent r)"
  "u_sent_update f_u_sent (uart_tx_w_update g_uart_tx_w r) = uart_tx_w_update g_uart_tx_w (u_sent_update f_u_sent r)"
  "u_sent_update f_u_sent (uart_tx_r_update g_uart_tx_r r) = uart_tx_r_update g_uart_tx_r (u_sent_update f_u_sent r)"
  "uart_tx_buf_update f_uart_tx_buf (uart_tx_w_update g_uart_tx_w r) = uart_tx_w_update g_uart_tx_w (uart_tx_buf_update f_uart_tx_buf r)"
  "uart_tx_buf_update f_uart_tx_buf (uart_tx_r_update g_uart_tx_r r) = uart_tx_r_update g_uart_tx_r (uart_tx_buf_update f_uart_tx_buf r)"
  "uart_tx_w_update f_uart_tx_w (uart_tx_r_update g_uart_tx_r r) = uart_tx_r_update g_uart_tx_r (uart_tx_w_update f_uart_tx_w r)"
  by simp_all


record uart_state = log_state +
  uart :: uartdev
  panicked :: bool

lemma uart_upd_order [upd_order]:
  "mem_update f_mem (uart_update g_uart r) = uart_update g_uart (mem_update f_mem r)"
  "mem_update f_mem (panicked_update g_panicked r) = panicked_update g_panicked (mem_update f_mem r)"
  "tp_update f_tp (uart_update g_uart r) = uart_update g_uart (tp_update f_tp r)"
  "tp_update f_tp (panicked_update g_panicked r) = panicked_update g_panicked (tp_update f_tp r)"
  "sstatus_update f_sstatus (uart_update g_uart r) = uart_update g_uart (sstatus_update f_sstatus r)"
  "sstatus_update f_sstatus (panicked_update g_panicked r) = panicked_update g_panicked (sstatus_update f_sstatus r)"
  "cpus_update f_cpus (uart_update g_uart r) = uart_update g_uart (cpus_update f_cpus r)"
  "cpus_update f_cpus (panicked_update g_panicked r) = panicked_update g_panicked (cpus_update f_cpus r)"
  "locks_update f_locks (uart_update g_uart r) = uart_update g_uart (locks_update f_locks r)"
  "locks_update f_locks (panicked_update g_panicked r) = panicked_update g_panicked (locks_update f_locks r)"
  "kend_update f_kend (uart_update g_uart r) = uart_update g_uart (kend_update f_kend r)"
  "kend_update f_kend (panicked_update g_panicked r) = panicked_update g_panicked (kend_update f_kend r)"
  "freelist_update f_freelist (uart_update g_uart r) = uart_update g_uart (freelist_update f_freelist r)"
  "freelist_update f_freelist (panicked_update g_panicked r) = panicked_update g_panicked (freelist_update f_freelist r)"
  "etext_update f_etext (uart_update g_uart r) = uart_update g_uart (etext_update f_etext r)"
  "etext_update f_etext (panicked_update g_panicked r) = panicked_update g_panicked (etext_update f_etext r)"
  "trampoline_update f_trampoline (uart_update g_uart r) = uart_update g_uart (trampoline_update f_trampoline r)"
  "trampoline_update f_trampoline (panicked_update g_panicked r) = panicked_update g_panicked (trampoline_update f_trampoline r)"
  "kernel_pagetable_update f_kernel_pagetable (uart_update g_uart r) = uart_update g_uart (kernel_pagetable_update f_kernel_pagetable r)"
  "kernel_pagetable_update f_kernel_pagetable (panicked_update g_panicked r) = panicked_update g_panicked (kernel_pagetable_update f_kernel_pagetable r)"
  "satp_update f_satp (uart_update g_uart r) = uart_update g_uart (satp_update f_satp r)"
  "satp_update f_satp (panicked_update g_panicked r) = panicked_update g_panicked (satp_update f_satp r)"
  "procs_update f_procs (uart_update g_uart r) = uart_update g_uart (procs_update f_procs r)"
  "procs_update f_procs (panicked_update g_panicked r) = panicked_update g_panicked (procs_update f_procs r)"
  "initproc_update f_initproc (uart_update g_uart r) = uart_update g_uart (initproc_update f_initproc r)"
  "initproc_update f_initproc (panicked_update g_panicked r) = panicked_update g_panicked (initproc_update f_initproc r)"
  "nextpid_update f_nextpid (uart_update g_uart r) = uart_update g_uart (nextpid_update f_nextpid r)"
  "nextpid_update f_nextpid (panicked_update g_panicked r) = panicked_update g_panicked (nextpid_update f_nextpid r)"
  "forkret_sym_update f_forkret_sym (uart_update g_uart r) = uart_update g_uart (forkret_sym_update f_forkret_sym r)"
  "forkret_sym_update f_forkret_sym (panicked_update g_panicked r) = panicked_update g_panicked (forkret_sym_update f_forkret_sym r)"
  "sleeps_update f_sleeps (uart_update g_uart r) = uart_update g_uart (sleeps_update f_sleeps r)"
  "sleeps_update f_sleeps (panicked_update g_panicked r) = panicked_update g_panicked (sleeps_update f_sleeps r)"
  "bufs_update f_bufs (uart_update g_uart r) = uart_update g_uart (bufs_update f_bufs r)"
  "bufs_update f_bufs (panicked_update g_panicked r) = panicked_update g_panicked (bufs_update f_bufs r)"
  "disk_update f_disk (uart_update g_uart r) = uart_update g_uart (disk_update f_disk r)"
  "disk_update f_disk (panicked_update g_panicked r) = panicked_update g_panicked (disk_update f_disk r)"
  "dtrace_update f_dtrace (uart_update g_uart r) = uart_update g_uart (dtrace_update f_dtrace r)"
  "dtrace_update f_dtrace (panicked_update g_panicked r) = panicked_update g_panicked (dtrace_update f_dtrace r)"
  "logs_update f_logs (uart_update g_uart r) = uart_update g_uart (logs_update f_logs r)"
  "logs_update f_logs (panicked_update g_panicked r) = panicked_update g_panicked (logs_update f_logs r)"
  "uart_update f_uart (panicked_update g_panicked r) = panicked_update g_panicked (uart_update f_uart r)"
  by simp_all


lemma uart_state_simps [state_simps]:
  "uart (acq lk s) = uart s"
  "acq lk (uart_update f_uart s) = uart_update f_uart (acq lk s)"
  "uart (rel lk s) = uart s"
  "rel lk (uart_update f_uart s) = uart_update f_uart (rel lk s)"
  "uart (tch s) = uart s"
  "tch (uart_update f_uart s) = uart_update f_uart (tch s)"
  "free_lk lk (uart_update f_uart s) = free_lk lk s"
  "held_lk lk (uart_update f_uart s) = held_lk lk s"
  "in_cs (uart_update f_uart s) = in_cs s"
  "irq_ok (uart_update f_uart s) = irq_ok s"
  "intr_get (uart_update f_uart s) = intr_get s"
  "cpuid (uart_update f_uart s) = cpuid s"
  "mycpu (uart_update f_uart s) = mycpu s"
  "panicked (acq lk s) = panicked s"
  "acq lk (panicked_update f_panicked s) = panicked_update f_panicked (acq lk s)"
  "panicked (rel lk s) = panicked s"
  "rel lk (panicked_update f_panicked s) = panicked_update f_panicked (rel lk s)"
  "panicked (tch s) = panicked s"
  "tch (panicked_update f_panicked s) = panicked_update f_panicked (tch s)"
  "free_lk lk (panicked_update f_panicked s) = free_lk lk s"
  "held_lk lk (panicked_update f_panicked s) = held_lk lk s"
  "in_cs (panicked_update f_panicked s) = in_cs s"
  "irq_ok (panicked_update f_panicked s) = irq_ok s"
  "intr_get (panicked_update f_panicked s) = intr_get s"
  "cpuid (panicked_update f_panicked s) = cpuid s"
  "mycpu (panicked_update f_panicked s) = mycpu s"
  by (simp_all add: in_cs_def lock_defs upd_order)


definition set_uart :: "(uartdev \<Rightarrow> uartdev) \<Rightarrow> (unit, 'z uart_state_scheme) kop" where
  "set_uart f = modify (\<lambda>s. s\<lparr>uart := f (uart s)\<rparr>)"

definition get_uart :: "(uartdev, 'z uart_state_scheme) kop" where
  "get_uart = gets uart"

lemma uart_ops [kop_simps]:
  "set_uart f s = Ret () (s\<lparr>uart := f (uart s)\<rparr>)"
  "get_uart s = Ret (uart s) s"
  by (simp_all add: set_uart_def get_uart_def kop_simps)

section \<open>The device\<close>

definition lsr_value :: "uartdev \<Rightarrow> uint8" where
  "lsr_value u =
     (if u_rx u \<noteq> [] then LSR_RX_READY else 0) OR
     (if u_idle u = [] \<or> hd (u_idle u) then LSR_TX_IDLE else 0)"

definition ReadReg :: "nat \<Rightarrow> (uint8, 'z uart_state_scheme) kop" where
  "ReadReg reg =
     bnd get_uart (\<lambda>u.
     if reg = LSR then thn (set_uart (\<lambda>u. u\<lparr>u_idle := tl (u_idle u)\<rparr>)) (ret (lsr_value u))
     else if reg = RHR then
       thn (set_uart (\<lambda>u. u\<lparr>u_rx := tl (u_rx u)\<rparr>)) (ret (if u_rx u = [] then 0 else hd (u_rx u)))
     else ret (u_reg u reg))"

definition WriteReg :: "nat \<Rightarrow> uint8 \<Rightarrow> (unit, 'z uart_state_scheme) kop" where
  "WriteReg reg v = set_uart (\<lambda>u.
     if reg = THR \<and> u_reg u LCR AND LCR_BAUD_LATCH = 0 then u\<lparr>u_sent := u_sent u @ [v]\<rparr>
     else u\<lparr>u_reg := (u_reg u)(reg := v)\<rparr>)"

section \<open>Operations\<close>

definition uartinit :: "(unit, 'z uart_state_scheme) kop" where
  "uartinit =
     thn (WriteReg IER 0)
    (thn (WriteReg LCR LCR_BAUD_LATCH)
    (thn (WriteReg 0 3)
    (thn (WriteReg 1 0)
    (thn (WriteReg LCR LCR_EIGHT_BITS)
    (thn (WriteReg FCR (FCR_FIFO_ENABLE OR FCR_FIFO_CLEAR))
    (thn (WriteReg IER (IER_TX_ENABLE OR IER_RX_ENABLE))
         (initlock UartTxLock ''uart'')))))))"

text \<open>
  Every round of \<open>uartstart\<close> advances the read index or returns, so the distance of the indices
  bounds the number of rounds.
\<close>

primrec uartstart_loop :: "nat \<Rightarrow> (unit, 'z uart_state_scheme) kop" where
  "uartstart_loop 0 = spin"
| "uartstart_loop (Suc n) =
     bnd get_uart (\<lambda>u.
     if uart_tx_w u = uart_tx_r u then ret () else
     bnd (ReadReg LSR) (\<lambda>l.
     if l AND LSR_TX_IDLE = 0 then ret () else
     bnd get_uart (\<lambda>u.
     let c = uart_tx_buf u ! (unat (uart_tx_r u) mod UART_TX_BUF_SIZE) in
     thn (set_uart (\<lambda>u. u\<lparr>uart_tx_r := uart_tx_r u + 1\<rparr>))
    (thn (wakeup (Some ChUart))
    (thn (WriteReg THR c)
         (uartstart_loop n))))))"

definition uartstart :: "(unit, 'z uart_state_scheme) kop" where
  "uartstart = bnd get_uart (\<lambda>u. uartstart_loop (Suc (unat (uart_tx_w u - uart_tx_r u))))"

primrec uartputc_wait :: "nat \<Rightarrow> (unit, 'z uart_state_scheme) kop" where
  "uartputc_wait 0 = spin"
| "uartputc_wait (Suc n) =
     bnd get_uart (\<lambda>u.
     if uart_tx_w u = uart_tx_r u + of_nat UART_TX_BUF_SIZE
     then thn (sleep ChUart UartTxLock) (uartputc_wait n) else ret ())"

definition uartputc :: "uint8 \<Rightarrow> (unit, 'z uart_state_scheme) kop" where
  "uartputc c =
     thn (acquire UartTxLock)
    (bnd (gets panicked) (\<lambda>pk.
     if pk then spin else
     thn (uartputc_wait WAITS)
    (thn (set_uart (\<lambda>u. u\<lparr>uart_tx_buf :=
            (uart_tx_buf u)[unat (uart_tx_w u) mod UART_TX_BUF_SIZE := c]\<rparr>))
    (thn (set_uart (\<lambda>u. u\<lparr>uart_tx_w := uart_tx_w u + 1\<rparr>))
    (thn uartstart
         (release UartTxLock))))))"

text \<open>The status bits still to come bound the polling of \<open>uartputc_sync\<close>.\<close>

primrec uart_poll :: "nat \<Rightarrow> (unit, 'z uart_state_scheme) kop" where
  "uart_poll 0 = spin"
| "uart_poll (Suc n) =
     bnd (ReadReg LSR) (\<lambda>l. if l AND LSR_TX_IDLE = 0 then uart_poll n else ret ())"

definition uartputc_sync :: "uint8 \<Rightarrow> (unit, 'z uart_state_scheme) kop" where
  "uartputc_sync c =
     thn push_off
    (bnd (gets panicked) (\<lambda>pk.
     if pk then spin else
     bnd get_uart (\<lambda>u.
     thn (uart_poll (Suc (length (u_idle u))))
    (thn (WriteReg THR c)
         pop_off))))"

definition uartgetc :: "(int, 'z uart_state_scheme) kop" where
  "uartgetc =
     bnd (ReadReg LSR) (\<lambda>l.
     if l AND 1 \<noteq> 0 then bnd (ReadReg RHR) (\<lambda>c. ret (int (unat c))) else ret (- 1))"

section \<open>The output ring is a queue\<close>

interpretation txq: circular "(!) :: uint8 list \<Rightarrow> nat \<Rightarrow> uint8" list_update 32 "TYPE(64)"
  "\<lambda>b. length b = 32"
  by unfold_locales (simp_all add: nth_list_update)

text \<open>The bytes that wait for the transmitter; the indices are at most the size apart.\<close>

definition tx_queue :: "uartdev \<Rightarrow> uint8 list" where
  "tx_queue u = ring_queue (!) 32 (uart_tx_buf u) (uart_tx_r u) (uart_tx_w u)"

definition uart_ok :: "uartdev \<Rightarrow> bool" where
  "uart_ok u \<longleftrightarrow> length (uart_tx_buf u) = 32 \<and> unat (uart_tx_w u - uart_tx_r u) \<le> 32 \<and>
     u_reg u LCR AND LCR_BAUD_LATCH = 0"

lemma calm_uart [state_simps]:
  "calm (uart_update f t) = calm t" "calm (panicked_update g t) = calm t"
  "procs_free (uart_update f t) = procs_free t" "procs_free (panicked_update g t) = procs_free t"
  by (simp_all add: calm_def procs_free_def state_simps)

lemma wakeup_any:
  "procs_free s \<Longrightarrow> irq_ok s \<Longrightarrow> wakeup (Some ch) s = Ret () ((tch s)\<lparr>procs := wake_all ch s\<rparr>)"
  by (simp add: wakeup_eq wake_all_def)

lemma uart_reg_distinct [simp]: "LSR \<noteq> RHR" "LSR \<noteq> THR" "RHR = THR"
  by (simp_all add: LSR_def RHR_def THR_def)

lemma lsr_idle: "lsr_value u AND LSR_TX_IDLE = 0 \<longleftrightarrow> u_idle u \<noteq> [] \<and> \<not> hd (u_idle u)"
  by (simp add: lsr_value_def LSR_TX_IDLE_def LSR_RX_READY_def)

lemma lsr_ready: "lsr_value u AND 1 = 0 \<longleftrightarrow> u_rx u = []"
  by (simp add: lsr_value_def LSR_TX_IDLE_def LSR_RX_READY_def)

lemma uart_regs [kop_simps]:
  "ReadReg LSR s = Ret (lsr_value (uart s)) (s\<lparr>uart := (uart s)\<lparr>u_idle := tl (u_idle (uart s))\<rparr>\<rparr>)"
  "u_reg (uart s) LCR AND LCR_BAUD_LATCH = 0 \<Longrightarrow>
     WriteReg THR c s = Ret () (s\<lparr>uart := (uart s)\<lparr>u_sent := u_sent (uart s) @ [c]\<rparr>\<rparr>)"
  by (simp_all add: ReadReg_def WriteReg_def kop_simps)

text \<open>One round of \<open>uartstart\<close> that sends a byte.\<close>

definition tx_sent :: "uartdev \<Rightarrow> uartdev" where
  "tx_sent u = u\<lparr>u_idle := tl (u_idle u), u_sent := u_sent u @ [uart_tx_buf u ! (unat (uart_tx_r u) mod 32)],
     uart_tx_r := uart_tx_r u + 1\<rparr>"

lemma tx_sent_ok:
  assumes "uart_ok u" "uart_tx_w u \<noteq> uart_tx_r u"
  shows "uart_ok (tx_sent u)" "u_sent (tx_sent u) @ tx_queue (tx_sent u) = u_sent u @ tx_queue u"
    "unat (uart_tx_w u - (uart_tx_r u + 1)) < unat (uart_tx_w u - uart_tx_r u)"
proof -
  have "uart_tx_w u - uart_tx_r u \<noteq> 0" using assms(2) by simp
  then have "unat (uart_tx_w u - uart_tx_r u - 1) < unat (uart_tx_w u - uart_tx_r u)"
    by (rule measure_unat)
  then show lt: "unat (uart_tx_w u - (uart_tx_r u + 1)) < unat (uart_tx_w u - uart_tx_r u)"
    by (simp only: diff_diff_eq)
  show "uart_ok (tx_sent u)" using assms(1) lt by (simp add: uart_ok_def tx_sent_def)
  show "u_sent (tx_sent u) @ tx_queue (tx_sent u) = u_sent u @ tx_queue u"
    using txq.queue_pop [of "uart_tx_r u" "uart_tx_w u" "uart_tx_buf u"] assms(2)
    by (simp add: tx_queue_def tx_sent_def)
qed

lemma uartstart_round:
  assumes "procs_free s" "in_cs s" "uart_ok (uart s)" "uart_tx_w (uart s) \<noteq> uart_tx_r (uart s)"
    "u_idle (uart s) = [] \<or> hd (u_idle (uart s))"
  shows "uartstart_loop (Suc n) s = uartstart_loop n (s\<lparr>uart := tx_sent (uart s), procs := wake_all ChUart s\<rparr>)"
proof -
  let ?u = "(uart s)\<lparr>u_idle := tl (u_idle (uart s)), uart_tx_r := uart_tx_r (uart s) + 1\<rparr>"
  have c: "procs_free (s\<lparr>uart := ?u\<rparr>)" "in_cs (s\<lparr>uart := ?u\<rparr>)" using assms(1,2) by (simp_all add: state_simps)
  have w: "wakeup (Some ChUart) (s\<lparr>uart := ?u\<rparr>) = Ret () (s\<lparr>uart := ?u, procs := wake_all ChUart s\<rparr>)"
    using wakeup_any [OF c(1) in_cs_irq_ok [OF c(2)]] c(2) by (simp add: state_simps wake_all_def cong: if_cong)
  have i: "lsr_value (uart s) AND LSR_TX_IDLE \<noteq> 0" using assms(5) lsr_idle by blast
  show ?thesis
    using assms(3,4) w i
    by (simp add: kop_simps uart_ok_def UART_TX_BUF_SIZE_def Let_def tx_sent_def upd_order)
qed

lemma uartstart_loop_law:
  assumes "procs_free s" "in_cs s" "uart_ok (uart s)" "unat (uart_tx_w (uart s) - uart_tx_r (uart s)) < n"
  shows "\<exists>P U. uartstart_loop n s = Ret () (s\<lparr>procs := P, uart := U\<rparr>) \<and> uart_ok U \<and>
    u_sent U @ tx_queue U = u_sent (uart s) @ tx_queue (uart s) \<and>
    (\<forall>p. P p = (procs s p)\<lparr>p_state := p_state (P p)\<rparr>) \<and>
    (tx_queue U = [] \<or> length (u_idle U) < length (u_idle (uart s)))"
  using assms
proof (induction n arbitrary: s)
  case (Suc n)
  let ?u = "uart s"
  consider (empty) "uart_tx_w ?u = uart_tx_r ?u" |
    (busy) "uart_tx_w ?u \<noteq> uart_tx_r ?u" "u_idle ?u \<noteq> []" "\<not> hd (u_idle ?u)" |
    (send) "uart_tx_w ?u \<noteq> uart_tx_r ?u" "u_idle ?u = [] \<or> hd (u_idle ?u)" by blast
  then show ?case
  proof cases
    case empty
    then show ?thesis using Suc.prems(3)
      by (intro exI [of _ "procs s"] exI [of _ ?u]) (simp add: kop_simps tx_queue_def)
  next
    case busy
    let ?U = "?u\<lparr>u_idle := tl (u_idle ?u)\<rparr>"
    have "uartstart_loop (Suc n) s = Ret () (s\<lparr>procs := procs s, uart := ?U\<rparr>)"
      using busy lsr_idle [of ?u] by (simp add: kop_simps)
    moreover have "uart_ok ?U" "tx_queue ?U = tx_queue ?u" "length (u_idle ?U) < length (u_idle ?u)"
      using Suc.prems(3) busy(2) by (simp_all add: uart_ok_def tx_queue_def)
    ultimately show ?thesis by (intro exI [of _ "procs s"] exI [of _ ?U]) simp
  next
    case send
    let ?s = "s\<lparr>uart := tx_sent ?u, procs := wake_all ChUart s\<rparr>"
    have step: "uartstart_loop (Suc n) s = uartstart_loop n ?s"
      using uartstart_round [OF Suc.prems(1-3) send] .
    have ok: "procs_free ?s" "in_cs ?s" "uart_ok (uart ?s)"
      "unat (uart_tx_w (uart ?s) - uart_tx_r (uart ?s)) < n"
      using Suc.prems tx_sent_ok [OF Suc.prems(3) send(1)] by (simp_all add: state_simps tx_sent_def)
    from Suc.IH [OF ok] obtain P U where PU:
      "uartstart_loop n ?s = Ret () (?s\<lparr>procs := P, uart := U\<rparr>)" "uart_ok U"
      "u_sent U @ tx_queue U = u_sent (uart ?s) @ tx_queue (uart ?s)"
      "\<And>p. P p = (procs ?s p)\<lparr>p_state := p_state (P p)\<rparr>"
      "tx_queue U = [] \<or> length (u_idle U) < length (u_idle (uart ?s))" by blast
    have "P p = (procs s p)\<lparr>p_state := p_state (P p)\<rparr>" for p
      using PU(4) [of p] by (simp add: wake_all_def woken_def split: if_splits)
    moreover have "length (u_idle (uart ?s)) \<le> length (u_idle ?u)" by (simp add: tx_sent_def)
    ultimately show ?thesis
      using PU tx_sent_ok(2) [OF Suc.prems(3) send(1)] step
      by (intro exI [of _ P] exI [of _ U]) (auto simp: upd_order)
  qed
qed simp

lemma uartstart_law:
  assumes "procs_free s" "in_cs s" "uart_ok (uart s)"
  shows "\<exists>P U. uartstart s = Ret () (s\<lparr>procs := P, uart := U\<rparr>) \<and> uart_ok U \<and>
    u_sent U @ tx_queue U = u_sent (uart s) @ tx_queue (uart s) \<and>
    (\<forall>p. P p = (procs s p)\<lparr>p_state := p_state (P p)\<rparr>) \<and>
    (tx_queue U = [] \<or> length (u_idle U) < length (u_idle (uart s)))"
  using uartstart_loop_law [OF assms lessI] by (simp add: uartstart_def kop_simps)

definition tx_put :: "uint8 \<Rightarrow> uartdev \<Rightarrow> uartdev" where
  "tx_put c u = u\<lparr>uart_tx_buf := (uart_tx_buf u)[unat (uart_tx_w u) mod 32 := c],
     uart_tx_w := uart_tx_w u + 1\<rparr>"

lemma tx_put_ok:
  assumes "uart_ok u" "uart_tx_w u \<noteq> uart_tx_r u + 32"
  shows "uart_ok (tx_put c u)" "tx_queue (tx_put c u) = tx_queue u @ [c]"
proof -
  have "unat (uart_tx_w u - uart_tx_r u) \<noteq> 32"
  proof
    assume a: "unat (uart_tx_w u - uart_tx_r u) = 32"
    have "uart_tx_w u - uart_tx_r u = of_nat (unat (uart_tx_w u - uart_tx_r u))" by simp
    then have "uart_tx_w u - uart_tx_r u = 32" unfolding a by simp
    then show False using assms(2) by (simp add: diff_eq_eq add.commute)
  qed
  then have lt: "unat (uart_tx_w u - uart_tx_r u) < 32" using assms(1) by (simp add: uart_ok_def)
  have ne: "uart_tx_w u + 1 \<noteq> uart_tx_r u"
  proof
    assume "uart_tx_w u + 1 = uart_tx_r u"
    then have "uart_tx_w u - uart_tx_r u = - 1" by (simp add: diff_eq_eq flip: \<open>uart_tx_w u + 1 = uart_tx_r u\<close>)
    then show False using lt by (simp add: unsigned_minus_1_eq_mask mask_eq_exp_minus_1)
  qed
  show "uart_ok (tx_put c u)"
    using assms(1) lt txq.unat_Suc_diff [OF ne] by (simp add: uart_ok_def tx_put_def)
  show "tx_queue (tx_put c u) = tx_queue u @ [c]"
    using txq.queue_push [OF _ lt ne, of "uart_tx_buf u" c] assms(1)
    by (simp add: tx_queue_def tx_put_def uart_ok_def)
qed

lemma uartputc_law:
  assumes "calm s" "free_lk UartTxLock s" "\<not> panicked s" "uart_ok (uart s)"
    "uart_tx_w (uart s) \<noteq> uart_tx_r (uart s) + 32"
  shows "\<exists>P U. uartputc c s = Ret () ((tch s)\<lparr>procs := P, uart := U\<rparr>) \<and> uart_ok U \<and>
    u_sent U @ tx_queue U = u_sent (uart s) @ tx_queue (uart s) @ [c] \<and>
    (\<forall>p. P p = (procs s p)\<lparr>p_state := p_state (P p)\<rparr>) \<and>
    (tx_queue U = [] \<or> length (u_idle U) < length (u_idle (uart s)))"
proof -
  let ?a = "acq UartTxLock s"
  let ?b = "?a\<lparr>uart := tx_put c (uart s)\<rparr>"
  have i: "irq_ok s" using assms(1) by (simp add: calm_def)
  have b: "procs_free ?b" "in_cs ?b" "uart_ok (uart ?b)"
    using assms(1) i tx_put_ok(1) [OF assms(4,5)] by (simp_all add: calm_def state_simps)
  obtain P U where PU: "uartstart ?b = Ret () (?b\<lparr>procs := P, uart := U\<rparr>)" "uart_ok U"
    "u_sent U @ tx_queue U = u_sent (uart ?b) @ tx_queue (uart ?b)"
    "\<forall>p. P p = (procs ?b p)\<lparr>p_state := p_state (P p)\<rparr>"
    "tx_queue U = [] \<or> length (u_idle U) < length (u_idle (uart ?b))"
    using uartstart_law [OF b] by blast
  have w: "uartputc_wait WAITS ?a = Ret () ?a"
    using assms(5) by (simp add: WAITS_def eval_nat_numeral kop_simps state_simps UART_TX_BUF_SIZE_def)
  have "uartputc c s = bindo (uartstart ?b) (\<lambda>_. release UartTxLock)"
    using assms(2,3) w by (simp add: uartputc_def kop_simps state_simps tx_put_def UART_TX_BUF_SIZE_def)
  then have e: "uartputc c s = Ret () ((tch s)\<lparr>procs := P, uart := U\<rparr>)"
    using PU(1) assms(2) i by (simp add: kop_simps state_simps upd_order)
  show ?thesis
    using e PU(2-5) tx_put_ok(2) [OF assms(4,5), of c]
    by (intro exI [of _ P] exI [of _ U]) (simp add: state_simps tx_put_def)
qed

lemma uart_poll_eq:
  "length (u_idle (uart s)) \<le> n \<Longrightarrow> uart_poll (Suc n) s =
     Ret () (s\<lparr>uart := (uart s)\<lparr>u_idle := tl (dropWhile Not (u_idle (uart s)))\<rparr>\<rparr>)"
proof (induction n arbitrary: s)
  case 0
  then have "lsr_value (uart s) AND LSR_TX_IDLE \<noteq> 0" using lsr_idle [of "uart s"] by simp
  then show ?case using 0 by (simp add: kop_simps)
next
  case (Suc n)
  show ?case
  proof (cases "u_idle (uart s) = [] \<or> hd (u_idle (uart s))")
    case True
    then have "lsr_value (uart s) AND LSR_TX_IDLE \<noteq> 0" using lsr_idle by blast
    moreover have "dropWhile Not (u_idle (uart s)) = u_idle (uart s)"
      using True by (cases "u_idle (uart s)") auto
    ultimately show ?thesis by (simp add: kop_simps)
  next
    case False
    let ?s = "s\<lparr>uart := (uart s)\<lparr>u_idle := tl (u_idle (uart s))\<rparr>\<rparr>"
    have "lsr_value (uart s) AND LSR_TX_IDLE = 0" using False lsr_idle by blast
    moreover have "uart_poll (Suc n) ?s = Ret () (?s\<lparr>uart := (uart ?s)\<lparr>u_idle := tl (dropWhile Not (u_idle (uart ?s)))\<rparr>\<rparr>)"
      using Suc.IH [of ?s] Suc.prems by simp
    moreover have "dropWhile Not (u_idle (uart s)) = dropWhile Not (tl (u_idle (uart s)))"
      using False by (cases "u_idle (uart s)") auto
    ultimately show ?thesis by (subst uart_poll.simps) (simp add: kop_simps)
  qed
qed

text \<open>What \<open>uartputc_sync\<close> does to the device.\<close>

definition sync_sent :: "uint8 \<Rightarrow> uartdev \<Rightarrow> uartdev" where
  "sync_sent c u = u\<lparr>u_idle := tl (dropWhile Not (u_idle u)), u_sent := u_sent u @ [c]\<rparr>"

lemma pushed_uart: "pushed n (uart_update f s) = uart_update f (pushed n s)"
  by (simp add: pushed_def lock_defs upd_order)

lemma pushed_fields: "uart (pushed n s) = uart s" "panicked (pushed n s) = panicked s"
  by (simp_all add: pushed_def lock_defs)

lemma uartputc_sync_eq [kop_simps]:
  assumes "irq_ok s" "\<not> panicked s" "u_reg (uart s) LCR AND LCR_BAUD_LATCH = 0"
  shows "uartputc_sync c s = Ret () ((tch s)\<lparr>uart := sync_sent c (uart s)\<rparr>)"
proof -
  let ?p = "pushed 1 s"
  have "uartputc_sync c s = pop_off (?p\<lparr>uart := sync_sent c (uart s)\<rparr>)"
    using assms uart_poll_eq [of ?p "length (u_idle (uart s))"]
    by (simp add: uartputc_sync_def kop_simps push_off_pushed pushed_fields sync_sent_def del: uart_poll.simps)
  also have "?p\<lparr>uart := sync_sent c (uart s)\<rparr> = pushed 1 (s\<lparr>uart := sync_sent c (uart s)\<rparr>)"
    by (simp add: pushed_uart)
  also have "pop_off \<dots> = Ret () (tch (s\<lparr>uart := sync_sent c (uart s)\<rparr>))"
    using assms(1) by (intro pop_off_last) (simp add: state_simps)
  finally show ?thesis by (simp add: state_simps)
qed

section \<open>Properties\<close>

definition uartdev0 :: uartdev where
  "uartdev0 = \<lparr>u_reg = (\<lambda>_. 0), u_idle = [False], u_rx = [], u_sent = [], uart_tx_buf = replicate 32 0,
     uart_tx_w = - 1, uart_tx_r = - 1\<rparr>"

definition uart0 :: uart_state where
  "uart0 = log_state.extend log0 \<lparr>uart = uartdev0, panicked = False\<rparr>"

lemmas uart0_defs = uart0_def log0_def bio0_defs bio_state.extend_def log_state.extend_def

lemma uart0_facts:
  "calm uart0" "free_lk lk uart0" "uart uart0 = uartdev0" "\<not> panicked uart0"
  by (simp_all add: uart0_defs calm_def lock_defs procs_free_def)

lemma uartdev0_ok: "uart_ok uartdev0" "tx_queue uartdev0 = []" "u_sent uartdev0 = []"
  by (simp_all add: uart_ok_def tx_queue_def uartdev0_def LCR_def)

text \<open>
  C40. The output ring of the UART driver is a first-in first-out queue in front of the transmitter:
  when there is room, \<open>uartputc\<close> returns with the byte behind everything accepted before it, the
  bytes sent so far followed by the bytes still buffered being the old ones and then the new one;
  it leaves bytes buffered only after it has seen the transmitter busy, and never more than the
  ring holds. The indices may wrap around.
\<close>

theorem uartputc_fifo:
  assumes "calm s" "free_lk UartTxLock s" "\<not> panicked s" "uart_ok (uart s)"
    "length (tx_queue (uart s)) < UART_TX_BUF_SIZE"
  shows "\<exists>t. uartputc c s = Ret () t \<and> uart_ok (uart t) \<and> length (tx_queue (uart t)) \<le> UART_TX_BUF_SIZE \<and>
    u_sent (uart t) @ tx_queue (uart t) = u_sent (uart s) @ tx_queue (uart s) @ [c] \<and>
    (tx_queue (uart t) = [] \<or> length (u_idle (uart t)) < length (u_idle (uart s)))"
proof -
  have "uart_tx_w (uart s) \<noteq> uart_tx_r (uart s) + 32"
    using assms(5) by (auto simp: tx_queue_def UART_TX_BUF_SIZE_def)
  from uartputc_law [OF assms(1-4) this, of c] obtain P U where
    "uartputc c s = Ret () ((tch s)\<lparr>procs := P, uart := U\<rparr>)" "uart_ok U"
    "u_sent U @ tx_queue U = u_sent (uart s) @ tx_queue (uart s) @ [c]"
    "tx_queue U = [] \<or> length (u_idle U) < length (u_idle (uart s))" by blast
  moreover have "length (tx_queue U) \<le> 32" using \<open>uart_ok U\<close> by (simp add: uart_ok_def tx_queue_def)
  ultimately show ?thesis
    by (intro exI [of _ "(tch s)\<lparr>procs := P, uart := U\<rparr>"]) (simp add: UART_TX_BUF_SIZE_def)
qed

theorem uartputc_fifo_witness:
  "\<exists>t. uartputc 65 uart0 = Ret () t \<and> u_sent (uart t) @ tx_queue (uart t) = [65]"
proof -
  have "length (tx_queue (uart uart0)) < UART_TX_BUF_SIZE"
    unfolding uart0_facts uartdev0_ok by (simp add: UART_TX_BUF_SIZE_def)
  from uartputc_fifo [of uart0 65, OF uart0_facts(1,2,4) _ this]
  show ?thesis unfolding uart0_facts uartdev0_ok by (auto simp: uartdev0_ok)
qed

end
