(* ===== verification/Kprintf.thy ===== *)
theory Kprintf
  imports Uart Uprintf
begin

unbundle bit_operations_syntax

text \<open>
  Formatted output of the kernel, \<open>kernel/printf.c\<close>, and \<open>consputc\<close> of \<open>kernel/console.c\<close>. The
  characters of a call are computed first and then sent one by one to the UART; nothing else
  happens between two of them. The digit loop is that of the user library with the kernel's
  digits. \<open>panic\<close> is an outcome of its own in the model, so its text does not appear here.
\<close>

section \<open>Operations\<close>

definition BACKSPACE :: int where "BACKSPACE = 256"

definition consputc :: "int \<Rightarrow> (unit, 'z uart_state_scheme) kop" where
  "consputc c =
     (if c = BACKSPACE then
        thn (uartputc_sync 8) (thn (uartputc_sync 32) (uartputc_sync 8))
      else uartputc_sync (word_of_int c))"

definition kdigits :: string where
  "kdigits = ''0123456789abcdef''"

fun kprintf_conv :: "char \<Rightarrow> vararg list \<Rightarrow> (string \<times> vararg list) option" where
  "kprintf_conv c ap =
     (if c = CHR ''d'' then
        (case va_int ap of None \<Rightarrow> None
         | Some (x, ap') \<Rightarrow> map_option (\<lambda>t. (t, ap')) (printint kdigits x 10 True))
      else if c = CHR ''x'' then
        (case va_int ap of None \<Rightarrow> None
         | Some (x, ap') \<Rightarrow> map_option (\<lambda>t. (t, ap')) (printint kdigits x 16 True))
      else if c = CHR ''p'' then
        (case va_long ap of None \<Rightarrow> None | Some (x, ap') \<Rightarrow> Some (printptr kdigits x, ap'))
      else if c = CHR ''s'' then
        (case va_str ap of None \<Rightarrow> None | Some (s, ap') \<Rightarrow> Some (str_or_null s, ap'))
      else if c = CHR ''%'' then Some (''%'', ap)
      else Some ([CHR ''%'', c], ap))"

fun kformat :: "string \<Rightarrow> vararg list \<Rightarrow> string option" where
  "kformat [] ap = Some []"
| "kformat (c # fmt) ap =
     (if c \<noteq> CHR ''%'' then map_option ((#) c) (kformat fmt ap)
      else (case fmt of
              [] \<Rightarrow> Some []
            | d # fmt' \<Rightarrow>
                (case kprintf_conv d ap of
                   None \<Rightarrow> None
                 | Some (t, ap') \<Rightarrow> map_option ((@) t) (kformat fmt' ap'))))"

record kprintf_state = uart_state +
  pr_locking :: bool

lemma kprintf_upd_order [upd_order]:
  "mem_update f_mem (pr_locking_update g_pr_locking r) = pr_locking_update g_pr_locking (mem_update f_mem r)"
  "tp_update f_tp (pr_locking_update g_pr_locking r) = pr_locking_update g_pr_locking (tp_update f_tp r)"
  "sstatus_update f_sstatus (pr_locking_update g_pr_locking r) = pr_locking_update g_pr_locking (sstatus_update f_sstatus r)"
  "cpus_update f_cpus (pr_locking_update g_pr_locking r) = pr_locking_update g_pr_locking (cpus_update f_cpus r)"
  "locks_update f_locks (pr_locking_update g_pr_locking r) = pr_locking_update g_pr_locking (locks_update f_locks r)"
  "kend_update f_kend (pr_locking_update g_pr_locking r) = pr_locking_update g_pr_locking (kend_update f_kend r)"
  "freelist_update f_freelist (pr_locking_update g_pr_locking r) = pr_locking_update g_pr_locking (freelist_update f_freelist r)"
  "etext_update f_etext (pr_locking_update g_pr_locking r) = pr_locking_update g_pr_locking (etext_update f_etext r)"
  "trampoline_update f_trampoline (pr_locking_update g_pr_locking r) = pr_locking_update g_pr_locking (trampoline_update f_trampoline r)"
  "kernel_pagetable_update f_kernel_pagetable (pr_locking_update g_pr_locking r) = pr_locking_update g_pr_locking (kernel_pagetable_update f_kernel_pagetable r)"
  "satp_update f_satp (pr_locking_update g_pr_locking r) = pr_locking_update g_pr_locking (satp_update f_satp r)"
  "procs_update f_procs (pr_locking_update g_pr_locking r) = pr_locking_update g_pr_locking (procs_update f_procs r)"
  "initproc_update f_initproc (pr_locking_update g_pr_locking r) = pr_locking_update g_pr_locking (initproc_update f_initproc r)"
  "nextpid_update f_nextpid (pr_locking_update g_pr_locking r) = pr_locking_update g_pr_locking (nextpid_update f_nextpid r)"
  "forkret_sym_update f_forkret_sym (pr_locking_update g_pr_locking r) = pr_locking_update g_pr_locking (forkret_sym_update f_forkret_sym r)"
  "sleeps_update f_sleeps (pr_locking_update g_pr_locking r) = pr_locking_update g_pr_locking (sleeps_update f_sleeps r)"
  "bufs_update f_bufs (pr_locking_update g_pr_locking r) = pr_locking_update g_pr_locking (bufs_update f_bufs r)"
  "disk_update f_disk (pr_locking_update g_pr_locking r) = pr_locking_update g_pr_locking (disk_update f_disk r)"
  "dtrace_update f_dtrace (pr_locking_update g_pr_locking r) = pr_locking_update g_pr_locking (dtrace_update f_dtrace r)"
  "logs_update f_logs (pr_locking_update g_pr_locking r) = pr_locking_update g_pr_locking (logs_update f_logs r)"
  "uart_update f_uart (pr_locking_update g_pr_locking r) = pr_locking_update g_pr_locking (uart_update f_uart r)"
  "panicked_update f_panicked (pr_locking_update g_pr_locking r) = pr_locking_update g_pr_locking (panicked_update f_panicked r)"
  by simp_all


lemma kprintf_state_simps [state_simps]:
  "pr_locking (acq lk s) = pr_locking s"
  "acq lk (pr_locking_update f_pr_locking s) = pr_locking_update f_pr_locking (acq lk s)"
  "pr_locking (rel lk s) = pr_locking s"
  "rel lk (pr_locking_update f_pr_locking s) = pr_locking_update f_pr_locking (rel lk s)"
  "pr_locking (tch s) = pr_locking s"
  "tch (pr_locking_update f_pr_locking s) = pr_locking_update f_pr_locking (tch s)"
  "free_lk lk (pr_locking_update f_pr_locking s) = free_lk lk s"
  "held_lk lk (pr_locking_update f_pr_locking s) = held_lk lk s"
  "in_cs (pr_locking_update f_pr_locking s) = in_cs s"
  "irq_ok (pr_locking_update f_pr_locking s) = irq_ok s"
  "intr_get (pr_locking_update f_pr_locking s) = intr_get s"
  "cpuid (pr_locking_update f_pr_locking s) = cpuid s"
  "mycpu (pr_locking_update f_pr_locking s) = mycpu s"
  by (simp_all add: in_cs_def lock_defs upd_order)


definition putstr :: "string \<Rightarrow> (unit, 'z uart_state_scheme) kop" where
  "putstr t = for_each t (\<lambda>c. consputc (of_char c))"

definition printf :: "string option \<Rightarrow> vararg list \<Rightarrow> (unit, 'z kprintf_state_scheme) kop" where
  "printf fmt ap =
     bnd (gets pr_locking) (\<lambda>locking.
     thn (whenk locking (acquire PrLock))
    (case fmt of
       None \<Rightarrow> panic ''null fmt''
     | Some f \<Rightarrow>
         (case kformat f ap of
            None \<Rightarrow> spin
          | Some t \<Rightarrow>
              thn (putstr t)
                  (whenk locking (release PrLock)))))"

definition printfinit :: "(unit, 'z kprintf_state_scheme) kop" where
  "printfinit =
     thn (initlock PrLock ''pr'')
         (modify (\<lambda>s. s\<lparr>pr_locking := True\<rparr>))"

text \<open>\<open>procdump\<close> of \<open>kernel/proc.c\<close> prints one line for each process, without taking locks.\<close>

fun state_name :: "procstate \<Rightarrow> string" where
  "state_name UNUSED = ''unused''"
| "state_name USED = ''used''"
| "state_name SLEEPING = ''sleep ''"
| "state_name RUNNABLE = ''runble''"
| "state_name RUNNING = ''run   ''"
| "state_name ZOMBIE = ''zombie''"

definition str_of_bytes :: "uint8 list \<Rightarrow> string" where
  "str_of_bytes bs = map (\<lambda>b. char_of (unat b)) (takeWhile (\<lambda>b. b \<noteq> 0) bs)"

definition procdump :: "(unit, 'z kprintf_state_scheme) kop" where
  "procdump =
     thn (printf (Some ''\<newline>'') [])
         (for_each [0..<NPROC] (\<lambda>p.
            bnd (get_proc p) (\<lambda>pr.
            whenk (p_state pr \<noteq> UNUSED)
              (thn (printf (Some ''%d %s %s'')
                 [VInt (of_int (p_pid pr)), VStr (Some (state_name (p_state pr))),
                  VStr (Some (str_of_bytes (p_name pr)))])
                   (printf (Some ''\<newline>'') [])))))"

section \<open>Execution lemmas\<close>

lemma calm_pr [state_simps]:
  "calm (pr_locking_update f t) = calm t" "procs_free (pr_locking_update f t) = procs_free t"
  by (simp_all add: calm_def procs_free_def state_simps)

text \<open>The console can be written: no panic, and the baud latch of the UART is closed.\<close>

definition live :: "'z uart_state_scheme \<Rightarrow> bool" where
  "live s \<longleftrightarrow> \<not> panicked s \<and> u_reg (uart s) LCR AND LCR_BAUD_LATCH = 0"

lemma live_state [state_simps]:
  "live (tch s) = live s" "live (acq lk s) = live s" "live (rel lk s) = live s"
  "live (procs_update f s) = live s"
  by (simp_all add: live_def state_simps)

lemma sync_sent_fields [simp]:
  "u_reg (sync_sent c u) = u_reg u" "u_rx (sync_sent c u) = u_rx u"
  "uart_tx_buf (sync_sent c u) = uart_tx_buf u" "uart_tx_w (sync_sent c u) = uart_tx_w u"
  "uart_tx_r (sync_sent c u) = uart_tx_r u" "u_sent (sync_sent c u) = u_sent u @ [c]"
  by (simp_all add: sync_sent_def)

lemma live_sync [state_simps]: "live (s\<lparr>uart := sync_sent c u\<rparr>) = live (s\<lparr>uart := u\<rparr>)"
  by (simp add: live_def)

definition char_byte :: "char \<Rightarrow> uint8" where
  "char_byte c = of_char c"

definition send_str :: "string \<Rightarrow> uartdev \<Rightarrow> uartdev" where
  "send_str t u = fold (\<lambda>c. sync_sent (char_byte c)) t u"

lemma send_str_fields [simp]:
  "u_reg (send_str t u) = u_reg u" "u_rx (send_str t u) = u_rx u"
  "uart_tx_buf (send_str t u) = uart_tx_buf u" "uart_tx_w (send_str t u) = uart_tx_w u"
  "uart_tx_r (send_str t u) = uart_tx_r u" "u_sent (send_str t u) = u_sent u @ map char_byte t"
  by (induction t arbitrary: u) (simp_all add: send_str_def)

lemma consputc_char:
  assumes "irq_ok s" "live s"
  shows "consputc (of_char c) s = Ret () ((tch s)\<lparr>uart := sync_sent (char_byte c) (uart s)\<rparr>)"
proof -
  have "(of_char c :: nat) < 256" by simp
  then have "(of_char c :: int) \<noteq> BACKSPACE" unfolding of_char_int BACKSPACE_def by linarith
  then show ?thesis
    using assms by (simp add: consputc_def live_def kop_simps char_byte_def of_int_of_char)
qed

lemma putstr_eq:
  assumes "irq_ok s" "live s"
  shows "putstr t s = Ret () (if t = [] then s else (tch s)\<lparr>uart := send_str t (uart s)\<rparr>)"
  using assms
proof (induction t arbitrary: s)
  case Nil
  then show ?case by (simp add: putstr_def kop_simps)
next
  case (Cons c t)
  let ?s = "(tch s)\<lparr>uart := sync_sent (char_byte c) (uart s)\<rparr>"
  have "irq_ok ?s" "live ?s" using Cons.prems by (simp_all add: state_simps live_def)
  from Cons.IH [OF this]
  have "putstr t ?s = Ret () ((tch s)\<lparr>uart := send_str (c # t) (uart s)\<rparr>)"
    by (cases "t = []") (simp_all add: send_str_def state_simps)
  then show ?case
    using consputc_char [OF Cons.prems, of c] by (simp add: putstr_def kop_simps)
qed

lemma printf_eq:
  assumes "irq_ok s" "live s" "pr_locking s \<longrightarrow> free_lk PrLock s" "pr_locking s \<or> t \<noteq> []"
    "kformat f ap = Some t"
  shows "printf (Some f) ap s = Ret () ((tch s)\<lparr>uart := send_str t (uart s)\<rparr>)"
proof (cases "pr_locking s")
  case False
  then show ?thesis
    using assms putstr_eq [OF assms(1,2), of t] by (simp add: printf_def kop_simps)
next
  case True
  have "irq_ok (acq PrLock s)" "live (acq PrLock s)" using assms(1,2) by (simp_all add: state_simps)
  from putstr_eq [OF this, of t]
  have "putstr t (acq PrLock s) = Ret () ((acq PrLock s)\<lparr>uart := send_str t (uart s)\<rparr>)"
    using assms(1) by (cases "t = []") (simp_all add: send_str_def state_simps)
  then show ?thesis
    using assms True by (simp add: printf_def kop_simps state_simps)
qed

end
