(* ===== verification/Console.thy ===== *)
theory Console
  imports Kprintf
begin

text \<open>
  \<open>kernel/console.c\<close>: line-at-a-time console input and output to the UART, and the UART interrupt
  handler that feeds it. The input ring is shown to implement a line discipline: finished lines
  wait for \<open>consoleread\<close>, the line being typed can still be edited.
\<close>

section \<open>State\<close>

definition INPUT_BUF_SIZE :: nat where "INPUT_BUF_SIZE = 128"

record cons =
  cn_buf :: "uint8 list"
  cn_r :: uint32
  cn_w :: uint32
  cn_e :: uint32

record console_state = kprintf_state +
  cons :: cons

lemma cons_upd_order [upd_order]:
  "cn_buf_update f_cn_buf (cn_r_update g_cn_r r) = cn_r_update g_cn_r (cn_buf_update f_cn_buf r)"
  "cn_buf_update f_cn_buf (cn_w_update g_cn_w r) = cn_w_update g_cn_w (cn_buf_update f_cn_buf r)"
  "cn_buf_update f_cn_buf (cn_e_update g_cn_e r) = cn_e_update g_cn_e (cn_buf_update f_cn_buf r)"
  "cn_r_update f_cn_r (cn_w_update g_cn_w r) = cn_w_update g_cn_w (cn_r_update f_cn_r r)"
  "cn_r_update f_cn_r (cn_e_update g_cn_e r) = cn_e_update g_cn_e (cn_r_update f_cn_r r)"
  "cn_w_update f_cn_w (cn_e_update g_cn_e r) = cn_e_update g_cn_e (cn_w_update f_cn_w r)"
  by simp_all


lemma console_upd_order [upd_order]:
  "mem_update f_mem (cons_update g_cons r) = cons_update g_cons (mem_update f_mem r)"
  "tp_update f_tp (cons_update g_cons r) = cons_update g_cons (tp_update f_tp r)"
  "sstatus_update f_sstatus (cons_update g_cons r) = cons_update g_cons (sstatus_update f_sstatus r)"
  "cpus_update f_cpus (cons_update g_cons r) = cons_update g_cons (cpus_update f_cpus r)"
  "locks_update f_locks (cons_update g_cons r) = cons_update g_cons (locks_update f_locks r)"
  "kend_update f_kend (cons_update g_cons r) = cons_update g_cons (kend_update f_kend r)"
  "freelist_update f_freelist (cons_update g_cons r) = cons_update g_cons (freelist_update f_freelist r)"
  "etext_update f_etext (cons_update g_cons r) = cons_update g_cons (etext_update f_etext r)"
  "trampoline_update f_trampoline (cons_update g_cons r) = cons_update g_cons (trampoline_update f_trampoline r)"
  "kernel_pagetable_update f_kernel_pagetable (cons_update g_cons r) = cons_update g_cons (kernel_pagetable_update f_kernel_pagetable r)"
  "satp_update f_satp (cons_update g_cons r) = cons_update g_cons (satp_update f_satp r)"
  "procs_update f_procs (cons_update g_cons r) = cons_update g_cons (procs_update f_procs r)"
  "initproc_update f_initproc (cons_update g_cons r) = cons_update g_cons (initproc_update f_initproc r)"
  "nextpid_update f_nextpid (cons_update g_cons r) = cons_update g_cons (nextpid_update f_nextpid r)"
  "forkret_sym_update f_forkret_sym (cons_update g_cons r) = cons_update g_cons (forkret_sym_update f_forkret_sym r)"
  "sleeps_update f_sleeps (cons_update g_cons r) = cons_update g_cons (sleeps_update f_sleeps r)"
  "bufs_update f_bufs (cons_update g_cons r) = cons_update g_cons (bufs_update f_bufs r)"
  "disk_update f_disk (cons_update g_cons r) = cons_update g_cons (disk_update f_disk r)"
  "dtrace_update f_dtrace (cons_update g_cons r) = cons_update g_cons (dtrace_update f_dtrace r)"
  "logs_update f_logs (cons_update g_cons r) = cons_update g_cons (logs_update f_logs r)"
  "uart_update f_uart (cons_update g_cons r) = cons_update g_cons (uart_update f_uart r)"
  "panicked_update f_panicked (cons_update g_cons r) = cons_update g_cons (panicked_update f_panicked r)"
  "pr_locking_update f_pr_locking (cons_update g_cons r) = cons_update g_cons (pr_locking_update f_pr_locking r)"
  by simp_all


lemma console_state_simps [state_simps]:
  "cons (acq lk s) = cons s"
  "acq lk (cons_update f_cons s) = cons_update f_cons (acq lk s)"
  "cons (rel lk s) = cons s"
  "rel lk (cons_update f_cons s) = cons_update f_cons (rel lk s)"
  "cons (tch s) = cons s"
  "tch (cons_update f_cons s) = cons_update f_cons (tch s)"
  "free_lk lk (cons_update f_cons s) = free_lk lk s"
  "held_lk lk (cons_update f_cons s) = held_lk lk s"
  "in_cs (cons_update f_cons s) = in_cs s"
  "irq_ok (cons_update f_cons s) = irq_ok s"
  "intr_get (cons_update f_cons s) = intr_get s"
  "cpuid (cons_update f_cons s) = cpuid s"
  "mycpu (cons_update f_cons s) = mycpu s"
  by (simp_all add: in_cs_def lock_defs upd_order)


definition set_cons :: "(cons \<Rightarrow> cons) \<Rightarrow> (unit, 'z console_state_scheme) kop" where
  "set_cons f = modify (\<lambda>s. s\<lparr>cons := f (cons s)\<rparr>)"

definition get_cons :: "(cons, 'z console_state_scheme) kop" where
  "get_cons = gets cons"

lemma cons_ops [kop_simps]:
  "set_cons f s = Ret () (s\<lparr>cons := f (cons s)\<rparr>)"
  "get_cons s = Ret (cons s) s"
  by (simp_all add: set_cons_def get_cons_def kop_simps)

section \<open>Operations\<close>

definition ctrl :: "char \<Rightarrow> int" where
  "ctrl c = of_char c - of_char (CHR ''@'')"

primrec consolewrite_loop :: "nat \<Rightarrow> bool \<Rightarrow> uint64 \<Rightarrow> int \<Rightarrow> (int, 'z console_state_scheme) kop" where
  "consolewrite_loop 0 user_src src i = ret i"
| "consolewrite_loop (Suc n) user_src src i =
     bnd (either_copyin user_src (src + of_int i) 1) (\<lambda>(r, bs).
     if r = - 1 then ret i
     else thn (uartputc (hd bs)) (consolewrite_loop n user_src src (i + 1)))"

definition consolewrite :: "bool \<Rightarrow> uint64 \<Rightarrow> int \<Rightarrow> (int, 'z console_state_scheme) kop" where
  "consolewrite user_src src n = consolewrite_loop (nat n) user_src src 0"

text \<open>The wait for input: the result says that the process was killed, the lock released.\<close>

primrec consoleread_wait :: "nat \<Rightarrow> (bool, 'z console_state_scheme) kop" where
  "consoleread_wait 0 = spin"
| "consoleread_wait (Suc n) =
     bnd get_cons (\<lambda>c.
     if cn_r c = cn_w c then
       bnd cur_proc (\<lambda>p.
       bnd (killed p) (\<lambda>k.
       if k \<noteq> 0 then thn (release ConsLock) (ret True)
       else thn (sleep ChCons ConsLock) (consoleread_wait n)))
     else ret False)"

text \<open>The loop with \<open>n\<close> bytes to go: the bytes not delivered, or \<open>None\<close> if the process was killed.\<close>

primrec consoleread_loop :: "nat \<Rightarrow> bool \<Rightarrow> nat \<Rightarrow> uint64 \<Rightarrow> (nat option, 'z console_state_scheme) kop" where
  "consoleread_loop 0 user_dst target dst = ret (Some 0)"
| "consoleread_loop (Suc n) user_dst target dst =
     bnd (consoleread_wait WAITS) (\<lambda>k.
     if k then ret None else
     bnd get_cons (\<lambda>cn.
     let c = cn_buf cn ! (unat (cn_r cn) mod INPUT_BUF_SIZE) in
     thn (set_cons (\<lambda>cn. cn\<lparr>cn_r := cn_r cn + 1\<rparr>))
    (if int (unat c) = ctrl (CHR ''D'') then
       thn (whenk (Suc n < target) (set_cons (\<lambda>cn. cn\<lparr>cn_r := cn_r cn - 1\<rparr>)))
           (ret (Some (Suc n)))
     else
       bnd (either_copyout user_dst dst [c]) (\<lambda>r.
       if r = - 1 then ret (Some (Suc n))
       else if c = 10 then ret (Some n)
       else consoleread_loop n user_dst target (dst + 1)))))"

definition consoleread :: "bool \<Rightarrow> uint64 \<Rightarrow> int \<Rightarrow> (int, 'z console_state_scheme) kop" where
  "consoleread user_dst dst n =
     thn (acquire ConsLock)
    (bnd (consoleread_loop (nat n) user_dst (nat n) dst) (\<lambda>r.
     case r of
       None \<Rightarrow> ret (- 1)
     | Some k \<Rightarrow> thn (release ConsLock) (ret (int (nat n) - int k))))"

text \<open>The distance from the write to the edit index bounds the erasing of a line.\<close>

primrec kill_line :: "nat \<Rightarrow> (unit, 'z console_state_scheme) kop" where
  "kill_line 0 = spin"
| "kill_line (Suc n) =
     bnd get_cons (\<lambda>c.
     if cn_e c \<noteq> cn_w c \<and> cn_buf c ! (unat (cn_e c - 1) mod INPUT_BUF_SIZE) \<noteq> 10 then
       thn (set_cons (\<lambda>c. c\<lparr>cn_e := cn_e c - 1\<rparr>))
      (thn (consputc BACKSPACE)
           (kill_line n))
     else ret ())"

definition cons_erase :: "(unit, 'z console_state_scheme) kop" where
  "cons_erase =
     bnd get_cons (\<lambda>c.
     whenk (cn_e c \<noteq> cn_w c)
       (thn (set_cons (\<lambda>c. c\<lparr>cn_e := cn_e c - 1\<rparr>))
            (consputc BACKSPACE)))"

definition cons_type :: "int \<Rightarrow> (unit, 'z console_state_scheme) kop" where
  "cons_type c =
     bnd get_cons (\<lambda>cn.
     whenk (c \<noteq> 0 \<and> unat (cn_e cn - cn_r cn) < INPUT_BUF_SIZE)
       (let c = (if c = 13 then 10 else c) in
        thn (consputc c)
       (thn (set_cons (\<lambda>cn. cn\<lparr>cn_buf := (cn_buf cn)[unat (cn_e cn) mod INPUT_BUF_SIZE := word_of_int c],
               cn_e := cn_e cn + 1\<rparr>))
       (bnd get_cons (\<lambda>cn.
        whenk (c = 10 \<or> c = ctrl (CHR ''D'') \<or> unat (cn_e cn - cn_r cn) = INPUT_BUF_SIZE)
          (thn (set_cons (\<lambda>cn. cn\<lparr>cn_w := cn_e cn\<rparr>))
               (wakeup (Some ChCons))))))))"

definition consoleintr :: "int \<Rightarrow> (unit, 'z console_state_scheme) kop" where
  "consoleintr c =
     thn (acquire ConsLock)
    (thn (if c = ctrl (CHR ''P'') then procdump
          else if c = ctrl (CHR ''U'') then
            bnd get_cons (\<lambda>cn. kill_line (Suc (unat (cn_e cn - cn_w cn))))
          else if c = ctrl (CHR ''H'') \<or> c = 127 then cons_erase
          else cons_type c)
         (release ConsLock))"

text \<open>The bytes waiting in the receiver bound the loop of \<open>uartintr\<close>.\<close>

primrec uartintr_loop :: "nat \<Rightarrow> (unit, 'z console_state_scheme) kop" where
  "uartintr_loop 0 = spin"
| "uartintr_loop (Suc n) =
     bnd uartgetc (\<lambda>c. if c = - 1 then ret () else thn (consoleintr c) (uartintr_loop n))"

definition uartintr :: "(unit, 'z console_state_scheme) kop" where
  "uartintr =
     bnd get_uart (\<lambda>u.
     thn (uartintr_loop (Suc (length (u_rx u))))
    (thn (acquire UartTxLock)
    (thn uartstart
         (release UartTxLock))))"

section \<open>The line discipline\<close>

interpretation conq: circular "(!) :: uint8 list \<Rightarrow> nat \<Rightarrow> uint8" list_update 128 "TYPE(32)"
  "\<lambda>b. length b = 128"
  by unfold_locales (simp_all add: nth_list_update)

text \<open>The finished input that \<open>consoleread\<close> may take, and the line being typed.\<close>

definition cons_lines :: "cons \<Rightarrow> uint8 list \<times> uint8 list" where
  "cons_lines c = (ring_queue (!) 128 (cn_buf c) (cn_r c) (cn_w c),
     ring_queue (!) 128 (cn_buf c) (cn_w c) (cn_e c))"

definition cons_ok :: "cons \<Rightarrow> bool" where
  "cons_ok c \<longleftrightarrow> length (cn_buf c) = 128 \<and>
     unat (cn_w c - cn_r c) + unat (cn_e c - cn_w c) \<le> 128 \<and> 10 \<notin> set (snd (cons_lines c))"

text \<open>What a key does to the input, and what the console echoes.\<close>

definition erase_echo :: "uint8 list" where
  "erase_echo = [8, 32, 8]"

definition discipline :: "int \<Rightarrow> uint8 list \<times> uint8 list \<Rightarrow> (uint8 list \<times> uint8 list) \<times> uint8 list" where
  "discipline c = (\<lambda>(done, line).
     if c = ctrl (CHR ''U'') then ((done, []), concat (replicate (length line) erase_echo))
     else if c = ctrl (CHR ''H'') \<or> c = 127 then
       ((done, butlast line), if line = [] then [] else erase_echo)
     else if c = 0 \<or> length done + length line \<ge> 128 then ((done, line), [])
     else let b = (if c = 13 then 10 else word_of_int c)
          in (if b = 10 \<or> b = 4 \<or> length done + length line = 127 then (done @ line @ [b], [])
              else (done, line @ [b]), [b]))"

text \<open>The key finishes a line: it adds to the input that readers may take.\<close>

definition finishes :: "int \<Rightarrow> uint8 list \<times> uint8 list \<Rightarrow> bool" where
  "finishes c ls \<longleftrightarrow> fst (fst (discipline c ls)) \<noteq> fst ls"

lemma erasing_keeps:
  "c = ctrl (CHR ''U'') \<or> c = ctrl (CHR ''H'') \<or> c = 127 \<Longrightarrow> \<not> finishes c ls"
  by (cases ls) (auto simp: finishes_def discipline_def)

lemma cons_span:
  assumes "cons_ok c"
  shows "unat (cn_e c - cn_r c) = unat (cn_w c - cn_r c) + unat (cn_e c - cn_w c)"
proof -
  have e: "cn_e c - cn_r c = (cn_w c - cn_r c) + (cn_e c - cn_w c)" by simp
  have "unat (cn_w c - cn_r c) + unat (cn_e c - cn_w c) < 2 ^ LENGTH(32)"
    using assms by (simp add: cons_ok_def)
  then show ?thesis unfolding e unat_word_ariths by (simp only: mod_less)
qed

lemma cons_lines_length:
  "length (fst (cons_lines c)) = unat (cn_w c - cn_r c)" "length (snd (cons_lines c)) = unat (cn_e c - cn_w c)"
  by (simp_all add: cons_lines_def)

lemma live_cons [state_simps]:
  "live (cons_update f s) = live s" "calm (cons_update f s) = calm s" "procs_free (cons_update f s) = procs_free s"
  by (simp_all add: live_def calm_def procs_free_def state_simps)

definition send_erase :: "uartdev \<Rightarrow> uartdev" where
  "send_erase u = sync_sent 8 (sync_sent 32 (sync_sent 8 u))"

lemma send_erase_sent [simp]: "u_sent (send_erase u) = u_sent u @ erase_echo" "u_reg (send_erase u) = u_reg u"
  by (simp_all add: send_erase_def erase_echo_def)

lemma consputc_erase:
  assumes "in_cs s" "live s"
  shows "consputc BACKSPACE s = Ret () (s\<lparr>uart := send_erase (uart s)\<rparr>)"
  using assms by (simp add: consputc_def live_def kop_simps state_simps send_erase_def)

text \<open>Removing the last character of the line.\<close>

definition cn_back :: "cons \<Rightarrow> cons" where
  "cn_back c = c\<lparr>cn_e := cn_e c - 1\<rparr>"

lemma cn_back_ok:
  assumes "cons_ok c" "cn_e c \<noteq> cn_w c"
  shows "cons_ok (cn_back c)" "cons_lines (cn_back c) = (fst (cons_lines c), butlast (snd (cons_lines c)))"
    "unat (cn_e c - 1 - cn_w c) < unat (cn_e c - cn_w c)" "snd (cons_lines c) \<noteq> []"
    "cn_buf c ! (unat (cn_e c - 1) mod 128) \<noteq> 10"
proof -
  have ne: "cn_w c \<noteq> cn_e c" using assms(2) by (rule not_sym)
  show l: "cons_lines (cn_back c) = (fst (cons_lines c), butlast (snd (cons_lines c)))"
    using conq.queue_unpush(1) [OF ne, of "cn_buf c"] by (simp add: cons_lines_def cn_back_def)
  have "cn_e c - cn_w c \<noteq> 0" using assms(2) by simp
  then have "unat (cn_e c - cn_w c - 1) < unat (cn_e c - cn_w c)" by (rule measure_unat)
  then show lt: "unat (cn_e c - 1 - cn_w c) < unat (cn_e c - cn_w c)"
    by (simp only: diff_right_commute [of "cn_e c" "cn_w c" 1])
  show nn: "snd (cons_lines c) \<noteq> []" using ne by (simp add: cons_lines_def conq.queue_Nil_iff)
  show "cn_buf c ! (unat (cn_e c - 1) mod 128) \<noteq> 10"
  proof
    assume "cn_buf c ! (unat (cn_e c - 1) mod 128) = 10"
    then have "last (snd (cons_lines c)) = 10"
      using conq.queue_unpush(2) [OF ne, of "cn_buf c"] by (simp add: cons_lines_def)
    then show False using nn assms(1) last_in_set [OF nn] by (simp add: cons_ok_def)
  qed
  show "cons_ok (cn_back c)"
    using assms(1) lt in_set_butlastD [of 10 "snd (cons_lines c)"]
    unfolding cons_ok_def l by (auto simp: cn_back_def)
qed

lemma cons_erase_law:
  assumes "in_cs s" "live s" "cons_ok (cons s)"
  shows "\<exists>U C. cons_erase s = Ret () (s\<lparr>uart := U, cons := C\<rparr>) \<and> cons_ok C \<and>
    (cons_lines C, u_sent U) =
      (fst (discipline 127 (cons_lines (cons s))), u_sent (uart s) @ snd (discipline 127 (cons_lines (cons s)))) \<and>
    u_reg U = u_reg (uart s)"
proof (cases "cn_e (cons s) = cn_w (cons s)")
  case True
  then obtain d where l: "cons_lines (cons s) = (d, [])" by (simp add: cons_lines_def)
  show ?thesis
    using True assms(3) l
    by (intro exI [of _ "uart s"] exI [of _ "cons s"])
      (simp add: cons_erase_def kop_simps discipline_def ctrl_def)
next
  case False
  let ?s = "s\<lparr>cons := cn_back (cons s)\<rparr>"
  have "consputc BACKSPACE ?s = Ret () (?s\<lparr>uart := send_erase (uart s)\<rparr>)"
    using consputc_erase [of ?s] assms by (simp add: state_simps)
  then have "cons_erase s = Ret () (s\<lparr>uart := send_erase (uart s), cons := cn_back (cons s)\<rparr>)"
    using False by (simp add: cons_erase_def kop_simps cn_back_def upd_order)
  then show ?thesis
    using cn_back_ok [OF assms(3) False]
    by (intro exI [of _ "send_erase (uart s)"] exI [of _ "cn_back (cons s)"])
      (auto simp: discipline_def ctrl_def split: prod.splits)
qed

lemma kill_line_law:
  assumes "in_cs s" "live s" "cons_ok (cons s)" "unat (cn_e (cons s) - cn_w (cons s)) \<le> n"
  shows "\<exists>U C. kill_line (Suc n) s = Ret () (s\<lparr>uart := U, cons := C\<rparr>) \<and> cons_ok C \<and>
    cons_lines C = (fst (cons_lines (cons s)), []) \<and>
    u_sent U = u_sent (uart s) @ concat (replicate (length (snd (cons_lines (cons s)))) erase_echo) \<and>
    u_reg U = u_reg (uart s)"
  using assms
proof (induction n arbitrary: s)
  case 0
  then have "cn_e (cons s) = cn_w (cons s)" by (simp add: unat_eq_zero)
  then show ?case
    using 0 by (intro exI [of _ "uart s"] exI [of _ "cons s"]) (simp add: kop_simps cons_lines_def)
next
  case (Suc n)
  show ?case
  proof (cases "cn_e (cons s) = cn_w (cons s)")
    case True
    then show ?thesis
      using Suc.prems
      by (intro exI [of _ "uart s"] exI [of _ "cons s"]) (simp add: kop_simps cons_lines_def)
  next
    case False
    note b = cn_back_ok [OF Suc.prems(3) False]
    let ?s = "s\<lparr>uart := send_erase (uart s), cons := cn_back (cons s)\<rparr>"
    have c: "consputc BACKSPACE (s\<lparr>cons := cn_back (cons s)\<rparr>) = Ret () ?s"
      using consputc_erase [of "s\<lparr>cons := cn_back (cons s)\<rparr>"] Suc.prems by (simp add: state_simps upd_order)
    have step: "kill_line (Suc (Suc n)) s = kill_line (Suc n) ?s"
      using False b(5) c
      by (subst kill_line.simps) (simp add: kop_simps INPUT_BUF_SIZE_def cn_back_def del: kill_line.simps)
    have "in_cs ?s" "live ?s" "cons_ok (cons ?s)" "unat (cn_e (cons ?s) - cn_w (cons ?s)) \<le> n"
      using Suc.prems b(1,3) by (simp_all add: state_simps live_def cn_back_def)
    from Suc.IH [OF this] obtain U C where UC:
      "kill_line (Suc n) ?s = Ret () (?s\<lparr>uart := U, cons := C\<rparr>)" "cons_ok C"
      "cons_lines C = (fst (cons_lines (cons ?s)), [])"
      "u_sent U = u_sent (uart ?s) @ concat (replicate (length (snd (cons_lines (cons ?s)))) erase_echo)"
      "u_reg U = u_reg (uart ?s)" by blast
    have "length (snd (cons_lines (cons s))) = Suc (length (butlast (snd (cons_lines (cons s)))))"
      using b(4) by simp
    then show ?thesis
      using UC step b(2)
      by (intro exI [of _ U] exI [of _ C]) (simp add: upd_order del: length_butlast)
  qed
qed

text \<open>Adding a character to the line, and finishing the line.\<close>

definition cn_typed :: "uint8 \<Rightarrow> cons \<Rightarrow> cons" where
  "cn_typed b c = c\<lparr>cn_buf := (cn_buf c)[unat (cn_e c) mod 128 := b], cn_e := cn_e c + 1\<rparr>"

definition cn_commit :: "cons \<Rightarrow> cons" where
  "cn_commit c = c\<lparr>cn_w := cn_e c\<rparr>"

lemma cn_typed_ok:
  assumes "cons_ok c" "unat (cn_e c - cn_r c) < 128"
  shows "cons_lines (cn_typed b c) = (fst (cons_lines c), snd (cons_lines c) @ [b])"
    "unat (cn_e c + 1 - cn_r c) = Suc (unat (cn_e c - cn_r c))"
    "unat (cn_e c + 1 - cn_w c) = Suc (unat (cn_e c - cn_w c))"
    "length (cn_buf (cn_typed b c)) = 128"
proof -
  note sp = cons_span [OF assms(1)]
  have len: "length (cn_buf c) = 128" using assms(1) by (simp add: cons_ok_def)
  have neq: "cn_e c + 1 \<noteq> x" if "unat (cn_e c - x) < 128" for x
  proof
    assume "cn_e c + 1 = x"
    then have "cn_e c - x = - 1" by (simp add: diff_eq_eq flip: \<open>cn_e c + 1 = x\<close>)
    then show False using that by (simp add: unsigned_minus_1_eq_mask mask_eq_exp_minus_1)
  qed
  have lt: "unat (cn_e c - cn_w c) < 128" using sp assms(2) by linarith
  show r: "unat (cn_e c + 1 - cn_r c) = Suc (unat (cn_e c - cn_r c))"
    using conq.unat_Suc_diff neq [OF assms(2)] by blast
  show w: "unat (cn_e c + 1 - cn_w c) = Suc (unat (cn_e c - cn_w c))"
    using conq.unat_Suc_diff neq [OF lt] by blast
  show "length (cn_buf (cn_typed b c)) = 128" using len by (simp add: cn_typed_def)
  let ?b = "(cn_buf c)[unat (cn_e c) mod 128 := b]"
  let ?q = "ring_queue (!) 128" and ?r = "cn_r c" and ?w = "cn_w c" and ?e = "cn_e c"
  have "?q ?b ?r (?e + 1) = ?q (cn_buf c) ?r ?e @ [b]"
    using conq.queue_push [OF len assms(2) neq [OF assms(2)]] .
  moreover have "?q (cn_buf c) ?r ?e = ?q (cn_buf c) ?r ?w @ ?q (cn_buf c) ?w ?e"
    using conq.queue_split [of ?w ?r ?e "cn_buf c"] sp by simp
  moreover have "?q ?b ?r (?e + 1) = ?q ?b ?r ?w @ ?q ?b ?w (?e + 1)"
    using conq.queue_split [of ?w ?r "?e + 1" ?b] sp r by simp
  ultimately have "?q ?b ?r ?w @ ?q ?b ?w (?e + 1) = ?q (cn_buf c) ?r ?w @ ?q (cn_buf c) ?w ?e @ [b]"
    by (simp only: append_assoc)
  then have "?q ?b ?r ?w = ?q (cn_buf c) ?r ?w" "?q ?b ?w (?e + 1) = ?q (cn_buf c) ?w ?e @ [b]"
    by (simp_all add: append_eq_append_conv)
  then show "cons_lines (cn_typed b c) = (fst (cons_lines c), snd (cons_lines c) @ [b])"
    by (simp add: cons_lines_def cn_typed_def)
qed

lemma cn_commit_lines:
  assumes "unat (cn_w c - cn_r c) \<le> unat (cn_e c - cn_r c)"
  shows "cons_lines (cn_commit c) = (fst (cons_lines c) @ snd (cons_lines c), [])"
  using conq.queue_split [OF assms, of "cn_buf c"] by (simp add: cons_lines_def cn_commit_def)

lemma byte_eq:
  assumes "0 \<le> c" "c < 256" "0 \<le> d" "d < 256"
  shows "(word_of_int c :: uint8) = word_of_int d \<longleftrightarrow> c = d"
  using assms by (simp add: word_of_int_eq_iff take_bit_eq_mod)

lemma consputc_byte:
  assumes "in_cs s" "live s" "c < 256"
  shows "consputc c s = Ret () (s\<lparr>uart := sync_sent (word_of_int c) (uart s)\<rparr>)"
  using assms by (simp add: consputc_def BACKSPACE_def live_def kop_simps state_simps)

lemma cons_type_law:
  assumes "in_cs s" "procs_free s" "live s" "cons_ok (cons s)" "0 \<le> c" "c < 256"
    "c \<noteq> ctrl (CHR ''U'')" "c \<noteq> ctrl (CHR ''H'')" "c \<noteq> 127"
  shows "\<exists>P U C. cons_type c s = Ret () (s\<lparr>procs := P, uart := U, cons := C\<rparr>) \<and> cons_ok C \<and>
    (cons_lines C, u_sent U) =
      (fst (discipline c (cons_lines (cons s))), u_sent (uart s) @ snd (discipline c (cons_lines (cons s)))) \<and>
    u_reg U = u_reg (uart s) \<and> P = (if finishes c (cons_lines (cons s)) then wake_all ChCons s else procs s)"
proof (cases "c = 0 \<or> unat (cn_e (cons s) - cn_r (cons s)) \<ge> 128")
  case True
  obtain d l where dl: "cons_lines (cons s) = (d, l)" by fastforce
  then have "length d + length l = unat (cn_e (cons s) - cn_r (cons s))"
    using cons_span [OF assms(4)] cons_lines_length [of "cons s"] by simp
  then have "discipline c (cons_lines (cons s)) = (cons_lines (cons s), [])"
    using True assms(7-9) by (auto simp: discipline_def dl)
  moreover have "cons_type c s = Ret () s"
    using True by (auto simp: cons_type_def kop_simps INPUT_BUF_SIZE_def)
  ultimately show ?thesis
    using assms(4) by (intro exI [of _ "procs s"] exI [of _ "uart s"] exI [of _ "cons s"]) (simp add: finishes_def)
next
  case False
  let ?i = "if c = 13 then 10 else c" and ?cn = "cons s"
  define b :: uint8 where "b = word_of_int ?i"
  define C1 where "C1 = cn_typed b ?cn"
  have rng: "0 \<le> ?i" "?i < 256" using assms(5,6) by auto
  have b10: "b = 10 \<longleftrightarrow> ?i = 10" using byte_eq [OF rng, of 10] by (simp add: b_def)
  have b4: "b = 4 \<longleftrightarrow> ?i = ctrl (CHR ''D'')" using byte_eq [OF rng, of 4] by (simp add: b_def ctrl_def)
  obtain d l where dl: "cons_lines ?cn = (d, l)" by fastforce
  have len: "length d + length l = unat (cn_e ?cn - cn_r ?cn)"
    using cons_span [OF assms(4)] cons_lines_length [of ?cn] dl by simp
  have room: "unat (cn_e ?cn - cn_r ?cn) < 128" using False by simp
  note ty = cn_typed_ok(1) [OF assms(4) room, of b, folded C1_def]
    cn_typed_ok(2,3) [OF assms(4) room] cn_typed_ok(4) [OF assms(4) room, of b, folded C1_def]
  let ?full = "unat (cn_e ?cn + 1 - cn_r ?cn) = 128"
  let ?C = "if ?i = 10 \<or> ?i = ctrl (CHR ''D'') \<or> ?full then cn_commit C1 else C1"
  let ?P = "if ?i = 10 \<or> ?i = ctrl (CHR ''D'') \<or> ?full then wake_all ChCons s else procs s"
  have cp: "consputc ?i s = Ret () (s\<lparr>uart := sync_sent b (uart s)\<rparr>)"
    using consputc_byte [OF assms(1,3) rng(2)] by (simp add: b_def)
  have wk: "wakeup (Some ChCons) (s\<lparr>uart := U, cons := C\<rparr>) = Ret () (s\<lparr>procs := wake_all ChCons s, uart := U, cons := C\<rparr>)" for U C
    using wakeup_any [of "s\<lparr>uart := U, cons := C\<rparr>" ChCons] assms(1,2)
    by (simp add: state_simps wake_all_def upd_order cong: if_cong)
  have run: "cons_type c s = Ret () (s\<lparr>procs := ?P, uart := sync_sent b (uart s), cons := ?C\<rparr>)"
    using False cp wk [of "cn_commit C1" "sync_sent b (uart s)"]
    by (simp add: cons_type_def kop_simps INPUT_BUF_SIZE_def Let_def C1_def cn_typed_def cn_commit_def b_def upd_order)
  have le: "unat (cn_w C1 - cn_r C1) \<le> unat (cn_e C1 - cn_r C1)"
    using cons_span [OF assms(4)] ty(2) by (simp add: C1_def cn_typed_def)
  have b_alt: "(if c = 13 then 10 else word_of_int c) = b" by (simp add: b_def)
  have full: "length d + length l = 127 \<longleftrightarrow> ?full" using ty(2) len by simp
  have disc: "discipline c (cons_lines ?cn) =
    (if ?i = 10 \<or> ?i = ctrl (CHR ''D'') \<or> ?full then (d @ l @ [b], []) else (d, l @ [b]), [b])"
    using len room assms(7-9) False unfolding dl discipline_def prod.case Let_def b_alt b10 b4 full by simp
  have lines: "cons_lines ?C = fst (discipline c (cons_lines ?cn))"
    using cn_commit_lines [OF le] ty(1) dl unfolding disc by simp
  have sent: "snd (discipline c (cons_lines ?cn)) = [b]" unfolding disc by simp
  have ok: "cons_ok ?C"
  proof (cases "?i = 10 \<or> ?i = ctrl (CHR ''D'') \<or> ?full")
    case True
    then show ?thesis
      using ty(2,4) room cn_commit_lines [OF le] by (simp add: cons_ok_def cn_commit_def C1_def cn_typed_def)
  next
    case no: False
    then have "10 \<notin> set (snd (cons_lines C1))"
      using ty(1) b10 assms(4) by (auto simp: cons_ok_def)
    then show ?thesis
      using no ty(2-4) cons_span [OF assms(4)] room by (simp add: cons_ok_def C1_def cn_typed_def)
  qed
  have "?P = (if finishes c (cons_lines ?cn) then wake_all ChCons s else procs s)"
    unfolding finishes_def disc by (simp add: dl)
  then show ?thesis
    using run ok lines sent
    by (intro exI [of _ ?P] exI [of _ "sync_sent b (uart s)"] exI [of _ ?C]) simp
qed

lemma uart_cons_frame:
  "in_cs (acq lk s) \<Longrightarrow> held_lk lk (acq lk s) \<Longrightarrow> free_lk lk s \<Longrightarrow> irq_ok s \<Longrightarrow>
   release lk ((acq lk s)\<lparr>procs := P, uart := U, cons := C\<rparr>) = Ret () ((tch s)\<lparr>procs := P, uart := U, cons := C\<rparr>)"
  by (simp add: kop_simps state_simps)

lemma consoleintr_law:
  assumes "irq_ok s" "procs_free s" "free_lk ConsLock s" "live s" "cons_ok (cons s)"
    "0 \<le> c" "c < 256" "c \<noteq> ctrl (CHR ''P'')"
  shows "\<exists>P U C. consoleintr c s = Ret () ((tch s)\<lparr>procs := P, uart := U, cons := C\<rparr>) \<and> cons_ok C \<and>
    (cons_lines C, u_sent U) =
      (fst (discipline c (cons_lines (cons s))), u_sent (uart s) @ snd (discipline c (cons_lines (cons s)))) \<and>
    u_reg U = u_reg (uart s) \<and> P = (if finishes c (cons_lines (cons s)) then wake_all ChCons s else procs s)"
proof -
  let ?a = "acq ConsLock s"
  have a: "in_cs ?a" "procs_free ?a" "live ?a" "cons_ok (cons ?a)" "cons ?a = cons s" "uart ?a = uart s"
    "procs ?a = procs s" "wake_all ChCons ?a = wake_all ChCons s"
    using assms by (simp_all add: state_simps)
  have ps: "?a\<lparr>procs := procs s\<rparr> = ?a" unfolding a(7) [symmetric] by simp
  have "\<exists>P U C. consoleintr c s = bindo (Ret () (?a\<lparr>procs := P, uart := U, cons := C\<rparr>)) (\<lambda>_. release ConsLock) \<and>
    cons_ok C \<and> (cons_lines C, u_sent U) =
      (fst (discipline c (cons_lines (cons s))), u_sent (uart s) @ snd (discipline c (cons_lines (cons s)))) \<and>
    u_reg U = u_reg (uart s) \<and> P = (if finishes c (cons_lines (cons s)) then wake_all ChCons s else procs s)"
  proof -
    consider "c = ctrl (CHR ''U'')" | "c = ctrl (CHR ''H'') \<or> c = 127" |
      "c \<noteq> ctrl (CHR ''U'')" "c \<noteq> ctrl (CHR ''H'')" "c \<noteq> 127" by blast
    then show ?thesis
    proof cases
      case 1
      obtain U C where "kill_line (Suc (unat (cn_e (cons s) - cn_w (cons s)))) ?a = Ret () (?a\<lparr>uart := U, cons := C\<rparr>)"
        "cons_ok C" "cons_lines C = (fst (cons_lines (cons s)), [])" "u_reg U = u_reg (uart s)"
        "u_sent U = u_sent (uart s) @ concat (replicate (length (snd (cons_lines (cons s)))) erase_echo)"
        using kill_line_law [OF a(1,3,4) order_refl] unfolding a by blast
      then show ?thesis
        using 1 assms(3,8) a(5) ps
        by (intro exI [of _ "procs s"] exI [of _ U] exI [of _ C])
          (simp add: erasing_keeps consoleintr_def kop_simps discipline_def case_prod_beta del: kill_line.simps)
    next
      case 2
      obtain U C where "cons_erase ?a = Ret () (?a\<lparr>uart := U, cons := C\<rparr>)" "cons_ok C"
        "(cons_lines C, u_sent U) = (fst (discipline 127 (cons_lines (cons s))),
           u_sent (uart s) @ snd (discipline 127 (cons_lines (cons s))))" "u_reg U = u_reg (uart s)"
        using cons_erase_law [OF a(1,3,4)] unfolding a by blast
      moreover have "discipline c = discipline 127" "c \<noteq> ctrl (CHR ''U'')"
        using 2 by (auto simp: discipline_def ctrl_def fun_eq_iff)
      ultimately show ?thesis
        using 2 assms(3,8) ps
        by (intro exI [of _ "procs s"] exI [of _ U] exI [of _ C]) (simp add: consoleintr_def kop_simps erasing_keeps)
    next
      case 3
      have "consoleintr c s = bindo (cons_type c ?a) (\<lambda>_. release ConsLock)"
        using 3 assms(3,8) by (simp add: consoleintr_def kop_simps)
      then show ?thesis using cons_type_law [OF a(1-4) assms(6,7) 3] unfolding a by metis
    qed
  qed
  then show ?thesis
    using uart_cons_frame [of ConsLock s] a(1) assms(1,3) by (simp add: state_simps)
qed

section \<open>Properties\<close>

definition cons0 :: cons where
  "cons0 = \<lparr>cn_buf = replicate 128 0, cn_r = - 1, cn_w = - 1, cn_e = - 1\<rparr>"

definition console0 :: console_state where
  "console0 = kprintf_state.extend (uart_state.extend uart0 \<lparr>pr_locking = True\<rparr>) \<lparr>cons = cons0\<rparr>"

lemmas console0_defs = console0_def uart0_defs uart_state.extend_def kprintf_state.extend_def

lemma console0_facts:
  "irq_ok console0" "procs_free console0" "free_lk lk console0" "live console0" "cons console0 = cons0"
  "cons_ok cons0" "cons_lines cons0 = ([], [])"
  by (simp_all add: console0_defs lock_defs procs_free_def live_def uartdev0_def cons_ok_def cons_lines_def cons0_def)

text \<open>
  C39. The console's interrupt handler implements its line discipline. For every input character but
  control-P, \<open>consoleintr\<close> changes the finished input and the line being typed exactly as the
  discipline says, and echoes what it says: control-U erases the line, backspace and delete its
  last character, any other non-zero character is added as long as 128 bytes are not exceeded,
  a carriage return counting as a newline; a newline, a control-D or a full buffer finishes the
  line. When a line is finished every process that sleeps waiting for console input becomes
  runnable, and no process changes otherwise. The ring invariant is kept, whatever the indices are.
\<close>

theorem consoleintr_discipline:
  assumes "irq_ok s" "procs_free s" "free_lk ConsLock s" "live s" "cons_ok (cons s)"
    "0 \<le> c" "c < 256" "c \<noteq> ctrl (CHR ''P'')"
  shows "\<exists>t. consoleintr c s = Ret () t \<and> cons_ok (cons t) \<and> live t \<and>
    cons_lines (cons t) = fst (discipline c (cons_lines (cons s))) \<and>
    u_sent (uart t) = u_sent (uart s) @ snd (discipline c (cons_lines (cons s))) \<and>
    (\<forall>p. procs t p =
       (if finishes c (cons_lines (cons s)) \<and> p < NPROC \<and> cproc (mycpu s) \<noteq> Some p \<and>
           p_state (procs s p) = SLEEPING \<and> p_chan (procs s p) = Some ChCons
        then (procs s p)\<lparr>p_state := RUNNABLE\<rparr> else procs s p))"
proof -
  from consoleintr_law [OF assms] obtain U C where
    "consoleintr c s = Ret () ((tch s)\<lparr>procs := (if finishes c (cons_lines (cons s)) then wake_all ChCons s else procs s),
       uart := U, cons := C\<rparr>)" "cons_ok C"
    "cons_lines C = fst (discipline c (cons_lines (cons s)))"
    "u_sent U = u_sent (uart s) @ snd (discipline c (cons_lines (cons s)))"
    "u_reg U = u_reg (uart s)" by auto
  then show ?thesis
    using assms(4)
    by (intro exI [of _ "(tch s)\<lparr>procs := (if finishes c (cons_lines (cons s)) then wake_all ChCons s else procs s),
       uart := U, cons := C\<rparr>"]) (simp add: live_def state_simps wake_all_def woken_def)
qed

theorem consoleintr_discipline_witness:
  "\<exists>t. consoleintr 13 (console0\<lparr>procs := (procs console0)(5 := asleep ChCons proc_blank)\<rparr>) = Ret () t \<and>
     cons_lines (cons t) = ([10], []) \<and> procs t 5 = proc_blank\<lparr>p_state := RUNNABLE, p_chan := Some ChCons\<rparr>"
proof -
  let ?s = "console0\<lparr>procs := (procs console0)(5 := asleep ChCons proc_blank)\<rparr>"
  have s: "irq_ok ?s" "procs_free ?s" "free_lk ConsLock ?s" "live ?s" "cons_ok (cons ?s)" "cons_lines (cons ?s) = ([], [])"
    "cproc (mycpu ?s) \<noteq> Some 5"
    using console0_facts by (simp_all add: state_simps live_def) (simp add: console0_defs mycpu_def cpuid_def)
  have k: "(13 :: int) \<noteq> ctrl (CHR ''P'')" "discipline 13 ([], []) = (([10], []), [10])"
    by (simp_all add: discipline_def ctrl_def Let_def)
  then have "finishes 13 ([], [])" by (simp add: finishes_def)
  then show ?thesis
    using consoleintr_discipline [OF s(1-5), of 13] k s(6,7) by (auto simp: asleep_def NPROC_def)
qed

end
