(* ===== verification/Fs.thy ===== *)
theory Fs
  imports Console
begin

unbundle bit_operations_syntax

text \<open>
  The block and inode layers of \<open>kernel/fs.c\<close>. An in-memory inode is its index in the inode table; a
  null pointer is \<open>None\<close> where the code tests for one. The fields of a structure on disk are read
  and written at their offsets in the bytes of the block. \<open>short\<close> fields are 16-bit words.

  A copy goes to a user address, to a kernel address, or to a variable of the caller, whose bytes
  \<open>readi\<close> returns; \<open>writei\<close> takes its bytes from the same three kinds of place. A local variable has
  no address in the model. Byte counts that the code returns as \<open>int\<close> are below the largest file size.
\<close>

section \<open>State\<close>

definition ROOTINO :: uint where "ROOTINO = 1"
definition FSMAGIC :: uint where "FSMAGIC = 0x10203040"
definition NDIRECT :: nat where "NDIRECT = 12"
definition NINDIRECT :: nat where "NINDIRECT = BSIZE div 4"
definition MAXFILE :: nat where "MAXFILE = NDIRECT + NINDIRECT"
definition dinode_size :: nat where "dinode_size = 64"
definition IPB :: nat where "IPB = BSIZE div dinode_size"
definition BPB :: nat where "BPB = BSIZE * 8"

definition IBLOCK :: "uint \<Rightarrow> superblock \<Rightarrow> uint" where
  "IBLOCK i sb = i div of_nat IPB + sb_inodestart sb"

definition BBLOCK :: "uint \<Rightarrow> superblock \<Rightarrow> uint" where
  "BBLOCK b sb = b div of_nat BPB + sb_bmapstart sb"

definition T_DIR :: uint16 where "T_DIR = 1"
definition T_FILE :: uint16 where "T_FILE = 2"
definition T_DEVICE :: uint16 where "T_DEVICE = 3"

record inode =
  i_dev :: uint
  i_inum :: uint
  i_ref :: int
  i_valid :: bool
  i_type :: uint16
  i_major :: uint16
  i_minor :: uint16
  i_nlink :: uint16
  i_size :: uint
  i_addrs :: "uint list"

record fs_state = console_state +
  sb :: superblock
  itable :: "nat \<Rightarrow> inode"

lemma fs_upd_order [upd_order]:
  "mem_update f_mem (sb_update g_sb r) = sb_update g_sb (mem_update f_mem r)"
  "mem_update f_mem (itable_update g_itable r) = itable_update g_itable (mem_update f_mem r)"
  "tp_update f_tp (sb_update g_sb r) = sb_update g_sb (tp_update f_tp r)"
  "tp_update f_tp (itable_update g_itable r) = itable_update g_itable (tp_update f_tp r)"
  "sstatus_update f_sstatus (sb_update g_sb r) = sb_update g_sb (sstatus_update f_sstatus r)"
  "sstatus_update f_sstatus (itable_update g_itable r) = itable_update g_itable (sstatus_update f_sstatus r)"
  "cpus_update f_cpus (sb_update g_sb r) = sb_update g_sb (cpus_update f_cpus r)"
  "cpus_update f_cpus (itable_update g_itable r) = itable_update g_itable (cpus_update f_cpus r)"
  "locks_update f_locks (sb_update g_sb r) = sb_update g_sb (locks_update f_locks r)"
  "locks_update f_locks (itable_update g_itable r) = itable_update g_itable (locks_update f_locks r)"
  "kend_update f_kend (sb_update g_sb r) = sb_update g_sb (kend_update f_kend r)"
  "kend_update f_kend (itable_update g_itable r) = itable_update g_itable (kend_update f_kend r)"
  "freelist_update f_freelist (sb_update g_sb r) = sb_update g_sb (freelist_update f_freelist r)"
  "freelist_update f_freelist (itable_update g_itable r) = itable_update g_itable (freelist_update f_freelist r)"
  "etext_update f_etext (sb_update g_sb r) = sb_update g_sb (etext_update f_etext r)"
  "etext_update f_etext (itable_update g_itable r) = itable_update g_itable (etext_update f_etext r)"
  "trampoline_update f_trampoline (sb_update g_sb r) = sb_update g_sb (trampoline_update f_trampoline r)"
  "trampoline_update f_trampoline (itable_update g_itable r) = itable_update g_itable (trampoline_update f_trampoline r)"
  "kernel_pagetable_update f_kernel_pagetable (sb_update g_sb r) = sb_update g_sb (kernel_pagetable_update f_kernel_pagetable r)"
  "kernel_pagetable_update f_kernel_pagetable (itable_update g_itable r) = itable_update g_itable (kernel_pagetable_update f_kernel_pagetable r)"
  "satp_update f_satp (sb_update g_sb r) = sb_update g_sb (satp_update f_satp r)"
  "satp_update f_satp (itable_update g_itable r) = itable_update g_itable (satp_update f_satp r)"
  "procs_update f_procs (sb_update g_sb r) = sb_update g_sb (procs_update f_procs r)"
  "procs_update f_procs (itable_update g_itable r) = itable_update g_itable (procs_update f_procs r)"
  "initproc_update f_initproc (sb_update g_sb r) = sb_update g_sb (initproc_update f_initproc r)"
  "initproc_update f_initproc (itable_update g_itable r) = itable_update g_itable (initproc_update f_initproc r)"
  "nextpid_update f_nextpid (sb_update g_sb r) = sb_update g_sb (nextpid_update f_nextpid r)"
  "nextpid_update f_nextpid (itable_update g_itable r) = itable_update g_itable (nextpid_update f_nextpid r)"
  "forkret_sym_update f_forkret_sym (sb_update g_sb r) = sb_update g_sb (forkret_sym_update f_forkret_sym r)"
  "forkret_sym_update f_forkret_sym (itable_update g_itable r) = itable_update g_itable (forkret_sym_update f_forkret_sym r)"
  "sleeps_update f_sleeps (sb_update g_sb r) = sb_update g_sb (sleeps_update f_sleeps r)"
  "sleeps_update f_sleeps (itable_update g_itable r) = itable_update g_itable (sleeps_update f_sleeps r)"
  "bufs_update f_bufs (sb_update g_sb r) = sb_update g_sb (bufs_update f_bufs r)"
  "bufs_update f_bufs (itable_update g_itable r) = itable_update g_itable (bufs_update f_bufs r)"
  "disk_update f_disk (sb_update g_sb r) = sb_update g_sb (disk_update f_disk r)"
  "disk_update f_disk (itable_update g_itable r) = itable_update g_itable (disk_update f_disk r)"
  "dtrace_update f_dtrace (sb_update g_sb r) = sb_update g_sb (dtrace_update f_dtrace r)"
  "dtrace_update f_dtrace (itable_update g_itable r) = itable_update g_itable (dtrace_update f_dtrace r)"
  "logs_update f_logs (sb_update g_sb r) = sb_update g_sb (logs_update f_logs r)"
  "logs_update f_logs (itable_update g_itable r) = itable_update g_itable (logs_update f_logs r)"
  "uart_update f_uart (sb_update g_sb r) = sb_update g_sb (uart_update f_uart r)"
  "uart_update f_uart (itable_update g_itable r) = itable_update g_itable (uart_update f_uart r)"
  "panicked_update f_panicked (sb_update g_sb r) = sb_update g_sb (panicked_update f_panicked r)"
  "panicked_update f_panicked (itable_update g_itable r) = itable_update g_itable (panicked_update f_panicked r)"
  "pr_locking_update f_pr_locking (sb_update g_sb r) = sb_update g_sb (pr_locking_update f_pr_locking r)"
  "pr_locking_update f_pr_locking (itable_update g_itable r) = itable_update g_itable (pr_locking_update f_pr_locking r)"
  "cons_update f_cons (sb_update g_sb r) = sb_update g_sb (cons_update f_cons r)"
  "cons_update f_cons (itable_update g_itable r) = itable_update g_itable (cons_update f_cons r)"
  "sb_update f_sb (itable_update g_itable r) = itable_update g_itable (sb_update f_sb r)"
  by simp_all


lemma fs_state_simps [state_simps]:
  "sb (acq lk s) = sb s"
  "acq lk (sb_update f_sb s) = sb_update f_sb (acq lk s)"
  "sb (rel lk s) = sb s"
  "rel lk (sb_update f_sb s) = sb_update f_sb (rel lk s)"
  "sb (tch s) = sb s"
  "tch (sb_update f_sb s) = sb_update f_sb (tch s)"
  "free_lk lk (sb_update f_sb s) = free_lk lk s"
  "held_lk lk (sb_update f_sb s) = held_lk lk s"
  "in_cs (sb_update f_sb s) = in_cs s"
  "irq_ok (sb_update f_sb s) = irq_ok s"
  "intr_get (sb_update f_sb s) = intr_get s"
  "cpuid (sb_update f_sb s) = cpuid s"
  "mycpu (sb_update f_sb s) = mycpu s"
  "itable (acq lk s) = itable s"
  "acq lk (itable_update f_itable s) = itable_update f_itable (acq lk s)"
  "itable (rel lk s) = itable s"
  "rel lk (itable_update f_itable s) = itable_update f_itable (rel lk s)"
  "itable (tch s) = itable s"
  "tch (itable_update f_itable s) = itable_update f_itable (tch s)"
  "free_lk lk (itable_update f_itable s) = free_lk lk s"
  "held_lk lk (itable_update f_itable s) = held_lk lk s"
  "in_cs (itable_update f_itable s) = in_cs s"
  "irq_ok (itable_update f_itable s) = irq_ok s"
  "intr_get (itable_update f_itable s) = intr_get s"
  "cpuid (itable_update f_itable s) = cpuid s"
  "mycpu (itable_update f_itable s) = mycpu s"
  by (simp_all add: in_cs_def lock_defs upd_order)


definition set_inode :: "nat \<Rightarrow> (inode \<Rightarrow> inode) \<Rightarrow> (unit, 'z fs_state_scheme) kop" where
  "set_inode ip f = modify (\<lambda>s. s\<lparr>itable := (itable s)(ip := f (itable s ip))\<rparr>)"

definition get_inode :: "nat \<Rightarrow> (inode, 'z fs_state_scheme) kop" where
  "get_inode ip = gets (\<lambda>s. itable s ip)"

lemma fs_ops [kop_simps]:
  "set_inode ip f s = Ret () (s\<lparr>itable := (itable s)(ip := f (itable s ip))\<rparr>)"
  "get_inode ip s = Ret (itable s ip) s"
  by (simp_all add: set_inode_def get_inode_def kop_simps)

section \<open>Structures on disk\<close>

definition read_sb :: "uint8 list \<Rightarrow> superblock" where
  "read_sb d = \<lparr>sb_magic = get32 0 d, sb_size = get32 4 d, sb_nblocks = get32 8 d, sb_ninodes = get32 12 d,
     sb_nlog = get32 16 d, sb_logstart = get32 20 d, sb_inodestart = get32 24 d, sb_bmapstart = get32 28 d\<rparr>"

text \<open>The offset of inode \<open>inum\<close> in its block.\<close>

definition dinode_off :: "uint \<Rightarrow> nat" where
  "dinode_off inum = (unat inum mod IPB) * dinode_size"

definition dinode_type :: "nat \<Rightarrow> uint8 list \<Rightarrow> uint16" where
  "dinode_type oo d = get16 oo d"

text \<open>The assignments of \<open>iupdate\<close> to the fields of \<open>*dip\<close>, and those of \<open>ilock\<close> from them.\<close>

definition put_addrs :: "nat \<Rightarrow> uint list \<Rightarrow> uint8 list \<Rightarrow> uint8 list" where
  "put_addrs oo as d = fold (\<lambda>i. put32 (oo + 12 + 4 * i) (as ! i)) [0..<NDIRECT + 1] d"

definition put_dinode :: "nat \<Rightarrow> inode \<Rightarrow> uint8 list \<Rightarrow> uint8 list" where
  "put_dinode oo ip d =
     put_addrs oo (i_addrs ip)
      (put32 (oo + 8) (i_size ip)
        (put16 (oo + 6) (i_nlink ip)
          (put16 (oo + 4) (i_minor ip)
            (put16 (oo + 2) (i_major ip)
              (put16 oo (i_type ip) d)))))"

definition get_dinode :: "nat \<Rightarrow> uint8 list \<Rightarrow> inode \<Rightarrow> inode" where
  "get_dinode oo d ip = ip\<lparr>i_type := get16 oo d, i_major := get16 (oo + 2) d, i_minor := get16 (oo + 4) d,
     i_nlink := get16 (oo + 6) d, i_size := get32 (oo + 8) d,
     i_addrs := map (\<lambda>i. get32 (oo + 12 + 4 * i) d) [0..<NDIRECT + 1]\<rparr>"

text \<open>The bit of a block in the free map.\<close>

definition bit_test :: "nat \<Rightarrow> uint8 list \<Rightarrow> bool" where
  "bit_test bi d \<longleftrightarrow> d ! (bi div 8) AND push_bit (bi mod 8) 1 \<noteq> 0"

definition bit_mark :: "nat \<Rightarrow> uint8 list \<Rightarrow> uint8 list" where
  "bit_mark bi d = d[bi div 8 := d ! (bi div 8) OR push_bit (bi mod 8) 1]"

definition bit_clear :: "nat \<Rightarrow> uint8 list \<Rightarrow> uint8 list" where
  "bit_clear bi d = d[bi div 8 := d ! (bi div 8) AND NOT (push_bit (bi mod 8) 1)]"

section \<open>Blocks\<close>

definition readsb :: "uint \<Rightarrow> (unit, 'z fs_state_scheme) kop" where
  "readsb dev =
     bnd (bread dev 1) (\<lambda>bp.
     bnd (get_data bp) (\<lambda>d.
     thn (modify (\<lambda>s. s\<lparr>sb := read_sb d\<rparr>))
         (brelse bp)))"

definition fsinit :: "uint \<Rightarrow> (unit, 'z fs_state_scheme) kop" where
  "fsinit dev =
     thn (readsb dev)
    (bnd (gets sb) (\<lambda>b.
     if sb_magic b \<noteq> FSMAGIC then panic ''invalid file system''
     else initlog (sint dev) b))"

definition bzero :: "uint \<Rightarrow> uint \<Rightarrow> (unit, 'z fs_state_scheme) kop" where
  "bzero dev bno =
     bnd (bread dev bno) (\<lambda>bp.
     thn (set_data bp (replicate BSIZE 0))
    (thn (log_write bp)
         (brelse bp)))"

text \<open>The inner loop of \<open>balloc\<close>: the first clear bit of a block of the free map.\<close>

fun balloc_scan :: "uint8 list \<Rightarrow> nat list \<Rightarrow> nat option" where
  "balloc_scan d [] = None"
| "balloc_scan d (bi # bis) = (if \<not> bit_test bi d then Some bi else balloc_scan d bis)"

text \<open>The outer loop visits the first block number of each block of the free map.\<close>

fun balloc_blocks :: "uint \<Rightarrow> nat list \<Rightarrow> (uint, 'z fs_state_scheme) kop" where
  "balloc_blocks dev [] = thn (printf (Some ''balloc: out of blocks\<newline>'') []) (ret 0)"
| "balloc_blocks dev (b # bs) =
     bnd (gets sb) (\<lambda>sblk.
     bnd (bread dev (BBLOCK (of_nat b) sblk)) (\<lambda>bp.
     bnd (get_data bp) (\<lambda>d.
     case balloc_scan d [0..<min BPB (unat (sb_size sblk) - b)] of
       Some bi \<Rightarrow>
         thn (set_data bp (bit_mark bi d))
        (thn (log_write bp)
        (thn (brelse bp)
        (thn (bzero dev (of_nat (b + bi)))
             (ret (of_nat (b + bi))))))
     | None \<Rightarrow> thn (brelse bp) (balloc_blocks dev bs))))"

definition balloc :: "uint \<Rightarrow> (uint, 'z fs_state_scheme) kop" where
  "balloc dev =
     bnd (gets sb) (\<lambda>sblk.
     balloc_blocks dev (map (\<lambda>k. k * BPB) [0..<(unat (sb_size sblk) + BPB - 1) div BPB]))"

definition bfree :: "uint \<Rightarrow> uint \<Rightarrow> (unit, 'z fs_state_scheme) kop" where
  "bfree dev b =
     bnd (gets sb) (\<lambda>sblk.
     bnd (bread dev (BBLOCK b sblk)) (\<lambda>bp.
     bnd (get_data bp) (\<lambda>d.
     let bi = unat b mod BPB in
     if \<not> bit_test bi d then panic ''freeing free block''
     else
       thn (set_data bp (bit_clear bi d))
      (thn (log_write bp)
           (brelse bp)))))"

section \<open>Inodes\<close>

definition iinit :: "(unit, 'z fs_state_scheme) kop" where
  "iinit =
     thn (initlock ItableLock ''itable'')
         (for_each [0..<NINODE] (\<lambda>i. initsleeplock (InodeSleep i) ''inode''))"

definition iupdate :: "nat \<Rightarrow> (unit, 'z fs_state_scheme) kop" where
  "iupdate ip =
     bnd (get_inode ip) (\<lambda>i.
     bnd (gets sb) (\<lambda>sblk.
     bnd (bread (i_dev i) (IBLOCK (i_inum i) sblk)) (\<lambda>bp.
     bnd (get_inode ip) (\<lambda>i.
     bnd (get_data bp) (\<lambda>d.
     thn (set_data bp (put_dinode (dinode_off (i_inum i)) i d))
    (thn (log_write bp)
         (brelse bp)))))))"

text \<open>
  The search of \<open>iget\<close>: \<open>Inl\<close> is the entry found, its reference counted and the lock released; \<open>Inr\<close>
  is the first empty slot seen.
\<close>

fun iget_scan :: "nat list \<Rightarrow> uint \<Rightarrow> uint \<Rightarrow> nat option \<Rightarrow> (nat + nat option, 'z fs_state_scheme) kop" where
  "iget_scan [] dev inum emp = ret (Inr emp)"
| "iget_scan (ip # ips) dev inum emp =
     bnd (get_inode ip) (\<lambda>i.
     if i_ref i > 0 \<and> i_dev i = dev \<and> i_inum i = inum then
       thn (set_inode ip (\<lambda>i. i\<lparr>i_ref := i_ref i + 1\<rparr>))
      (thn (release ItableLock)
           (ret (Inl ip)))
     else iget_scan ips dev inum (if emp = None \<and> i_ref i = 0 then Some ip else emp))"

definition iget :: "uint \<Rightarrow> uint \<Rightarrow> (nat, 'z fs_state_scheme) kop" where
  "iget dev inum =
     thn (acquire ItableLock)
    (bnd (iget_scan [0..<NINODE] dev inum None) (\<lambda>r.
     case r of
       Inl ip \<Rightarrow> ret ip
     | Inr None \<Rightarrow> panic ''iget: no inodes''
     | Inr (Some ip) \<Rightarrow>
         thn (set_inode ip (\<lambda>i. i\<lparr>i_dev := dev, i_inum := inum, i_ref := 1, i_valid := False\<rparr>))
        (thn (release ItableLock)
             (ret ip))))"

fun ialloc_scan :: "nat list \<Rightarrow> uint \<Rightarrow> uint16 \<Rightarrow> (nat option, 'z fs_state_scheme) kop" where
  "ialloc_scan [] dev type = thn (printf (Some ''ialloc: no inodes\<newline>'') []) (ret None)"
| "ialloc_scan (inum # inums) dev type =
     bnd (gets sb) (\<lambda>sblk.
     bnd (bread dev (IBLOCK (of_nat inum) sblk)) (\<lambda>bp.
     bnd (get_data bp) (\<lambda>d.
     let oo = dinode_off (of_nat inum) in
     if dinode_type oo d = 0 then
       thn (set_data bp (put16 oo type (splice oo (replicate dinode_size 0) d)))
      (thn (log_write bp)
      (thn (brelse bp)
      (bnd (iget dev (of_nat inum)) (\<lambda>ip. ret (Some ip)))))
     else thn (brelse bp) (ialloc_scan inums dev type))))"

definition ialloc :: "uint \<Rightarrow> uint16 \<Rightarrow> (nat option, 'z fs_state_scheme) kop" where
  "ialloc dev type = bnd (gets sb) (\<lambda>sblk. ialloc_scan [1..<unat (sb_ninodes sblk)] dev type)"

definition idup :: "nat \<Rightarrow> (nat, 'z fs_state_scheme) kop" where
  "idup ip =
     thn (acquire ItableLock)
    (thn (set_inode ip (\<lambda>i. i\<lparr>i_ref := i_ref i + 1\<rparr>))
    (thn (release ItableLock)
         (ret ip)))"

definition ilock :: "nat option \<Rightarrow> (unit, 'z fs_state_scheme) kop" where
  "ilock p =
     (case p of
        None \<Rightarrow> panic ''ilock''
      | Some ip \<Rightarrow>
          bnd (get_inode ip) (\<lambda>i.
          if i_ref i < 1 then panic ''ilock'' else
          thn (acquiresleep (InodeSleep ip))
         (bnd (get_inode ip) (\<lambda>i.
          whenk (\<not> i_valid i)
            (bnd (gets sb) (\<lambda>sblk.
             bnd (bread (i_dev i) (IBLOCK (i_inum i) sblk)) (\<lambda>bp.
             bnd (get_data bp) (\<lambda>d.
             thn (set_inode ip (get_dinode (dinode_off (i_inum i)) d))
            (thn (brelse bp)
            (thn (set_inode ip (\<lambda>i. i\<lparr>i_valid := True\<rparr>))
            (bnd (get_inode ip) (\<lambda>i.
             if i_type i = 0 then panic ''ilock: no type'' else ret ()))))))))))))"

definition iunlock :: "nat option \<Rightarrow> (unit, 'z fs_state_scheme) kop" where
  "iunlock p =
     (case p of
        None \<Rightarrow> panic ''iunlock''
      | Some ip \<Rightarrow>
          bnd (holdingsleep (InodeSleep ip)) (\<lambda>h.
          if \<not> h then panic ''iunlock'' else
          bnd (get_inode ip) (\<lambda>i.
          if i_ref i < 1 then panic ''iunlock'' else releasesleep (InodeSleep ip))))"

text \<open>The first \<open>NDIRECT\<close> blocks are listed in the inode, the others in the indirect block.\<close>

definition get_indirect :: "uint8 list \<Rightarrow> nat \<Rightarrow> uint" where
  "get_indirect d j = get32 (4 * j) d"

definition itrunc_direct :: "nat \<Rightarrow> nat \<Rightarrow> (unit, 'z fs_state_scheme) kop" where
  "itrunc_direct ip k =
     bnd (get_inode ip) (\<lambda>i.
     whenk (i_addrs i ! k \<noteq> 0)
       (thn (bfree (i_dev i) (i_addrs i ! k))
            (set_inode ip (\<lambda>i. i\<lparr>i_addrs := (i_addrs i)[k := 0]\<rparr>))))"

definition itrunc_indirect :: "nat \<Rightarrow> (unit, 'z fs_state_scheme) kop" where
  "itrunc_indirect ip =
     bnd (get_inode ip) (\<lambda>i.
     whenk (i_addrs i ! NDIRECT \<noteq> 0)
       (bnd (bread (i_dev i) (i_addrs i ! NDIRECT)) (\<lambda>bp.
        thn (for_each [0..<NINDIRECT] (\<lambda>j.
               bnd (get_data bp) (\<lambda>a.
               whenk (get_indirect a j \<noteq> 0) (bfree (i_dev i) (get_indirect a j)))))
       (thn (brelse bp)
       (thn (bfree (i_dev i) (i_addrs i ! NDIRECT))
            (set_inode ip (\<lambda>i. i\<lparr>i_addrs := (i_addrs i)[NDIRECT := 0]\<rparr>)))))))"

definition itrunc :: "nat \<Rightarrow> (unit, 'z fs_state_scheme) kop" where
  "itrunc ip =
     thn (for_each [0..<NDIRECT] (itrunc_direct ip))
    (thn (itrunc_indirect ip)
    (thn (set_inode ip (\<lambda>i. i\<lparr>i_size := 0\<rparr>))
         (iupdate ip)))"

definition iput :: "nat \<Rightarrow> (unit, 'z fs_state_scheme) kop" where
  "iput ip =
     thn (acquire ItableLock)
    (bnd (get_inode ip) (\<lambda>i.
     thn (whenk (i_ref i = 1 \<and> i_valid i \<and> i_nlink i = 0)
           (thn (acquiresleep (InodeSleep ip))
           (thn (release ItableLock)
           (thn (itrunc ip)
           (thn (set_inode ip (\<lambda>i. i\<lparr>i_type := 0\<rparr>))
           (thn (iupdate ip)
           (thn (set_inode ip (\<lambda>i. i\<lparr>i_valid := False\<rparr>))
           (thn (releasesleep (InodeSleep ip))
                (acquire ItableLock)))))))))
    (thn (set_inode ip (\<lambda>i. i\<lparr>i_ref := i_ref i - 1\<rparr>))
         (release ItableLock))))"

definition iunlockput :: "nat \<Rightarrow> (unit, 'z fs_state_scheme) kop" where
  "iunlockput ip = thn (iunlock (Some ip)) (iput ip)"

section \<open>Inode content\<close>

definition bmap :: "nat \<Rightarrow> uint \<Rightarrow> (uint, 'z fs_state_scheme) kop" where
  "bmap ip bn =
     bnd (get_inode ip) (\<lambda>i.
     if bn < of_nat NDIRECT then
       (let addr = i_addrs i ! unat bn in
        if addr = 0 then
          bnd (balloc (i_dev i)) (\<lambda>addr.
          if addr = 0 then ret 0
          else thn (set_inode ip (\<lambda>i. i\<lparr>i_addrs := (i_addrs i)[unat bn := addr]\<rparr>)) (ret addr))
        else ret addr)
     else
       (let bn = bn - of_nat NDIRECT in
        if bn < of_nat NINDIRECT then
          bnd (let addr = i_addrs i ! NDIRECT in
               if addr = 0 then
                 bnd (balloc (i_dev i)) (\<lambda>addr.
                 thn (whenk (addr \<noteq> 0) (set_inode ip (\<lambda>i. i\<lparr>i_addrs := (i_addrs i)[NDIRECT := addr]\<rparr>)))
                     (ret addr))
               else ret addr) (\<lambda>addr.
          if addr = 0 then ret 0 else
          bnd (bread (i_dev i) addr) (\<lambda>bp.
          bnd (get_data bp) (\<lambda>a.
          bnd (if get_indirect a (unat bn) = 0 then
                 bnd (balloc (i_dev i)) (\<lambda>addr.
                 thn (whenk (addr \<noteq> 0)
                       (bnd (get_data bp) (\<lambda>a.
                        thn (set_data bp (put32 (4 * unat bn) addr a)) (log_write bp))))
                     (ret addr))
               else ret (get_indirect a (unat bn))) (\<lambda>addr.
          thn (brelse bp) (ret addr)))))
        else panic ''bmap: out of range''))"

record stat =
  st_dev :: uint
  st_ino :: uint
  st_type :: uint16
  st_nlink :: uint16
  st_size :: uint64

definition stati :: "nat \<Rightarrow> (stat, 'z fs_state_scheme) kop" where
  "stati ip = bnd (get_inode ip) (\<lambda>i. ret
     \<lparr>st_dev = i_dev i, st_ino = i_inum i, st_type = i_type i, st_nlink = i_nlink i, st_size = ucast (i_size i)\<rparr>)"

datatype dest = UserDst uint64 | KernelDst uint64 | LocalDst

fun dest_copy :: "dest \<Rightarrow> nat \<Rightarrow> uint8 list \<Rightarrow> (int, 'z proc_state_scheme) kop" where
  "dest_copy (UserDst a) tot bs = either_copyout True (a + of_nat tot) bs"
| "dest_copy (KernelDst a) tot bs = either_copyout False (a + of_nat tot) bs"
| "dest_copy LocalDst tot bs = bnd cur_proc (\<lambda>_. ret 0)"

text \<open>The bytes of one round: to the end of the block or as many as are left.\<close>

definition blk_chunk :: "nat \<Rightarrow> nat \<Rightarrow> nat" where
  "blk_chunk off n = min n (BSIZE - off mod BSIZE)"

lemma blk_chunk_pos: "0 < n \<Longrightarrow> 0 < blk_chunk off n"
  by (simp add: blk_chunk_def BSIZE_def)

lemma blk_progress: "tot < n \<Longrightarrow> n - (tot + blk_chunk off (n - tot)) < n - tot"
  using blk_chunk_pos [of "n - tot" off] by linarith

function readi_loop :: "nat \<Rightarrow> dest \<Rightarrow> nat \<Rightarrow> nat \<Rightarrow> nat \<Rightarrow> (int \<times> uint8 list, 'z fs_state_scheme) kop" where
  "readi_loop ip dst off tot n =
     (if tot < n then
        bnd (bmap ip (of_nat off div of_nat BSIZE)) (\<lambda>addr.
        if addr = 0 then ret (int tot, []) else
        bnd (get_inode ip) (\<lambda>i.
        bnd (bread (i_dev i) addr) (\<lambda>bp.
        bnd (get_data bp) (\<lambda>d.
        bnd (dest_copy dst tot (slice (off mod BSIZE) (blk_chunk off (n - tot)) d)) (\<lambda>r.
        thn (brelse bp)
       (if r = - 1 then ret (- 1, []) else
        bnd (readi_loop ip dst (off + blk_chunk off (n - tot)) (tot + blk_chunk off (n - tot)) n) (\<lambda>(t, bs).
        ret (t, slice (off mod BSIZE) (blk_chunk off (n - tot)) d @ bs))))))))
      else ret (int tot, []))"
  by pat_completeness auto
termination
  by (relation "measure (\<lambda>(ip, dst, off, tot, n). n - tot)") (auto simp: blk_progress)

declare readi_loop.simps [simp del]

text \<open>The value returned and the bytes delivered.\<close>

definition readi :: "nat \<Rightarrow> dest \<Rightarrow> uint \<Rightarrow> uint \<Rightarrow> (int \<times> uint8 list, 'z fs_state_scheme) kop" where
  "readi ip dst off n =
     bnd (get_inode ip) (\<lambda>i.
     if off > i_size i \<or> off + n < off then ret (0, []) else
     let n = (if off + n > i_size i then i_size i - off else n)
     in readi_loop ip dst (unat off) 0 (unat n))"

datatype source = UserSrc uint64 | KernelSrc uint64 | LocalSrc "uint8 list"

fun source_copy :: "source \<Rightarrow> nat \<Rightarrow> nat \<Rightarrow> (int \<times> uint8 list, 'z proc_state_scheme) kop" where
  "source_copy (UserSrc a) tot m = either_copyin True (a + of_nat tot) m"
| "source_copy (KernelSrc a) tot m = either_copyin False (a + of_nat tot) m"
| "source_copy (LocalSrc bs) tot m = bnd cur_proc (\<lambda>_. ret (0, slice tot m bs))"

text \<open>
  The loop returns the count and the offset it reached. A copy that fails in the middle has
  already changed the buffer.
\<close>

function writei_loop :: "nat \<Rightarrow> source \<Rightarrow> nat \<Rightarrow> nat \<Rightarrow> nat \<Rightarrow> (nat \<times> nat, 'z fs_state_scheme) kop" where
  "writei_loop ip src off tot n =
     (if tot < n then
        bnd (bmap ip (of_nat off div of_nat BSIZE)) (\<lambda>addr.
        if addr = 0 then ret (tot, off) else
        bnd (get_inode ip) (\<lambda>i.
        bnd (bread (i_dev i) addr) (\<lambda>bp.
        bnd (source_copy src tot (blk_chunk off (n - tot))) (\<lambda>(r, bs).
        bnd (get_data bp) (\<lambda>d.
        thn (set_data bp (splice (off mod BSIZE) bs d))
       (if r = - 1 then thn (brelse bp) (ret (tot, off)) else
        thn (log_write bp)
       (thn (brelse bp)
            (writei_loop ip src (off + blk_chunk off (n - tot)) (tot + blk_chunk off (n - tot)) n))))))))
      else ret (tot, off))"
  by pat_completeness auto
termination
  by (relation "measure (\<lambda>(ip, src, off, tot, n). n - tot)") (auto simp: blk_progress)

declare writei_loop.simps [simp del]

definition writei :: "nat \<Rightarrow> source \<Rightarrow> uint \<Rightarrow> uint \<Rightarrow> (int, 'z fs_state_scheme) kop" where
  "writei ip src off n =
     bnd (get_inode ip) (\<lambda>i.
     if off > i_size i \<or> off + n < off then ret (- 1)
     else if unat (off + n) > MAXFILE * BSIZE then ret (- 1) else
     bnd (writei_loop ip src (unat off) 0 (unat n)) (\<lambda>(tot, off').
     thn (set_inode ip (\<lambda>i. if of_nat off' > i_size i then i\<lparr>i_size := of_nat off'\<rparr> else i))
    (thn (iupdate ip)
         (ret (int tot)))))"

end
