(* ===== verification/Fstxn.thy ===== *)
theory Fstxn
  imports Fs
begin

text \<open>
  Blocks inside a transaction, the interface on which the file system relies. The running process has
  called \<open>begin_op\<close>; \<open>tx H s\<close> says that it holds the buffers of the blocks in \<open>H\<close> and no other, that
  the blocks already in the log are pinned, and that every other block agrees with the disk. The
  locale \<open>block_txn\<close> states what reading, changing and releasing a block do to the contents of the
  blocks; its interpretation \<open>tn\<close> proves the laws for the functions of \<open>bio.c\<close> and \<open>log.c\<close>.

  A change needs room in the log: \<open>tx_cap\<close> is the number of blocks a transaction can hold, which is
  bounded by the log and by the buffers that must remain for reading.
\<close>

section \<open>The interface\<close>

locale block_txn =
  fixes rd :: "uint \<Rightarrow> (nat, 's) kop"
    and get :: "nat \<Rightarrow> (uint8 list, 's) kop"
    and put :: "nat \<Rightarrow> uint8 list \<Rightarrow> (unit, 's) kop"
    and lg :: "nat \<Rightarrow> (unit, 's) kop"
    and rls :: "nat \<Rightarrow> (unit, 's) kop"
    and tx :: "uint set \<Rightarrow> 's \<Rightarrow> bool"
    and vw :: "'s \<Rightarrow> uint \<Rightarrow> uint8 list"
    and hs :: "'s \<Rightarrow> uint set"
    and cap :: "'s \<Rightarrow> nat"
    and holds :: "'s \<Rightarrow> nat \<Rightarrow> uint \<Rightarrow> bool"
    and frame :: "'s \<Rightarrow> 's \<Rightarrow> bool"
  assumes rd_law: "tx H s \<Longrightarrow> b \<notin> H \<Longrightarrow> card H \<le> 2 \<Longrightarrow> \<exists>i t. rd b s = Ret i t \<and> tx (insert b H) t \<and> frame s t \<and>
      vw t = vw s \<and> hs t = hs s \<and> holds t i b \<and> (\<forall>j c. holds s j c \<longrightarrow> holds t j c)"
    and get_law: "tx H s \<Longrightarrow> holds s i b \<Longrightarrow> get i s = Ret (vw s b) s"
    and put_law: "tx H s \<Longrightarrow> holds s i b \<Longrightarrow> length d = BSIZE \<Longrightarrow> card (insert b (hs s)) \<le> cap s \<Longrightarrow>
      \<exists>t. thn (put i d) (lg i) s = Ret () t \<and> tx H t \<and> frame s t \<and> vw t = (vw s)(b := d) \<and>
        hs t = insert b (hs s) \<and> (\<forall>j c. holds s j c \<longrightarrow> holds t j c)"
    and rls_law: "tx H s \<Longrightarrow> holds s i b \<Longrightarrow> \<exists>t. rls i s = Ret () t \<and> tx (H - {b}) t \<and> frame s t \<and> vw t = vw s \<and>
      hs t = hs s \<and> (\<forall>j c. c \<noteq> b \<longrightarrow> holds s j c \<longrightarrow> holds t j c)"
    and size_law: "tx H s \<Longrightarrow> length (vw s b) = BSIZE"
    and holds_in: "tx H s \<Longrightarrow> holds s i b \<Longrightarrow> b \<in> H"
    and frame_trans: "frame s t \<Longrightarrow> frame t u \<Longrightarrow> frame s u"
    and cap_frame: "frame s t \<Longrightarrow> cap t = cap s"
begin

lemma look:
  assumes "tx H s" "b \<notin> H" "card H \<le> 2"
  obtains i t u where "rd b s = Ret i t" "get i t = Ret (vw s b) t" "rls i t = Ret () u" "tx H u" "frame s u"
    "vw u = vw s" "hs u = hs s" "\<And>j c. holds s j c \<Longrightarrow> holds u j c"
proof -
  obtain i t where t: "rd b s = Ret i t" "tx (insert b H) t" "frame s t" "vw t = vw s" "hs t = hs s" "holds t i b"
    "\<forall>j c. holds s j c \<longrightarrow> holds t j c" using rd_law [OF assms] by blast
  obtain u where u: "rls i t = Ret () u" "tx (insert b H - {b}) u" "frame t u" "vw u = vw t" "hs u = hs t"
    "\<forall>j c. c \<noteq> b \<longrightarrow> holds t j c \<longrightarrow> holds u j c" using rls_law [OF t(2,6)] by blast
  have "insert b H - {b} = H" using assms(2) by simp
  moreover have "get i t = Ret (vw s b) t" using get_law [OF t(2,6)] t(4) by simp
  moreover have "holds u j c" if "holds s j c" for j c
    using holds_in [OF assms(1) that] assms(2) that t(7) u(6) by metis
  ultimately show ?thesis using that [of i t u] t u frame_trans [OF t(3) u(3)] by simp
qed

lemma change:
  assumes "tx H s" "b \<notin> H" "card H \<le> 2" "card (insert b (hs s)) \<le> cap s" "\<And>d. length d = BSIZE \<Longrightarrow> length (f d) = BSIZE"
  obtains i t u v where "rd b s = Ret i t" "get i t = Ret (vw s b) t" "thn (put i (f (vw s b))) (lg i) t = Ret () u"
    "rls i u = Ret () v" "tx H v" "frame s v" "vw v = (vw s)(b := f (vw s b))" "hs v = insert b (hs s)"
    "\<And>j c. holds s j c \<Longrightarrow> holds v j c"
proof -
  obtain i t where t: "rd b s = Ret i t" "tx (insert b H) t" "frame s t" "vw t = vw s" "hs t = hs s" "holds t i b"
    "\<forall>j c. holds s j c \<longrightarrow> holds t j c" using rd_law [OF assms(1-3)] by blast
  have l: "length (f (vw s b)) = BSIZE" using assms(5) size_law [OF assms(1)] by blast
  obtain u where u: "thn (put i (f (vw s b))) (lg i) t = Ret () u" "tx (insert b H) u" "frame t u"
    "vw u = (vw t)(b := f (vw s b))" "hs u = insert b (hs t)" "\<forall>j c. holds t j c \<longrightarrow> holds u j c"
    using put_law [OF t(2,6) l] assms(4) t(5) cap_frame [OF t(3)] by metis
  obtain v where v: "rls i u = Ret () v" "tx (insert b H - {b}) v" "frame u v" "vw v = vw u" "hs v = hs u"
    "\<forall>j c. c \<noteq> b \<longrightarrow> holds u j c \<longrightarrow> holds v j c" using rls_law [OF u(2)] u(6) t(6) by blast
  have "insert b H - {b} = H" using assms(2) by simp
  moreover have "get i t = Ret (vw s b) t" using get_law [OF t(2,6)] t(4) by simp
  moreover have "holds v j c" if "holds s j c" for j c
    using holds_in [OF assms(1) that] assms(2) that t(7) u(6) v(6) by metis
  ultimately show ?thesis using that [of i t u v] t u v frame_trans [OF frame_trans [OF t(3) u(3)] v(3)] by simp
qed

end

section \<open>The log provides it\<close>

text \<open>
  The blocks in the log so far; how many the log can take, none outside of a transaction and four
  buffers short of the cache inside one; and the states a process sees while it holds the buffers
  of \<open>H\<close>: each logged block is pinned once, and a block outside the log is as it is on disk.
\<close>

definition hset :: "'z log_state_scheme \<Rightarrow> uint set" where
  "hset s = homes (l_lh (logs s))"

definition tx_cap :: "'z log_state_scheme \<Rightarrow> nat" where
  "tx_cap s = (if 1 \<le> l_outstanding (logs s) then min (nat (l_size (logs s) - 2)) 26 else 0)"

definition tx :: "uint set \<Rightarrow> 'z log_state_scheme \<Rightarrow> bool" where
  "tx H s \<longleftrightarrow> bio_ok s \<and> free_lk LogLock s \<and> 0 \<le> lh_n (l_lh (logs s)) \<and>
     inj_on (lh_block (l_lh (logs s))) {..<nat (lh_n (l_lh (logs s)))} \<and>
     lh_n (l_lh (logs s)) \<le> l_size (logs s) - 2 \<and> lh_n (l_lh (logs s)) \<le> 26 \<and> finite H \<and> card H \<le> 3 \<and>
     (\<forall>b. refs s b = (if b \<in> hset s then 1 else 0) + (if b \<in> H then 1 else 0)) \<and>
     (\<forall>b. lockd s b \<longleftrightarrow> b \<in> H) \<and> (\<forall>b. b \<notin> hset s \<longrightarrow> view s b = disk s b)"

text \<open>What a transaction leaves alone: everything but the cache, the disk and the list of logged blocks.\<close>

definition tframe :: "'z log_state_scheme \<Rightarrow> 'z log_state_scheme \<Rightarrow> bool" where
  "tframe s t \<longleftrightarrow> bframe (s\<lparr>logs := logs t\<rparr>) t \<and> (logs t)\<lparr>l_lh := l_lh (logs s)\<rparr> = logs s"

lemma tframe_refl [simp, intro]: "tframe s s"
  by (simp add: tframe_def)

lemma bframe_tframe: "bframe s t \<Longrightarrow> tframe s t"
  using bframe_logs [of s t] by (simp add: tframe_def)

lemma tframe_trans [trans]:
  assumes "tframe s t" "tframe t u"
  shows "tframe s u"
proof -
  have "bframe (s\<lparr>logs := logs t\<rparr>) t" "bframe (t\<lparr>logs := logs u\<rparr>) u" using assms by (simp_all add: tframe_def)
  then have "bframe (s\<lparr>logs := logs u\<rparr>) (t\<lparr>logs := logs u\<rparr>)" "bframe (t\<lparr>logs := logs u\<rparr>) u"
    using bframe_logs_upd [of "s\<lparr>logs := logs t\<rparr>" t "logs u"] by simp_all
  moreover have "(logs u)\<lparr>l_lh := l_lh (logs s)\<rparr> = logs s"
  proof -
    have "(logs u)\<lparr>l_lh := l_lh (logs t)\<rparr> = logs t" "(logs t)\<lparr>l_lh := l_lh (logs s)\<rparr> = logs s"
      using assms by (simp_all add: tframe_def)
    then have "((logs u)\<lparr>l_lh := l_lh (logs t)\<rparr>)\<lparr>l_lh := l_lh (logs s)\<rparr> = logs s" by simp
    then show ?thesis by simp
  qed
  ultimately show ?thesis by (auto simp: tframe_def intro: bframe_trans)
qed

lemma tframe_logs:
  assumes "tframe s t"
  shows "l_size (logs t) = l_size (logs s)" "l_outstanding (logs t) = l_outstanding (logs s)"
    "l_start (logs t) = l_start (logs s)" "l_dev (logs t) = l_dev (logs s)" "tx_cap t = tx_cap s"
proof -
  have e: "(logs t)\<lparr>l_lh := l_lh (logs s)\<rparr> = logs s" using assms by (simp add: tframe_def)
  show "l_size (logs t) = l_size (logs s)" using arg_cong [OF e, of l_size] by simp
  moreover show "l_outstanding (logs t) = l_outstanding (logs s)" using arg_cong [OF e, of l_outstanding] by simp
  ultimately show "tx_cap t = tx_cap s" by (simp add: tx_cap_def)
  show "l_start (logs t) = l_start (logs s)" using arg_cong [OF e, of l_start] by simp
  show "l_dev (logs t) = l_dev (logs s)" using arg_cong [OF e, of l_dev] by simp
qed

lemma card_hset: "inj_on (lh_block (l_lh (logs s))) {..<nat (lh_n (l_lh (logs s)))} \<Longrightarrow> card (hset s) = nat (lh_n (l_lh (logs s)))"
  by (simp add: hset_def homes_def card_image)

lemma finite_hset [simp]: "finite (hset s)"
  by (simp add: hset_def homes_def)

lemma cache_fields:
  "c_view (cache_of s) = view s" "c_disk (cache_of s) = disk s" "c_refs (cache_of s) = refs s" "c_lock (cache_of s) = lockd s"
  by (simp_all add: cache_of_def)

lemma hold_lockd: "hold s i b \<Longrightarrow> lockd s b"
  by (auto simp: hold_def lockd_def sl_mine_def sl_free_def)

lemma tx_read:
  assumes tx: "tx H s" and b: "b \<notin> H" and c: "card H \<le> 2"
  shows "\<exists>i t. bread ROOTDEV b s = Ret i t \<and> tx (insert b H) t \<and> tframe s t \<and> view t = view s \<and> hset t = hset s \<and>
    hold t i b \<and> (\<forall>j c. hold s j c \<longrightarrow> hold t j c)"
proof -
  have ok: "bio_ok s" and fin: "finite H" and rf: "\<And>b. refs s b = (if b \<in> hset s then 1 else 0) + (if b \<in> H then 1 else 0)"
    using tx by (simp_all add: tx_def)
  have "{c. refs s c \<noteq> 0} = hset s \<union> H" by (auto simp: rf)
  moreover have "card (hset s \<union> H) \<le> card (hset s) + card H" by (rule card_Un_le)
  moreover have "card (hset s) \<le> 26" using tx card_hset [of s] by (simp add: tx_def nat_le_iff)
  ultimately have "card {c. refs s c \<noteq> 0} < NBUF" using c by (simp add: NBUF_30)
  then have "a_avail (cache_of s) b" using tx b rf [of b] by (simp add: a_avail_def cache_fields tx_def)
  then obtain i t where t: "bread ROOTDEV b s = Ret i t" "bio_ok t" "bframe s t" "cache_of t = a_read b (cache_of s)"
    "hold t i b" "\<forall>j c. hold s j c \<longrightarrow> hold t j c" using bc.rd_law [OF ok] by blast
  have f: "view t = view s" "disk t = disk s" "refs t = (refs s)(b := refs s b + 1)" "lockd t = (lockd s)(b := True)"
    using arg_cong [OF t(4), of c_view] arg_cong [OF t(4), of c_disk] arg_cong [OF t(4), of c_refs] arg_cong [OF t(4), of c_lock]
    by (simp_all add: a_defs cache_fields)
  have l: "logs t = logs s" by (rule bframe_logs [OF t(3)])
  then have h: "hset t = hset s" by (simp add: hset_def)
  have "tx (insert b H) t"
    using tx b c t(2) f bframe_state(1) [OF t(3)] by (auto simp: tx_def l h)
  then show ?thesis using t f h bframe_tframe by blast
qed

lemma tx_release:
  assumes tx: "tx H s" and h: "hold s i b"
  shows "\<exists>t. brelse i s = Ret () t \<and> tx (H - {b}) t \<and> tframe s t \<and> view t = view s \<and> hset t = hset s \<and>
    (\<forall>j c. c \<noteq> b \<longrightarrow> hold s j c \<longrightarrow> hold t j c)"
proof -
  have ok: "bio_ok s" and fin: "finite H" and rf: "\<And>b. refs s b = (if b \<in> hset s then 1 else 0) + (if b \<in> H then 1 else 0)"
    and b: "b \<in> H" using tx hold_lockd [OF h] by (simp_all add: tx_def)
  have "c_view (cache_of s) b = c_disk (cache_of s) b" if "c_refs (cache_of s) b = 1"
    using that rf [of b] b tx by (auto simp: cache_fields tx_def split: if_splits)
  then obtain t where t: "brelse i s = Ret () t" "bio_ok t" "bframe s t" "cache_of t = a_release b (cache_of s)"
    "\<forall>j c. c \<noteq> b \<longrightarrow> hold s j c \<longrightarrow> hold t j c" using bc.rls_law [OF ok h] by blast
  have f: "view t = view s" "disk t = disk s" "refs t = (refs s)(b := refs s b - 1)" "lockd t = (lockd s)(b := False)"
    using arg_cong [OF t(4), of c_view] arg_cong [OF t(4), of c_disk] arg_cong [OF t(4), of c_refs] arg_cong [OF t(4), of c_lock]
    by (simp_all add: a_defs cache_fields)
  have l: "logs t = logs s" by (rule bframe_logs [OF t(3)])
  then have hs: "hset t = hset s" by (simp add: hset_def)
  have "card (H - {b}) \<le> 3" using tx card_mono [OF fin, of "H - {b}"] by (auto simp: tx_def)
  then have "tx (H - {b}) t"
    using tx b t(2) f bframe_state(1) [OF t(3)] by (auto simp: tx_def l hs)
  then show ?thesis using t f hs bframe_tframe by blast
qed

lemma logged_hdr_facts:
  assumes "0 \<le> lh_n lh" "inj_on (lh_block lh) {..<nat (lh_n lh)}"
  shows "homes (logged_hdr lh b) = insert b (homes lh)" "0 \<le> lh_n (logged_hdr lh b)"
    "inj_on (lh_block (logged_hdr lh b)) {..<nat (lh_n (logged_hdr lh b))}"
    "lh_n (logged_hdr lh b) = int (card (insert b (homes lh)))"
proof -
  have c: "card (homes lh) = nat (lh_n lh)" using assms(2) by (simp add: homes_def card_image)
  have s: "nat (lh_n lh + 1) = Suc (nat (lh_n lh))" using assms(1) by simp
  show h: "homes (logged_hdr lh b) = insert b (homes lh)"
    by (auto simp: logged_hdr_def homes_def s lessThan_Suc)
  show "0 \<le> lh_n (logged_hdr lh b)" using assms(1) by (simp add: logged_hdr_def)
  show i: "inj_on (lh_block (logged_hdr lh b)) {..<nat (lh_n (logged_hdr lh b))}"
  proof (cases "b \<in> homes lh")
    case False
    then have "inj_on ((lh_block lh)(nat (lh_n lh) := b)) (insert (nat (lh_n lh)) {..<nat (lh_n lh)})"
      using assms(2) by (auto simp: homes_def inj_on_def)
    then show ?thesis using False by (simp add: logged_hdr_def s lessThan_Suc)
  qed (use assms in \<open>simp add: logged_hdr_def\<close>)
  show "lh_n (logged_hdr lh b) = int (card (insert b (homes lh)))"
    using c assms(1) by (simp add: logged_hdr_def homes_def insert_absorb)
qed

lemma tx_put:
  assumes tx: "tx H s" and h: "hold s i b" and d: "length d = BSIZE" and cp: "card (insert b (hset s)) \<le> tx_cap s"
  shows "\<exists>t. thn (set_data i d) (log_write i) s = Ret () t \<and> tx H t \<and> tframe s t \<and> view t = (view s)(b := d) \<and>
    hset t = insert b (hset s) \<and> (\<forall>j c. hold s j c \<longrightarrow> hold t j c)"
proof -
  have ok: "bio_ok s" and b: "b \<in> H" and rf: "\<And>b. refs s b = (if b \<in> hset s then 1 else 0) + (if b \<in> H then 1 else 0)"
    using tx hold_lockd [OF h] by (simp_all add: tx_def)
  obtain u where u: "set_data i d s = Ret () u" "bio_ok u" "bframe s u" "cache_of u = a_put b d (cache_of s)"
    "\<forall>j c. hold s j c \<longrightarrow> hold u j c" using bc.put_law [OF ok h d] by blast
  have fu: "view u = (view s)(b := d)" "disk u = disk s" "refs u = refs s" "lockd u = lockd s"
    using arg_cong [OF u(4), of c_view] arg_cong [OF u(4), of c_disk] arg_cong [OF u(4), of c_refs] arg_cong [OF u(4), of c_lock]
    by (simp_all add: a_defs cache_fields)
  have lu: "logs u = logs s" by (rule bframe_logs [OF u(3)])
  have n: "0 \<le> lh_n (l_lh (logs s))" "inj_on (lh_block (l_lh (logs s))) {..<nat (lh_n (l_lh (logs s)))}"
    "lh_n (l_lh (logs s)) \<le> l_size (logs s) - 2" "lh_n (l_lh (logs s)) \<le> 26" "1 \<le> l_outstanding (logs s)"
    using tx cp by (simp_all add: tx_def tx_cap_def split: if_splits)
  have rm: "log_room (logs u)" using n by (simp add: log_room_def lu LOGSIZE_30)
  have fl: "free_lk LogLock u" using tx bframe_state(1) [OF u(3)] by (simp add: tx_def)
  have hu: "hold u i b" using u(5) h by blast
  have rfu: "refs u b < 2 ^ 32 - 1" using rf [of b] by (simp add: fu(3))
  define l where "l = (logs s)\<lparr>l_lh := logged_hdr (l_lh (logs s)) b\<rparr>"
  obtain t where t: "log_write i u = Ret () t" "bio_ok t" "bframe (u\<lparr>logs := l\<rparr>) t"
    "cache_of t = (if b \<in> hset s then cache_of u else a_ref b (refs s b + 1) (cache_of u))"
    "\<forall>j c. hold u j c \<longrightarrow> hold t j c"
    using log_write_gen [OF u(2) hu fl rm rfu] unfolding lu fu(3) l_def hset_def by blast
  have lt: "logs t = l" using bframe_logs [OF t(3)] by simp
  have hd: "hset t = insert b (hset s)" using logged_hdr_facts(1) [OF n(1,2)] by (simp add: hset_def lt l_def)
  have ft: "view t = view u" "disk t = disk u" "lockd t = lockd u" "refs t = (if b \<in> hset s then refs s else (refs s)(b := refs s b + 1))"
    using arg_cong [OF t(4), of c_view] arg_cong [OF t(4), of c_disk] arg_cong [OF t(4), of c_refs] arg_cong [OF t(4), of c_lock]
    by (simp_all add: a_defs cache_fields fu(3) split: if_splits)
  have "tframe s t"
  proof -
    have "bframe (s\<lparr>logs := l\<rparr>) (u\<lparr>logs := l\<rparr>)" by (rule bframe_logs_upd [OF u(3)])
    then have "bframe (s\<lparr>logs := l\<rparr>) t" using t(3) by (rule bframe_trans)
    then show ?thesis by (simp add: tframe_def lt) (simp add: l_def)
  qed
  moreover have "tx H t"
  proof -
    have "free_lk LogLock t" using bframe_state(1) [OF t(3)] fl by (simp add: state_simps)
    moreover have "int (card (insert b (hset s))) \<le> l_size (logs s) - 2" "int (card (insert b (hset s))) \<le> 26"
      using cp n(1,3,5) by (auto simp: tx_cap_def)
    ultimately show ?thesis
      using tx t(2) b logged_hdr_facts [OF n(1,2), of b] n
      by (auto simp: tx_def lt hd l_def ft fu rf hset_def [of s] fun_upd_def)
  qed
  ultimately show ?thesis using u t hd ft fu by (auto simp: kop_simps)
qed

interpretation tn: block_txn "bread ROOTDEV" get_data set_data log_write brelse tx view hset tx_cap hold tframe
proof
  fix s t u :: "'z log_state_scheme" and H b i d
  show "tx H s \<Longrightarrow> b \<notin> H \<Longrightarrow> card H \<le> 2 \<Longrightarrow> \<exists>i t. bread ROOTDEV b s = Ret i t \<and> tx (insert b H) t \<and> tframe s t \<and>
      view t = view s \<and> hset t = hset s \<and> hold t i b \<and> (\<forall>j c. hold s j c \<longrightarrow> hold t j c)" by (rule tx_read)
  show "tx H s \<Longrightarrow> hold s i b \<Longrightarrow> get_data i s = Ret (view s b) s"
    using bc.get_law [of s i b] by (simp add: tx_def cache_fields)
  show "tx H s \<Longrightarrow> hold s i b \<Longrightarrow> length d = BSIZE \<Longrightarrow> card (insert b (hset s)) \<le> tx_cap s \<Longrightarrow>
      \<exists>t. thn (set_data i d) (log_write i) s = Ret () t \<and> tx H t \<and> tframe s t \<and> view t = (view s)(b := d) \<and>
        hset t = insert b (hset s) \<and> (\<forall>j c. hold s j c \<longrightarrow> hold t j c)" by (rule tx_put)
  show "tx H s \<Longrightarrow> hold s i b \<Longrightarrow> \<exists>t. brelse i s = Ret () t \<and> tx (H - {b}) t \<and> tframe s t \<and> view t = view s \<and>
      hset t = hset s \<and> (\<forall>j c. c \<noteq> b \<longrightarrow> hold s j c \<longrightarrow> hold t j c)" by (rule tx_release)
  show "tx H s \<Longrightarrow> length (view s b) = BSIZE" by (simp add: tx_def bio_ok_def view_length)
  show "tx H s \<Longrightarrow> hold s i b \<Longrightarrow> b \<in> H" using hold_lockd [of s i b] by (simp add: tx_def)
  show "tframe s t \<Longrightarrow> tframe t u \<Longrightarrow> tframe s u" by (rule tframe_trans)
  show "tframe s t \<Longrightarrow> tx_cap t = tx_cap s" by (rule tframe_logs(5))
qed

end
