(* ===== verification/Fsalloc.thy ===== *)
theory Fsalloc
  imports Fstxn
begin

text \<open>
  The block allocator of \<open>kernel/fs.c\<close> inside a transaction: \<open>balloc\<close> takes the first free block,
  marks it and clears it, \<open>bfree\<close> gives one back.
\<close>

section \<open>The free map\<close>

lemma BPB_val: "BPB = 8192"
  by (simp add: BPB_def BSIZE_def)

lemma bit_test_bit: "bit_test bi d \<longleftrightarrow> bit (d ! (bi div 8)) (bi mod 8)"
proof -
  have "(d ! (bi div 8) AND push_bit (bi mod 8) 1 \<noteq> 0) = bit (d ! (bi div 8)) (bi mod 8)"
    by (simp add: bit_iff_and_push_bit_not_eq_0)
  then show ?thesis by (simp add: bit_test_def)
qed

lemma length_bits [simp]: "length (bit_mark bi d) = length d" "length (bit_clear bi d) = length d"
  by (simp_all add: bit_mark_def bit_clear_def)

lemma same_bit: "(i :: nat) div 8 = j div 8 \<Longrightarrow> i mod 8 = j mod 8 \<Longrightarrow> i = j"
  by (metis div_mult_mod_eq)

lemma bit_test_mark:
  assumes "j div 8 < length d"
  shows "bit_test i (bit_mark j d) \<longleftrightarrow> i = j \<or> bit_test i d"
  using assms same_bit [of i j] 
  by (cases "i div 8 = j div 8") (auto simp: bit_test_bit bit_mark_def bit_simps nth_list_update)

lemma bit_test_clear:
  assumes "j div 8 < length d"
  shows "bit_test i (bit_clear j d) \<longleftrightarrow> i \<noteq> j \<and> bit_test i d"
  using assms same_bit [of i j]
  by (cases "i div 8 = j div 8") (auto simp: bit_test_bit bit_clear_def bit_simps nth_list_update)

text \<open>Whether block \<open>b\<close> is in use.\<close>

definition used :: "'z fs_state_scheme \<Rightarrow> uint \<Rightarrow> bool" where
  "used s b = bit_test (unat b mod BPB) (view s (BBLOCK b (sb s)))"

lemma balloc_scan_least:
  "balloc_scan d [0..<n] = (if \<forall>i<n. bit_test i d then None else Some (LEAST i. \<not> bit_test i d))"
proof -
  have g: "balloc_scan d [m..<n] = (if \<forall>i. m \<le> i \<and> i < n \<longrightarrow> bit_test i d then None else Some (LEAST i. m \<le> i \<and> \<not> bit_test i d))"
    if "m \<le> n" for m
    using that
  proof (induction rule: inc_induct)
    case (step k)
    show ?case
    proof (cases "bit_test k d")
      case True
      then have "(k \<le> i \<and> \<not> bit_test i d) = (Suc k \<le> i \<and> \<not> bit_test i d)" for i
        by (metis Suc_leD Suc_leI le_neq_implies_less)
      moreover have "(\<forall>i. k \<le> i \<and> i < n \<longrightarrow> bit_test i d) = (\<forall>i. Suc k \<le> i \<and> i < n \<longrightarrow> bit_test i d)"
        using True by (metis Suc_leD Suc_leI le_neq_implies_less)
      ultimately show ?thesis using True step by (simp add: upt_conv_Cons)
    next
      case False
      then have "(LEAST i. k \<le> i \<and> \<not> bit_test i d) = k" by (intro Least_equality) auto
      then show ?thesis using False step by (auto simp: upt_conv_Cons)
    qed
  qed simp
  show ?thesis using g [of 0] by simp
qed

section \<open>Frames\<close>

lemma bframe_fs:
  fixes s t :: "'z fs_state_scheme"
  assumes "bframe s t"
  shows "sb t = sb s" "itable t = itable s"
proof -
  note e = assms [unfolded bframe_def, THEN conjunct1]
  show "sb t = sb s" using arg_cong [OF e, of sb] by (simp add: state_simps)
  show "itable t = itable s" using arg_cong [OF e, of itable] by (simp add: state_simps)
qed

lemma tframe_fs:
  fixes s t :: "'z fs_state_scheme"
  assumes "tframe s t"
  shows "sb t = sb s" "itable t = itable s"
  using bframe_fs [of "s\<lparr>logs := logs t\<rparr>" t] assms by (simp_all add: tframe_def)

section \<open>Clearing a block\<close>

definition zero_block :: "uint8 list" where
  "zero_block = replicate BSIZE 0"

lemma bzero_law:
  assumes "tx H s" "b \<notin> H" "card H \<le> 2" "card (insert b (hset s)) \<le> tx_cap s"
  shows "\<exists>t. bzero ROOTDEV b s = Ret () t \<and> tx H t \<and> tframe s t \<and> view t = (view s)(b := zero_block) \<and>
    hset t = insert b (hset s) \<and> (\<forall>j c. hold s j c \<longrightarrow> hold t j c)"
proof -
  obtain i t u v where "bread ROOTDEV b s = Ret i t" "thn (set_data i zero_block) (log_write i) t = Ret () u"
    "brelse i u = Ret () v" "tx H v" "tframe s v" "view v = (view s)(b := zero_block)" "hset v = insert b (hset s)"
    "\<And>j c. hold s j c \<Longrightarrow> hold v j c"
    using tn.change [OF assms, of "\<lambda>_. zero_block"] by (metis zero_block_def length_replicate)
  then show ?thesis by (auto simp: bzero_def kop_simps zero_block_def)
qed

section \<open>Allocating a block\<close>

lemma unat_block:
  assumes "b < unat (n :: uint)"
  shows "unat (of_nat b :: uint) = b"
proof -
  have "unat n < 4294967296" by (rule less_le_trans [OF unat_lt2p_32]) simp
  with assms have "b < 4294967296" by (rule less_trans)
  then show ?thesis by (simp add: unat_of_nat)
qed

lemma BBLOCK_same:
  assumes "k * BPB + bi < unat (sb_size g)" "bi < BPB"
  shows "BBLOCK (of_nat (k * BPB + bi)) g = BBLOCK (of_nat (k * BPB)) g"
proof -
  have a: "unat (of_nat (k * BPB + bi) :: uint) = k * BPB + bi" by (rule unat_block [OF assms(1)])
  have b: "unat (of_nat (k * BPB) :: uint) = k * BPB" by (rule unat_block [of _ "sb_size g"]) (use assms in simp)
  have "unat (of_nat (k * BPB + bi) div of_nat BPB :: uint) = k" "unat (of_nat (k * BPB) div of_nat BPB :: uint) = k"
    using a b assms(2) by (simp_all add: unat_div BPB_val)
  then have "of_nat (k * BPB + bi) div of_nat BPB = (of_nat (k * BPB) div of_nat BPB :: uint)"
    by (metis word_unat_eq_iff)
  then show ?thesis by (simp add: BBLOCK_def)
qed

lemma used_bit:
  assumes "k * BPB + bi < unat (sb_size (sb s))" "bi < BPB"
  shows "used s (of_nat (k * BPB + bi)) = bit_test bi (view s (BBLOCK (of_nat (k * BPB)) (sb s)))"
proof -
  have "unat (of_nat (k * BPB + bi) :: uint) = k * BPB + bi" by (rule unat_block [OF assms(1)])
  then have "unat (of_nat (k * BPB + bi) :: uint) mod BPB = bi" using assms(2) by simp
  then show ?thesis unfolding used_def BBLOCK_same [OF assms] by (simp only:)
qed

text \<open>The first block that is not in use.\<close>

definition first_free :: "'z fs_state_scheme \<Rightarrow> nat \<Rightarrow> bool" where
  "first_free s b \<longleftrightarrow> b < unat (sb_size (sb s)) \<and> \<not> used s (of_nat b) \<and> (\<forall>c<b. used s (of_nat c))"

definition bitmap_blocks :: "superblock \<Rightarrow> uint set" where
  "bitmap_blocks g = {BBLOCK (of_nat b) g | b. b < unat (sb_size g)}"

lemma balloc_blocks_law:
  assumes "tx H s" "card H \<le> 2" "H \<inter> bitmap_blocks (sb s) = {}" "first_free s b" "of_nat b \<notin> H"
    "card (insert (of_nat b) (insert (BBLOCK (of_nat b) (sb s)) (hset s))) \<le> tx_cap s"
    "k * BPB \<le> b" "k \<le> K" "unat (sb_size (sb s)) \<le> K * BPB"
  shows "\<exists>t. balloc_blocks ROOTDEV (map (\<lambda>k. k * BPB) [k..<K]) s = Ret (of_nat b) t \<and> tx H t \<and> tframe s t \<and>
    view t = (view s)(BBLOCK (of_nat b) (sb s) := bit_mark (b mod BPB) (view s (BBLOCK (of_nat b) (sb s))), of_nat b := zero_block) \<and>
    hset t = insert (of_nat b) (insert (BBLOCK (of_nat b) (sb s)) (hset s)) \<and> (\<forall>j c. hold s j c \<longrightarrow> hold t j c)"
  using assms(8,1-7,9)
proof (induction k arbitrary: s rule: inc_induct)
  case base
  then show ?case by (auto simp: first_free_def)
next
  case (step k)
  let ?B = "BBLOCK (of_nat (k * BPB)) (sb s)" and ?N = "unat (sb_size (sb s))"
  have b: "b < ?N" "\<not> used s (of_nat b)" "\<And>c. c < b \<Longrightarrow> used s (of_nat c)" using step.prems(4) by (auto simp: first_free_def)
  have kN: "k * BPB < ?N" using b(1) step.prems(7) by linarith
  have BH: "?B \<notin> H" using step.prems(3) kN unfolding bitmap_blocks_def by blast
  have ub: "used s (of_nat (k * BPB + i)) = bit_test i (view s ?B)" if "i < min BPB (?N - k * BPB)" for i
    by (rule used_bit) (use that in linarith)+
  show ?case
  proof (cases "b < k * BPB + BPB")
    case True
    define bi where "bi = b - k * BPB"
    have bi: "b = k * BPB + bi" "bi < BPB" "bi < min BPB (?N - k * BPB)" using True step.prems(7) b(1) by (auto simp: bi_def)
    have bm: "b mod BPB = bi" using bi(1,2) by simp
    have BB: "BBLOCK (of_nat b) (sb s) = ?B" unfolding bi(1) by (rule BBLOCK_same) (use bi b(1) in simp_all)
    have nb: "\<not> bit_test bi (view s ?B)" using ub [OF bi(3)] b(2) unfolding bi(1) by blast
    have lb: "bit_test i (view s ?B)" if "i < bi" for i
      using ub [of i] b(3) [of "k * BPB + i"] that bi(1,3) by (simp del: of_nat_add of_nat_mult)
    have "(LEAST i. \<not> bit_test i (view s ?B)) = bi"
      by (rule Least_equality) (use nb lb not_le_imp_less in blast)+
    then have sc: "balloc_scan (view s ?B) [0..<min BPB (?N - k * BPB)] = Some bi"
      using nb bi(3) by (auto simp: balloc_scan_least)
    have c1: "card (insert ?B (hset s)) \<le> tx_cap s"
      using step.prems(6) card_insert_le [of "insert ?B (hset s)" "of_nat b"] unfolding BB by linarith
    obtain i t u v where w: "bread ROOTDEV ?B s = Ret i t" "get_data i t = Ret (view s ?B) t"
      "thn (set_data i (bit_mark bi (view s ?B))) (log_write i) t = Ret () u" "brelse i u = Ret () v" "tx H v" "tframe s v"
      "view v = (view s)(?B := bit_mark bi (view s ?B))" "hset v = insert ?B (hset s)" "\<And>j c. hold s j c \<Longrightarrow> hold v j c"
      using tn.change [OF step.prems(1) BH step.prems(2) c1, of "bit_mark bi"] by (metis length_bits(1))
    have c2: "card (insert (of_nat b) (hset v)) \<le> tx_cap v"
      using step.prems(6) tframe_logs(5) [OF w(6)] by (simp add: w(8) BB)
    obtain x where x: "bzero ROOTDEV (of_nat b) v = Ret () x" "tx H x" "tframe v x" "view x = (view v)(of_nat b := zero_block)"
      "hset x = insert (of_nat b) (hset v)" "\<forall>j c. hold v j c \<longrightarrow> hold x j c"
      using bzero_law [OF w(5) step.prems(5,2) c2] by blast
    have "balloc_blocks ROOTDEV (map (\<lambda>k. k * BPB) [k..<K]) s = Ret (of_nat b) x"
      using step.hyps w(1-4) x(1) sc bi(1) by (simp add: upt_conv_Cons kop_simps del: of_nat_add of_nat_mult)
    moreover have "tframe s x" by (rule tframe_trans [OF w(6) x(3)])
    ultimately show ?thesis using x(2,6) w(9) x(4,5) [unfolded w(7,8)] unfolding BB bm by blast
  next
    case False
    have "bit_test i (view s ?B)" if "i < min BPB (?N - k * BPB)" for i
      using ub [OF that] b(3) [of "k * BPB + i"] that False by (simp del: of_nat_add of_nat_mult)
    then have sc: "balloc_scan (view s ?B) [0..<min BPB (?N - k * BPB)] = None" by (simp add: balloc_scan_least)
    obtain i t u where w: "bread ROOTDEV ?B s = Ret i t" "get_data i t = Ret (view s ?B) t" "brelse i t = Ret () u" "tx H u" "tframe s u"
      "view u = view s" "hset u = hset s" "\<And>j c. hold s j c \<Longrightarrow> hold u j c"
      using tn.look [OF step.prems(1) BH step.prems(2)] by metis
    have su: "sb u = sb s" by (rule tframe_fs [OF w(5)])
    have ff: "first_free u b" using step.prems(4) by (simp add: first_free_def used_def su w(6))
    have cu: "tx_cap u = tx_cap s" by (rule tframe_logs(5) [OF w(5)])
    have kb: "Suc k * BPB \<le> b" using False by simp
    obtain x where x: "balloc_blocks ROOTDEV (map (\<lambda>k. k * BPB) [Suc k..<K]) u = Ret (of_nat b) x" "tx H x" "tframe u x"
      "view x = (view s)(BBLOCK (of_nat b) (sb s) := bit_mark (b mod BPB) (view s (BBLOCK (of_nat b) (sb s))), of_nat b := zero_block)"
      "hset x = insert (of_nat b) (insert (BBLOCK (of_nat b) (sb s)) (hset s))" "\<forall>j c. hold u j c \<longrightarrow> hold x j c"
      using step.IH [of u, unfolded su w(6,7) cu, OF w(4) step.prems(2,3) ff step.prems(5,6) kb step.prems(8)] by blast
    have "balloc_blocks ROOTDEV (map (\<lambda>k. k * BPB) [k..<K]) s = Ret (of_nat b) x"
      using step.hyps w(1-3) x(1) sc by (simp add: upt_conv_Cons kop_simps del: of_nat_add of_nat_mult)
    moreover have "tframe s x" by (rule tframe_trans [OF w(5) x(3)])
    ultimately show ?thesis using x w(8) by blast
  qed
qed

lemma balloc_law:
  assumes "tx H s" "card H \<le> 2" "H \<inter> bitmap_blocks (sb s) = {}" "first_free s b" "of_nat b \<notin> H"
    "card (insert (of_nat b) (insert (BBLOCK (of_nat b) (sb s)) (hset s))) \<le> tx_cap s"
  shows "\<exists>t. balloc ROOTDEV s = Ret (of_nat b) t \<and> tx H t \<and> tframe s t \<and>
    view t = (view s)(BBLOCK (of_nat b) (sb s) := bit_mark (b mod BPB) (view s (BBLOCK (of_nat b) (sb s))), of_nat b := zero_block) \<and>
    hset t = insert (of_nat b) (insert (BBLOCK (of_nat b) (sb s)) (hset s)) \<and> (\<forall>j c. hold s j c \<longrightarrow> hold t j c)"
proof -
  let ?K = "(unat (sb_size (sb s)) + BPB - 1) div BPB"
  have "unat (sb_size (sb s)) \<le> ?K * BPB" unfolding BPB_val by linarith
  then have "\<exists>t. balloc_blocks ROOTDEV (map (\<lambda>k. k * BPB) [0..<?K]) s = Ret (of_nat b) t \<and> tx H t \<and> tframe s t \<and>
    view t = (view s)(BBLOCK (of_nat b) (sb s) := bit_mark (b mod BPB) (view s (BBLOCK (of_nat b) (sb s))), of_nat b := zero_block) \<and>
    hset t = insert (of_nat b) (insert (BBLOCK (of_nat b) (sb s)) (hset s)) \<and> (\<forall>j c. hold s j c \<longrightarrow> hold t j c)"
    by (intro balloc_blocks_law [OF assms]) simp_all
  then show ?thesis by (simp add: balloc_def kop_simps)
qed

section \<open>Freeing a block\<close>

lemma bfree_law:
  assumes "tx H s" "card H \<le> 2" "BBLOCK b (sb s) \<notin> H" "used s b" "card (insert (BBLOCK b (sb s)) (hset s)) \<le> tx_cap s"
  shows "\<exists>t. bfree ROOTDEV b s = Ret () t \<and> tx H t \<and> tframe s t \<and>
    view t = (view s)(BBLOCK b (sb s) := bit_clear (unat b mod BPB) (view s (BBLOCK b (sb s)))) \<and>
    hset t = insert (BBLOCK b (sb s)) (hset s) \<and> (\<forall>j c. hold s j c \<longrightarrow> hold t j c)"
proof -
  let ?B = "BBLOCK b (sb s)" and ?f = "bit_clear (unat b mod BPB)"
  obtain i t u v where w: "bread ROOTDEV ?B s = Ret i t" "get_data i t = Ret (view s ?B) t"
    "thn (set_data i (?f (view s ?B))) (log_write i) t = Ret () u" "brelse i u = Ret () v" "tx H v" "tframe s v"
    "view v = (view s)(?B := ?f (view s ?B))" "hset v = insert ?B (hset s)" "\<And>j c. hold s j c \<Longrightarrow> hold v j c"
    using tn.change [OF assms(1,3,2,5), of ?f] by (metis length_bits(2))
  have "bfree ROOTDEV b s = Ret () v"
    using w(1-4) assms(4) by (simp add: bfree_def kop_simps used_def Let_def)
  then show ?thesis using w(5-9) by blast
qed

lemma bfree_free:
  assumes "tx H s" "card H \<le> 2" "BBLOCK b (sb s) \<notin> H" "\<not> used s b"
  shows "bfree ROOTDEV b s = Panic ''freeing free block''"
proof -
  let ?B = "BBLOCK b (sb s)"
  obtain i t where w: "bread ROOTDEV ?B s = Ret i t" "get_data i t = Ret (view s ?B) t"
    using tn.look [OF assms(1,3,2)] by metis
  then show ?thesis using assms(4) by (simp add: bfree_def kop_simps used_def Let_def)
qed

section \<open>The free map as a set\<close>

definition inuse :: "'z fs_state_scheme \<Rightarrow> uint \<Rightarrow> bool" where
  "inuse s b \<longleftrightarrow> b < sb_size (sb s) \<and> used s b"

definition free_set :: "'z fs_state_scheme \<Rightarrow> uint set" where
  "free_set s = {b. b < sb_size (sb s) \<and> \<not> used s b}"

text \<open>The blocks of the free map are themselves in use.\<close>

definition map_ok :: "'z fs_state_scheme \<Rightarrow> bool" where
  "map_ok s \<longleftrightarrow> (\<forall>b\<in>bitmap_blocks (sb s). inuse s b)"

lemma finite_bitmap [simp]: "finite (bitmap_blocks g)"
  by (simp add: bitmap_blocks_def)

lemma in_bitmap: "b < sb_size g \<Longrightarrow> BBLOCK b g \<in> bitmap_blocks g"
  unfolding bitmap_blocks_def by (auto simp: word_less_nat_alt intro!: exI [of _ "unat b"])

lemma BBLOCK_bit_inj:
  assumes "BBLOCK b g = BBLOCK c g" "unat b mod BPB = unat c mod BPB"
  shows "b = c"
proof -
  have "b div of_nat BPB = c div of_nat BPB" using assms(1) by (simp add: BBLOCK_def)
  then have "unat (b div of_nat BPB) = unat (c div of_nat BPB)" by (rule arg_cong)
  then have "unat b div 8192 = unat c div 8192" unfolding unat_div by (simp add: BPB_val)
  then have "unat b = unat c" using assms(2) unfolding BPB_val by (metis div_mult_mod_eq)
  then show ?thesis by (simp add: word_unat_eq_iff)
qed

lemma used_after:
  assumes "sb t = sb s" "view t = (view s)(BBLOCK a (sb s) := f (view s (BBLOCK a (sb s))), a := d)"
    "a \<notin> bitmap_blocks (sb s)" "b < sb_size (sb s)"
    "\<And>i. bit_test i (f (view s (BBLOCK a (sb s)))) \<longleftrightarrow> (if i = unat a mod BPB then v else bit_test i (view s (BBLOCK a (sb s))))"
  shows "used t b \<longleftrightarrow> (if b = a then v else used s b)"
proof -
  have "BBLOCK b (sb s) \<noteq> a" using in_bitmap [OF assms(4)] assms(3) by blast
  then show ?thesis
    using BBLOCK_bit_inj [of b "sb s" a] assms(5) by (auto simp: used_def assms(1,2))
qed

lemma used_after_free:
  assumes "sb t = sb s" "view t = (view s)(BBLOCK a (sb s) := f (view s (BBLOCK a (sb s))))"
    "\<And>i. bit_test i (f (view s (BBLOCK a (sb s)))) \<longleftrightarrow> (if i = unat a mod BPB then v else bit_test i (view s (BBLOCK a (sb s))))"
  shows "used t b \<longleftrightarrow> (if b = a then v else used s b)"
  using BBLOCK_bit_inj [of b "sb s" a] assms(3) by (auto simp: used_def assms(1,2))

text \<open>What \<open>balloc\<close> promises: a block that was free is now in use and cleared, nothing else is touched but the free map.\<close>

definition allocated :: "'z fs_state_scheme \<Rightarrow> uint \<Rightarrow> 'z fs_state_scheme \<Rightarrow> bool" where
  "allocated s a t \<longleftrightarrow> a \<in> free_set s \<and> (\<forall>b < sb_size (sb s). used t b \<longleftrightarrow> used s b \<or> b = a) \<and> view t a = zero_block \<and>
     (\<forall>b. b \<noteq> a \<longrightarrow> b \<notin> bitmap_blocks (sb s) \<longrightarrow> view t b = view s b) \<and> hset t \<subseteq> insert a (hset s \<union> bitmap_blocks (sb s)) \<and>
     hset s \<subseteq> hset t \<and> (\<forall>b. view t b \<noteq> view s b \<longrightarrow> b \<in> hset t)"

lemma first_free_min:
  assumes "free_set s \<noteq> {}"
  obtains b where "first_free s b" "of_nat b \<in> free_set s" "\<And>c. c < of_nat b \<Longrightarrow> inuse s c"
proof -
  let ?P = "\<lambda>b. b < unat (sb_size (sb s)) \<and> \<not> used s (of_nat b)"
  obtain x where "x \<in> free_set s" using assms by blast
  then have "?P (unat x)" by (simp add: free_set_def word_less_nat_alt)
  then have "\<exists>b. ?P b" ..
  then have L: "?P (LEAST b. ?P b)" by (rule LeastI_ex)
  define b where "b = (LEAST b. ?P b)"
  have b: "?P b" and lo: "\<And>c. c < b \<Longrightarrow> \<not> ?P c" using L not_less_Least [of _ ?P] by (auto simp: b_def)
  have ub: "unat (of_nat b :: uint) = b" using b by (intro unat_block [of b "sb_size (sb s)"]) simp
  have "used s (of_nat c)" if "c < b" for c using lo [OF that] that b by auto
  then have "first_free s b" using b by (simp add: first_free_def)
  moreover have "of_nat b \<in> free_set s" using b ub by (simp add: free_set_def word_less_nat_alt)
  moreover have "inuse s c" if "c < of_nat b" for c
    using that lo [of "unat c"] b ub by (auto simp: inuse_def word_less_nat_alt)
  ultimately show ?thesis using that by blast
qed

lemma balloc_spec:
  assumes "tx H s" "card H \<le> 2" "\<And>b. b \<in> H \<Longrightarrow> inuse s b" "H \<inter> bitmap_blocks (sb s) = {}" "map_ok s" "free_set s \<noteq> {}"
    "card (hset s \<union> bitmap_blocks (sb s)) < tx_cap s"
  obtains a t where "balloc ROOTDEV s = Ret a t" "tx H t" "tframe s t" "allocated s a t" "\<And>c. c < a \<Longrightarrow> inuse s c"
    "\<And>j c. hold s j c \<Longrightarrow> hold t j c"
proof -
  obtain b where b: "first_free s b" "of_nat b \<in> free_set s" "\<And>c. c < of_nat b \<Longrightarrow> inuse s c"
    using first_free_min [OF assms(6)] by metis
  let ?a = "of_nat b :: uint"
  have lt: "?a < sb_size (sb s)" and nu: "\<not> used s ?a" using b(2) by (simp_all add: free_set_def)
  have ua: "unat ?a = b" using b(1) by (intro unat_block [of b "sb_size (sb s)"]) (simp add: first_free_def)
  have ab: "?a \<notin> bitmap_blocks (sb s)" using assms(5) nu by (auto simp: map_ok_def inuse_def)
  have aH: "?a \<notin> H" using assms(3) [of ?a] nu by (auto simp: inuse_def)
  let ?X = "hset s \<union> bitmap_blocks (sb s)"
  have sub: "insert ?a (insert (BBLOCK ?a (sb s)) (hset s)) \<subseteq> insert ?a ?X" using in_bitmap [OF lt] by auto
  have "card (insert ?a (insert (BBLOCK ?a (sb s)) (hset s))) \<le> card (insert ?a ?X)" by (rule card_mono [OF _ sub]) simp
  also have "\<dots> \<le> Suc (card ?X)" by (rule card_insert_le_m1) (simp_all add: card_insert_if)
  finally have c: "card (insert ?a (insert (BBLOCK ?a (sb s)) (hset s))) \<le> tx_cap s" using assms(7) by simp
  obtain t where t: "balloc ROOTDEV s = Ret ?a t" "tx H t" "tframe s t"
    "view t = (view s)(BBLOCK ?a (sb s) := bit_mark (unat ?a mod BPB) (view s (BBLOCK ?a (sb s))), ?a := zero_block)"
    "hset t = insert ?a (insert (BBLOCK ?a (sb s)) (hset s))" "\<forall>j c. hold s j c \<longrightarrow> hold t j c"
    using balloc_law [OF assms(1,2,4) b(1) aH c] unfolding ua by blast
  have len: "unat ?a mod BPB div 8 < length (view s (BBLOCK ?a (sb s)))"
    using tn.size_law [OF assms(1), of "BBLOCK ?a (sb s)"] mod_less_divisor [of 8192 "unat ?a"] by (simp add: BPB_val BSIZE_def)
  have "used t c \<longleftrightarrow> used s c \<or> c = ?a" if "c < sb_size (sb s)" for c
    using used_after [where f = "bit_mark (unat ?a mod BPB)" and v = True, OF tframe_fs(1) [OF t(3)] t(4) ab that]
      bit_test_mark [OF len] by auto
  then have "allocated s ?a t"
    using b(2) sub t(4,5) in_bitmap [OF lt] by (auto simp: allocated_def)
  then show ?thesis using that t(1-3,6) b(3) by blast
qed

section \<open>A file system to start from\<close>

text \<open>The layout \<open>mkfs\<close> makes, its first 47 blocks in use, an empty file with inode 2 in the first slot of the table.\<close>

definition bitmap0 :: "uint8 list" where
  "bitmap0 = replicate 5 255 @ 127 # replicate 1018 0"

definition inode0 :: inode where
  "inode0 = \<lparr>i_dev = ROOTDEV, i_inum = 2, i_ref = 1, i_valid = True, i_type = T_FILE, i_major = 0, i_minor = 0, i_nlink = 1,
     i_size = 0, i_addrs = replicate 13 0\<rparr>"

definition fs0 :: fs_state where
  "fs0 = (console_state.extend console0 \<lparr>sb = sb0, itable = (\<lambda>_. inode0)\<rparr>)\<lparr>disk := (\<lambda>_. zero_block)(45 := bitmap0)\<rparr>"

lemma fs0_facts:
  "calm fs0" "free_lk lk fs0" "bufs fs0 i = buf_blank" "disk fs0 = (\<lambda>_. zero_block)(45 := bitmap0)" "logs fs0 = logs log0"
  "sb fs0 = sb0" "itable fs0 i = inode0"
  by (simp_all add: fs0_def console_state.extend_def console0_defs calm_def lock_defs procs_free_def)

lemma length_blocks0: "length zero_block = BSIZE" "length bitmap0 = BSIZE"
  by (simp_all add: zero_block_def bitmap0_def BSIZE_def)

lemma fs0_boot:
  obtains t :: fs_state where "tx {} t" "hset t = {}" "tx_cap t = 26" "view t = disk fs0" "sb t = sb0" "\<And>i. itable t i = inode0"
proof -
  obtain t l m q where t: "bio_ok t" "\<forall>b. refs t b = 0 \<and> \<not> lockd t b" "\<forall>b. slot t b = None" "\<forall>lk. free_lk lk t"
    "t = fs0\<lparr>locks := l, sleeps := m, bufs := q\<rparr>"
    by (rule binit_boot [of fs0]) (auto simp: fs0_facts length_blocks0)
  have l: "logs t = logs log0" "sb t = sb0" "itable t i = inode0" for i by (simp_all add: t(5) fs0_facts)
  have d: "disk t = disk fs0" by (simp add: t(5))
  have v: "view t b = disk fs0 b" for b using t(3) by (simp add: view_def d)
  have h: "hset t = {}" by (simp add: hset_def homes_def l log0_facts)
  have "tx {} t" using t(1-4) by (simp add: tx_def l log0_facts h v d)
  moreover have "tx_cap t = 26" by (simp add: tx_cap_def l log0_facts)
  ultimately show ?thesis using that h v l by blast
qed

lemma bitmap0_bits: "bit_test i bitmap0 \<longleftrightarrow> i < 47" if "i < 8192"
proof -
  have d: "i div 8 < 1024" using that by simp
  consider "i div 8 < 5" | "i div 8 = 5" | "5 < i div 8" by linarith
  then show ?thesis
  proof cases
    case 1
    have "bit (255 :: uint8) n" if "n < 8" for n
      using that mask_eq_exp_minus_1 [of 8, where 'a = uint8] bit_mask_iff [of 8 n, where 'a = uint8] by simp
    then show ?thesis using 1 by (simp add: bit_test_bit bitmap0_def nth_append)
  next
    case 2
    have "bit (127 :: uint8) (i mod 8) \<longleftrightarrow> i mod 8 < 7"
      using mask_eq_exp_minus_1 [of 7, where 'a = uint8] bit_mask_iff [of 7 "i mod 8", where 'a = uint8] by auto
    moreover have "i mod 8 < 7 \<longleftrightarrow> i < 47" using 2 by presburger
    ultimately show ?thesis using 2 by (simp add: bit_test_bit bitmap0_def nth_append)
  next
    case 3
    then have "bitmap0 ! (i div 8) = 0" using d by (simp add: bitmap0_def nth_append nth_Cons')
    moreover have "\<not> i < 47" using 3 by presburger
    ultimately show ?thesis by (simp add: bit_test_bit)
  qed
qed

lemma fs0_map:
  fixes t :: fs_state
  assumes "view t = disk fs0" "sb t = sb0"
  shows "b < 2000 \<Longrightarrow> used t b \<longleftrightarrow> b < 47" "bitmap_blocks (sb t) = {45}" "map_ok t" "free_set t \<noteq> {}"
    "free_set t = {47..<2000}"
proof -
  have bb: "BBLOCK b sb0 = 45" if "b < 2000" for b
  proof -
    have "unat b < 8192" using that by (simp add: word_less_nat_alt)
    then have "unat (b div of_nat BPB) = 0" unfolding unat_div by (simp add: BPB_val)
    then have "b div of_nat BPB = 0" by (simp only: unat_eq_zero)
    then show ?thesis by (simp add: BBLOCK_def sb0_def)
  qed
  show u: "used t b \<longleftrightarrow> b < 47" if "b < 2000" for b
  proof -
    have "unat b < 8192" using that by (simp add: word_less_nat_alt)
    then show ?thesis using bb [OF that] bitmap0_bits [of "unat b"]
      by (simp add: used_def assms fs0_facts BPB_val word_less_nat_alt)
  qed
  have "(of_nat b :: uint) < 2000" if "b < 2000" for b :: nat using that by (simp add: word_less_nat_alt unat_of_nat)
  then have b45: "BBLOCK (of_nat b) sb0 = 45" if "b < 2000" for b using bb that by blast
  have "unat (sb_size sb0) = 2000" by (simp add: sb0_def)
  then show bm: "bitmap_blocks (sb t) = {45}"
    unfolding bitmap_blocks_def assms(2) using b45 b45 [of 0] by (auto intro!: exI [of _ 0])
  show "map_ok t" using u [of 45] unfolding map_ok_def bm by (simp add: inuse_def assms(2) sb0_def)
  show f: "free_set t = {47..<2000}" using u by (auto simp: free_set_def assms(2)) (auto simp: sb0_def)
  show "free_set t \<noteq> {}" unfolding f by (simp add: word_less_nat_alt)
qed

section \<open>Properties\<close>

text \<open>
  C31. Inside a transaction that can still log the blocks of the free map and one more, and with a free
  block on the disk, \<open>balloc\<close> returns the lowest block that is free, whatever blocks the caller
  holds; afterwards exactly that block is marked in use besides those that were, it is filled with
  zeros, and no other block outside the free map has changed. The changes are all in the log.
\<close>

theorem balloc_first_free:
  assumes "tx H s" "card H \<le> 2" "\<And>b. b \<in> H \<Longrightarrow> inuse s b" "H \<inter> bitmap_blocks (sb s) = {}" "map_ok s" "free_set s \<noteq> {}"
    "card (hset s \<union> bitmap_blocks (sb s)) < tx_cap s"
  shows "\<exists>a t. balloc ROOTDEV s = Ret a t \<and> tx H t \<and> a \<in> free_set s \<and> (\<forall>c<a. inuse s c) \<and> free_set t = free_set s - {a} \<and>
    view t a = replicate BSIZE 0 \<and> (\<forall>b. b \<noteq> a \<longrightarrow> b \<notin> bitmap_blocks (sb s) \<longrightarrow> view t b = view s b) \<and>
    (\<forall>b. view t b \<noteq> view s b \<longrightarrow> b \<in> hset t)"
proof -
  obtain a t where t: "balloc ROOTDEV s = Ret a t" "tx H t" "tframe s t" "allocated s a t" "\<And>c. c < a \<Longrightarrow> inuse s c"
    using balloc_spec [OF assms] by metis
  have "free_set t = free_set s - {a}"
    using t(4) tframe_fs(1) [OF t(3)] by (auto simp: allocated_def free_set_def)
  then show ?thesis using t(1,2,4,5) unfolding allocated_def zero_block_def by blast
qed

theorem balloc_first_free_witness:
  "\<exists>(s :: fs_state) t. free_set s = {47..<2000} \<and> balloc ROOTDEV s = Ret 47 t \<and> free_set t = {48..<2000} \<and> view t 47 = replicate BSIZE 0"
proof -
  obtain s :: fs_state where s: "tx {} s" "hset s = {}" "tx_cap s = 26" "view s = disk fs0" "sb s = sb0" using fs0_boot by metis
  note m = fs0_map [OF s(4,5)]
  have "\<exists>a t. balloc ROOTDEV s = Ret a t \<and> a \<in> free_set s \<and> (\<forall>c<a. inuse s c) \<and> free_set t = free_set s - {a} \<and>
    view t a = replicate BSIZE 0"
    using balloc_first_free [OF s(1) _ _ _ m(3,4)] s(2,3) m(2) by auto
  then obtain a t where t: "balloc ROOTDEV s = Ret a t" "a \<in> free_set s" "\<forall>c<a. inuse s c" "free_set t = free_set s - {a}"
    "view t a = replicate BSIZE 0" by blast
  have "47 \<in> free_set s" unfolding m(5) by (simp add: word_less_nat_alt)
  then have "\<not> 47 < a" using t(3) by (auto simp: inuse_def free_set_def)
  moreover have "47 \<le> a" using t(2) unfolding m(5) by simp
  ultimately have a: "a = 47" by simp
  have "{47..<2000} - {47} = {48..<(2000 :: uint)}" by (auto simp: word_le_nat_alt word_less_nat_alt word_unat_eq_iff)
  then show ?thesis using t m(5) unfolding a by blast
qed

end
