(* ===== verification/Fsfile.thy ===== *)
theory Fsfile
  imports Fsalloc
begin

text \<open>
  The contents of files, on top of the transactions: \<open>bmap\<close> finds or allocates the block behind an
  offset, \<open>readi\<close> and \<open>writei\<close> copy the bytes, \<open>iupdate\<close> writes the inode back.
\<close>

section \<open>Frames with the inode table\<close>

lemma same_cache:
  assumes "bufs t = bufs s" "disk t = disk s" "sleeps t = sleeps s" "cur_pid t = cur_pid s" "calm t = calm s"
    "\<And>lk. free_lk lk t = free_lk lk s" "logs t = logs s"
  shows "view t = view s" "hset t = hset s" "tx_cap t = tx_cap s" "hold t = hold s" "tx H t = tx H s"
proof -
  have sl: "slot t = slot s" by (simp add: fun_eq_iff slot_def assms)
  have bo: "buf_ok t = buf_ok s" by (simp add: fun_eq_iff buf_ok_def sl_free_def assms)
  show v: "view t = view s" by (simp add: fun_eq_iff view_def sl assms split: option.split)
  show h: "hset t = hset s" "tx_cap t = tx_cap s" by (simp_all add: hset_def tx_cap_def assms)
  show "hold t = hold s" by (simp add: fun_eq_iff hold_def sl sl_mine_def assms)
  have "bio_ok t = bio_ok s" by (simp add: bio_ok_def bio_ready_def bio_inv_def bo assms)
  moreover have "refs t = refs s" "lockd t = lockd s"
    by (simp_all add: fun_eq_iff refs_def lockd_def sl sl_free_def assms split: option.split)
  ultimately show "tx H t = tx H s" by (simp add: tx_def v h assms)
qed

lemma itable_inert [simp]:
  "view (s\<lparr>itable := f\<rparr>) = view s" "hset (s\<lparr>itable := f\<rparr>) = hset s" "tx_cap (s\<lparr>itable := f\<rparr>) = tx_cap s"
  "hold (s\<lparr>itable := f\<rparr>) = hold s" "used (s\<lparr>itable := f\<rparr>) = used s" "free_set (s\<lparr>itable := f\<rparr>) = free_set s"
  "inuse (s\<lparr>itable := f\<rparr>) = inuse s" "map_ok (s\<lparr>itable := f\<rparr>) = map_ok s" "tx H (s\<lparr>itable := f\<rparr>) = tx H s"
proof -
  have g: "calm (s\<lparr>itable := f\<rparr>) = calm s" "cur_pid (s\<lparr>itable := f\<rparr>) = cur_pid s" 
    by (simp_all add: calm_def cur_pid_def procs_free_def state_simps)
  note c = same_cache [of "s\<lparr>itable := f\<rparr>" s]
  show v: "view (s\<lparr>itable := f\<rparr>) = view s" and "hset (s\<lparr>itable := f\<rparr>) = hset s" "tx_cap (s\<lparr>itable := f\<rparr>) = tx_cap s"
    "hold (s\<lparr>itable := f\<rparr>) = hold s" "tx H (s\<lparr>itable := f\<rparr>) = tx H s"
    by (intro c; simp add: g state_simps)+
  show u: "used (s\<lparr>itable := f\<rparr>) = used s" by (simp add: fun_eq_iff used_def v)
  show "free_set (s\<lparr>itable := f\<rparr>) = free_set s" by (simp add: free_set_def u)
  show i: "inuse (s\<lparr>itable := f\<rparr>) = inuse s" by (simp add: fun_eq_iff inuse_def u)
  show "map_ok (s\<lparr>itable := f\<rparr>) = map_ok s" by (simp add: map_ok_def i)
qed

lemma tch_inert [simp]:
  "view (tch s) = view s" "hset (tch s) = hset s" "hold (tch s) = hold s" "used (tch s) = used s" "tx H (tch s) = tx H s"
proof -
  have g: "calm (tch s) = calm s" "cur_pid (tch s) = cur_pid s" 
    by (simp_all add: calm_def cur_pid_def procs_free_def state_simps)
  note c = same_cache [of "tch s" s]
  show v: "view (tch s) = view s" and "hset (tch s) = hset s" "hold (tch s) = hold s" "tx H (tch s) = tx H s"
    by (intro c; simp add: g state_simps)+
  show u: "used (tch s) = used s" by (simp add: fun_eq_iff used_def v state_simps)
qed

lemma tframe_tch: "tframe s (tch s)"
proof -
  have "tch s = (tch s)\<lparr>procs := procs (tch s), sleeps := sleeps (tch s), bufs := bufs (tch s), disk := disk (tch s),
     dtrace := dtrace (tch s)\<rparr>" by simp
  then have "bframe s (tch s)" by (simp add: bframe_def state_simps same_procs_def)
  then show ?thesis by (rule bframe_tframe)
qed

lemma tframe_itable:
  assumes "tframe s t"
  shows "tframe (s\<lparr>itable := f\<rparr>) (t\<lparr>itable := f\<rparr>)"
  using assms by (auto simp: tframe_def bframe_def state_simps upd_order same_procs_def)

text \<open>The frame of an operation on the file in slot \<open>ip\<close>: of the table only its addresses and its size change.\<close>

definition iframe :: "nat \<Rightarrow> 'z fs_state_scheme \<Rightarrow> 'z fs_state_scheme \<Rightarrow> bool" where
  "iframe ip s t \<longleftrightarrow> tframe (s\<lparr>itable := itable t\<rparr>) t \<and>
     (\<exists>as n. itable t = (itable s)(ip := (itable s ip)\<lparr>i_addrs := as, i_size := n\<rparr>))"

lemma iframe_tframe: "tframe s t \<Longrightarrow> iframe ip s t"
  using tframe_fs(2) [of s t] unfolding iframe_def
  by (auto intro!: exI [of _ "i_addrs (itable s ip)"] exI [of _ "i_size (itable s ip)"])

lemma iframe_trans [trans]:
  assumes "iframe ip s t" "iframe ip t u"
  shows "iframe ip s u"
proof -
  obtain as n bs m where e: "itable t = (itable s)(ip := (itable s ip)\<lparr>i_addrs := as, i_size := n\<rparr>)"
    "itable u = (itable t)(ip := (itable t ip)\<lparr>i_addrs := bs, i_size := m\<rparr>)" using assms unfolding iframe_def by blast
  have "tframe (s\<lparr>itable := itable u\<rparr>) (t\<lparr>itable := itable u\<rparr>)"
    using tframe_itable [of "s\<lparr>itable := itable t\<rparr>" t "itable u"] assms(1) by (simp add: iframe_def)
  moreover have "tframe (t\<lparr>itable := itable u\<rparr>) u" using assms(2) by (simp add: iframe_def)
  ultimately have "tframe (s\<lparr>itable := itable u\<rparr>) u" by (rule tframe_trans)
  moreover have "itable u = (itable s)(ip := (itable s ip)\<lparr>i_addrs := bs, i_size := m\<rparr>)" unfolding e by simp
  ultimately show ?thesis unfolding iframe_def by blast
qed

lemma iframe_set: "iframe ip s (s\<lparr>itable := (itable s)(ip := (itable s ip)\<lparr>i_addrs := as\<rparr>)\<rparr>)"
  unfolding iframe_def by (auto intro!: exI [of _ as] exI [of _ "i_size (itable s ip)"])

lemma iframe_facts:
  assumes "iframe ip s t"
  shows "sb t = sb s" "tx_cap t = tx_cap s" "i_dev (itable t ip) = i_dev (itable s ip)"
    "i_inum (itable t ip) = i_inum (itable s ip)" "j \<noteq> ip \<Longrightarrow> itable t j = itable s j"
  using assms tframe_fs(1) [of "s\<lparr>itable := itable t\<rparr>" t] tframe_logs(5) [of "s\<lparr>itable := itable t\<rparr>" t]
  by (auto simp: iframe_def)

section \<open>The addresses of a file\<close>

text \<open>
  Slot \<open>j\<close> of a file: the direct addresses, the address of the indirect block in slot \<open>NDIRECT\<close>, and behind
  it the entries of the indirect block.
\<close>

definition fslot :: "(uint \<Rightarrow> uint8 list) \<Rightarrow> uint list \<Rightarrow> nat \<Rightarrow> uint" where
  "fslot v as j = (if j \<le> NDIRECT then as ! j else if as ! NDIRECT = 0 then 0
     else get_indirect (v (as ! NDIRECT)) (j - NDIRECT - 1))"

definition slot_of :: "'z fs_state_scheme \<Rightarrow> nat \<Rightarrow> nat \<Rightarrow> uint" where
  "slot_of s ip = fslot (view s) (i_addrs (itable s ip))"

abbreviation indirect_of :: "'z fs_state_scheme \<Rightarrow> nat \<Rightarrow> uint" where
  "indirect_of s ip \<equiv> slot_of s ip NDIRECT"

text \<open>Blocks a file must never own: the boot block, the block of its inode and the free map.\<close>

definition meta :: "'z fs_state_scheme \<Rightarrow> inode \<Rightarrow> uint set" where
  "meta s i = insert 0 (insert (IBLOCK (i_inum i) (sb s)) (bitmap_blocks (sb s)))"

definition file_wf :: "'z fs_state_scheme \<Rightarrow> nat \<Rightarrow> bool" where
  "file_wf s ip \<longleftrightarrow> i_dev (itable s ip) = ROOTDEV \<and> length (i_addrs (itable s ip)) = NDIRECT + 1 \<and>
     (\<forall>b\<in>meta s (itable s ip). inuse s b) \<and> IBLOCK (i_inum (itable s ip)) (sb s) \<notin> insert 0 (bitmap_blocks (sb s)) \<and>
     (\<forall>j\<le>MAXFILE. slot_of s ip j \<noteq> 0 \<longrightarrow> inuse s (slot_of s ip j) \<and> slot_of s ip j \<notin> meta s (itable s ip)) \<and>
     (\<forall>j\<le>MAXFILE. \<forall>k\<le>MAXFILE. slot_of s ip j \<noteq> 0 \<longrightarrow> slot_of s ip j = slot_of s ip k \<longrightarrow> j = k)"

lemma file_consts: "NDIRECT = 12" "NINDIRECT = 256" "MAXFILE = 268" "BSIZE = 1024"
  by (simp_all add: NDIRECT_def NINDIRECT_def MAXFILE_def BSIZE_def)

lemma file_wf_map: "file_wf s ip \<Longrightarrow> map_ok s"
  by (simp add: file_wf_def map_ok_def meta_def)

lemma file_wf_slot:
  assumes "file_wf s ip" "j \<le> MAXFILE" "slot_of s ip j \<noteq> 0"
  shows "inuse s (slot_of s ip j)" "slot_of s ip j \<notin> bitmap_blocks (sb s)" "slot_of s ip j \<noteq> IBLOCK (i_inum (itable s ip)) (sb s)"
    "\<And>k. k \<le> MAXFILE \<Longrightarrow> slot_of s ip j = slot_of s ip k \<Longrightarrow> j = k"
  using assms by (auto simp: file_wf_def meta_def)

lemma indirect_of_eq: "indirect_of s ip = i_addrs (itable s ip) ! NDIRECT"
  by (simp add: slot_of_def fslot_def)

lemma file_wf_indirect:
  assumes "file_wf s ip" "i_addrs (itable s ip) ! NDIRECT \<noteq> 0"
  shows "inuse s (i_addrs (itable s ip) ! NDIRECT)" "i_addrs (itable s ip) ! NDIRECT \<notin> bitmap_blocks (sb s)"
  using file_wf_slot(1,2) [OF assms(1), of NDIRECT] assms(2) unfolding indirect_of_eq by (simp_all add: file_consts)

text \<open>Slot \<open>j\<close> gets a block that was free.\<close>

lemma file_wf_grow:
  assumes wf: "file_wf s ip" and fr: "iframe ip s t" and len: "length (i_addrs (itable t ip)) = NDIRECT + 1"
    and us: "\<And>b. inuse s b \<Longrightarrow> inuse t b" "inuse t a" "a \<in> free_set s"
    and sl: "\<And>k. k \<le> MAXFILE \<Longrightarrow> slot_of t ip k = (if k = j then a else slot_of s ip k)"
  shows "file_wf t ip" "a \<noteq> 0"
proof -
  have m: "meta t (itable t ip) = meta s (itable s ip)" using iframe_facts [OF fr] by (simp add: meta_def)
  have na: "\<not> inuse s a" using us(3) by (simp add: free_set_def inuse_def)
  have am: "a \<notin> meta s (itable s ip)" using wf na unfolding file_wf_def by blast
  have ne: "slot_of s ip k \<noteq> a" if "k \<le> MAXFILE" "slot_of s ip k \<noteq> 0" for k
    using file_wf_slot(1) [OF wf that] na by auto
  show "a \<noteq> 0" using am by (auto simp: meta_def)
  have 1: "\<forall>k\<le>MAXFILE. slot_of t ip k \<noteq> 0 \<longrightarrow> inuse t (slot_of t ip k) \<and> slot_of t ip k \<notin> meta s (itable s ip)"
    using wf us am by (auto simp: sl file_wf_def)
  have 2: "\<forall>k\<le>MAXFILE. \<forall>l\<le>MAXFILE. slot_of t ip k \<noteq> 0 \<longrightarrow> slot_of t ip k = slot_of t ip l \<longrightarrow> k = l"
    using wf ne \<open>a \<noteq> 0\<close> unfolding file_wf_def by (simp add: sl) metis
  have 3: "\<forall>b\<in>meta s (itable s ip). inuse t b" using wf us(1) by (auto simp: file_wf_def)
  show "file_wf t ip" using wf iframe_facts(1,3,4) [OF fr] len 1 2 3 unfolding file_wf_def m by simp
qed

definition grown :: "nat \<Rightarrow> 'z fs_state_scheme \<Rightarrow> nat \<Rightarrow> uint \<Rightarrow> 'z fs_state_scheme \<Rightarrow> bool" where
  "grown ip s j a t \<longleftrightarrow> iframe ip s t \<and> file_wf t ip \<and> i_size (itable t ip) = i_size (itable s ip) \<and> a \<in> free_set s \<and> a \<noteq> 0 \<and>
     (\<forall>k\<le>MAXFILE. slot_of t ip k = (if k = j then a else slot_of s ip k)) \<and> view t a = zero_block \<and>
     (\<forall>b. b \<noteq> a \<longrightarrow> b \<notin> bitmap_blocks (sb s) \<longrightarrow> b \<noteq> indirect_of s ip \<longrightarrow> view t b = view s b) \<and> free_set t = free_set s - {a} \<and>
     hset t \<subseteq> insert a (hset s \<union> bitmap_blocks (sb s) \<union> ({indirect_of t ip} - {0})) \<and> hset s \<subseteq> hset t \<and>
     (\<forall>b. view t b \<noteq> view s b \<longrightarrow> b \<in> hset t)"

lemma allocated_facts:
  assumes "allocated s a t" "tframe s t"
  shows "free_set t = free_set s - {a}" "inuse s b \<Longrightarrow> inuse t b" "inuse t a" "\<not> inuse s a"
  using assms(1) tframe_fs(1) [OF assms(2)] by (auto simp: allocated_def free_set_def inuse_def)

lemma zero_entries: "k < NINDIRECT \<Longrightarrow> get_indirect zero_block k = 0"
  by (simp add: get_indirect_def get32_def slice_def zero_block_def file_consts take_replicate min_def)

lemma grow_addr:
  assumes tx: "tx H s" "card H \<le> 2" "\<And>b. b \<in> H \<Longrightarrow> inuse s b" "H \<inter> bitmap_blocks (sb s) = {}" and wf: "file_wf s ip"
    and j: "j \<le> NDIRECT" "slot_of s ip j = 0" and fr: "free_set s \<noteq> {}" and cp: "card (hset s \<union> bitmap_blocks (sb s)) < tx_cap s"
  obtains a t u where "balloc ROOTDEV s = Ret a t" "a \<noteq> 0"
    "u = t\<lparr>itable := (itable t)(ip := (itable t ip)\<lparr>i_addrs := (i_addrs (itable t ip))[j := a]\<rparr>)\<rparr>" "tx H u" "grown ip s j a u"
proof -
  obtain a t where t: "balloc ROOTDEV s = Ret a t" "tx H t" "tframe s t" "allocated s a t"
    using balloc_spec [OF tx file_wf_map [OF wf] fr cp] by metis
  note af = allocated_facts [OF t(4,3)]
  have it: "itable t = itable s" by (rule tframe_fs(2) [OF t(3)])
  let ?as = "i_addrs (itable s ip)"
  define u where "u = t\<lparr>itable := (itable t)(ip := (itable t ip)\<lparr>i_addrs := (i_addrs (itable t ip))[j := a]\<rparr>)\<rparr>"
  have fru: "iframe ip s u" unfolding u_def by (rule iframe_trans [OF iframe_tframe [OF t(3)] iframe_set])
  have len: "length ?as = NDIRECT + 1" using wf by (simp add: file_wf_def)
  have sl: "slot_of u ip k = (if k = j then a else slot_of s ip k)" if k: "k \<le> MAXFILE" for k
  proof -
    have us: "slot_of u ip k = fslot (view t) (?as[j := a]) k" by (simp add: slot_of_def u_def it)
    have z: "j = NDIRECT \<Longrightarrow> NDIRECT < k \<Longrightarrow> get_indirect (view t a) (k - NDIRECT - 1) = 0"
      using t(4) zero_entries [of "k - NDIRECT - 1"] k by (simp add: allocated_def file_consts)
    have "view t (?as ! NDIRECT) = view s (?as ! NDIRECT)" if "?as ! NDIRECT \<noteq> 0"
      using file_wf_indirect [OF wf that] af(4) t(4) unfolding allocated_def by metis
    then show ?thesis using z j len unfolding us by (auto simp: slot_of_def fslot_def nth_list_update)
  qed
  have sbu: "sb u = sb s" by (rule iframe_facts(1) [OF fru])
  have iu: "inuse u = inuse t" "free_set u = free_set t" by (simp_all add: u_def)
  have "file_wf u ip" "a \<noteq> 0"
    using file_wf_grow [OF wf fru _ _ _ _ sl] len af(2,3) t(4) by (simp_all add: iu allocated_def) (simp_all add: u_def it)
  moreover have "hset u = hset t" "view u = view t" "i_size (itable u ip) = i_size (itable s ip)" by (simp_all add: u_def it)
  moreover have "free_set t = free_set s - {a}" by (rule af(1))
  ultimately have "grown ip s j a u"
    using t(4) fru sl unfolding grown_def allocated_def by (auto simp: iu)
  moreover have "tx H u" using t(2) by (simp add: u_def)
  ultimately show ?thesis using that t(1) \<open>a \<noteq> 0\<close> u_def by blast
qed

lemma get_indirect_put:
  assumes "length d = BSIZE" "j < NINDIRECT" "k < NINDIRECT"
  shows "get_indirect (put32 (4 * j) a d) k = (if k = j then a else get_indirect d k)" "length (put32 (4 * j) a d) = BSIZE"
proof -
  have "4 * k + 4 \<le> 4 * j \<or> 4 * j + 4 \<le> 4 * k" if "k \<noteq> j" using that by linarith
  then show "get_indirect (put32 (4 * j) a d) k = (if k = j then a else get_indirect d k)" "length (put32 (4 * j) a d) = BSIZE"
    using assms get_put_other(2) [of "4 * j" d "4 * k" a] by (auto simp: get_indirect_def file_consts)
qed

lemma grow_entry:
  assumes tx: "tx H s" "card H \<le> 2" "\<And>b. b \<in> H \<Longrightarrow> inuse s b" "H \<inter> bitmap_blocks (sb s) = {}" and wf: "file_wf s ip"
    and j: "NDIRECT < j" "j \<le> MAXFILE" "slot_of s ip j = 0" and fr: "free_set s \<noteq> {}"
    and x: "indirect_of s ip = x" "x \<noteq> 0" "hold s i x"
    and cp: "Suc (card (insert x (hset s \<union> bitmap_blocks (sb s)))) \<le> tx_cap s"
  obtains a t u where "balloc ROOTDEV s = Ret a t" "a \<noteq> 0" "get_data i t = Ret (view s x) t"
    "thn (set_data i (put32 (4 * (j - NDIRECT - 1)) a (view s x))) (log_write i) t = Ret () u" "tx H u" "grown ip s j a u" "hold u i x"
proof -
  let ?X = "insert x (hset s \<union> bitmap_blocks (sb s))" and ?d = "put32 (4 * (j - NDIRECT - 1))"
  have "card (hset s \<union> bitmap_blocks (sb s)) \<le> card ?X" by (rule card_mono) auto
  then have lt: "card (hset s \<union> bitmap_blocks (sb s)) < tx_cap s" using cp by linarith
  obtain a t where t: "balloc ROOTDEV s = Ret a t" "tx H t" "tframe s t" "allocated s a t" "\<And>j c. hold s j c \<Longrightarrow> hold t j c"
    using balloc_spec [OF tx file_wf_map [OF wf] fr lt] by metis
  note af = allocated_facts [OF t(4,3)]
  have xf: "inuse s x" "x \<notin> bitmap_blocks (sb s)" using file_wf_slot [OF wf, of NDIRECT] x by (auto simp: file_consts)
  have xa: "x \<noteq> a" using xf(1) af(4) by auto
  have vx: "view t x = view s x" using t(4) xf(2) xa by (simp add: allocated_def)
  have "insert x (hset t) \<subseteq> insert a ?X" using t(4) by (auto simp: allocated_def)
  then have "card (insert x (hset t)) \<le> card (insert a ?X)" by (intro card_mono) auto
  also have "\<dots> \<le> Suc (card ?X)" by (simp add: card_insert_if)
  finally have c: "card (insert x (hset t)) \<le> tx_cap t" using cp tframe_logs(5) [OF t(3)] by simp
  have j': "j - NDIRECT - 1 < NINDIRECT" using j by (simp add: file_consts)
  note ln = get_indirect_put [OF tn.size_law [OF tx(1), of x] j', of _ a]
  obtain u where u: "thn (set_data i (?d a (view s x))) (log_write i) t = Ret () u" "tx H u" "tframe t u"
    "view u = (view t)(x := ?d a (view s x))" "hset u = insert x (hset t)" "hold u i x"
    using tn.put_law [OF t(2) t(5) [OF x(3)] ln(2) c] t(5) x(3) j' by blast
  have su: "tframe s u" by (rule tframe_trans [OF t(3) u(3)])
  then have fru: "iframe ip s u" by (rule iframe_tframe)
  have it: "itable u = itable s" "sb u = sb s" "sb t = sb s" using tframe_fs [OF su] tframe_fs [OF t(3)] by simp_all
  have bx: "used u b = used t b" if "b < sb_size (sb s)" for b
    using in_bitmap [OF that] xf(2) by (auto simp: used_def it u(4))
  then have iu: "inuse u = inuse t" "free_set u = free_set t" by (auto simp: inuse_def free_set_def it fun_eq_iff)
  have ax: "i_addrs (itable s ip) ! NDIRECT = x" using x(1) by (simp add: slot_of_def fslot_def)
  have sl: "slot_of u ip k = (if k = j then a else slot_of s ip k)" if k: "k \<le> MAXFILE" for k
  proof (cases "NDIRECT < k")
    case True
    then have "k - NDIRECT - 1 < NINDIRECT" "k - NDIRECT - 1 = j - NDIRECT - 1 \<longleftrightarrow> k = j" using k j by (auto simp: file_consts)
    then show ?thesis using True ln(1) [of "k - NDIRECT - 1"] x(2) vx by (simp add: slot_of_def fslot_def it u(4) ax)
  qed (use j in \<open>simp add: slot_of_def fslot_def it\<close>)
  have "file_wf u ip" "a \<noteq> 0"
    using file_wf_grow [OF wf fru _ _ _ _ sl] wf af(2,3) t(4) by (simp_all add: iu allocated_def) (simp_all add: it file_wf_def)
  moreover have "indirect_of u ip = x" using sl [of NDIRECT] j x(1) by (simp add: file_consts)
  ultimately have "grown ip s j a u"
    using t(4) fru sl u(4,5) xa x(1,2) af(1) unfolding grown_def allocated_def by (auto simp: iu it)
  then show ?thesis using that t(1) u(1,2,6) \<open>a \<noteq> 0\<close> tn.get_law [OF t(2) t(5) [OF x(3)]] vx by metis
qed

section \<open>Finding a block\<close>

text \<open>The slot of block \<open>k\<close> of a file, and what \<open>bmap\<close> promises of it.\<close>

definition bslot :: "nat \<Rightarrow> nat" where
  "bslot k = (if k < NDIRECT then k else k + 1)"

definition mapped :: "nat \<Rightarrow> 'z fs_state_scheme \<Rightarrow> nat \<Rightarrow> uint \<Rightarrow> 'z fs_state_scheme \<Rightarrow> bool" where
  "mapped ip s j a t \<longleftrightarrow> iframe ip s t \<and> file_wf t ip \<and> i_size (itable t ip) = i_size (itable s ip) \<and> a \<noteq> 0 \<and>
     slot_of t ip j = a \<and> (slot_of s ip j \<noteq> 0 \<longrightarrow> slot_of s ip j = a) \<and>
     (\<forall>k\<le>MAXFILE. k \<noteq> j \<longrightarrow> k \<noteq> NDIRECT \<longrightarrow> slot_of t ip k = slot_of s ip k) \<and>
     (\<forall>k\<le>MAXFILE. slot_of t ip k = slot_of s ip k \<or> slot_of t ip k \<in> free_set s) \<and>
     (indirect_of s ip \<noteq> 0 \<longrightarrow> indirect_of t ip = indirect_of s ip) \<and>
     view t a = (if slot_of s ip j = 0 then zero_block else view s a) \<and>
     (\<forall>b. inuse s b \<longrightarrow> b \<notin> bitmap_blocks (sb s) \<longrightarrow> b \<noteq> indirect_of s ip \<longrightarrow> view t b = view s b) \<and>
     (\<forall>b. inuse s b \<longrightarrow> inuse t b) \<and>
     card (free_set s) \<le> Suc (card (free_set t)) + (if indirect_of s ip = 0 \<and> indirect_of t ip \<noteq> 0 then 1 else 0) \<and>
     hset t \<subseteq> insert a (hset s \<union> bitmap_blocks (sb s) \<union> ({indirect_of t ip} - {0})) \<and> hset s \<subseteq> hset t \<and>
     (\<forall>b. view t b \<noteq> view s b \<longrightarrow> b \<in> hset t)"

lemma file_wf_frame:
  assumes "file_wf s ip" "tframe s t" "view t = view s"
  shows "file_wf t ip" "slot_of t ip = slot_of s ip" "free_set t = free_set s" "inuse t = inuse s"
proof -
  note f = tframe_fs [OF assms(2)]
  have u: "used t = used s" by (simp add: fun_eq_iff used_def f assms(3))
  show "free_set t = free_set s" by (simp add: free_set_def u f)
  show i: "inuse t = inuse s" by (simp add: fun_eq_iff inuse_def u f)
  show l: "slot_of t ip = slot_of s ip" by (simp add: slot_of_def f assms(3))
  show "file_wf t ip" using assms(1) unfolding file_wf_def meta_def i l f .
qed

lemma mapped_same:
  assumes "file_wf s ip" "tframe s t" "view t = view s" "hset t = hset s" "slot_of s ip j \<noteq> 0"
  shows "mapped ip s j (slot_of s ip j) t"
  using file_wf_frame [OF assms(1-3)] iframe_tframe [OF assms(2)] tframe_fs(2) [OF assms(2)] assms(3-5)
  unfolding mapped_def by auto

lemma free_not_inuse: "a \<in> free_set s \<Longrightarrow> \<not> inuse s a"
  by (simp add: free_set_def inuse_def)

lemma grown_inuse:
  assumes "grown ip s j a t" "inuse s b"
  shows "inuse t b"
proof -
  have "b \<notin> free_set t" "b < sb_size (sb s)" using assms by (auto simp: grown_def inuse_def free_set_def)
  then show ?thesis using iframe_facts(1) [of ip s t] assms(1) by (simp add: grown_def inuse_def free_set_def)
qed

lemma card_free_grown: "grown ip s j a t \<Longrightarrow> card (free_set s) = Suc (card (free_set t))"
  using card.remove [of "free_set s" a] by (simp add: grown_def)

lemma mapped_grown:
  assumes g: "grown ip s j a t" and j: "j \<noteq> NDIRECT" "j \<le> MAXFILE" "slot_of s ip j = 0"
  shows "mapped ip s j a t"
proof -
  have "indirect_of t ip = indirect_of s ip" using g j(1) by (simp add: grown_def file_consts)
  moreover have "view t b = view s b" if "inuse s b" "b \<notin> bitmap_blocks (sb s)" "b \<noteq> indirect_of s ip" for b
    using g that free_not_inuse [of a s] by (auto simp: grown_def)
  ultimately show ?thesis
    using g j grown_inuse [OF g] card_free_grown [OF g] unfolding mapped_def grown_def by auto
qed

lemma mapped_grown_twice:
  assumes g: "grown ip s NDIRECT x t" "grown ip t j a u" and j: "NDIRECT < j" "j \<le> MAXFILE" and z: "indirect_of s ip = 0" "file_wf s ip"
  shows "mapped ip s j a u"
proof -
  have sl: "slot_of s ip j = 0" using z(1) j(1) unfolding indirect_of_eq by (simp add: slot_of_def fslot_def)
  have bt: "sb t = sb s" using g(1) iframe_facts(1) [of ip s t] by (simp add: grown_def)
  have "iframe ip s u" using g iframe_trans [of ip s t u] by (simp add: grown_def)
  moreover have "file_wf u ip" "a \<noteq> 0" "i_size (itable u ip) = i_size (itable s ip)" "slot_of u ip j = a" "view u a = zero_block"
    using g j by (simp_all add: grown_def)
  moreover have "slot_of u ip k = slot_of s ip k" if "k \<le> MAXFILE" "k \<noteq> j" "k \<noteq> NDIRECT" for k
    using g that by (simp add: grown_def)
  moreover have "slot_of u ip k = slot_of s ip k \<or> slot_of u ip k \<in> free_set s" if "k \<le> MAXFILE" for k
    using g that by (simp add: grown_def)
  moreover have "view u b = view s b" if "inuse s b" "b \<notin> bitmap_blocks (sb s)" "b \<noteq> 0" for b
  proof -
    have "b \<noteq> x" "b \<noteq> a" using g that(1) free_not_inuse [of x s] free_not_inuse [of a t] grown_inuse [OF g(1)] by (auto simp: grown_def)
    then have "view t b = view s b" "view u b = view t b" using g that(2,3) z(1) by (simp_all add: grown_def bt file_consts)
    then show ?thesis by simp
  qed
  moreover have "card (free_set s) = Suc (Suc (card (free_set u)))" using card_free_grown [OF g(1)] card_free_grown [OF g(2)] by simp
  moreover have ind: "indirect_of u ip = x" "indirect_of t ip = x" "x \<noteq> 0" using g j by (simp_all add: grown_def file_consts)
  moreover have "hset u \<subseteq> insert a (hset s \<union> bitmap_blocks (sb s) \<union> {x})" "hset s \<subseteq> hset u"
  proof -
    have "hset t \<subseteq> insert x (hset s \<union> bitmap_blocks (sb s))" "hset s \<subseteq> hset t" using g(1) ind(2,3) by (simp_all add: grown_def)
    moreover have "hset u \<subseteq> insert a (hset t \<union> bitmap_blocks (sb s) \<union> {x})" "hset t \<subseteq> hset u"
      using g(2) ind(1,3) by (simp_all add: grown_def bt)
    ultimately show "hset u \<subseteq> insert a (hset s \<union> bitmap_blocks (sb s) \<union> {x})" "hset s \<subseteq> hset u" by blast+
  qed
  moreover have "b \<in> hset u" if "view u b \<noteq> view s b" for b
  proof (cases "view u b = view t b")
    case True
    then have "b \<in> hset t" using g(1) that by (simp add: grown_def)
    then show ?thesis using g(2) by (auto simp: grown_def)
  qed (use g(2) in \<open>simp add: grown_def\<close>)
  moreover have "inuse u b" if "inuse s b" for b using grown_inuse [OF g(2) grown_inuse [OF g(1) that]] .
  ultimately show ?thesis unfolding mapped_def by (simp add: sl z(1))
qed

text \<open>The blocks a transaction may have to log besides \<open>X\<close>: the indirect block of the file.\<close>

definition logs_in :: "nat \<Rightarrow> uint set \<Rightarrow> 'z fs_state_scheme \<Rightarrow> bool" where
  "logs_in ip X s \<longleftrightarrow> finite X \<and> bitmap_blocks (sb s) \<subseteq> X \<and> hset s \<subseteq> X \<union> ({indirect_of s ip} - {0})"

lemma logs_in_card:
  assumes "logs_in ip X s"
  shows "card (hset s \<union> bitmap_blocks (sb s)) \<le> Suc (card X)" "card (insert (indirect_of s ip) (hset s \<union> bitmap_blocks (sb s))) \<le> Suc (card X)"
    "indirect_of s ip = 0 \<Longrightarrow> card (hset s \<union> bitmap_blocks (sb s)) \<le> card X"
proof -
  have f: "finite X" using assms by (simp add: logs_in_def)
  have "card (hset s \<union> bitmap_blocks (sb s)) \<le> card (insert (indirect_of s ip) X)"
    by (rule card_mono) (use assms f in \<open>auto simp: logs_in_def\<close>)
  moreover have "card (insert (indirect_of s ip) (hset s \<union> bitmap_blocks (sb s))) \<le> card (insert (indirect_of s ip) X)"
    by (rule card_mono) (use assms f in \<open>auto simp: logs_in_def\<close>)
  ultimately show "card (hset s \<union> bitmap_blocks (sb s)) \<le> Suc (card X)"
    "card (insert (indirect_of s ip) (hset s \<union> bitmap_blocks (sb s))) \<le> Suc (card X)"
    using f by (auto simp: card_insert_if split: if_splits)
  show "card (hset s \<union> bitmap_blocks (sb s)) \<le> card X" if "indirect_of s ip = 0"
    by (rule card_mono [OF f]) (use assms that in \<open>auto simp: logs_in_def\<close>)
qed

lemma bmap_number:
  assumes "k < MAXFILE"
  shows "unat (of_nat k :: uint) = k" "(of_nat k :: uint) < of_nat NDIRECT \<longleftrightarrow> k < NDIRECT"
    "NDIRECT \<le> k \<Longrightarrow> unat (of_nat k - of_nat NDIRECT :: uint) = k - NDIRECT"
    "NDIRECT \<le> k \<Longrightarrow> (of_nat k - of_nat NDIRECT :: uint) < of_nat NINDIRECT"
proof -
  show u: "unat (of_nat k :: uint) = k" using assms by (simp add: unat_of_nat file_consts)
  then show "(of_nat k :: uint) < of_nat NDIRECT \<longleftrightarrow> k < NDIRECT" by (simp add: word_less_nat_alt file_consts)
  show d: "unat (of_nat k - of_nat NDIRECT :: uint) = k - NDIRECT" if "NDIRECT \<le> k"
    using that u by (subst unat_sub) (simp_all add: word_le_nat_alt file_consts)
  show "(of_nat k - of_nat NDIRECT :: uint) < of_nat NINDIRECT" if "NDIRECT \<le> k"
    using d [OF that] assms that by (simp add: word_less_nat_alt file_consts)
qed

lemma bmap_direct:
  assumes tx: "tx {} s" and wf: "file_wf s ip" and k: "k < NDIRECT" and X: "logs_in ip X s" "Suc (Suc (card X)) \<le> tx_cap s"
    and fr: "free_set s \<noteq> {}"
  shows "\<exists>a t. bmap ip (of_nat k) s = Ret a t \<and> tx {} t \<and> mapped ip s (bslot k) a t"
proof -
  have n: "k < MAXFILE" "bslot k = k" using k by (simp_all add: file_consts bslot_def)
  have a: "slot_of s ip k = i_addrs (itable s ip) ! k" using k by (simp add: slot_of_def fslot_def)
  have dv: "i_dev (itable s ip) = ROOTDEV" using wf by (simp add: file_wf_def)
  show ?thesis
  proof (cases "slot_of s ip k = 0")
    case True
    have "card (hset s \<union> bitmap_blocks (sb s)) < tx_cap s" using logs_in_card(1) [OF X(1)] X(2) by linarith
    then obtain b t u where t: "balloc ROOTDEV s = Ret b t" "b \<noteq> 0"
      "u = t\<lparr>itable := (itable t)(ip := (itable t ip)\<lparr>i_addrs := (i_addrs (itable t ip))[k := b]\<rparr>)\<rparr>" "tx {} u" "grown ip s k b u"
      using grow_addr [OF tx _ _ _ wf _ True fr] k by auto
    then have "bmap ip (of_nat k) s = Ret b u"
      using True bmap_number(1,2) [OF n(1)] k dv by (simp add: bmap_def kop_simps a Let_def)
    moreover have "mapped ip s k b u" using mapped_grown [OF t(5)] True k by (simp add: file_consts)
    ultimately show ?thesis using t(4) n(2) by auto
  next
    case False
    then have "bmap ip (of_nat k) s = Ret (slot_of s ip k) s"
      using bmap_number(1,2) [OF n(1)] k by (simp add: bmap_def kop_simps a Let_def)
    then show ?thesis using tx mapped_same [OF wf tframe_refl refl refl False] n(2) by auto
  qed
qed

lemma grown_frame:
  assumes wf: "file_wf s ip" and st: "tframe s t" "view t = view s" "hset t = hset s" and g: "grown ip t j a u"
    and uv: "tframe u v" "view v = view u" "hset v = hset u"
  shows "grown ip s j a v"
proof -
  note w1 = file_wf_frame [OF wf st(1,2)]
  have wu: "file_wf u ip" using g by (simp add: grown_def)
  note w2 = file_wf_frame [OF wu uv(1,2)]
  have "iframe ip s v" using g iframe_trans [OF iframe_trans [OF iframe_tframe [OF st(1)]] iframe_tframe [OF uv(1)]]
    by (simp add: grown_def)
  moreover have "sb t = sb s" "itable t = itable s" "itable v = itable u" using tframe_fs st(1) uv(1) by blast+
  ultimately show ?thesis using g w2(1) unfolding grown_def w2(2-4) w1(2-4) st(2,3) uv(2,3) by simp
qed

definition bmap_entry :: "nat \<Rightarrow> uint \<Rightarrow> (uint, 'z fs_state_scheme) kop" where
  "bmap_entry e x =
     bnd (bread ROOTDEV x) (\<lambda>bp.
     bnd (get_data bp) (\<lambda>a.
     bnd (if get_indirect a e = 0 then
            bnd (balloc ROOTDEV) (\<lambda>addr.
            thn (whenk (addr \<noteq> 0)
                  (bnd (get_data bp) (\<lambda>a.
                   thn (set_data bp (put32 (4 * e) addr a)) (log_write bp))))
                (ret addr))
          else ret (get_indirect a e)) (\<lambda>addr.
     thn (brelse bp) (ret addr))))"

lemma bmap_entry_law:
  assumes tx: "tx {} s" and wf: "file_wf s ip" and e: "e < NINDIRECT" and x: "indirect_of s ip = x" "x \<noteq> 0"
    and fr: "free_set s \<noteq> {}" and cp: "Suc (card (insert x (hset s \<union> bitmap_blocks (sb s)))) \<le> tx_cap s"
  shows "\<exists>a t. bmap_entry e x s = Ret a t \<and> tx {} t \<and>
    (if slot_of s ip (e + 13) = 0 then grown ip s (e + 13) a t
     else a = slot_of s ip (e + 13) \<and> tframe s t \<and> view t = view s \<and> hset t = hset s)"
proof -
  have j: "NDIRECT < e + 13" "e + 13 \<le> MAXFILE" "e + 13 - NDIRECT - 1 = e" using e by (simp_all add: file_consts)
  have sl: "slot_of s ip (e + 13) = get_indirect (view s x) e"
    using x j(3) unfolding indirect_of_eq by (simp add: slot_of_def fslot_def file_consts)
  show ?thesis
  proof (cases "slot_of s ip (e + 13) = 0")
    case True
    obtain i t where t: "bread ROOTDEV x s = Ret i t" "tx {x} t" "tframe s t" "view t = view s" "hset t = hset s" "hold t i x"
      using tn.rd_law [OF tx, of x] by auto
    note w = file_wf_frame [OF wf t(3,4)]
    have sbt: "sb t = sb s" by (rule tframe_fs(1) [OF t(3)])
    have xf: "inuse t x" "x \<notin> bitmap_blocks (sb t)"
      using file_wf_slot [OF wf, of NDIRECT] x by (auto simp: file_consts w sbt)
    have cp': "Suc (card (insert x (hset t \<union> bitmap_blocks (sb t)))) \<le> tx_cap t"
      using cp tframe_logs(5) [OF t(3)] by (simp add: t(5) sbt)
    obtain a u v where u: "balloc ROOTDEV t = Ret a u" "a \<noteq> 0" "get_data i u = Ret (view t x) u"
      "thn (set_data i (put32 (4 * e) a (view t x))) (log_write i) u = Ret () v" "tx {x} v" "grown ip t (e + 13) a v" "hold v i x"
      using grow_entry [OF t(2) _ _ _ w(1) j(1,2) _ _ _ x(2) t(6) cp'] True xf fr x(1) unfolding j(3) w by auto
    obtain r where r: "brelse i v = Ret () r" "tx {} r" "tframe v r" "view r = view v" "hset r = hset v"
      using tn.rls_law [OF u(5,7)] by auto
    have "bmap_entry e x s = Ret a r"
      using t(1) tn.get_law [OF t(2,6)] u(1-4) r(1) True by (simp add: bmap_entry_def kop_simps sl t(4))
    then show ?thesis using r(2) True grown_frame [OF wf t(3-5) u(6) r(3-5)] by auto
  next
    case False
    obtain i t u where t: "bread ROOTDEV x s = Ret i t" "get_data i t = Ret (view s x) t" "brelse i t = Ret () u" "tx {} u" "tframe s u"
      "view u = view s" "hset u = hset s" using tn.look [OF tx, of x] by (metis card.empty empty_iff zero_le)
    then have "bmap_entry e x s = Ret (slot_of s ip (e + 13)) u" using False by (simp add: bmap_entry_def kop_simps sl)
    then show ?thesis using t(4-7) False by auto
  qed
qed

lemma bmap_beyond:
  assumes "NDIRECT \<le> k" "k < MAXFILE" "i_dev (itable s ip) = ROOTDEV"
  shows "bmap ip (of_nat k) s =
    bnd (if indirect_of s ip = 0 then
           bnd (balloc ROOTDEV) (\<lambda>addr.
           thn (whenk (addr \<noteq> 0) (set_inode ip (\<lambda>i. i\<lparr>i_addrs := (i_addrs i)[NDIRECT := addr]\<rparr>)))
               (ret addr))
         else ret (indirect_of s ip)) (\<lambda>addr.
    if addr = 0 then ret 0 else bmap_entry (k - NDIRECT) addr) s"
  using bmap_number [OF assms(2)] assms(1,3)
  by (simp add: bmap_def bmap_entry_def kop_simps Let_def indirect_of_eq cong: if_cong)

lemma bmap_indirect:
  assumes tx: "tx {} s" and wf: "file_wf s ip" and k: "NDIRECT \<le> k" "k < MAXFILE" and X: "logs_in ip X s" "Suc (Suc (card X)) \<le> tx_cap s"
    and fr: "(if indirect_of s ip = 0 then 2 else 1) \<le> card (free_set s)"
  shows "\<exists>a t. bmap ip (of_nat k) s = Ret a t \<and> tx {} t \<and> mapped ip s (bslot k) a t"
proof -
  have dv: "i_dev (itable s ip) = ROOTDEV" using wf by (simp add: file_wf_def)
  let ?e = "k - NDIRECT"
  have e: "?e < NINDIRECT" "?e + 13 = bslot k" "bslot k \<noteq> NDIRECT" "NDIRECT < bslot k" "bslot k \<le> MAXFILE"
    using k by (simp_all add: file_consts bslot_def)
  have fs: "free_set s \<noteq> {}" using fr by (auto split: if_splits)
  show ?thesis
  proof (cases "indirect_of s ip = 0")
    case True
    have "card (hset s \<union> bitmap_blocks (sb s)) < tx_cap s" using logs_in_card(1) [OF X(1)] X(2) by linarith
    then obtain x t u where t: "balloc ROOTDEV s = Ret x t" "x \<noteq> 0"
      "u = t\<lparr>itable := (itable t)(ip := (itable t ip)\<lparr>i_addrs := (i_addrs (itable t ip))[NDIRECT := x]\<rparr>)\<rparr>" "tx {} u" "grown ip s NDIRECT x u"
      using grow_addr [OF tx _ _ _ wf _ True fs] by auto
    have u: "file_wf u ip" "indirect_of u ip = x" "slot_of u ip (bslot k) = 0" "sb u = sb s" "tx_cap u = tx_cap s"
      using t(5) e True iframe_facts(1,2) [of ip s u]
      by (simp_all add: grown_def file_consts) (simp add: slot_of_def fslot_def file_consts)
    have "card (free_set u) = card (free_set s) - 1" using card_free_grown [OF t(5)] by simp
    then have fu: "free_set u \<noteq> {}" using fr True by auto
    have "insert x (hset u \<union> bitmap_blocks (sb u)) \<subseteq> insert x (hset s \<union> bitmap_blocks (sb s))"
      using t(5) u(2,4) by (auto simp: grown_def)
    then have "card (insert x (hset u \<union> bitmap_blocks (sb u))) \<le> card (insert x (hset s \<union> bitmap_blocks (sb s)))"
      by (intro card_mono) simp_all
    also have "\<dots> \<le> Suc (card X)" using logs_in_card(3) [OF X(1) True] by (simp add: card_insert_if)
    finally have cp: "Suc (card (insert x (hset u \<union> bitmap_blocks (sb u)))) \<le> tx_cap u" using X(2) u(5) by simp
    obtain a v where v: "bmap_entry ?e x u = Ret a v" "tx {} v" "grown ip u (bslot k) a v"
      using bmap_entry_law [OF t(4) u(1) e(1) u(2) t(2) fu cp] u(3) unfolding e(2) by auto
    have "bmap ip (of_nat k) s = Ret a v"
      using bmap_beyond [OF k dv] True t(1,2) v(1) by (simp add: kop_simps t(3) [symmetric])
    then show ?thesis using v(2) mapped_grown_twice [OF t(5) v(3) e(4,5) True wf] by blast
  next
    case False
    have cp: "Suc (card (insert (indirect_of s ip) (hset s \<union> bitmap_blocks (sb s)))) \<le> tx_cap s"
      using logs_in_card(2) [OF X(1)] X(2) by linarith
    obtain a v where v: "bmap_entry ?e (indirect_of s ip) s = Ret a v" "tx {} v"
      "if slot_of s ip (bslot k) = 0 then grown ip s (bslot k) a v
       else a = slot_of s ip (bslot k) \<and> tframe s v \<and> view v = view s \<and> hset v = hset s"
      using bmap_entry_law [OF tx wf e(1) refl False fs cp] unfolding e(2) by auto
    have "bmap ip (of_nat k) s = Ret a v" using bmap_beyond [OF k dv] False v(1) by (simp add: kop_simps)
    moreover have "mapped ip s (bslot k) a v"
      using v(3) mapped_grown [of ip s "bslot k" a v] mapped_same [OF wf, of v "bslot k"] e by (auto split: if_splits)
    ultimately show ?thesis using v(2) by blast
  qed
qed

lemma bmap_law:
  assumes "tx {} s" "file_wf s ip" "k < MAXFILE" "logs_in ip X s" "Suc (Suc (card X)) \<le> tx_cap s"
    "(if indirect_of s ip = 0 then 2 else 1) \<le> card (free_set s)"
  obtains a t where "bmap ip (of_nat k) s = Ret a t" "tx {} t" "mapped ip s (bslot k) a t"
proof -
  have "free_set s \<noteq> {}" using assms(6) by (auto split: if_splits)
  then show ?thesis
    using bmap_direct [OF assms(1,2) _ assms(4,5)] bmap_indirect [OF assms(1,2) _ assms(3-6)] that by (metis not_le_imp_less)
qed

end
