(* ===== verification/Fsio.thy ===== *)
theory Fsio
  imports Fsfile
begin

text \<open>
  \<open>readi\<close>, \<open>writei\<close> and \<open>iupdate\<close> as operations on the bytes of a file.
\<close>

section \<open>Where the bytes come from and go to\<close>

definition user_root :: "'z proc_state_scheme \<Rightarrow> pagetable_t" where
  "user_root s = p_pagetable (procs s (the (cproc (mycpu s))))"

text \<open>The source holds the bytes \<open>bs\<close>: in a local variable, in kernel memory, or in user memory.\<close>

fun src_holds :: "source \<Rightarrow> uint8 list \<Rightarrow> 'z proc_state_scheme \<Rightarrow> bool" where
  "src_holds (LocalSrc cs) bs s \<longleftrightarrow> cs = bs"
| "src_holds (KernelSrc a) bs s \<longleftrightarrow> load_bytes (mem s) a (length bs) = bs"
| "src_holds (UserSrc a) bs s \<longleftrightarrow> (\<exists>own. pt_ok (mem s) (user_root s) own \<and> um_ok (mem s) (user_root s) own \<and>
     urange (mem s) (user_root s) a (length bs) \<and> map Some bs = uread (mem s) (user_root s) a (length bs))"

lemma urange_part:
  assumes "urange m root a n" "tot + k \<le> n"
  shows "urange m root (a + of_nat tot) k"
proof -
  have "unat a + n \<le> 2 ^ 38" using assms(1) by (simp add: urange_def)
  then have "unat a + tot < 2 ^ 64" using assms(2) by simp
  then have "unat (a + of_nat tot) = unat a + tot" by (simp add: unat_word_ariths unat_of_nat)
  then show ?thesis using assms by (auto simp: urange_def)
qed

lemma uread_part:
  assumes "tot + k \<le> n"
  shows "uread m root (a + of_nat tot) k = slice tot k (uread m root a n)"
  using assms by (intro nth_equalityI) (auto simp: uread_def nth_slice add.assoc)

lemma source_copy_ok:
  assumes "src_holds src bs s" "calm s" "tot + k \<le> length bs"
  shows "source_copy src tot k s = Ret (0, slice tot k bs) (tch s)"
proof -
  obtain p where p: "cproc (mycpu s) = Some p" using assms(2) by (auto simp: calm_def)
  have q: "cur_proc s = Ret p (tch s)" using p assms(2) by (simp add: calm_def kop_simps)
  show ?thesis
  proof (cases src)
    case (UserSrc a)
    obtain own where u: "pt_ok (mem s) (user_root s) own" "um_ok (mem s) (user_root s) own"
      "urange (mem s) (user_root s) a (length bs)" "map Some bs = uread (mem s) (user_root s) a (length bs)"
      using assms(1) UserSrc by auto
    have m: "mem (tch s) = mem s" by (simp add: state_simps)
    obtain cs where cs: "copyin (user_root s) (a + of_nat tot) k (tch s) = Ret (0, cs) (tch s)"
      "map Some cs = uread (mem s) (user_root s) (a + of_nat tot) k"
      using copyin_ok [of "tch s" "user_root s" own] u(1,2) urange_part [OF u(3) assms(3)] unfolding m by blast
    have "map Some cs = map Some (slice tot k bs)"
      unfolding cs(2) uread_part [OF assms(3)] u(4) [symmetric] by (simp add: slice_def take_map drop_map)
    then have "cs = slice tot k bs" by (simp add: inj_map_eq_map)
    then show ?thesis using cs(1) p UserSrc by (simp add: either_copyin_def q kop_simps user_root_def state_simps)
  next
    case (KernelSrc a)
    then have b: "load_bytes (mem s) a (length bs) = bs" using assms(1) by simp
    have "load_bytes (mem s) (a + of_nat tot) k = slice tot k bs"
    proof (rule nth_equalityI)
      fix i assume "i < length (load_bytes (mem s) (a + of_nat tot) k)"
      then show "load_bytes (mem s) (a + of_nat tot) k ! i = slice tot k bs ! i"
        using arg_cong [OF b, of "\<lambda>l. l ! (tot + i)"] assms(3) by (simp add: nth_slice add.assoc)
    qed (use assms(3) in simp)
    then show ?thesis using KernelSrc by (simp add: either_copyin_def q kop_simps state_simps)
  qed (use assms(1) q in \<open>simp add: kop_simps\<close>)
qed

lemma tframe_user:
  assumes "tframe s t"
  shows "mem t = mem s" "user_root t = user_root s" "calm t = calm s"
proof -
  have b: "bframe (s\<lparr>logs := logs t\<rparr>) t" using assms by (simp add: tframe_def)
  note f = bframe_state [OF b]
  show "mem t = mem s" using f(9) by simp
  have c: "cproc (mycpu t) = cproc (mycpu s)" using f(7) by (simp add: state_simps)
  have "procs t p = (procs s p)\<lparr>p_state := p_state (procs t p)\<rparr>" for p using b by (simp add: bframe_def same_procs_def)
  from arg_cong [OF this, of p_pagetable] show "user_root t = user_root s" by (simp add: user_root_def c)
  show "calm t = calm s" using f(13) by (simp add: calm_def procs_free_def state_simps)
qed

lemma user_root_itable [simp]: "user_root (s\<lparr>itable := f\<rparr>) = user_root s"
  by (simp add: user_root_def state_simps)

lemma iframe_user:
  assumes "iframe ip s t"
  shows "mem t = mem s" "user_root t = user_root s"
  using tframe_user [of "s\<lparr>itable := itable t\<rparr>" t] assms by (simp_all add: iframe_def)

lemma src_holds_frame: "iframe ip s t \<Longrightarrow> src_holds src bs t = src_holds src bs s"
  by (cases src) (simp_all add: iframe_user)

lemma tx_calm: "tx H s \<Longrightarrow> calm s"
  by (simp add: tx_def bio_ok_def bio_ready_def)

section \<open>The bytes of a file\<close>

definition fbyte :: "'z fs_state_scheme \<Rightarrow> nat \<Rightarrow> nat \<Rightarrow> uint8" where
  "fbyte s ip p = (let a = slot_of s ip (bslot (p div BSIZE)) in if a = 0 then 0 else view s a ! (p mod BSIZE))"

lemma bslot_facts: "k < MAXFILE \<Longrightarrow> bslot k \<le> MAXFILE" "bslot k \<noteq> NDIRECT" "bslot k = bslot l \<longleftrightarrow> k = l"
  by (auto simp: bslot_def file_consts)

lemma file_block: "p < MAXFILE * BSIZE \<Longrightarrow> p div BSIZE < MAXFILE"
  by (simp add: file_consts div_less_iff_less_mult)

lemma data_slot:
  assumes "file_wf s ip" "k < MAXFILE" "slot_of s ip (bslot k) \<noteq> 0"
  shows "inuse s (slot_of s ip (bslot k))" "slot_of s ip (bslot k) \<notin> bitmap_blocks (sb s)" "slot_of s ip (bslot k) \<noteq> indirect_of s ip"
    "slot_of s ip (bslot k) \<noteq> IBLOCK (i_inum (itable s ip)) (sb s)"
    "l < MAXFILE \<Longrightarrow> slot_of s ip (bslot l) = slot_of s ip (bslot k) \<Longrightarrow> l = k"
proof -
  note f = file_wf_slot [OF assms(1) bslot_facts(1) [OF assms(2)] assms(3)]
  show "inuse s (slot_of s ip (bslot k))" "slot_of s ip (bslot k) \<notin> bitmap_blocks (sb s)"
    "slot_of s ip (bslot k) \<noteq> IBLOCK (i_inum (itable s ip)) (sb s)" by (rule f)+
  show "slot_of s ip (bslot k) \<noteq> indirect_of s ip" using f(4) [of NDIRECT] bslot_facts(2) [of k] by (auto simp: file_consts)
  show "l < MAXFILE \<Longrightarrow> slot_of s ip (bslot l) = slot_of s ip (bslot k) \<Longrightarrow> l = k"
    using f(4) [of "bslot l"] bslot_facts(1) [of l] bslot_facts(3) [of k l] by auto
qed

lemma mapped_bytes:
  assumes m: "mapped ip s (bslot k) a t" and wf: "file_wf s ip" and p: "p < MAXFILE * BSIZE" and k: "k < MAXFILE"
  shows "fbyte t ip p = fbyte s ip p"
proof (cases "p div BSIZE = k")
  case True
  have "zero_block ! (p mod BSIZE) = 0" by (simp add: zero_block_def file_consts)
  then show ?thesis using m True by (auto simp: mapped_def fbyte_def Let_def)
next
  case False
  let ?j = "bslot (p div BSIZE)"
  have q: "p div BSIZE < MAXFILE" by (rule file_block [OF p])
  have e: "slot_of t ip ?j = slot_of s ip ?j"
    using m bslot_facts(1) [OF q] bslot_facts(2) [of "p div BSIZE"] bslot_facts(3) [of "p div BSIZE" k] False by (simp add: mapped_def)
  show ?thesis
  proof (cases "slot_of s ip ?j = 0")
    case nz: False
    note d = data_slot [OF wf q nz]
    have "view t (slot_of s ip ?j) = view s (slot_of s ip ?j)" using m d(1-3) by (simp add: mapped_def)
    then show ?thesis by (simp add: fbyte_def e Let_def)
  qed (simp add: fbyte_def e)
qed

text \<open>A block outside the free map and other than the indirect block gets new contents.\<close>

lemma file_change:
  assumes wf: "file_wf s ip" and fr: "tframe s t" and a: "a \<notin> bitmap_blocks (sb s)" "indirect_of s ip \<noteq> 0 \<longrightarrow> a \<noteq> indirect_of s ip"
    and v: "view t = (view s)(a := d)"
  shows "file_wf t ip" "slot_of t ip = slot_of s ip" "free_set t = free_set s" "inuse t = inuse s"
proof -
  note f = tframe_fs [OF fr]
  have u: "used t b = used s b" if "b < sb_size (sb s)" for b
    using in_bitmap [OF that] a(1) by (auto simp: used_def f v)
  show "free_set t = free_set s" by (auto simp: free_set_def u f)
  show i: "inuse t = inuse s" by (auto simp: fun_eq_iff inuse_def u f)
  show l: "slot_of t ip = slot_of s ip"
    using a(2) unfolding indirect_of_eq by (auto simp: fun_eq_iff slot_of_def fslot_def f v)
  show "file_wf t ip" using wf unfolding file_wf_def meta_def i l f .
qed

lemma file_put_bytes:
  assumes wf: "file_wf s ip" and fr: "tframe s t" and k: "k < MAXFILE" "slot_of s ip (bslot k) = a" "a \<noteq> 0"
    and v: "view t = (view s)(a := d)" and p: "p < MAXFILE * BSIZE"
  shows "fbyte t ip p = (if p div BSIZE = k then d ! (p mod BSIZE) else fbyte s ip p)"
proof -
  note ds = data_slot [OF wf k(1), unfolded k(2), OF k(3)]
  have l: "slot_of t ip = slot_of s ip" by (rule file_change [OF wf fr ds(2) _ v]) (use ds(3) in simp)
  have "slot_of s ip (bslot (p div BSIZE)) \<noteq> a" if "p div BSIZE \<noteq> k" using ds(5) [OF file_block [OF p]] that by blast
  then show ?thesis using k(2,3) by (auto simp: fbyte_def l v Let_def)
qed

section \<open>Writing\<close>

lemma blk_round:
  assumes "0 < n" "off mod BSIZE + n \<le> m * BSIZE"
  shows "off mod BSIZE + blk_chunk off n \<le> BSIZE" "0 < blk_chunk off n" "blk_chunk off n \<le> n"
    "n - blk_chunk off n = 0 \<or> (off + blk_chunk off n) mod BSIZE = 0" "0 < m"
    "n - blk_chunk off n = 0 \<or> (off + blk_chunk off n) mod BSIZE + (n - blk_chunk off n) \<le> (m - 1) * BSIZE"
proof -
  have lt: "off mod BSIZE < BSIZE" by (simp add: file_consts)
  show "off mod BSIZE + blk_chunk off n \<le> BSIZE" using lt by (simp add: blk_chunk_def)
  show "0 < blk_chunk off n" by (rule blk_chunk_pos [OF assms(1)])
  show "blk_chunk off n \<le> n" by (simp add: blk_chunk_def)
  show m: "0 < m" using assms by (cases m) auto
  show z: "n - blk_chunk off n = 0 \<or> (off + blk_chunk off n) mod BSIZE = 0"
  proof (cases "n \<le> BSIZE - off mod BSIZE")
    case False
    then have "blk_chunk off n = BSIZE - off mod BSIZE" by (simp add: blk_chunk_def)
    moreover have "off div BSIZE * BSIZE + off mod BSIZE = off" "(off div BSIZE + 1) * BSIZE = off div BSIZE * BSIZE + BSIZE" by simp_all
    ultimately have "off + blk_chunk off n = (off div BSIZE + 1) * BSIZE" using lt by linarith
    then show ?thesis by simp
  qed (simp add: blk_chunk_def)
  show "n - blk_chunk off n = 0 \<or> (off + blk_chunk off n) mod BSIZE + (n - blk_chunk off n) \<le> (m - 1) * BSIZE"
    using z assms(2) lt m by (auto simp: blk_chunk_def min_def diff_mult_distrib split: if_splits)
qed

lemma chunk_bytes:
  assumes "off mod BSIZE + c \<le> BSIZE" "0 < c"
  shows "off \<le> p \<and> p < off + c \<longleftrightarrow> p div BSIZE = off div BSIZE \<and> off mod BSIZE \<le> p mod BSIZE \<and> p mod BSIZE < off mod BSIZE + c"
    "p div BSIZE = off div BSIZE \<Longrightarrow> off \<le> p \<Longrightarrow> p mod BSIZE - off mod BSIZE = p - off"
proof -
  have e: "off = 1024 * (off div 1024) + off mod 1024" "p = 1024 * (p div 1024) + p mod 1024" by simp_all
  have l: "off mod 1024 < 1024" "p mod 1024 < 1024" by simp_all
  consider "p div 1024 + 1 \<le> off div 1024" | "p div 1024 = off div 1024" | "off div 1024 + 1 \<le> p div 1024" by linarith
  then show "off \<le> p \<and> p < off + c \<longleftrightarrow> p div BSIZE = off div BSIZE \<and> off mod BSIZE \<le> p mod BSIZE \<and> p mod BSIZE < off mod BSIZE + c"
    using assms unfolding file_consts by cases (use e l in linarith)+
  show "p mod BSIZE - off mod BSIZE = p - off" if "p div BSIZE = off div BSIZE" "off \<le> p"
    using that e unfolding file_consts by linarith
qed

lemma write_round:
  fixes s :: "'z fs_state_scheme"
  assumes tx: "tx {} s" and h: "src_holds src bs s" "tot + c \<le> length bs" "q + c \<le> BSIZE" and cp: "card (insert a (hset s)) \<le> tx_cap s"
  obtains i t u v where "bread ROOTDEV a s = Ret i t" "source_copy src tot c t = Ret (0, slice tot c bs) (tch t)"
    "get_data i (tch t) = Ret (view s a) (tch t)"
    "thn (set_data i (splice q (slice tot c bs) (view s a))) (log_write i) (tch t) = Ret () u" "brelse i u = Ret () v"
    "tx {} v" "tframe s v" "view v = (view s)(a := splice q (slice tot c bs) (view s a))" "hset v = insert a (hset s)"
proof -
  let ?d = "splice q (slice tot c bs) (view s a)"
  obtain i t where t: "bread ROOTDEV a s = Ret i t" "tx {a} t" "tframe s t" "view t = view s" "hset t = hset s" "hold t i a"
    using tn.rd_law [OF tx, of a] by auto
  have "src_holds src bs t" using src_holds_frame [OF iframe_tframe [OF t(3)]] h(1) by blast
  then have sc: "source_copy src tot c t = Ret (0, slice tot c bs) (tch t)" by (rule source_copy_ok [OF _ tx_calm [OF t(2)] h(2)])
  have k: "tx {a} (tch t)" "hold (tch t) i a" using t(2,6) by simp_all
  have f: "tframe s (tch t)" by (rule tframe_trans [OF t(3) tframe_tch])
  have l: "length ?d = BSIZE" using h(2,3) tn.size_law [OF tx, of a] by simp
  have cp': "card (insert a (hset (tch t))) \<le> tx_cap (tch t)" using cp t(5) tframe_logs(5) [OF f] by simp
  obtain u where u: "thn (set_data i ?d) (log_write i) (tch t) = Ret () u" "tx {a} u" "tframe (tch t) u" "view u = (view s)(a := ?d)"
    "hset u = insert a (hset s)" "hold u i a"
    using tn.put_law [OF k l cp'] k(2) t(4,5) by auto
  obtain v where "brelse i u = Ret () v" "tx {} v" "tframe u v" "view v = view u" "hset v = hset u"
    using tn.rls_law [OF u(2,6)] by auto
  moreover have "get_data i (tch t) = Ret (view s a) (tch t)" using tn.get_law [OF k] t(4) by simp
  moreover have "tframe s v" using tframe_trans [OF tframe_trans [OF f u(3)]] calculation by blast
  ultimately show ?thesis using that t(1) sc u(1,4,5) by metis
qed

text \<open>What a write to the file leaves: the new bytes, the other bytes and the blocks of other files as they were.\<close>

definition wrote :: "nat \<Rightarrow> 'z fs_state_scheme \<Rightarrow> nat \<Rightarrow> uint8 list \<Rightarrow> 'z fs_state_scheme \<Rightarrow> bool" where
  "wrote ip s off bs t \<longleftrightarrow> off + length bs \<le> MAXFILE * BSIZE \<and> iframe ip s t \<and> file_wf t ip \<and> i_size (itable t ip) = i_size (itable s ip) \<and>
     (\<forall>p < MAXFILE * BSIZE. fbyte t ip p = (if off \<le> p \<and> p < off + length bs then bs ! (p - off) else fbyte s ip p)) \<and>
     (\<forall>k < MAXFILE. slot_of s ip (bslot k) \<noteq> 0 \<longrightarrow> slot_of t ip (bslot k) \<noteq> 0) \<and>
     (\<forall>p. off \<le> p \<longrightarrow> p < off + length bs \<longrightarrow> slot_of t ip (bslot (p div BSIZE)) \<noteq> 0) \<and>
     (\<forall>b. inuse s b \<longrightarrow> b \<notin> bitmap_blocks (sb s) \<longrightarrow> b \<notin> slot_of s ip ` {..MAXFILE} \<longrightarrow> view t b = view s b) \<and>
     (\<forall>j\<le>MAXFILE. slot_of t ip j = slot_of s ip j \<or> slot_of t ip j \<in> free_set s) \<and>
     (\<forall>b. inuse s b \<longrightarrow> inuse t b) \<and> (\<forall>b. view t b \<noteq> view s b \<longrightarrow> b \<in> hset t) \<and> hset s \<subseteq> hset t"

lemma free_set_mono:
  assumes "\<And>b. inuse s b \<Longrightarrow> inuse t b" "sb t = sb s"
  shows "free_set t \<subseteq> free_set s"
  using assms by (auto simp: free_set_def inuse_def)

lemma wrote_trans:
  assumes w: "wrote ip s off bs t" "wrote ip t (off + length bs) cs u"
  shows "wrote ip s off (bs @ cs) u"
proof -
  have bt: "sb t = sb s" using w(1) iframe_facts(1) [of ip s t] by (simp add: wrote_def)
  have iu: "inuse t b" if "inuse s b" for b using w(1) that by (simp add: wrote_def)
  have fr: "free_set t \<subseteq> free_set s" by (rule free_set_mono [OF iu bt])
  have "iframe ip s u" using w iframe_trans [of ip s t u] by (simp add: wrote_def)
  moreover have "file_wf u ip" "i_size (itable u ip) = i_size (itable s ip)" using w by (simp_all add: wrote_def)
  moreover have "fbyte u ip p = (if off \<le> p \<and> p < off + length (bs @ cs) then (bs @ cs) ! (p - off) else fbyte s ip p)"
    if "p < MAXFILE * BSIZE" for p
    using w that by (auto simp: wrote_def nth_append)
  moreover have "slot_of u ip (bslot k) \<noteq> 0" if "k < MAXFILE" "slot_of s ip (bslot k) \<noteq> 0" for k
    using w that by (simp add: wrote_def)
  moreover have "slot_of u ip (bslot (p div BSIZE)) \<noteq> 0" if "off \<le> p" "p < off + length (bs @ cs)" for p
  proof (cases "p < off + length bs")
    case True
    then have "slot_of t ip (bslot (p div BSIZE)) \<noteq> 0" "p < MAXFILE * BSIZE" using w(1) that by (auto simp: wrote_def)
    then show ?thesis using w(2) file_block [of p] by (auto simp: wrote_def)
  qed (use w(2) that in \<open>simp add: wrote_def\<close>)
  moreover have "off + length (bs @ cs) \<le> MAXFILE * BSIZE" using w(2) by (simp add: wrote_def add.assoc)
  moreover have "slot_of u ip j = slot_of s ip j \<or> slot_of u ip j \<in> free_set s" if "j \<le> MAXFILE" for j
    using w that fr unfolding wrote_def by (metis subsetD)
  moreover have "view u b = view s b" if "inuse s b" "b \<notin> bitmap_blocks (sb s)" "b \<notin> slot_of s ip ` {..MAXFILE}" for b
  proof -
    have "b \<notin> slot_of t ip ` {..MAXFILE}"
      using w(1) that(1,3) free_not_inuse [of b s] unfolding wrote_def by (auto simp: image_iff)
    then show ?thesis using w that iu [OF that(1)] by (simp add: wrote_def bt)
  qed
  moreover have "inuse u b" if "inuse s b" for b using w(2) iu [OF that] by (simp add: wrote_def)
  moreover have "b \<in> hset u" if "view u b \<noteq> view s b" for b
  proof (cases "view u b = view t b")
    case True
    then have "b \<in> hset t" using w(1) that by (simp add: wrote_def)
    then show ?thesis using w(2) by (auto simp: wrote_def)
  qed (use w(2) in \<open>simp add: wrote_def\<close>)
  moreover have "hset s \<subseteq> hset u" using w by (auto simp: wrote_def)
  ultimately show ?thesis unfolding wrote_def by blast
qed

lemma wrote_refl: "file_wf s ip \<Longrightarrow> off \<le> MAXFILE * BSIZE \<Longrightarrow> wrote ip s off [] s"
  using iframe_tframe [OF tframe_refl, of ip s] by (auto simp: wrote_def)

lemma round_bytes:
  assumes m: "mapped ip s (bslot k) a t" and wf: "file_wf s ip" and k: "k < MAXFILE" "off div BSIZE = k" and fr: "tframe t u"
    and v: "view u = (view t)(a := splice (off mod BSIZE) bs (view t a))" "length (view t a) = BSIZE"
    and bs: "off mod BSIZE + length bs \<le> BSIZE" "bs \<noteq> []" and p: "p < MAXFILE * BSIZE"
  shows "fbyte u ip p = (if off \<le> p \<and> p < off + length bs then bs ! (p - off) else fbyte s ip p)"
proof -
  let ?o = "off mod BSIZE"
  have wt: "file_wf t ip" and a: "slot_of t ip (bslot k) = a" "a \<noteq> 0" using m by (simp_all add: mapped_def)
  have 1: "fbyte u ip p = (if p div BSIZE = k then splice ?o bs (view t a) ! (p mod BSIZE) else fbyte t ip p)"
    by (rule file_put_bytes [OF wt fr k(1) a v(1) p])
  have 2: "splice ?o bs (view t a) ! (p mod BSIZE) =
      (if ?o \<le> p mod BSIZE \<and> p mod BSIZE < ?o + length bs then bs ! (p mod BSIZE - ?o) else view t a ! (p mod BSIZE))"
    using bs(1) v(2) by (intro nth_splice) (simp_all add: file_consts)
  have 3: "fbyte t ip p = view t a ! (p mod BSIZE)" if "p div BSIZE = k" using a that by (simp add: fbyte_def)
  have 4: "off \<le> p \<and> p < off + length bs \<longleftrightarrow> p div BSIZE = k \<and> ?o \<le> p mod BSIZE \<and> p mod BSIZE < ?o + length bs"
    using chunk_bytes(1) [OF bs(1), of p] bs(2) k(2) by simp
  show ?thesis
  proof (cases "off \<le> p \<and> p < off + length bs")
    case True
    then have "p mod BSIZE - ?o = p - off" using chunk_bytes(2) [OF bs(1), of p] bs(2) k(2) 4 by simp
    then show ?thesis using True 1 2 4 by simp
  next
    case False
    then show ?thesis using 1 2 3 4 mapped_bytes [OF m wf p k(1)] by auto
  qed
qed

lemma round_wrote:
  assumes m: "mapped ip s (bslot k) a t" and wf: "file_wf s ip" and k: "k < MAXFILE" "off div BSIZE = k" and fr: "tframe t u"
    and v: "view u = (view t)(a := splice (off mod BSIZE) bs (view t a))" "length (view t a) = BSIZE" and h: "hset u = insert a (hset t)"
    and bs: "off mod BSIZE + length bs \<le> BSIZE" "bs \<noteq> []"
  shows "wrote ip s off bs u" "free_set u = free_set t" "indirect_of u ip = indirect_of t ip"
proof -
  have wt: "file_wf t ip" and a: "slot_of t ip (bslot k) = a" "a \<noteq> 0" using m by (simp_all add: mapped_def)
  note ds = data_slot [OF wt k(1), unfolded a(1), OF a(2)]
  note c = file_change [OF wt fr ds(2) _ v(1)]
  have cw: "file_wf u ip" "slot_of u ip = slot_of t ip" "free_set u = free_set t" "inuse u = inuse t" by (rule c; use ds(3) in simp)+
  show "free_set u = free_set t" "indirect_of u ip = indirect_of t ip" by (simp_all add: cw)
  have sbt: "sb t = sb s" using m iframe_facts(1) [of ip s t] by (simp add: mapped_def)
  have sz: "i_size (itable u ip) = i_size (itable s ip)" using m tframe_fs(2) [OF fr] by (simp add: mapped_def)
  have en: "off + length bs \<le> MAXFILE * BSIZE"
  proof -
    have "off = 1024 * (off div 1024) + off mod 1024" by simp
    then show ?thesis using bs(1) k unfolding file_consts by linarith
  qed
  note bt = round_bytes [OF m wf k fr v bs]
  have sl: "slot_of u ip (bslot (p div BSIZE)) \<noteq> 0" if "off \<le> p" "p < off + length bs" for p
    using chunk_bytes(1) [OF bs(1), of p] bs(2) that a k(2) by (simp add: cw)
  have sm: "slot_of u ip (bslot l) \<noteq> 0" if "l < MAXFILE" "slot_of s ip (bslot l) \<noteq> 0" for l
    using m that bslot_facts(1) [OF that(1)] bslot_facts(2,3) [of l] by (cases "l = k") (simp_all add: mapped_def cw bslot_facts)
  have vo: "view u b = view s b" if "inuse s b" "b \<notin> bitmap_blocks (sb s)" "b \<notin> slot_of s ip ` {..MAXFILE}" for b
  proof -
    have "b \<noteq> indirect_of s ip" using that(3) by (auto simp: file_consts)
    moreover have "b \<noteq> a"
    proof
      assume "b = a"
      then have "a \<notin> slot_of s ip ` {..MAXFILE}" "a \<notin> free_set s" using that free_not_inuse by blast+
      then show False using m bslot_facts(1) [OF k(1)] unfolding mapped_def by (metis atMost_iff image_eqI)
    qed
    ultimately show ?thesis using m that by (simp add: mapped_def v(1))
  qed
  have lg: "b \<in> hset u" if "view u b \<noteq> view s b" for b
    using m that by (cases "b = a") (auto simp: mapped_def h v(1))
  have "iframe ip s u" using iframe_trans [OF _ iframe_tframe [OF fr]] m by (simp add: mapped_def)
  moreover have "slot_of u ip j = slot_of s ip j \<or> slot_of u ip j \<in> free_set s" if "j \<le> MAXFILE" for j using m that by (simp add: mapped_def cw)
  moreover have "inuse u b" if "inuse s b" for b using m that by (simp add: mapped_def cw)
  moreover have "hset s \<subseteq> hset u" using m by (auto simp: mapped_def h)
  ultimately show "wrote ip s off bs u" using cw(1) sz en bt sl sm vo lg unfolding wrote_def by blast
qed

lemma off_block: "off < MAXFILE * BSIZE \<Longrightarrow> (of_nat off div of_nat BSIZE :: uint) = of_nat (off div BSIZE)"
  by (simp add: word_unat_eq_iff unat_div unat_of_nat file_consts)

lemma logs_in_mapped:
  assumes "mapped ip s j a t" "logs_in ip X s"
  shows "logs_in ip (insert a X) t"
proof -
  have h: "hset t \<subseteq> insert a (hset s \<union> bitmap_blocks (sb s) \<union> ({indirect_of t ip} - {0}))" "sb t = sb s"
    "indirect_of s ip \<noteq> 0 \<longrightarrow> indirect_of t ip = indirect_of s ip"
    using assms(1) iframe_facts(1) [of ip s t] by (simp_all add: mapped_def)
  have x: "finite X" "bitmap_blocks (sb s) \<subseteq> X" "hset s \<subseteq> X \<union> ({indirect_of s ip} - {0})" using assms(2) by (simp_all add: logs_in_def)
  have "hset s \<subseteq> X \<union> ({indirect_of t ip} - {0})" using x(3) h(3) by auto
  then show ?thesis using h(1,2) x unfolding logs_in_def by auto
qed

lemma logs_in_put:
  assumes "logs_in ip X t" "a \<in> X" "hset u = insert a (hset t)" "sb u = sb t" "indirect_of u ip = indirect_of t ip"
  shows "logs_in ip X u"
  using assms by (auto simp: logs_in_def)

lemma writei_round:
  assumes tx: "tx {} s" and wf: "file_wf s ip" and sh: "src_holds src bs s" and n: "tot < length bs"
    and bl: "off mod BSIZE + (length bs - tot) \<le> m * BSIZE" "off + (length bs - tot) \<le> MAXFILE * BSIZE"
    and X: "logs_in ip X s" "Suc (card X + m) \<le> tx_cap s" and fr: "(if indirect_of s ip = 0 then Suc m else m) \<le> card (free_set s)"
    and c: "c = blk_chunk off (length bs - tot)"
  obtains a t where "writei_loop ip src off tot (length bs) s = writei_loop ip src (off + c) (tot + c) (length bs) t" "tx {} t"
    "wrote ip s off (slice tot c bs) t" "logs_in ip (insert a X) t"
    "(if indirect_of t ip = 0 then m else m - 1) \<le> card (free_set t)"
proof -
  let ?k = "off div BSIZE"
  have "0 < length bs - tot" using n by simp
  note r = blk_round [OF this bl(1), folded c]
  have k: "off < MAXFILE * BSIZE" "?k < MAXFILE" using bl(2) n file_block [of off] by simp_all
  have m: "Suc (Suc (card X)) \<le> tx_cap s" "(if indirect_of s ip = 0 then 2 else 1) \<le> card (free_set s)"
    using X(2) fr r(5) by (auto split: if_splits)
  obtain a t where t: "bmap ip (of_nat ?k) s = Ret a t" "tx {} t" "mapped ip s (bslot ?k) a t"
    using bmap_law [OF tx wf k(2) X(1) m] by metis
  have tf: "iframe ip s t" "file_wf t ip" "a \<noteq> 0" "i_dev (itable t ip) = ROOTDEV" using t(3) by (simp_all add: mapped_def file_wf_def)
  note lx = logs_in_mapped [OF t(3) X(1)]
  have "insert a (hset t) \<subseteq> insert (indirect_of t ip) (insert a X)" "finite X" using lx by (auto simp: logs_in_def)
  then have "card (insert a (hset t)) \<le> card (insert (indirect_of t ip) (insert a X))" by (intro card_mono) auto
  also have "\<dots> \<le> Suc (Suc (card X))" using \<open>finite X\<close> by (simp add: card_insert_if)
  finally have cp: "card (insert a (hset t)) \<le> tx_cap t" using m(1) iframe_facts(2) [OF tf(1)] by linarith
  have st: "src_holds src bs t" using src_holds_frame [OF tf(1)] sh by blast
  have tc: "tot + c \<le> length bs" using r(3) n by simp
  obtain i u v w where w: "bread ROOTDEV a t = Ret i u" "source_copy src tot c u = Ret (0, slice tot c bs) (tch u)"
    "get_data i (tch u) = Ret (view t a) (tch u)"
    "thn (set_data i (splice (off mod BSIZE) (slice tot c bs) (view t a))) (log_write i) (tch u) = Ret () v" "brelse i v = Ret () w"
    "tx {} w" "tframe t w" "view w = (view t)(a := splice (off mod BSIZE) (slice tot c bs) (view t a))" "hset w = insert a (hset t)"
    using write_round [OF t(2) st tc r(1) cp] by metis
  have cs: "length (slice tot c bs) = c" using tc by simp
  then have ne: "slice tot c bs \<noteq> []" using r(2) by auto
  note wr = round_wrote [OF t(3) wf k(2) refl w(7,8) tn.size_law [OF t(2)] w(9), unfolded cs, OF r(1) ne]
  have "writei_loop ip src off tot (length bs) s = writei_loop ip src (off + c) (tot + c) (length bs) w"
    using n t(1) tf(3,4) w(1-5) by (subst writei_loop.simps) (simp add: kop_simps off_block [OF k(1)] c [symmetric])
  moreover have "(if indirect_of w ip = 0 then m else m - 1) \<le> card (free_set w)"
    using t(3) fr r(5) unfolding wr(2,3) mapped_def by (auto split: if_splits)
  moreover have "logs_in ip (insert a X) w" by (rule logs_in_put [OF lx _ w(9) tframe_fs(1) [OF w(7)] wr(3)]) simp
  ultimately show ?thesis using that w(6) wr(1) by blast
qed

lemma writei_loop_law:
  assumes "tx {} s" "file_wf s ip" "src_holds src bs s" "tot \<le> length bs"
    "length bs - tot = 0 \<or> off mod BSIZE + (length bs - tot) \<le> m * BSIZE"
    "off + (length bs - tot) \<le> MAXFILE * BSIZE" "logs_in ip X s" "Suc (card X + m) \<le> tx_cap s"
    "(if indirect_of s ip = 0 then Suc m else m) \<le> card (free_set s)"
  shows "\<exists>t X'. writei_loop ip src off tot (length bs) s = Ret (length bs, off + (length bs - tot)) t \<and> tx {} t \<and>
    wrote ip s off (drop tot bs) t \<and> logs_in ip X' t \<and> card X' \<le> card X + m"
  using assms
proof (induction "length bs - tot" arbitrary: s off tot m X rule: less_induct)
  case less
  show ?case
  proof (cases "tot < length bs")
    case False
    then have "writei_loop ip src off tot (length bs) s = Ret (length bs, off + (length bs - tot)) s"
      using less.prems(4) by (simp add: writei_loop.simps kop_simps)
    then show ?thesis using less.prems wrote_refl [OF less.prems(2), of off] False by (auto intro: le_add1)
  next
    case True
    define c where "c = blk_chunk off (length bs - tot)"
    have n: "0 < length bs - tot" "off mod BSIZE + (length bs - tot) \<le> m * BSIZE" using True less.prems(5) by auto
    note r = blk_round [OF n, folded c_def]
    obtain a t where t: "writei_loop ip src off tot (length bs) s = writei_loop ip src (off + c) (tot + c) (length bs) t" "tx {} t"
      "wrote ip s off (slice tot c bs) t" "logs_in ip (insert a X) t" "(if indirect_of t ip = 0 then m else m - 1) \<le> card (free_set t)"
      using writei_round [OF less.prems(1-3) True n(2) less.prems(6-9) c_def] by metis
    have tf: "iframe ip s t" "file_wf t ip" using t(3) by (simp_all add: wrote_def)
    have cX: "card (insert a X) \<le> Suc (card X)" using less.prems(7) by (simp add: logs_in_def card_insert_if)
    have tc: "tot + c \<le> length bs" using r(3) True by simp
    have e: "length bs - (tot + c) = length bs - tot - c" "off + c + (length bs - (tot + c)) = off + (length bs - tot)" using tc by simp_all
    have "\<exists>u X'. writei_loop ip src (off + c) (tot + c) (length bs) t = Ret (length bs, off + c + (length bs - (tot + c))) u \<and> tx {} u \<and>
      wrote ip t (off + c) (drop (tot + c) bs) u \<and> logs_in ip X' u \<and> card X' \<le> card (insert a X) + (m - 1)"
    proof (rule less.hyps [OF _ t(2) tf(2) _ tc _ _ t(4)])
      show "length bs - (tot + c) < length bs - tot" using r(2) True by simp
      show "src_holds src bs t" using src_holds_frame [OF tf(1)] less.prems(3) by blast
      show "length bs - (tot + c) = 0 \<or> (off + c) mod BSIZE + (length bs - (tot + c)) \<le> (m - 1) * BSIZE" using r(6) unfolding e(1) .
      show "off + c + (length bs - (tot + c)) \<le> MAXFILE * BSIZE" using less.prems(6) e(2) by simp
      show "Suc (card (insert a X) + (m - 1)) \<le> tx_cap t" using cX less.prems(8) r(5) iframe_facts(2) [OF tf(1)] by simp
      show "(if indirect_of t ip = 0 then Suc (m - 1) else m - 1) \<le> card (free_set t)" using t(5) r(5) by (auto split: if_splits)
    qed
    then obtain u X' where u: "writei_loop ip src (off + c) (tot + c) (length bs) t = Ret (length bs, off + (length bs - tot)) u" "tx {} u"
      "wrote ip t (off + c) (drop (tot + c) bs) u" "logs_in ip X' u" "card X' \<le> card (insert a X) + (m - 1)" unfolding e(2) by blast
    have "length (slice tot c bs) = c" "slice tot c bs @ drop (tot + c) bs = drop tot bs"
      using tc append_take_drop_id [of c "drop tot bs"] by (simp_all add: slice_def add.commute)
    then have "wrote ip s off (drop tot bs) u" using wrote_trans [OF t(3), of "drop (tot + c) bs" u] u(3) by simp
    moreover have "card X' \<le> card X + m" using u(5) cX r(5) by simp
    ultimately show ?thesis using t(1) u(1,2,4) by auto
  qed
qed

section \<open>The inode on disk\<close>

lemma slice_put_other:
  "off + 4 \<le> length d \<Longrightarrow> a + n \<le> length d \<Longrightarrow> a + n \<le> off \<or> off + 4 \<le> a \<Longrightarrow> slice a n (put32 off w d) = slice a n d"
  "off + 2 \<le> length d \<Longrightarrow> a + n \<le> length d \<Longrightarrow> a + n \<le> off \<or> off + 2 \<le> a \<Longrightarrow> slice a n (put16 off h d) = slice a n d"
  by (simp_all add: put16_def put32_def slice_splice_other)

lemma put_addrs_upto:
  assumes "oo + 64 \<le> length d" "n \<le> 13" "f = fold (\<lambda>i. put32 (oo + 12 + 4 * i) (as ! i)) [0..<n] d"
  shows "length f = length d" "k < 13 \<Longrightarrow> get32 (oo + 12 + 4 * k) f = (if k < n then as ! k else get32 (oo + 12 + 4 * k) d)"
    "a + l \<le> oo + 12 \<or> oo + 64 \<le> a \<Longrightarrow> a + l \<le> length d \<Longrightarrow> slice a l f = slice a l d"
proof -
  have "length f = length d \<and> (k < 13 \<longrightarrow> get32 (oo + 12 + 4 * k) f = (if k < n then as ! k else get32 (oo + 12 + 4 * k) d)) \<and>
    ((a + l \<le> oo + 12 \<or> oo + 64 \<le> a) \<longrightarrow> a + l \<le> length d \<longrightarrow> slice a l f = slice a l d)"
    using assms(2) unfolding assms(3)
  proof (induction n)
    case (Suc n)
    let ?g = "fold (\<lambda>i. put32 (oo + 12 + 4 * i) (as ! i)) [0..<n] d" and ?e = "oo + 12 + 4 * n"
    have g: "length ?g = length d" "k < 13 \<longrightarrow> get32 (oo + 12 + 4 * k) ?g = (if k < n then as ! k else get32 (oo + 12 + 4 * k) d)"
      "(a + l \<le> oo + 12 \<or> oo + 64 \<le> a) \<longrightarrow> a + l \<le> length d \<longrightarrow> slice a l ?g = slice a l d" using Suc by auto
    have e: "?e + 4 \<le> length d" "?e + 4 \<le> oo + 64" using Suc.prems assms(1) by simp_all
    have f: "fold (\<lambda>i. put32 (oo + 12 + 4 * i) (as ! i)) [0..<Suc n] d = put32 ?e (as ! n) ?g" by simp
    have 1: "k < 13 \<longrightarrow> get32 (oo + 12 + 4 * k) (put32 ?e (as ! n) ?g) = (if k < Suc n then as ! k else get32 (oo + 12 + 4 * k) d)"
    proof (cases "k = n")
      case False
      then have "oo + 12 + 4 * k + 4 \<le> ?e \<or> ?e + 4 \<le> oo + 12 + 4 * k" by linarith
      then show ?thesis using g e False assms(1) get_put_other(2) [of ?e ?g "oo + 12 + 4 * k"] by auto
    qed (use g e in simp)
    have 2: "slice a l (put32 ?e (as ! n) ?g) = slice a l ?g" if "a + l \<le> oo + 12 \<or> oo + 64 \<le> a" "a + l \<le> length d"
      by (rule slice_put_other) (use that g(1) e in auto)
    show ?case unfolding f using g e(1) 1 2 by simp
  qed auto
  then show "length f = length d" "k < 13 \<Longrightarrow> get32 (oo + 12 + 4 * k) f = (if k < n then as ! k else get32 (oo + 12 + 4 * k) d)"
    "a + l \<le> oo + 12 \<or> oo + 64 \<le> a \<Longrightarrow> a + l \<le> length d \<Longrightarrow> slice a l f = slice a l d" by blast+
qed

lemma dinode_put:
  assumes "oo + 64 \<le> length d"
  shows "length (put_dinode oo i d) = length d"
    "a + l \<le> oo \<or> oo + 64 \<le> a \<Longrightarrow> a + l \<le> length d \<Longrightarrow> slice a l (put_dinode oo i d) = slice a l d"
    "length (i_addrs i) = 13 \<Longrightarrow> get_dinode oo (put_dinode oo i d) j = j\<lparr>i_type := i_type i, i_major := i_major i, i_minor := i_minor i,
       i_nlink := i_nlink i, i_size := i_size i, i_addrs := i_addrs i\<rparr>"
proof -
  define h where "h = put32 (oo + 8) (i_size i) (put16 (oo + 6) (i_nlink i) (put16 (oo + 4) (i_minor i)
    (put16 (oo + 2) (i_major i) (put16 oo (i_type i) d))))"
  have lh: "length h = length d" "oo + 64 \<le> length h" using assms by (simp_all add: h_def)
  define f where "f = fold (\<lambda>k. put32 (oo + 12 + 4 * k) (i_addrs i ! k)) [0..<13] h"
  have pf: "put_dinode oo i d = f" by (simp add: f_def put_dinode_def put_addrs_def file_consts h_def)
  note u = put_addrs_upto [OF lh(2) order_refl f_def]
  show "length (put_dinode oo i d) = length d" by (simp add: pf u lh)
  show "slice a l (put_dinode oo i d) = slice a l d" if "a + l \<le> oo \<or> oo + 64 \<le> a" "a + l \<le> length d"
  proof -
    have "slice a l f = slice a l h" by (rule u(3)) (use that lh in auto)
    also have "\<dots> = slice a l d" unfolding h_def using that assms by (simp add: slice_put_other disj_commute) (auto simp: slice_put_other)
    finally show ?thesis by (simp add: pf)
  qed
  have "get16 b f = get16 b h" if "b + 2 \<le> oo + 12" for b unfolding get16_def using u(3) [of b 2] that lh(2) by simp
  moreover have "get32 (oo + 8) f = get32 (oo + 8) h" unfolding get32_def using u(3) [of "oo + 8" 4] lh(2) by simp
  moreover have "get16 oo h = i_type i" "get16 (oo + 2) h = i_major i" "get16 (oo + 4) h = i_minor i" "get16 (oo + 6) h = i_nlink i"
    "get32 (oo + 8) h = i_size i"
    using assms by (simp_all add: h_def get_put_other)
  moreover have "map (\<lambda>k. get32 (oo + 12 + 4 * k) f) [0..<13] = i_addrs i" if "length (i_addrs i) = 13"
    using that u(2) by (intro nth_equalityI) auto
  ultimately show "get_dinode oo (put_dinode oo i d) j = j\<lparr>i_type := i_type i, i_major := i_major i, i_minor := i_minor i,
       i_nlink := i_nlink i, i_size := i_size i, i_addrs := i_addrs i\<rparr>" if "length (i_addrs i) = 13"
    using that by (simp add: get_dinode_def pf file_consts)
qed

lemma dinode_off_le: "dinode_off i + 64 \<le> BSIZE"
proof -
  have "unat i mod 16 < 16" by simp
  then have "unat i mod 16 * 64 + 64 \<le> 1024" by linarith
  then show ?thesis by (simp add: dinode_off_def IPB_def dinode_size_def file_consts)
qed

abbreviation inode_block :: "'z fs_state_scheme \<Rightarrow> nat \<Rightarrow> uint" where
  "inode_block s ip \<equiv> IBLOCK (i_inum (itable s ip)) (sb s)"

text \<open>The inode on disk is the one in the table.\<close>

definition inode_saved :: "'z fs_state_scheme \<Rightarrow> nat \<Rightarrow> bool" where
  "inode_saved s ip \<longleftrightarrow>
     get_dinode (dinode_off (i_inum (itable s ip))) (view s (inode_block s ip)) (itable s ip) = itable s ip"

lemma iupdate_law:
  assumes tx: "tx {} s" and wf: "file_wf s ip" and cp: "card (insert (inode_block s ip) (hset s)) \<le> tx_cap s"
  obtains t where "iupdate ip s = Ret () t" "tx {} t" "tframe s t" "hset t = insert (inode_block s ip) (hset s)"
    "view t = (view s)(inode_block s ip := put_dinode (dinode_off (i_inum (itable s ip))) (itable s ip) (view s (inode_block s ip)))"
    "inode_saved t ip"
proof -
  let ?B = "inode_block s ip" and ?o = "dinode_off (i_inum (itable s ip))"
  let ?d = "put_dinode ?o (itable s ip) (view s ?B)"
  have wf': "i_dev (itable s ip) = ROOTDEV" "length (i_addrs (itable s ip)) = 13" using wf by (simp_all add: file_wf_def file_consts)
  have l: "?o + 64 \<le> length (view s ?B)" using dinode_off_le tn.size_law [OF tx, of ?B] by simp
  obtain i t where t: "bread ROOTDEV ?B s = Ret i t" "tx {?B} t" "tframe s t" "view t = view s" "hset t = hset s" "hold t i ?B"
    using tn.rd_law [OF tx, of ?B] by auto
  have ld: "length ?d = BSIZE" using dinode_put(1) [OF l] tn.size_law [OF tx] by simp
  have cp': "card (insert ?B (hset t)) \<le> tx_cap t" using cp t(5) tframe_logs(5) [OF t(3)] by simp
  obtain u where u: "thn (set_data i ?d) (log_write i) t = Ret () u" "tx {?B} u" "tframe t u" "view u = (view s)(?B := ?d)"
    "hset u = insert ?B (hset s)" "hold u i ?B"
    using tn.put_law [OF t(2,6) ld cp'] t(4-6) by auto
  obtain v where v: "brelse i u = Ret () v" "tx {} v" "tframe u v" "view v = view u" "hset v = hset u"
    using tn.rls_law [OF u(2,6)] by auto
  have it: "itable t = itable s" using tframe_fs(2) [OF t(3)] .
  have "iupdate ip s = Ret () v"
    using t(1) tn.get_law [OF t(2,6)] u(1) v(1) wf'(1) by (simp add: iupdate_def kop_simps it t(4))
  moreover have sv: "tframe s v" using tframe_trans [OF tframe_trans [OF t(3) u(3)] v(3)] .
  moreover have "inode_saved v ip"
    using dinode_put(3) [OF l wf'(2)] tframe_fs [OF sv] by (simp add: inode_saved_def v(4) u(4))
  ultimately show ?thesis using that v u by metis
qed

end
