(* ===== verification/Fscontent.thy ===== *)
theory Fscontent
  imports Fsio
begin

text \<open>
  A file as the list of its bytes: \<open>writei\<close> replaces a range of them, \<open>readi\<close> returns a range.
\<close>

section \<open>The contents of a file\<close>

definition file_bytes :: "'z fs_state_scheme \<Rightarrow> nat \<Rightarrow> uint8 list" where
  "file_bytes s ip = map (fbyte s ip) [0..<unat (i_size (itable s ip))]"

text \<open>No file has holes: every byte below the size has a block.\<close>

definition file_dense :: "'z fs_state_scheme \<Rightarrow> nat \<Rightarrow> bool" where
  "file_dense s ip \<longleftrightarrow> unat (i_size (itable s ip)) \<le> MAXFILE * BSIZE \<and>
     (\<forall>p < unat (i_size (itable s ip)). slot_of s ip (bslot (p div BSIZE)) \<noteq> 0)"

definition resize :: "nat \<Rightarrow> uint \<Rightarrow> 'z fs_state_scheme \<Rightarrow> 'z fs_state_scheme" where
  "resize ip n s = s\<lparr>itable := (itable s)(ip := (itable s ip)\<lparr>i_size := n\<rparr>)\<rparr>"

lemma resize_facts:
  "tx H (resize ip n s) = tx H s" "view (resize ip n s) = view s" "hset (resize ip n s) = hset s" "inuse (resize ip n s) = inuse s"
  "sb (resize ip n s) = sb s" "tx_cap (resize ip n s) = tx_cap s" "free_set (resize ip n s) = free_set s"
  "slot_of (resize ip n s) ip = slot_of s ip" "fbyte (resize ip n s) ip = fbyte s ip" "file_wf (resize ip n s) ip = file_wf s ip"
  "iframe ip s (resize ip n s)" "i_size (itable (resize ip n s) ip) = n" "i_inum (itable (resize ip n s) ip) = i_inum (itable s ip)"
proof -
  show sl: "slot_of (resize ip n s) ip = slot_of s ip" by (simp add: resize_def slot_of_def)
  have "view (resize ip n s) = view s" by (simp add: resize_def)
  then show "fbyte (resize ip n s) ip = fbyte s ip" by (simp add: fun_eq_iff fbyte_def sl Let_def)
  show "file_wf (resize ip n s) ip = file_wf s ip" unfolding file_wf_def meta_def sl by (simp add: resize_def)
  show "iframe ip s (resize ip n s)" unfolding iframe_def resize_def
    by (auto intro!: exI [of _ "i_addrs (itable s ip)"] exI [of _ n])
qed (simp_all add: resize_def)

lemma max_size:
  assumes "off \<le> sz" "unat off + length bs \<le> MAXFILE * BSIZE"
  shows "unat (if of_nat (unat off + length bs) > sz then of_nat (unat off + length bs) else (sz :: uint)) =
    max (unat sz) (unat off + length bs)"
proof -
  have "unat (of_nat (unat off + length bs) :: uint) = unat off + length bs"
    using assms(2) by (simp add: unat_of_nat file_consts del: of_nat_add)
  then show ?thesis by (simp add: word_less_nat_alt max_def del: of_nat_add)
qed

lemma wrote_contents:
  assumes w: "wrote ip s off bs t" and d: "file_dense s ip" and off: "off \<le> unat (i_size (itable s ip))"
    and n: "unat n = max (unat (i_size (itable s ip))) (off + length bs)"
  shows "file_bytes (resize ip n t) ip = splice off bs (file_bytes s ip)" "file_dense (resize ip n t) ip"
proof -
  have le: "unat n \<le> MAXFILE * BSIZE" using d w n by (simp add: file_dense_def wrote_def)
  have l: "length (splice off bs (file_bytes s ip)) = unat n" using off n by (simp add: splice_def file_bytes_def)
  show "file_bytes (resize ip n t) ip = splice off bs (file_bytes s ip)"
  proof (rule nth_equalityI)
    show "length (file_bytes (resize ip n t) ip) = length (splice off bs (file_bytes s ip))" unfolding l by (simp add: file_bytes_def resize_facts)
    fix p assume "p < length (file_bytes (resize ip n t) ip)"
    then have p: "p < unat n" by (simp add: file_bytes_def resize_facts)
    have "fbyte t ip p = (if off \<le> p \<and> p < off + length bs then bs ! (p - off) else fbyte s ip p)"
      using w p le by (simp add: wrote_def)
    moreover have "splice off bs (file_bytes s ip) ! p = (if off \<le> p \<and> p < off + length bs then bs ! (p - off) else fbyte s ip p)"
      using off p n by (auto simp: splice_def nth_append file_bytes_def)
    ultimately show "file_bytes (resize ip n t) ip ! p = splice off bs (file_bytes s ip) ! p"
      using p by (simp add: file_bytes_def resize_facts)
  qed
  have "slot_of t ip (bslot (p div BSIZE)) \<noteq> 0" if p: "p < unat n" for p
  proof (cases "p < unat (i_size (itable s ip))")
    case True
    then show ?thesis using d w p le file_block [of p] by (simp add: file_dense_def wrote_def)
  next
    case False
    then show ?thesis using w p n off by (simp add: wrote_def)
  qed
  then show "file_dense (resize ip n t) ip" using le by (simp add: file_dense_def resize_facts)
qed

section \<open>Writing\<close>

lemma iupdate_content:
  assumes tx: "tx {} s" and wf: "file_wf s ip" and cp: "card (insert (inode_block s ip) (hset s)) \<le> tx_cap s"
  obtains t where "iupdate ip s = Ret () t" "tx {} t" "tframe s t" "file_wf t ip" "hset t = insert (inode_block s ip) (hset s)"
    "slot_of t ip = slot_of s ip" "\<forall>p < MAXFILE * BSIZE. fbyte t ip p = fbyte s ip p" "inuse t = inuse s" "inode_saved t ip"
    "\<forall>b. b \<noteq> inode_block s ip \<longrightarrow> view t b = view s b"
    "\<forall>a l. a + l \<le> dinode_off (i_inum (itable s ip)) \<or> dinode_off (i_inum (itable s ip)) + 64 \<le> a \<longrightarrow> a + l \<le> BSIZE \<longrightarrow>
      slice a l (view t (inode_block s ip)) = slice a l (view s (inode_block s ip))"
proof -
  let ?B = "inode_block s ip" and ?o = "dinode_off (i_inum (itable s ip))"
  obtain t where t: "iupdate ip s = Ret () t" "tx {} t" "tframe s t" "hset t = insert ?B (hset s)"
    "view t = (view s)(?B := put_dinode ?o (itable s ip) (view s ?B))" "inode_saved t ip"
    using iupdate_law [OF assms] by metis
  have B: "?B \<notin> bitmap_blocks (sb s)" using wf by (simp add: file_wf_def)
  have I: "indirect_of s ip \<noteq> 0 \<longrightarrow> ?B \<noteq> indirect_of s ip" using file_wf_slot(3) [OF wf, of NDIRECT] by (auto simp: file_consts)
  note c = file_change [OF wf t(3) B I t(5)]
  have "fbyte t ip p = fbyte s ip p" if "p < MAXFILE * BSIZE" for p
    using data_slot(4) [OF wf file_block [OF that]] by (auto simp: fbyte_def c(2) t(5) Let_def)
  moreover have "slice a l (view t ?B) = slice a l (view s ?B)" if "a + l \<le> ?o \<or> ?o + 64 \<le> a" "a + l \<le> BSIZE" for a l
    using dinode_put(2) [of ?o "view s ?B" a l "itable s ip"] that dinode_off_le tn.size_law [OF tx, of ?B] by (simp add: t(5))
  ultimately show ?thesis using that [of t] t c by simp
qed

lemma contents_same:
  assumes "\<And>p. p < MAXFILE * BSIZE \<Longrightarrow> fbyte t ip p = fbyte s ip p" "slot_of t ip = slot_of s ip"
    "i_size (itable t ip) = i_size (itable s ip)" "file_dense s ip"
  shows "file_bytes t ip = file_bytes s ip" "file_dense t ip"
  using assms by (simp_all add: file_bytes_def file_dense_def)

lemma writei_start:
  assumes "off \<le> i_size (itable s ip)" "unat off + length bs \<le> MAXFILE * BSIZE"
  shows "writei ip src off (of_nat (length bs)) s =
    bnd (writei_loop ip src (unat off) 0 (length bs)) (\<lambda>(tot, off').
     thn (set_inode ip (\<lambda>i. if of_nat off' > i_size i then i\<lparr>i_size := of_nat off'\<rparr> else i))
    (thn (iupdate ip) (ret (int tot)))) s"
proof -
  have u: "unat (of_nat (length bs) :: uint) = length bs" using assms(2) by (simp add: unat_of_nat file_consts)
  have "unat off + length bs < 4294967296" using assms(2) by (simp add: file_consts)
  then have a: "unat (off + of_nat (length bs)) = unat off + length bs" by (simp add: unat_word_ariths u)
  then have "\<not> off + of_nat (length bs) < off" "\<not> i_size (itable s ip) < off" using assms(1) by (simp_all add: word_less_nat_alt word_le_nat_alt)
  then show ?thesis using assms(2) u a by (simp add: writei_def kop_simps)
qed

lemma writei_law:
  assumes tx: "tx {} s" and wf: "file_wf s ip" and dn: "file_dense s ip" and sh: "src_holds src bs s" and off: "off \<le> i_size (itable s ip)"
    and len: "unat off + length bs \<le> MAXFILE * BSIZE" "unat off mod BSIZE + length bs \<le> m * BSIZE"
    and cp: "card (hset s \<union> bitmap_blocks (sb s)) + m + 2 \<le> tx_cap s" and fr: "m < card (free_set s)"
  shows "\<exists>t u v. writei ip src off (of_nat (length bs)) s = Ret (int (length bs)) v \<and> wrote ip s (unat off) bs t \<and>
    u = resize ip (if of_nat (unat off + length bs) > i_size (itable s ip) then of_nat (unat off + length bs) else i_size (itable s ip)) t \<and>
    iupdate ip u = Ret () v \<and> tx {} u \<and> file_wf u ip \<and> card (insert (inode_block u ip) (hset u)) \<le> card (hset s \<union> bitmap_blocks (sb s)) + m + 2 \<and>
    tx_cap u = tx_cap s"
proof -
  let ?X = "hset s \<union> bitmap_blocks (sb s)" and ?e = "unat off + length bs"
  have X: "logs_in ip ?X s" by (auto simp: logs_in_def)
  have f: "(if indirect_of s ip = 0 then Suc m else m) \<le> card (free_set s)" using fr by simp
  obtain t X' where t: "writei_loop ip src (unat off) 0 (length bs) s = Ret (length bs, ?e) t" "tx {} t"
    "wrote ip s (unat off) bs t" "logs_in ip X' t" "card X' \<le> card ?X + m"
    using writei_loop_law [OF tx wf sh _ _ _ X _ f, of 0 "unat off"] len cp by auto
  define n where "n = (if of_nat ?e > i_size (itable s ip) then of_nat ?e else i_size (itable s ip))"
  define u where "u = resize ip n t"
  have it: "i_size (itable t ip) = i_size (itable s ip)" "iframe ip s t" "file_wf t ip" using t(3) by (simp_all add: wrote_def)
  have fX: "finite X'" using t(4) by (simp add: logs_in_def)
  have "insert (inode_block u ip) (hset u) \<subseteq> insert (inode_block u ip) (insert (indirect_of t ip) X')"
    using t(4) by (auto simp: logs_in_def u_def resize_facts)
  then have "card (insert (inode_block u ip) (hset u)) \<le> card (insert (inode_block u ip) (insert (indirect_of t ip) X'))"
    using fX by (intro card_mono) auto
  also have "\<dots> \<le> Suc (Suc (card X'))" using fX by (simp add: card_insert_if)
  finally have c: "card (insert (inode_block u ip) (hset u)) \<le> card ?X + m + 2" using t(5) by simp
  have cu: "tx_cap u = tx_cap s" using iframe_facts(2) [OF it(2)] by (simp add: u_def resize_facts)
  have wu: "tx {} u" "file_wf u ip" unfolding u_def resize_facts(1,10) by (rule t(2), rule it(3))
  have "card (insert (inode_block u ip) (hset u)) \<le> tx_cap u" using c cp cu by linarith
  then obtain v where v: "iupdate ip u = Ret () v" using iupdate_law [OF wu] by metis
  have "(itable t)(ip := if i_size (itable s ip) < of_nat ?e then (itable t ip)\<lparr>i_size := of_nat ?e\<rparr> else itable t ip) =
    (itable t)(ip := (itable t ip)\<lparr>i_size := n\<rparr>)"
    using it(1) by (cases "i_size (itable s ip) < of_nat ?e") (simp_all add: n_def it(1) [symmetric] del: of_nat_add)
  then have "writei ip src off (of_nat (length bs)) s = Ret (int (length bs)) v"
    using writei_start [OF off len(1)] t(1) v it(1) by (simp add: kop_simps u_def resize_def del: of_nat_add fun_upd_apply)
  then show ?thesis using t(3) v wu c cu unfolding u_def n_def by blast
qed

text \<open>The blocks of other files, and the other inodes in the block of this one, are as before.\<close>

definition others_kept :: "nat \<Rightarrow> 'z fs_state_scheme \<Rightarrow> 'z fs_state_scheme \<Rightarrow> bool" where
  "others_kept ip s t \<longleftrightarrow>
     (\<forall>b. inuse s b \<longrightarrow> b \<notin> bitmap_blocks (sb s) \<longrightarrow> b \<notin> slot_of s ip ` {..MAXFILE} \<longrightarrow> b \<noteq> inode_block s ip \<longrightarrow> view t b = view s b) \<and>
     (\<forall>i. dinode_off i \<noteq> dinode_off (i_inum (itable s ip)) \<longrightarrow>
       slice (dinode_off i) 64 (view t (inode_block s ip)) = slice (dinode_off i) 64 (view s (inode_block s ip)))"

lemma dinode_apart:
  assumes "dinode_off i \<noteq> dinode_off j"
  shows "dinode_off i + 64 \<le> dinode_off j \<or> dinode_off j + 64 \<le> dinode_off i"
proof -
  have "unat i mod IPB < unat j mod IPB \<or> unat j mod IPB < unat i mod IPB" using assms by (auto simp: dinode_off_def)
  then show ?thesis unfolding dinode_off_def dinode_size_def by linarith
qed

lemma writei_done:
  assumes tx: "tx {} s" and wf: "file_wf s ip" and dn: "file_dense s ip" and sh: "src_holds src bs s" and off: "off \<le> i_size (itable s ip)"
    and len: "unat off + length bs \<le> MAXFILE * BSIZE" "unat off mod BSIZE + length bs \<le> m * BSIZE"
    and cp: "card (hset s \<union> bitmap_blocks (sb s)) + m + 2 \<le> tx_cap s" and fr: "m < card (free_set s)"
  obtains t where "writei ip src off (of_nat (length bs)) s = Ret (int (length bs)) t"
    "file_bytes t ip = splice (unat off) bs (file_bytes s ip)" "inode_saved t ip" "tx {} t" "iframe ip s t" "file_wf t ip" "file_dense t ip"
    "others_kept ip s t" "\<forall>b. view t b \<noteq> view s b \<longrightarrow> b \<in> hset t" "card (hset t) \<le> card (hset s \<union> bitmap_blocks (sb s)) + m + 2"
proof -
  define n where "n = (if of_nat (unat off + length bs) > i_size (itable s ip) then of_nat (unat off + length bs) else i_size (itable s ip))"
  obtain t u v where w: "writei ip src off (of_nat (length bs)) s = Ret (int (length bs)) v" "wrote ip s (unat off) bs t" "u = resize ip n t"
    "iupdate ip u = Ret () v" "tx {} u" "file_wf u ip" "tx_cap u = tx_cap s"
    "card (insert (inode_block u ip) (hset u)) \<le> card (hset s \<union> bitmap_blocks (sb s)) + m + 2"
    using writei_law [OF assms] unfolding n_def by blast
  have it: "iframe ip s t" using w(2) by (simp add: wrote_def)
  have un: "unat n = max (unat (i_size (itable s ip))) (unat off + length bs)" unfolding n_def by (rule max_size [OF off len(1)])
  note c = wrote_contents [OF w(2) dn _ un, folded w(3)]
  have cu: "file_bytes u ip = splice (unat off) bs (file_bytes s ip)" "file_dense u ip" using c off by (simp_all add: word_le_nat_alt)
  let ?B = "inode_block s ip"
  have B: "inode_block u ip = ?B" using iframe_facts [OF it] by (simp add: w(3) resize_facts)
  have inu: "i_inum (itable u ip) = i_inum (itable s ip)" and su: "sb u = sb s" using iframe_facts(1,4) [OF it] by (simp_all add: w(3) resize_facts)
  have cpu: "card (insert (inode_block u ip) (hset u)) \<le> tx_cap u" using w(7,8) cp by linarith
  obtain x where x: "iupdate ip u = Ret () x" "tx {} x" "tframe u x" "file_wf x ip" "hset x = insert ?B (hset u)"
    "slot_of x ip = slot_of u ip" "\<forall>p < MAXFILE * BSIZE. fbyte x ip p = fbyte u ip p" "inuse x = inuse u" "inode_saved x ip"
    "\<forall>b. b \<noteq> ?B \<longrightarrow> view x b = view u b"
    "\<forall>a l. a + l \<le> dinode_off (i_inum (itable s ip)) \<or> dinode_off (i_inum (itable s ip)) + 64 \<le> a \<longrightarrow> a + l \<le> BSIZE \<longrightarrow>
      slice a l (view x ?B) = slice a l (view u ?B)"
    by (rule iupdate_content [OF w(5,6) cpu, unfolded inu su])
  have xv: "x = v" using x(1) w(4) by simp
  have vu: "view u = view t" "hset u = hset t" by (simp_all add: w(3) resize_facts)
  have "i_size (itable x ip) = i_size (itable u ip)" using tframe_fs(2) [OF x(3)] by simp
  note cx = contents_same [OF x(7) [rule_format] x(6) this cu(2)]
  have Bm: "?B \<noteq> 0" "inuse s ?B" "?B \<notin> bitmap_blocks (sb s)" using wf by (simp_all add: file_wf_def meta_def)
  then have "?B \<notin> slot_of s ip ` {..MAXFILE}" using file_wf_slot(3) [OF wf] by (metis atMost_iff image_iff)
  then have Bs: "view t ?B = view s ?B" using w(2) Bm by (simp add: wrote_def)
  have "slice (dinode_off i) 64 (view x ?B) = slice (dinode_off i) 64 (view s ?B)"
    if "dinode_off i \<noteq> dinode_off (i_inum (itable s ip))" for i
    using x(11) [rule_format, OF dinode_apart [OF that] dinode_off_le] Bs by (simp add: vu)
  then have "others_kept ip s x" using w(2) x(10) by (simp add: others_kept_def wrote_def vu)
  moreover have "b \<in> hset x" if "view x b \<noteq> view s b" for b
    using w(2) that x(10) by (cases "b = ?B") (auto simp: x(5) vu wrote_def)
  moreover have "iframe ip s x" by (rule iframe_trans [OF it iframe_trans [OF resize_facts(11) iframe_tframe [OF x(3) [unfolded w(3)]]]])
  ultimately show ?thesis using that [of x] w(1,8) x(2,4,5,9) cx cu(1) by (simp add: xv B)
qed

end
