(* ===== verification/Fsread.thy ===== *)
theory Fsread
  imports Fscontent
begin

text \<open>
  Reading a file into kernel or user memory.
\<close>

section \<open>Destinations\<close>

fun dst_fits :: "dest \<Rightarrow> nat \<Rightarrow> pagetable_t \<Rightarrow> memory \<Rightarrow> bool" where
  "dst_fits LocalDst n root m \<longleftrightarrow> True"
| "dst_fits (KernelDst a) n root m \<longleftrightarrow> unat a + n \<le> 2 ^ 64"
| "dst_fits (UserDst a) n root m \<longleftrightarrow> (\<exists>own. pt_ok m root own \<and> um_ok m root own \<and> urange m root a n)"

text \<open>The memory after the bytes \<open>bs\<close> have been copied to offset \<open>tot\<close> of the destination.\<close>

fun deliver :: "dest \<Rightarrow> pagetable_t \<Rightarrow> nat \<Rightarrow> uint8 list \<Rightarrow> memory \<Rightarrow> memory \<Rightarrow> bool" where
  "deliver LocalDst root tot bs m m' \<longleftrightarrow> m' = m"
| "deliver (KernelDst a) root tot bs m m' \<longleftrightarrow> m' = store_bytes m (a + of_nat tot) bs"
| "deliver (UserDst a) root tot bs m m' \<longleftrightarrow> uview m' root = put_range (uview m root) (a + of_nat tot) bs"

lemma dest_copy_ok:
  assumes "dst_fits dst n (user_root s) (mem s)" "calm s" "tot + length bs \<le> n"
  obtains m where "dest_copy dst tot bs s = Ret 0 ((tch s)\<lparr>mem := m\<rparr>)" "deliver dst (user_root s) tot bs (mem s) m"
    "dst_fits dst n (user_root s) m"
proof -
  obtain p where p: "cproc (mycpu s) = Some p" using assms(2) by (auto simp: calm_def)
  have q: "cur_proc s = Ret p (tch s)" using p assms(2) by (simp add: calm_def kop_simps)
  have e: "mem (tch s) = mem s" by (simp add: state_simps)
  show ?thesis
  proof (cases dst)
    case (UserDst a)
    obtain own where u: "pt_ok (mem s) (user_root s) own" "um_ok (mem s) (user_root s) own" "urange (mem s) (user_root s) a n"
      using assms(1) UserDst by auto
    obtain m where m: "copyout (user_root s) (a + of_nat tot) bs (tch s) = Ret 0 ((tch s)\<lparr>mem := m\<rparr>)" "pt_ok m (user_root s) own"
      "um_ok m (user_root s) own" "uview m (user_root s) = put_range (uview (mem s) (user_root s)) (a + of_nat tot) bs"
      "\<forall>wa. pte_of m (user_root s) wa = pte_of (mem s) (user_root s) wa"
      using copyout_ok [of "tch s" "user_root s" own] u(1,2) urange_part [OF u(3) assms(3)] unfolding e by blast
    have "urange m (user_root s) a n" using u(3) m(5) by (simp add: urange_def umapped_def)
    then show ?thesis
      using that [of m] m p UserDst by (auto simp: either_copyout_def q kop_simps user_root_def state_simps)
  next
    case (KernelDst a)
    then show ?thesis
      using that [of "store_bytes (mem s) (a + of_nat tot) bs"] assms(1)
      by (simp add: either_copyout_def q kop_simps state_simps put_bytes_def)
  next
    case LocalDst
    have "(tch s)\<lparr>mem := mem s\<rparr> = tch s" using e by (metis machine.surjective machine.update_convs(1))
    then show ?thesis using that [of "mem s"] LocalDst by (simp add: q kop_simps)
  qed
qed

lemma store_bytes_append:
  assumes "length xs + length ys \<le> 2 ^ 64"
  shows "store_bytes (store_bytes m a xs) (a + of_nat (length xs)) ys = store_bytes m a (xs @ ys)"
proof
  fix x
  let ?k = "length xs" and ?d = "unat (x - a)"
  have d: "?d < 2 ^ 64" using unsigned_less [of "x - a"] by simp
  have e: "x - (a + of_nat ?k) = (x - a) - of_nat ?k" by simp
  show "store_bytes (store_bytes m a xs) (a + of_nat ?k) ys x = store_bytes m a (xs @ ys) x"
  proof (cases "?k \<le> ?d")
    case True
    then have "?k < 2 ^ 64" using d by linarith
    then have "unat (of_nat ?k :: uint64) = ?k" by (simp add: unat_of_nat)
    then have "unat (x - (a + of_nat ?k)) = ?d - ?k" using True unfolding e unat_sub_if' by simp
    then show ?thesis using True by (auto simp: store_bytes_def nth_append)
  next
    case False
    have "\<not> unat (x - (a + of_nat ?k)) < length ys"
    proof (cases "?k < 2 ^ 64")
      case True
      then have "unat (of_nat ?k :: uint64) = ?k" by (simp add: unat_of_nat)
      then have "unat (x - (a + of_nat ?k)) = ?d + 2 ^ 64 - ?k" using False unfolding e unat_sub_if' by simp
      then show ?thesis using assms by linarith
    qed (use assms in simp)
    then show ?thesis using False by (simp add: store_bytes_def nth_append)
  qed
qed

lemma deliver_append:
  assumes "deliver dst root tot xs m m'" "deliver dst root (tot + length xs) ys m' m''" "dst_fits dst n root m" "tot + length xs + length ys \<le> n"
  shows "deliver dst root tot (xs @ ys) m m''"
proof (cases dst)
  case (UserDst a)
  then have "unat a + n \<le> 2 ^ 38" using assms(3) by (auto simp: urange_def)
  then have u: "unat (a + of_nat (tot + length xs)) = unat (a + of_nat tot) + length xs"
    using assms(4) by (simp add: unat_word_ariths unat_of_nat del: of_nat_add)
  show ?thesis using assms(1,2) put_range_append [OF u] UserDst by simp
next
  case (KernelDst a)
  then show ?thesis
    using assms store_bytes_append [of xs ys m "a + of_nat tot"] by (simp add: add.assoc)
qed (use assms in simp)

lemma mem_inert [simp]:
  "view (s\<lparr>mem := m\<rparr>) = view s" "hset (s\<lparr>mem := m\<rparr>) = hset s" "hold (s\<lparr>mem := m\<rparr>) = hold s" "tx H (s\<lparr>mem := m\<rparr>) = tx H s"
  "user_root (s\<lparr>mem := m\<rparr>) = user_root s"
proof -
  have g: "calm (s\<lparr>mem := m\<rparr>) = calm s" "cur_pid (s\<lparr>mem := m\<rparr>) = cur_pid s"
    by (simp_all add: calm_def cur_pid_def procs_free_def lock_defs)
  note c = same_cache [of "s\<lparr>mem := m\<rparr>" s]
  show "view (s\<lparr>mem := m\<rparr>) = view s" "hset (s\<lparr>mem := m\<rparr>) = hset s" "hold (s\<lparr>mem := m\<rparr>) = hold s" "tx H (s\<lparr>mem := m\<rparr>) = tx H s"
    by (intro c; simp add: g lock_defs)+
  show "user_root (s\<lparr>mem := m\<rparr>) = user_root s" by (simp add: user_root_def lock_defs)
qed

text \<open>The frame of a read: the memory may change, the file system does not.\<close>

definition rframe :: "'z fs_state_scheme \<Rightarrow> 'z fs_state_scheme \<Rightarrow> bool" where
  "rframe s t \<longleftrightarrow> tframe (s\<lparr>mem := mem t\<rparr>) t \<and> view t = view s \<and> hset t = hset s"

lemma tframe_mem:
  assumes "tframe s t"
  shows "tframe (s\<lparr>mem := m\<rparr>) (t\<lparr>mem := m\<rparr>)"
proof -
  have "tch (s\<lparr>mem := m\<rparr>) = (tch s)\<lparr>mem := m\<rparr>" for s :: "'a log_state_scheme" and m by (simp add: lock_defs)
  then show ?thesis
    using assms by (auto simp: tframe_def bframe_def upd_order state_simps same_procs_def)
qed

lemma rframe_tframe: "tframe s t \<Longrightarrow> view t = view s \<Longrightarrow> hset t = hset s \<Longrightarrow> rframe s t"
  using tframe_user(1) [of s t] by (simp add: rframe_def)

lemma rframe_mem: "rframe s (s\<lparr>mem := m\<rparr>)"
  by (simp add: rframe_def)

lemma rframe_trans [trans]: "rframe s t \<Longrightarrow> rframe t u \<Longrightarrow> rframe s u"
  using tframe_trans [of "s\<lparr>mem := mem u\<rparr>" "t\<lparr>mem := mem u\<rparr>" u] tframe_mem [of "s\<lparr>mem := mem t\<rparr>" t "mem u"]
  by (simp add: rframe_def)

lemma rframe_facts:
  assumes "rframe s t"
  shows "sb t = sb s" "itable t = itable s" "slot_of t ip = slot_of s ip" "fbyte t ip = fbyte s ip" "file_wf t ip = file_wf s ip"
    "file_bytes t ip = file_bytes s ip" "file_dense t ip = file_dense s ip" "user_root t = user_root s"
proof -
  have f: "tframe (s\<lparr>mem := mem t\<rparr>) t" and v: "view t = view s" using assms by (simp_all add: rframe_def)
  show i: "sb t = sb s" "itable t = itable s" using tframe_fs [OF f] by simp_all
  show sl: "slot_of t ip = slot_of s ip" by (simp add: slot_of_def i v)
  show fb: "fbyte t ip = fbyte s ip" by (simp add: fun_eq_iff fbyte_def sl v Let_def)
  have "inuse t = inuse s" by (simp add: fun_eq_iff inuse_def used_def i v)
  then show "file_wf t ip = file_wf s ip" by (simp add: file_wf_def meta_def i sl)
  show "file_bytes t ip = file_bytes s ip" by (simp add: file_bytes_def fb i)
  show "file_dense t ip = file_dense s ip" by (simp add: file_dense_def sl i)
  show "user_root t = user_root s" using tframe_user(2) [OF f] by simp
qed

section \<open>Reading\<close>

lemma bmap_present:
  assumes tx: "tx {} s" and wf: "file_wf s ip" and k: "k < MAXFILE" "slot_of s ip (bslot k) \<noteq> 0"
  obtains t where "bmap ip (of_nat k) s = Ret (slot_of s ip (bslot k)) t" "tx {} t" "tframe s t" "view t = view s" "hset t = hset s"
proof (cases "k < NDIRECT")
  case True
  then have "bmap ip (of_nat k) s = Ret (slot_of s ip (bslot k)) s"
    using bmap_number(1,2) [OF k(1)] k(2) by (simp add: bmap_def kop_simps slot_of_def fslot_def bslot_def Let_def)
  then show ?thesis using that tx by blast
next
  case False
  let ?x = "indirect_of s ip"
  have x: "?x \<noteq> 0" using k(2) False unfolding indirect_of_eq by (auto simp: slot_of_def fslot_def bslot_def)
  have sl: "slot_of s ip (bslot k) = get_indirect (view s ?x) (k - NDIRECT)"
    using False x unfolding indirect_of_eq by (simp add: slot_of_def fslot_def bslot_def)
  obtain i t u where t: "bread ROOTDEV ?x s = Ret i t" "get_data i t = Ret (view s ?x) t" "brelse i t = Ret () u" "tx {} u" "tframe s u"
    "view u = view s" "hset u = hset s" using tn.look [OF tx, of ?x] by (metis card.empty empty_iff zero_le)
  have "bmap_entry (k - NDIRECT) ?x s = Ret (slot_of s ip (bslot k)) u" using t(1-3) k(2) by (simp add: bmap_entry_def kop_simps sl)
  moreover have "i_dev (itable s ip) = ROOTDEV" using wf by (simp add: file_wf_def)
  ultimately have "bmap ip (of_nat k) s = Ret (slot_of s ip (bslot k)) u"
    using bmap_beyond [of k s ip] False k(1) x by (simp add: kop_simps)
  then show ?thesis using that t(4-7) by blast
qed

lemma read_round:
  fixes s :: "'z fs_state_scheme"
  assumes tx: "tx {} s" and d: "dst_fits dst n (user_root s) (mem s)" "tot + length bs \<le> n"
  obtains i t m u where "bread ROOTDEV a s = Ret i t" "get_data i t = Ret (view s a) t" "dest_copy dst tot bs t = Ret 0 ((tch t)\<lparr>mem := m\<rparr>)"
    "brelse i ((tch t)\<lparr>mem := m\<rparr>) = Ret () u" "tx {} u" "rframe s u" "mem u = m"
    "deliver dst (user_root s) tot bs (mem s) m" "dst_fits dst n (user_root s) m"
proof -
  obtain i t where t: "bread ROOTDEV a s = Ret i t" "tx {a} t" "tframe s t" "view t = view s" "hset t = hset s" "hold t i a"
    using tn.rd_law [OF tx, of a] by auto
  note f = tframe_user [OF t(3)]
  obtain m where m: "dest_copy dst tot bs t = Ret 0 ((tch t)\<lparr>mem := m\<rparr>)" "deliver dst (user_root s) tot bs (mem s) m"
    "dst_fits dst n (user_root s) m"
    using dest_copy_ok [of dst n t tot bs] d tx_calm [OF t(2)] unfolding f by metis
  obtain u where u: "brelse i ((tch t)\<lparr>mem := m\<rparr>) = Ret () u" "tx {} u" "tframe ((tch t)\<lparr>mem := m\<rparr>) u" "view u = view s" "hset u = hset s"
    using tn.rls_law [of "{a}" "(tch t)\<lparr>mem := m\<rparr>" i a] t(2,4-6) by auto
  have "rframe s (tch t)" by (rule rframe_tframe [OF tframe_trans [OF t(3) tframe_tch]]) (simp_all add: t)
  also have "rframe (tch t) ((tch t)\<lparr>mem := m\<rparr>)" by (rule rframe_mem)
  also have "rframe ((tch t)\<lparr>mem := m\<rparr>) u" by (rule rframe_tframe [OF u(3)]) (simp_all add: t u)
  finally have "rframe s u" .
  moreover have "mem u = m" using tframe_user(1) [OF u(3)] by simp
  moreover have "get_data i t = Ret (view s a) t" using tn.get_law [OF t(2,6)] t(4) by simp
  ultimately show ?thesis using that t(1) m u(1,2) by blast
qed

lemma chunk_read:
  assumes "slot_of s ip (bslot (off div BSIZE)) = a" "a \<noteq> 0" "off mod BSIZE + c \<le> BSIZE" "length (view s a) = BSIZE"
  shows "slice (off mod BSIZE) c (view s a) = map (fbyte s ip) [off..<off + c]"
proof (rule nth_equalityI)
  show "length (slice (off mod BSIZE) c (view s a)) = length (map (fbyte s ip) [off..<off + c])" using assms(3,4) by simp
  fix i assume "i < length (slice (off mod BSIZE) c (view s a))"
  then have i: "i < c" using assms(3,4) by simp
  have "(off + i) div BSIZE = off div BSIZE" "(off + i) mod BSIZE = off mod BSIZE + i"
    using chunk_bytes(1) [OF assms(3), of "off + i"] chunk_bytes(2) [OF assms(3), of "off + i"] i by auto
  then show "slice (off mod BSIZE) c (view s a) ! i = map (fbyte s ip) [off..<off + c] ! i"
    using i assms by (simp add: nth_slice fbyte_def)
qed

lemma readi_round:
  assumes tx: "tx {} s" and wf: "file_wf s ip" and d: "dst_fits dst n (user_root s) (mem s)" and n: "tot < n"
    and off: "off + (n - tot) \<le> MAXFILE * BSIZE" and a: "slot_of s ip (bslot (off div BSIZE)) \<noteq> 0" and c: "c = blk_chunk off (n - tot)"
  obtains v where "readi_loop ip dst off tot n s =
      bnd (readi_loop ip dst (off + c) (tot + c) n) (\<lambda>(t, bs). ret (t, map (fbyte s ip) [off..<off + c] @ bs)) v"
    "tx {} v" "rframe s v" "deliver dst (user_root s) tot (map (fbyte s ip) [off..<off + c]) (mem s) (mem v)"
    "dst_fits dst n (user_root s) (mem v)"
proof -
  let ?a = "slot_of s ip (bslot (off div BSIZE))" and ?b = "map (fbyte s ip) [off..<off + c]"
  have cc: "off mod BSIZE + c \<le> BSIZE" "c \<le> n - tot" by (auto simp: c blk_chunk_def file_consts min_def)
  have k: "off < MAXFILE * BSIZE" "off div BSIZE < MAXFILE" using off n file_block [of off] by simp_all
  obtain t where t: "bmap ip (of_nat (off div BSIZE)) s = Ret ?a t" "tx {} t" "tframe s t" "view t = view s" "hset t = hset s"
    using bmap_present [OF tx wf k(2) a] by metis
  note f = tframe_user [OF t(3)] tframe_fs [OF t(3)]
  have sl: "slice (off mod BSIZE) c (view s ?a) = ?b" by (rule chunk_read [OF refl a cc(1) tn.size_law [OF tx]])
  have fits: "tot + length ?b \<le> n" "dst_fits dst n (user_root t) (mem t)" using cc(2) n d by (simp_all add: f)
  obtain i u m v where v: "bread ROOTDEV ?a t = Ret i u" "get_data i u = Ret (view t ?a) u" "dest_copy dst tot ?b u = Ret 0 ((tch u)\<lparr>mem := m\<rparr>)"
    "brelse i ((tch u)\<lparr>mem := m\<rparr>) = Ret () v" "tx {} v" "rframe t v" "mem v = m"
    "deliver dst (user_root t) tot ?b (mem t) m" "dst_fits dst n (user_root t) m"
    using read_round [OF t(2) fits(2,1), of ?a] by metis
  have "i_dev (itable t ip) = ROOTDEV" using wf by (simp add: file_wf_def f)
  then have "readi_loop ip dst off tot n s =
      bnd (readi_loop ip dst (off + c) (tot + c) n) (\<lambda>(t, bs). ret (t, ?b @ bs)) v"
    using n a t(1) v(1-4) by (subst readi_loop.simps) (simp add: kop_simps off_block [OF k(1)] c [symmetric] t(4) sl)
  moreover have "rframe s v" by (rule rframe_trans [OF rframe_tframe [OF t(3-5)] v(6)])
  ultimately show ?thesis using that v(5,7-9) by (simp add: f)
qed

lemma readi_loop_law:
  assumes "tx {} s" "file_wf s ip" "dst_fits dst n (user_root s) (mem s)" "tot \<le> n" "off + (n - tot) \<le> MAXFILE * BSIZE"
    "\<And>p. off \<le> p \<Longrightarrow> p < off + (n - tot) \<Longrightarrow> slot_of s ip (bslot (p div BSIZE)) \<noteq> 0"
  shows "\<exists>t. readi_loop ip dst off tot n s = Ret (int n, map (fbyte s ip) [off..<off + (n - tot)]) t \<and> tx {} t \<and> rframe s t \<and>
    deliver dst (user_root s) tot (map (fbyte s ip) [off..<off + (n - tot)]) (mem s) (mem t)"
  using assms
proof (induction "n - tot" arbitrary: s off tot rule: less_induct)
  case less
  show ?case
  proof (cases "tot < n")
    case False
    then have "readi_loop ip dst off tot n s = Ret (int n, []) s" using less.prems(4) by (simp add: readi_loop.simps kop_simps)
    moreover have "deliver dst (user_root s) tot [] (mem s) (mem s)" by (cases dst) (simp_all add: store_bytes_def)
    ultimately show ?thesis using less.prems(1) False rframe_tframe [OF tframe_refl] by auto
  next
    case True
    define c where "c = blk_chunk off (n - tot)"
    have c: "0 < c" "c \<le> n - tot" using True blk_chunk_pos [of "n - tot" off] by (auto simp: c_def blk_chunk_def)
    let ?b = "map (fbyte s ip) [off..<off + c]"
    have a: "slot_of s ip (bslot (off div BSIZE)) \<noteq> 0" using less.prems(6) [of off] True by simp
    obtain v where v: "readi_loop ip dst off tot n s = bnd (readi_loop ip dst (off + c) (tot + c) n) (\<lambda>(t, bs). ret (t, ?b @ bs)) v"
      "tx {} v" "rframe s v" "deliver dst (user_root s) tot ?b (mem s) (mem v)" "dst_fits dst n (user_root s) (mem v)"
      using readi_round [OF less.prems(1-3) True less.prems(5) a c_def] by metis
    note g = rframe_facts [OF v(3)]
    have e: "off + c + (n - (tot + c)) = off + (n - tot)" using c(2) True by simp
    have "\<exists>w. readi_loop ip dst (off + c) (tot + c) n v = Ret (int n, map (fbyte v ip) [off + c..<off + c + (n - (tot + c))]) w \<and> tx {} w \<and>
      rframe v w \<and> deliver dst (user_root v) (tot + c) (map (fbyte v ip) [off + c..<off + c + (n - (tot + c))]) (mem v) (mem w)"
    proof (rule less.hyps [OF _ v(2)])
      show "n - (tot + c) < n - tot" "tot + c \<le> n" using c True by simp_all
      show "file_wf v ip" "dst_fits dst n (user_root v) (mem v)" using less.prems(2) v(5) unfolding g by blast+
      show "off + c + (n - (tot + c)) \<le> MAXFILE * BSIZE" unfolding e by (rule less.prems(5))
      show "slot_of v ip (bslot (p div BSIZE)) \<noteq> 0" if "off + c \<le> p" "p < off + c + (n - (tot + c))" for p
        using less.prems(6) [of p] that unfolding g e by simp
    qed
    then obtain w where w: "readi_loop ip dst (off + c) (tot + c) n v = Ret (int n, map (fbyte s ip) [off + c..<off + (n - tot)]) w" "tx {} w"
      "rframe v w" "deliver dst (user_root s) (tot + c) (map (fbyte s ip) [off + c..<off + (n - tot)]) (mem v) (mem w)"
      unfolding e g by blast
    have "[off..<off + (n - tot)] = [off..<off + c] @ [off + c..<off + (n - tot)]"
      using upt_add_eq_append [of off "off + c" "n - tot - c"] c(2) True by simp
    then have ap: "?b @ map (fbyte s ip) [off + c..<off + (n - tot)] = map (fbyte s ip) [off..<off + (n - tot)]" by simp
    have "readi_loop ip dst off tot n s = Ret (int n, map (fbyte s ip) [off..<off + (n - tot)]) w" using v(1) w(1) ap by (simp add: kop_simps)
    moreover have "deliver dst (user_root s) tot (map (fbyte s ip) [off..<off + (n - tot)]) (mem s) (mem w)"
      using deliver_append [OF v(4) _ less.prems(3), of "map (fbyte s ip) [off + c..<off + (n - tot)]" "mem w"] w(4) c(2) True unfolding ap by simp
    ultimately show ?thesis using w(2) rframe_trans [OF v(3) w(3)] by blast
  qed
qed

lemma readi_law:
  assumes tx: "tx {} s" and wf: "file_wf s ip" and dn: "file_dense s ip" and off: "off \<le> i_size (itable s ip)"
    and n: "unat off + unat n < 2 ^ 32" and k: "k = min (unat n) (unat (i_size (itable s ip)) - unat off)"
    and d: "dst_fits dst k (user_root s) (mem s)"
  shows "\<exists>t. readi ip dst off n s = Ret (int k, slice (unat off) k (file_bytes s ip)) t \<and> tx {} t \<and> rframe s t \<and>
    deliver dst (user_root s) 0 (slice (unat off) k (file_bytes s ip)) (mem s) (mem t)"
proof -
  let ?z = "i_size (itable s ip)"
  have le: "unat off \<le> unat ?z" "unat ?z \<le> MAXFILE * BSIZE" using off dn by (simp_all add: word_le_nat_alt file_dense_def)
  have a: "unat (off + n) = unat off + unat n" using n by (simp add: unat_word_ariths)
  have g: "\<not> ?z < off" "\<not> off + n < off" using off a by (simp_all add: word_less_nat_alt word_le_nat_alt)
  have "unat (if off + n > ?z then ?z - off else n) = k"
    using a le(1) unat_sub [OF off] by (auto simp: k word_less_nat_alt)
  then have r: "readi ip dst off n s = readi_loop ip dst (unat off) 0 k s" using g by (simp add: readi_def kop_simps Let_def)
  have sl: "slice (unat off) k (file_bytes s ip) = map (fbyte s ip) [unat off..<unat off + (k - 0)]"
    using le(1) by (intro nth_equalityI) (auto simp: file_bytes_def nth_slice k)
  have "unat off + (k - 0) \<le> MAXFILE * BSIZE" using le by (simp add: k)
  moreover have "slot_of s ip (bslot (p div BSIZE)) \<noteq> 0" if "p < unat off + (k - 0)" for p
    using dn that le(1) by (simp add: file_dense_def k)
  ultimately show ?thesis using readi_loop_law [OF tx wf d, of 0 "unat off"] unfolding r sl by simp
qed

section \<open>Properties\<close>

lemma fs0_file:
  fixes s :: fs_state
  assumes "view s = disk fs0" "sb s = sb0" "\<And>i. itable s i = inode0"
  shows "file_wf s ip" "file_dense s ip" "file_bytes s ip = []" "2 \<le> card (free_set s)"
proof -
  note m = fs0_map [OF assms(1,2)]
  have sz: "sb_size (sb s) = 2000" "IBLOCK 2 (sb s) = 32" by (simp_all add: assms(2) sb0_def IBLOCK_def IPB_def dinode_size_def file_consts)
  have sl: "slot_of s ip j = 0" if "j \<le> MAXFILE" for j by (auto simp: slot_of_def fslot_def assms(3) inode0_def file_consts)
  have "inuse s b" if "b \<in> {0, 32, 45}" for b using that m(1) [of b] by (auto simp: inuse_def sz)
  then show "file_wf s ip" using sl m(2) by (simp add: file_wf_def meta_def sz assms(3) inode0_def file_consts)
  show "file_dense s ip" "file_bytes s ip = []" by (simp_all add: file_dense_def file_bytes_def assms(3) inode0_def)
  have "{47, 48} \<subseteq> free_set s" unfolding m(5) by (simp add: word_le_nat_alt word_less_nat_alt)
  then have "card {47, 48 :: uint} \<le> card (free_set s)" by (intro card_mono) auto
  then show "2 \<le> card (free_set s)" by simp
qed

text \<open>
  C28. \<open>writei\<close> of a buffer at an offset inside the file or at its end, into a well-formed file without
  holes and in a transaction that can still log \<open>m\<close> data blocks, the free map, the indirect block and
  the inode, returns the full length. The contents of the file are the old ones with the range
  replaced, growing the file if the range goes beyond its end; the inode on disk is the one in
  memory; the file is still well-formed and without holes; the blocks of other files and the
  other inodes are untouched; every block that changed is in the log, and no more than the blocks
  counted are. The buffer may be in kernel memory or in mapped user memory.
\<close>

theorem writei_replaces:
  assumes "tx {} s" "file_wf s ip" "file_dense s ip" "src_holds src bs s" "off \<le> i_size (itable s ip)"
    "unat off + length bs \<le> MAXFILE * BSIZE" "unat off mod BSIZE + length bs \<le> m * BSIZE"
    "card (hset s \<union> bitmap_blocks (sb s)) + m + 2 \<le> tx_cap s" "m < card (free_set s)"
  shows "\<exists>t. writei ip src off (of_nat (length bs)) s = Ret (int (length bs)) t \<and>
    file_bytes t ip = take (unat off) (file_bytes s ip) @ bs @ drop (unat off + length bs) (file_bytes s ip) \<and>
    inode_saved t ip \<and> tx {} t \<and> file_wf t ip \<and> file_dense t ip \<and> others_kept ip s t \<and>
    (\<forall>b. view t b \<noteq> view s b \<longrightarrow> b \<in> hset t) \<and> card (hset t) \<le> card (hset s \<union> bitmap_blocks (sb s)) + m + 2"
  using writei_done [OF assms] unfolding splice_def by metis

theorem writei_replaces_witness:
  "\<exists>(s :: fs_state) t. writei 0 (LocalSrc [104, 105]) 0 2 s = Ret 2 t \<and> file_bytes s 0 = [] \<and> file_bytes t 0 = [104, 105]"
proof -
  obtain s :: fs_state where s: "tx {} s" "hset s = {}" "tx_cap s = 26" "view s = disk fs0" "sb s = sb0" "\<And>i. itable s i = inode0"
    using fs0_boot by metis
  note f = fs0_file [OF s(4-6)]
  have b: "bitmap_blocks (sb s) = {45}" by (rule fs0_map(2) [OF s(4,5)])
  have "\<exists>t. writei 0 (LocalSrc [104, 105]) 0 (of_nat (length [104, 105 :: uint8])) s = Ret (int (length [104, 105 :: uint8])) t \<and>
    file_bytes t 0 = take (unat (0 :: uint)) (file_bytes s 0) @ [104, 105] @ drop (unat (0 :: uint) + length [104, 105 :: uint8]) (file_bytes s 0)"
    using writei_replaces [OF s(1) f(1) [of 0] f(2), where src = "LocalSrc [104, 105]" and bs = "[104, 105]" and off = 0 and m = 1] f(4)
    by (auto simp: b s(2,3) file_consts)
  then show ?thesis using f(3) by auto
qed

text \<open>
  C30. \<open>readi\<close> at an offset of a well-formed file without holes returns the number of bytes from there
  to the end of the file, or the number asked for if that is less, delivers exactly these bytes of the file
  to the destination, kernel memory or mapped user memory, and changes nothing else: not the file
  system and not the log, so that it needs no transaction.
\<close>

theorem readi_returns:
  assumes "tx {} s" "file_wf s ip" "file_dense s ip" "off \<le> i_size (itable s ip)" "unat off + unat n < 2 ^ 32"
    "k = min (unat n) (unat (i_size (itable s ip)) - unat off)" "dst_fits dst k (user_root s) (mem s)"
  shows "\<exists>t. readi ip dst off n s = Ret (int k, take k (drop (unat off) (file_bytes s ip))) t \<and> tx {} t \<and>
    deliver dst (user_root s) 0 (take k (drop (unat off) (file_bytes s ip))) (mem s) (mem t) \<and>
    view t = view s \<and> hset t = hset s \<and> itable t = itable s"
proof -
  obtain t where t: "readi ip dst off n s = Ret (int k, slice (unat off) k (file_bytes s ip)) t" "tx {} t" "rframe s t"
    "deliver dst (user_root s) 0 (slice (unat off) k (file_bytes s ip)) (mem s) (mem t)" using readi_law [OF assms] by blast
  then show ?thesis using rframe_facts(2) [OF t(3)] by (auto simp: slice_def rframe_def)
qed

theorem readi_returns_witness:
  "\<exists>(s :: fs_state) t. readi 0 (KernelDst 0x80100000) 1 10 s = Ret (1, [105]) t \<and> mem t = store_bytes (mem s) 0x80100000 [105] \<and> view t = view s"
proof -
  obtain r :: fs_state where r: "tx {} r" "hset r = {}" "tx_cap r = 26" "view r = disk fs0" "sb r = sb0" "\<And>i. itable r i = inode0"
    using fs0_boot by metis
  note f = fs0_file [OF r(4-6)]
  have b: "bitmap_blocks (sb r) = {45}" by (rule fs0_map(2) [OF r(4,5)])
  have "\<exists>s :: fs_state. file_bytes s 0 = [104, 105] \<and> tx {} s \<and> file_wf s 0 \<and> file_dense s 0"
  proof (rule writei_done [OF r(1) f(1) [of 0] f(2), where src = "LocalSrc [104, 105]" and bs = "[104, 105]" and off = 0 and m = 1])
    fix t :: fs_state
    assume "file_bytes t 0 = splice (unat (0 :: uint)) [104, 105] (file_bytes r 0)" "tx {} t" "file_wf t 0" "file_dense t 0"
    then show ?thesis using f(3) by (auto simp: splice_def)
  qed (use f(4) in \<open>auto simp: b r(2,3) file_consts\<close>)
  then obtain s :: fs_state where s: "file_bytes s 0 = [104, 105]" "tx {} s" "file_wf s 0" "file_dense s 0" by blast
  have "unat (i_size (itable s 0)) = 2" using arg_cong [OF s(1), of length] by (simp add: file_bytes_def)
  then show ?thesis
    using readi_returns [OF s(2-4), where off = 1 and n = 10 and k = 1 and dst = "KernelDst 0x80100000"] s(1)
    by (auto simp: word_le_nat_alt)
qed

text \<open>
  C29. What is written is read back: after a \<open>writei\<close> as above, \<open>readi\<close> of the same range returns
  its length and delivers the bytes that were written.
\<close>

theorem write_read:
  assumes "tx {} s" "file_wf s ip" "file_dense s ip" "src_holds src bs s" "off \<le> i_size (itable s ip)"
    "unat off + length bs \<le> MAXFILE * BSIZE" "unat off mod BSIZE + length bs \<le> m * BSIZE"
    "card (hset s \<union> bitmap_blocks (sb s)) + m + 2 \<le> tx_cap s" "m < card (free_set s)"
    "dst_fits dst (length bs) (user_root s) (mem s)"
  shows "\<exists>t u. writei ip src off (of_nat (length bs)) s = Ret (int (length bs)) t \<and>
    readi ip dst off (of_nat (length bs)) t = Ret (int (length bs), bs) u \<and> deliver dst (user_root s) 0 bs (mem s) (mem u)"
proof -
  obtain t where t: "writei ip src off (of_nat (length bs)) s = Ret (int (length bs)) t"
    "file_bytes t ip = splice (unat off) bs (file_bytes s ip)" "tx {} t" "iframe ip s t" "file_wf t ip" "file_dense t ip"
    using writei_done [OF assms(1-9)] by metis
  have o: "unat off \<le> length (file_bytes s ip)" using assms(5) by (simp add: file_bytes_def word_le_nat_alt)
  have z: "unat (i_size (itable t ip)) = length (file_bytes t ip)" by (simp add: file_bytes_def)
  have le: "unat off + length bs \<le> unat (i_size (itable t ip))" unfolding z t(2) using o by (simp add: splice_def)
  have n: "unat (of_nat (length bs) :: uint) = length bs" using assms(6) by (simp add: unat_of_nat file_consts)
  have sl: "slice (unat off) (length bs) (file_bytes t ip) = bs" using o by (simp add: t(2) slice_def splice_def)
  have "off \<le> i_size (itable t ip)" "unat off + unat (of_nat (length bs) :: uint) < 2 ^ 32" using le n assms(6) by (simp_all add: word_le_nat_alt file_consts)
  then show ?thesis
    using readi_law [OF t(3,5,6), of off "of_nat (length bs)" "length bs" dst] n le assms(10) t(1) sl iframe_user [OF t(4)] by auto
qed

theorem write_read_witness:
  "\<exists>(s :: fs_state) t u. writei 0 (LocalSrc [104, 105]) 0 2 s = Ret 2 t \<and> readi 0 LocalDst 0 2 t = Ret (2, [104, 105]) u"
proof -
  obtain s :: fs_state where s: "tx {} s" "hset s = {}" "tx_cap s = 26" "view s = disk fs0" "sb s = sb0" "\<And>i. itable s i = inode0"
    using fs0_boot by metis
  note f = fs0_file [OF s(4-6)]
  have b: "bitmap_blocks (sb s) = {45}" by (rule fs0_map(2) [OF s(4,5)])
  have "\<exists>t u. writei 0 (LocalSrc [104, 105]) 0 (of_nat (length [104, 105 :: uint8])) s = Ret (int (length [104, 105 :: uint8])) t \<and>
    readi 0 LocalDst 0 (of_nat (length [104, 105 :: uint8])) t = Ret (int (length [104, 105 :: uint8]), [104, 105]) u"
    using write_read [OF s(1) f(1) [of 0] f(2), where src = "LocalSrc [104, 105]" and bs = "[104, 105]" and off = 0 and m = 1 and dst = LocalDst] f(4)
    by (auto simp: b s(2,3) file_consts)
  then show ?thesis by auto
qed

end
