(* ===== verification/Fsinode.thy ===== *)
theory Fsinode
  imports Fsalloc
begin

text \<open>
  The table of in-memory inodes: \<open>iget\<close> and \<open>idup\<close> keep at most one live entry per inode.
\<close>

section \<open>The table\<close>

definition caches :: "uint \<Rightarrow> uint \<Rightarrow> inode \<Rightarrow> bool" where
  "caches dev inum i \<longleftrightarrow> i_ref i > 0 \<and> i_dev i = dev \<and> i_inum i = inum"

definition itable_ok :: "(nat \<Rightarrow> inode) \<Rightarrow> bool" where
  "itable_ok tab \<longleftrightarrow> (\<forall>i<NINODE. 0 \<le> i_ref (tab i)) \<and>
     (\<forall>i<NINODE. \<forall>j<NINODE. \<forall>dev inum. caches dev inum (tab i) \<longrightarrow> caches dev inum (tab j) \<longrightarrow> i = j)"

lemma iget_scan_eq:
  assumes "in_cs s" "held_lk ItableLock s"
  shows "iget_scan ips dev inum emp s =
    (case find (\<lambda>i. caches dev inum (itable s i)) ips of
       Some ip \<Rightarrow> Ret (Inl ip) (rel ItableLock (s\<lparr>itable := (itable s)(ip := (itable s ip)\<lparr>i_ref := i_ref (itable s ip) + 1\<rparr>)\<rparr>))
     | None \<Rightarrow> Ret (Inr (if emp = None then find (\<lambda>i. i_ref (itable s i) = 0) ips else emp)) s)"
  using assms by (induction ips arbitrary: emp) (auto simp: kop_simps state_simps caches_def split: option.split)

lemma iget_found:
  assumes l: "irq_ok s" "free_lk ItableLock s" and f: "find (\<lambda>i. caches dev inum (itable s i)) [0..<NINODE] = Some ip"
  shows "iget dev inum s = Ret ip ((tch s)\<lparr>itable := (itable s)(ip := (itable s ip)\<lparr>i_ref := i_ref (itable s ip) + 1\<rparr>)\<rparr>)"
  using l f by (simp add: iget_def kop_simps state_simps iget_scan_eq)

lemma iget_new:
  assumes l: "irq_ok s" "free_lk ItableLock s" and f: "find (\<lambda>i. caches dev inum (itable s i)) [0..<NINODE] = None"
    and e: "find (\<lambda>i. i_ref (itable s i) = 0) [0..<NINODE] = Some ip"
  shows "iget dev inum s = Ret ip ((tch s)\<lparr>itable := (itable s)(ip := (itable s ip)\<lparr>i_dev := dev, i_inum := inum, i_ref := 1, i_valid := False\<rparr>)\<rparr>)"
  using l f e by (simp add: iget_def kop_simps state_simps iget_scan_eq)

lemma iget_full:
  assumes l: "irq_ok s" "free_lk ItableLock s" and f: "find (\<lambda>i. caches dev inum (itable s i)) [0..<NINODE] = None"
    and e: "find (\<lambda>i. i_ref (itable s i) = 0) [0..<NINODE] = None"
  shows "iget dev inum s = Panic ''iget: no inodes''"
  using l f e by (simp add: iget_def kop_simps state_simps iget_scan_eq)

lemma find_first:
  "find P xs = Some x \<Longrightarrow> x \<in> set xs \<and> P x" "find P xs = None \<Longrightarrow> x \<in> set xs \<Longrightarrow> \<not> P x"
  by (auto simp: find_Some_iff find_None_iff)

lemma itable_ok_ref:
  assumes "itable_ok tab" "ip < NINODE" "0 < i_ref (tab ip)" "0 < n"
  shows "itable_ok (tab(ip := (tab ip)\<lparr>i_ref := n\<rparr>))"
  using assms unfolding itable_ok_def caches_def by auto

lemma itable_ok_new:
  assumes "itable_ok tab" "ip < NINODE" "i_ref (tab ip) = 0" "\<And>j. j < NINODE \<Longrightarrow> \<not> caches dev inum (tab j)"
  shows "itable_ok (tab(ip := (tab ip)\<lparr>i_dev := dev, i_inum := inum, i_ref := 1, i_valid := False\<rparr>))"
  using assms unfolding itable_ok_def caches_def by auto

section \<open>Properties\<close>

text \<open>
  C32. The inode table never holds two live entries for one inode. When the inode is in the table or a slot
  is free, \<open>iget\<close> returns an entry for it and keeps the table well-formed: an entry that was there gets
  one more reference and is otherwise unchanged, else a free slot becomes an entry with one reference whose
  contents are not yet valid; no other entry changes and the lock is free again. With neither it panics.
\<close>

theorem iget_unique:
  assumes "irq_ok s" "free_lk ItableLock s" "itable_ok (itable s)"
  shows "if \<exists>i<NINODE. caches dev inum (itable s i) \<or> i_ref (itable s i) = 0
    then \<exists>ip t. iget dev inum s = Ret ip t \<and> ip < NINODE \<and> itable_ok (itable t) \<and> caches dev inum (itable t ip) \<and>
      (if caches dev inum (itable s ip) then itable t ip = (itable s ip)\<lparr>i_ref := i_ref (itable s ip) + 1\<rparr>
       else i_ref (itable s ip) = 0 \<and> i_ref (itable t ip) = 1 \<and> \<not> i_valid (itable t ip)) \<and>
      (\<forall>j. j \<noteq> ip \<longrightarrow> itable t j = itable s j) \<and> free_lk ItableLock t
    else iget dev inum s = Panic ''iget: no inodes''"
proof (cases "find (\<lambda>i. caches dev inum (itable s i)) [0..<NINODE]")
  case (Some ip)
  then have ip: "ip < NINODE" "caches dev inum (itable s ip)" using find_first(1) [OF Some] by auto
  then have r: "0 < i_ref (itable s ip)" by (simp add: caches_def)
  have "itable_ok ((itable s)(ip := (itable s ip)\<lparr>i_ref := i_ref (itable s ip) + 1\<rparr>))" by (rule itable_ok_ref [OF assms(3) ip(1) r]) (use r in simp)
  then show ?thesis
    using iget_found [OF assms(1,2) Some] ip assms(2) by (auto simp: state_simps caches_def)
next
  case None
  have n: "\<not> caches dev inum (itable s j)" if "j < NINODE" for j using find_first(2) [OF None, of j] that by simp
  show ?thesis
  proof (cases "find (\<lambda>i. i_ref (itable s i) = 0) [0..<NINODE]")
    case e: None
    then have "i_ref (itable s j) \<noteq> 0" if "j < NINODE" for j using find_first(2) [OF e, of j] that by simp
    then show ?thesis using iget_full [OF assms(1,2) None e] n by auto
  next
    case (Some ip)
    then have ip: "ip < NINODE" "i_ref (itable s ip) = 0" using find_first(1) [OF Some] by auto
    have "itable_ok ((itable s)(ip := (itable s ip)\<lparr>i_dev := dev, i_inum := inum, i_ref := 1, i_valid := False\<rparr>))"
      by (rule itable_ok_new [OF assms(3) ip n])
    then show ?thesis
      using iget_new [OF assms(1,2) None Some] ip n assms(2) by (auto simp: state_simps caches_def)
  qed
qed

theorem iget_unique_witness:
  "\<exists>(s :: fs_state) ip t. itable s 0 = inode0 \<and> iget 1 7 s = Ret ip t \<and> i_inum (itable t ip) = 7 \<and> i_ref (itable t ip) = 1 \<and> itable t 0 = inode0"
proof -
  define s where "s = fs0\<lparr>itable := (\<lambda>_. inode0\<lparr>i_ref := 0\<rparr>)(0 := inode0)\<rparr>"
  have s: "irq_ok s" "free_lk ItableLock s" "itable s = (\<lambda>_. inode0\<lparr>i_ref := 0\<rparr>)(0 := inode0)"
    using fs0_facts(1,2) by (simp_all add: s_def state_simps calm_def)
  have ok: "itable_ok (itable s)" unfolding s(3) by (auto simp: itable_ok_def caches_def inode0_def)
  have n: "\<not> caches 1 7 (itable s i)" for i unfolding s(3) by (simp add: caches_def inode0_def)
  have "1 < NINODE \<and> i_ref (itable s 1) = 0" unfolding s(3) by (simp add: NINODE_def)
  then have e: "\<exists>i<NINODE. caches 1 7 (itable s i) \<or> i_ref (itable s i) = 0" by blast
  obtain ip t where t: "iget 1 7 s = Ret ip t" "caches 1 7 (itable t ip)" "i_ref (itable s ip) = 0" "i_ref (itable t ip) = 1"
    "\<forall>j. j \<noteq> ip \<longrightarrow> itable t j = itable s j"
    using iget_unique [OF s(1,2) ok, of 1 7] n unfolding if_P [OF e] by auto
  have "ip \<noteq> 0" using t(3) unfolding s(3) by (auto simp: inode0_def split: if_splits)
  then have "itable s 0 = inode0" "itable t 0 = inode0" using t(5) by (simp_all add: s(3))
  then show ?thesis using t(1,2,4) unfolding caches_def by blast
qed

end
