(* ===== verification/Fsdir.thy ===== *)
theory Fsdir
  imports Fs
begin

text \<open>
  Directories and path names of \<open>kernel/fs.c\<close>. A path or a file name is the list of its bytes; reading
  at the end of the list gives the terminating NUL. The buffer \<open>name\<close> of \<open>namex\<close> has \<open>DIRSIZ\<close> bytes and
  keeps its old contents behind the NUL. A locked directory does not change its size while it is
  searched, so the offsets of its entries are computed once.
\<close>

section \<open>Directories\<close>

definition DIRSIZ :: nat where "DIRSIZ = 14"
definition dirent_size :: nat where "dirent_size = 16"

definition de_inum :: "uint8 list \<Rightarrow> uint16" where
  "de_inum de = get16 0 de"

definition de_name :: "uint8 list \<Rightarrow> uint8 list" where
  "de_name de = drop 2 de"

definition mk_dirent :: "uint16 \<Rightarrow> uint8 list \<Rightarrow> uint8 list" where
  "mk_dirent inum name = le_bytes 2 inum @ name"

definition cbyte :: "uint8 list \<Rightarrow> uint8" where
  "cbyte s = (if s = [] then 0 else hd s)"

fun strncmp_bytes :: "uint8 list \<Rightarrow> uint8 list \<Rightarrow> nat \<Rightarrow> int" where
  "strncmp_bytes p q 0 = 0"
| "strncmp_bytes p q (Suc n) =
     (if cbyte p \<noteq> 0 \<and> cbyte p = cbyte q then strncmp_bytes (tl p) (tl q) n
      else int (unat (cbyte p)) - int (unat (cbyte q)))"

definition namecmp :: "uint8 list \<Rightarrow> uint8 list \<Rightarrow> int" where
  "namecmp s t = strncmp_bytes s t DIRSIZ"

definition strncpy_bytes :: "uint8 list \<Rightarrow> nat \<Rightarrow> uint8 list" where
  "strncpy_bytes t n =
     (let c = takeWhile (\<lambda>b. b \<noteq> 0) (take n t) in c @ replicate (n - length c) 0)"

text \<open>The offsets of the entries of a directory of the given size.\<close>

definition dir_offs :: "nat \<Rightarrow> nat list" where
  "dir_offs sz = map (\<lambda>k. k * dirent_size) [0..<(sz + dirent_size - 1) div dirent_size]"

text \<open>The entry found and its offset.\<close>

fun dirlookup_scan :: "nat list \<Rightarrow> nat \<Rightarrow> uint8 list \<Rightarrow> ((nat \<times> nat) option, 'z fs_state_scheme) kop" where
  "dirlookup_scan [] dp name = ret None"
| "dirlookup_scan (off # offs) dp name =
     bnd (readi dp LocalDst (of_nat off) (of_nat dirent_size)) (\<lambda>(r, de).
     if r \<noteq> int dirent_size then panic ''dirlookup read''
     else if de_inum de = 0 then dirlookup_scan offs dp name
     else if namecmp name (de_name de) = 0 then
       bnd (get_inode dp) (\<lambda>d.
       bnd (iget (i_dev d) (ucast (de_inum de))) (\<lambda>ip.
       ret (Some (ip, off))))
     else dirlookup_scan offs dp name)"

definition dirlookup :: "nat \<Rightarrow> uint8 list \<Rightarrow> ((nat \<times> nat) option, 'z fs_state_scheme) kop" where
  "dirlookup dp name =
     bnd (get_inode dp) (\<lambda>d.
     if i_type d \<noteq> T_DIR then panic ''dirlookup not DIR''
     else dirlookup_scan (dir_offs (unat (i_size d))) dp name)"

text \<open>The offset of the first empty entry, or the end of the directory.\<close>

fun dirlink_scan :: "nat list \<Rightarrow> nat \<Rightarrow> nat \<Rightarrow> (nat, 'z fs_state_scheme) kop" where
  "dirlink_scan [] e dp = ret e"
| "dirlink_scan (off # offs) e dp =
     bnd (readi dp LocalDst (of_nat off) (of_nat dirent_size)) (\<lambda>(r, de).
     if r \<noteq> int dirent_size then panic ''dirlink read''
     else if de_inum de = 0 then ret off
     else dirlink_scan offs e dp)"

definition dirlink :: "nat \<Rightarrow> uint8 list \<Rightarrow> uint \<Rightarrow> (int, 'z fs_state_scheme) kop" where
  "dirlink dp name inum =
     bnd (dirlookup dp name) (\<lambda>found.
     case found of
       Some (ip, off) \<Rightarrow> thn (iput ip) (ret (- 1))
     | None \<Rightarrow>
         bnd (get_inode dp) (\<lambda>d.
         bnd (dirlink_scan (dir_offs (unat (i_size d)))
               (length (dir_offs (unat (i_size d))) * dirent_size) dp) (\<lambda>off.
         bnd (writei dp (LocalSrc (mk_dirent (ucast inum) (strncpy_bytes name DIRSIZ)))
               (of_nat off) (of_nat dirent_size)) (\<lambda>r.
         if r \<noteq> int dirent_size then ret (- 1) else ret 0))))"

section \<open>Paths\<close>

definition slash :: uint8 where "slash = 47"

definition skipelem :: "uint8 list \<Rightarrow> uint8 list \<Rightarrow> (uint8 list \<times> uint8 list) option" where
  "skipelem pth name =
     (let pth = dropWhile (\<lambda>b. b = slash) pth
      in if pth = [] then None
         else let s = takeWhile (\<lambda>b. b \<noteq> slash) pth;
                  pth = dropWhile (\<lambda>b. b \<noteq> slash) pth;
                  len = length s;
                  name = (if len \<ge> DIRSIZ then splice 0 (take DIRSIZ s) name
                          else splice len [0] (splice 0 s name))
              in Some (dropWhile (\<lambda>b. b = slash) pth, name))"

lemma skipelem_shorter:
  assumes "skipelem pth name = Some (pth', name')"
  shows "length pth' < length pth"
proof -
  let ?p = "dropWhile (\<lambda>b. b = slash) pth"
  let ?q = "dropWhile (\<lambda>b. b \<noteq> slash) ?p"
  have ne: "?p \<noteq> []"
  proof
    assume "?p = []"
    then have "skipelem pth name = None" by (simp add: skipelem_def)
    then show False using assms by simp
  qed
  have p': "pth' = dropWhile (\<lambda>b. b = slash) ?q"
    using assms ne unfolding skipelem_def Let_def by (simp only: if_False option.inject prod.inject)
  obtain c r where cr: "?p = c # r" using ne by (cases ?p) auto
  then have "c \<noteq> slash" using hd_dropWhile [OF ne] by simp
  then have "length ?q < length ?p" unfolding cr using length_dropWhile_le [of "\<lambda>b. b \<noteq> slash" r] by simp
  then show ?thesis
    unfolding p' using length_dropWhile_le [of "\<lambda>b. b = slash" ?q]
      length_dropWhile_le [of "\<lambda>b. b = slash" pth] by linarith
qed

text \<open>
  The loop of \<open>namex\<close>: the inode and the contents of \<open>name\<close>. Every round shortens the pth, so its
  length bounds the rounds.
\<close>

primrec namex_loop :: "nat \<Rightarrow> uint8 list \<Rightarrow> bool \<Rightarrow> uint8 list \<Rightarrow> nat \<Rightarrow>
    ((nat \<times> uint8 list) option, 'z fs_state_scheme) kop" where
  "namex_loop 0 pth parent name ip = spin"
| "namex_loop (Suc n) pth parent name ip =
     (case skipelem pth name of
        None \<Rightarrow> if parent then thn (iput ip) (ret None) else ret (Some (ip, name))
      | Some (pth', name') \<Rightarrow>
          thn (ilock (Some ip))
         (bnd (get_inode ip) (\<lambda>i.
          if i_type i \<noteq> T_DIR then thn (iunlockput ip) (ret None)
          else if parent \<and> pth' = [] then thn (iunlock (Some ip)) (ret (Some (ip, name')))
          else
            bnd (dirlookup ip name') (\<lambda>next.
            thn (iunlockput ip)
           (case next of
              None \<Rightarrow> ret None
            | Some (ip', _) \<Rightarrow> namex_loop n pth' parent name' ip')))))"

definition namex :: "uint8 list \<Rightarrow> bool \<Rightarrow> uint8 list \<Rightarrow> ((nat \<times> uint8 list) option, 'z fs_state_scheme) kop" where
  "namex pth parent name =
     bnd (if pth \<noteq> [] \<and> hd pth = slash then iget ROOTDEV ROOTINO
          else bnd cur_proc (\<lambda>p.
               bnd (get_proc p) (\<lambda>pr.
               case p_cwd pr of None \<Rightarrow> panic ''kerneltrap'' | Some cwd \<Rightarrow> idup cwd))) (\<lambda>ip.
     namex_loop (Suc (length pth)) pth parent name ip)"

definition namei :: "uint8 list \<Rightarrow> (nat option, 'z fs_state_scheme) kop" where
  "namei pth = bnd (namex pth False (replicate DIRSIZ 0)) (\<lambda>r. ret (map_option fst r))"

definition nameiparent :: "uint8 list \<Rightarrow> uint8 list \<Rightarrow> ((nat \<times> uint8 list) option, 'z fs_state_scheme) kop" where
  "nameiparent pth name = namex pth True name"

end
