(* ===== verification/Pipe.thy ===== *)
theory Pipe
  imports Sleeplock Ringbuf
begin

text \<open>
  \<open>kernel/pipe.c\<close>. A pipe is the address of the page \<open>kalloc\<close> gave it; its fields are in that page at
  their offsets in \<open>struct pipe\<close>, whose first 24 bytes, the spin lock, are the lock \<open>PipeLock\<close> of the
  address. \<open>pipealloc\<close>, which also allocates file structures, is in the theory of \<open>kernel/file.c\<close>.
\<close>

section \<open>State\<close>

definition PIPESIZE :: nat where "PIPESIZE = 512"

definition ld32 :: "memory \<Rightarrow> uint64 \<Rightarrow> uint32" where
  "ld32 m a = le_word (load_bytes m a 4)"

definition st32 :: "memory \<Rightarrow> uint64 \<Rightarrow> uint32 \<Rightarrow> memory" where
  "st32 m a v = store_bytes m a (le_bytes 4 v)"

definition PIPE_data :: uint64 where "PIPE_data = 24"
definition PIPE_nread :: uint64 where "PIPE_nread = 536"
definition PIPE_nwrite :: uint64 where "PIPE_nwrite = 540"
definition PIPE_readopen :: uint64 where "PIPE_readopen = 544"
definition PIPE_writeopen :: uint64 where "PIPE_writeopen = 548"

definition pipe_get :: "uint64 \<Rightarrow> uint64 \<Rightarrow> (uint32, 'z machine_scheme) kop" where
  "pipe_get pi f = gets (\<lambda>s. ld32 (mem s) (pi + f))"

definition pipe_set :: "uint64 \<Rightarrow> uint64 \<Rightarrow> uint32 \<Rightarrow> (unit, 'z machine_scheme) kop" where
  "pipe_set pi f v = modify (\<lambda>s. s\<lparr>mem := st32 (mem s) (pi + f) v\<rparr>)"

definition pipe_byte :: "uint64 \<Rightarrow> memory \<Rightarrow> nat \<Rightarrow> uint8" where
  "pipe_byte pi m k = m (pi + PIPE_data + of_nat k)"

definition pipe_store :: "uint64 \<Rightarrow> memory \<Rightarrow> nat \<Rightarrow> uint8 \<Rightarrow> memory" where
  "pipe_store pi m k c = m(pi + PIPE_data + of_nat k := c)"

lemma pipe_ops [kop_simps]:
  "pipe_get pi f s = Ret (ld32 (mem s) (pi + f)) s"
  "pipe_set pi f v s = Ret () (s\<lparr>mem := st32 (mem s) (pi + f) v\<rparr>)"
  by (simp_all add: pipe_get_def pipe_set_def kop_simps)

section \<open>Operations\<close>

definition pipeclose :: "uint64 \<Rightarrow> bool \<Rightarrow> (unit, 'z proc_state_scheme) kop" where
  "pipeclose pi writable =
     thn (acquire (PipeLock pi))
    (thn (if writable then
            thn (pipe_set pi PIPE_writeopen 0) (wakeup (Some (ChPipeRead pi)))
          else
            thn (pipe_set pi PIPE_readopen 0) (wakeup (Some (ChPipeWrite pi))))
    (bnd (pipe_get pi PIPE_readopen) (\<lambda>r.
     bnd (pipe_get pi PIPE_writeopen) (\<lambda>w.
     if r = 0 \<and> w = 0 then thn (release (PipeLock pi)) (kfree pi)
     else release (PipeLock pi)))))"

text \<open>
  The loop of \<open>pipewrite\<close> from index \<open>i\<close>: \<open>Inl\<close> is an early return, the lock released; \<open>Inr\<close> is the
  index it reached. A round writes a byte or sleeps, so \<open>n\<close> rounds and the wake-ups followed bound it.
\<close>

primrec pipewrite_loop :: "nat \<Rightarrow> uint64 \<Rightarrow> nat \<Rightarrow> uint64 \<Rightarrow> int \<Rightarrow> int \<Rightarrow> (int + int, 'z proc_state_scheme) kop" where
  "pipewrite_loop 0 pi pr addr i n = spin"
| "pipewrite_loop (Suc fuel) pi pr addr i n =
     (if i < n then
        bnd (pipe_get pi PIPE_readopen) (\<lambda>r.
        bnd (if r = 0 then ret 1 else killed pr) (\<lambda>k.
        if k \<noteq> 0 then thn (release (PipeLock pi)) (ret (Inl (- 1))) else
        bnd (pipe_get pi PIPE_nwrite) (\<lambda>nw.
        bnd (pipe_get pi PIPE_nread) (\<lambda>nr.
        if nw = nr + of_nat PIPESIZE then
          thn (wakeup (Some (ChPipeRead pi)))
         (thn (sleep (ChPipeWrite pi) (PipeLock pi))
              (pipewrite_loop fuel pi pr addr i n))
        else
          bnd (get_proc pr) (\<lambda>p.
          bnd (copyin (p_pagetable p) (addr + of_int i) 1) (\<lambda>(r, bs).
          if r = - 1 then ret (Inr i) else
          thn (modify (\<lambda>s. s\<lparr>mem := pipe_store pi (mem s) (unat nw mod PIPESIZE) (hd bs)\<rparr>))
         (thn (pipe_set pi PIPE_nwrite (nw + 1))
              (pipewrite_loop fuel pi pr addr (i + 1) n))))))))
      else ret (Inr i))"

definition pipewrite :: "uint64 \<Rightarrow> uint64 \<Rightarrow> int \<Rightarrow> (int, 'z proc_state_scheme) kop" where
  "pipewrite pi addr n =
     bnd cur_proc (\<lambda>pr.
     thn (acquire (PipeLock pi))
    (bnd (pipewrite_loop (Suc (nat n) + WAITS) pi pr addr 0 n) (\<lambda>r.
     case r of
       Inl e \<Rightarrow> ret e
     | Inr i \<Rightarrow>
         thn (wakeup (Some (ChPipeRead pi)))
        (thn (release (PipeLock pi))
             (ret i)))))"

text \<open>The wait for data: the result says that the process was killed, the lock released.\<close>

primrec piperead_wait :: "nat \<Rightarrow> uint64 \<Rightarrow> nat \<Rightarrow> (bool, 'z proc_state_scheme) kop" where
  "piperead_wait 0 pi pr = spin"
| "piperead_wait (Suc fuel) pi pr =
     bnd (pipe_get pi PIPE_nread) (\<lambda>nr.
     bnd (pipe_get pi PIPE_nwrite) (\<lambda>nw.
     bnd (pipe_get pi PIPE_writeopen) (\<lambda>wo.
     if nr = nw \<and> wo \<noteq> 0 then
       bnd (killed pr) (\<lambda>k.
       if k \<noteq> 0 then thn (release (PipeLock pi)) (ret True)
       else thn (sleep (ChPipeRead pi) (PipeLock pi)) (piperead_wait fuel pi pr))
     else ret False)))"

text \<open>The copying loop with \<open>n\<close> bytes to go, from index \<open>i\<close>.\<close>

primrec piperead_copy :: "nat \<Rightarrow> uint64 \<Rightarrow> nat \<Rightarrow> uint64 \<Rightarrow> int \<Rightarrow> (int, 'z proc_state_scheme) kop" where
  "piperead_copy 0 pi pr addr i = ret i"
| "piperead_copy (Suc n) pi pr addr i =
     bnd (pipe_get pi PIPE_nread) (\<lambda>nr.
     bnd (pipe_get pi PIPE_nwrite) (\<lambda>nw.
     if nr = nw then ret i else
     bnd (gets (\<lambda>s. pipe_byte pi (mem s) (unat nr mod PIPESIZE))) (\<lambda>ch.
     thn (pipe_set pi PIPE_nread (nr + 1))
    (bnd (get_proc pr) (\<lambda>p.
     bnd (copyout (p_pagetable p) (addr + of_int i) [ch]) (\<lambda>r.
     if r = - 1 then ret i else piperead_copy n pi pr addr (i + 1)))))))"

definition piperead :: "uint64 \<Rightarrow> uint64 \<Rightarrow> int \<Rightarrow> (int, 'z proc_state_scheme) kop" where
  "piperead pi addr n =
     bnd cur_proc (\<lambda>pr.
     thn (acquire (PipeLock pi))
    (bnd (piperead_wait WAITS pi pr) (\<lambda>k.
     if k then ret (- 1) else
     bnd (piperead_copy (nat n) pi pr addr 0) (\<lambda>i.
     thn (wakeup (Some (ChPipeWrite pi)))
    (thn (release (PipeLock pi))
         (ret i))))))"

end
