(* ===== verification/File.thy ===== *)
theory File
  imports Fsdir Pipe
begin

unbundle bit_operations_syntax

text \<open>
  The open-file layer: \<open>kernel/file.c\<close>, \<open>kernel/file.h\<close>, and \<open>pipealloc\<close> of \<open>kernel/pipe.c\<close>. A file
  structure is its index in the table. A device function is named; the device switch says which
  functions a device has, and \<open>consoleinit\<close> of \<open>kernel/console.c\<close> enters those of the console.
\<close>

section \<open>State\<close>

datatype ftype = FD_NONE | FD_PIPE | FD_INODE | FD_DEVICE

record file_t =
  f_type :: ftype
  f_ref :: int
  f_readable :: bool
  f_writable :: bool
  f_pipe :: uint64
  f_ip :: nat
  f_off :: uint
  f_major :: uint16

datatype devfn = Consoleread | Consolewrite

record devsw =
  d_read :: "devfn option"
  d_write :: "devfn option"

definition CONSOLE :: nat where "CONSOLE = 1"

record file_state = fs_state +
  ftable :: "nat \<Rightarrow> file_t"
  devsws :: "nat \<Rightarrow> devsw"

lemma file_upd_order [upd_order]:
  "mem_update f_mem (ftable_update g_ftable r) = ftable_update g_ftable (mem_update f_mem r)"
  "mem_update f_mem (devsws_update g_devsws r) = devsws_update g_devsws (mem_update f_mem r)"
  "tp_update f_tp (ftable_update g_ftable r) = ftable_update g_ftable (tp_update f_tp r)"
  "tp_update f_tp (devsws_update g_devsws r) = devsws_update g_devsws (tp_update f_tp r)"
  "sstatus_update f_sstatus (ftable_update g_ftable r) = ftable_update g_ftable (sstatus_update f_sstatus r)"
  "sstatus_update f_sstatus (devsws_update g_devsws r) = devsws_update g_devsws (sstatus_update f_sstatus r)"
  "cpus_update f_cpus (ftable_update g_ftable r) = ftable_update g_ftable (cpus_update f_cpus r)"
  "cpus_update f_cpus (devsws_update g_devsws r) = devsws_update g_devsws (cpus_update f_cpus r)"
  "locks_update f_locks (ftable_update g_ftable r) = ftable_update g_ftable (locks_update f_locks r)"
  "locks_update f_locks (devsws_update g_devsws r) = devsws_update g_devsws (locks_update f_locks r)"
  "kend_update f_kend (ftable_update g_ftable r) = ftable_update g_ftable (kend_update f_kend r)"
  "kend_update f_kend (devsws_update g_devsws r) = devsws_update g_devsws (kend_update f_kend r)"
  "freelist_update f_freelist (ftable_update g_ftable r) = ftable_update g_ftable (freelist_update f_freelist r)"
  "freelist_update f_freelist (devsws_update g_devsws r) = devsws_update g_devsws (freelist_update f_freelist r)"
  "etext_update f_etext (ftable_update g_ftable r) = ftable_update g_ftable (etext_update f_etext r)"
  "etext_update f_etext (devsws_update g_devsws r) = devsws_update g_devsws (etext_update f_etext r)"
  "trampoline_update f_trampoline (ftable_update g_ftable r) = ftable_update g_ftable (trampoline_update f_trampoline r)"
  "trampoline_update f_trampoline (devsws_update g_devsws r) = devsws_update g_devsws (trampoline_update f_trampoline r)"
  "kernel_pagetable_update f_kernel_pagetable (ftable_update g_ftable r) = ftable_update g_ftable (kernel_pagetable_update f_kernel_pagetable r)"
  "kernel_pagetable_update f_kernel_pagetable (devsws_update g_devsws r) = devsws_update g_devsws (kernel_pagetable_update f_kernel_pagetable r)"
  "satp_update f_satp (ftable_update g_ftable r) = ftable_update g_ftable (satp_update f_satp r)"
  "satp_update f_satp (devsws_update g_devsws r) = devsws_update g_devsws (satp_update f_satp r)"
  "procs_update f_procs (ftable_update g_ftable r) = ftable_update g_ftable (procs_update f_procs r)"
  "procs_update f_procs (devsws_update g_devsws r) = devsws_update g_devsws (procs_update f_procs r)"
  "initproc_update f_initproc (ftable_update g_ftable r) = ftable_update g_ftable (initproc_update f_initproc r)"
  "initproc_update f_initproc (devsws_update g_devsws r) = devsws_update g_devsws (initproc_update f_initproc r)"
  "nextpid_update f_nextpid (ftable_update g_ftable r) = ftable_update g_ftable (nextpid_update f_nextpid r)"
  "nextpid_update f_nextpid (devsws_update g_devsws r) = devsws_update g_devsws (nextpid_update f_nextpid r)"
  "forkret_sym_update f_forkret_sym (ftable_update g_ftable r) = ftable_update g_ftable (forkret_sym_update f_forkret_sym r)"
  "forkret_sym_update f_forkret_sym (devsws_update g_devsws r) = devsws_update g_devsws (forkret_sym_update f_forkret_sym r)"
  "sleeps_update f_sleeps (ftable_update g_ftable r) = ftable_update g_ftable (sleeps_update f_sleeps r)"
  "sleeps_update f_sleeps (devsws_update g_devsws r) = devsws_update g_devsws (sleeps_update f_sleeps r)"
  "bufs_update f_bufs (ftable_update g_ftable r) = ftable_update g_ftable (bufs_update f_bufs r)"
  "bufs_update f_bufs (devsws_update g_devsws r) = devsws_update g_devsws (bufs_update f_bufs r)"
  "disk_update f_disk (ftable_update g_ftable r) = ftable_update g_ftable (disk_update f_disk r)"
  "disk_update f_disk (devsws_update g_devsws r) = devsws_update g_devsws (disk_update f_disk r)"
  "dtrace_update f_dtrace (ftable_update g_ftable r) = ftable_update g_ftable (dtrace_update f_dtrace r)"
  "dtrace_update f_dtrace (devsws_update g_devsws r) = devsws_update g_devsws (dtrace_update f_dtrace r)"
  "logs_update f_logs (ftable_update g_ftable r) = ftable_update g_ftable (logs_update f_logs r)"
  "logs_update f_logs (devsws_update g_devsws r) = devsws_update g_devsws (logs_update f_logs r)"
  "uart_update f_uart (ftable_update g_ftable r) = ftable_update g_ftable (uart_update f_uart r)"
  "uart_update f_uart (devsws_update g_devsws r) = devsws_update g_devsws (uart_update f_uart r)"
  "panicked_update f_panicked (ftable_update g_ftable r) = ftable_update g_ftable (panicked_update f_panicked r)"
  "panicked_update f_panicked (devsws_update g_devsws r) = devsws_update g_devsws (panicked_update f_panicked r)"
  "pr_locking_update f_pr_locking (ftable_update g_ftable r) = ftable_update g_ftable (pr_locking_update f_pr_locking r)"
  "pr_locking_update f_pr_locking (devsws_update g_devsws r) = devsws_update g_devsws (pr_locking_update f_pr_locking r)"
  "cons_update f_cons (ftable_update g_ftable r) = ftable_update g_ftable (cons_update f_cons r)"
  "cons_update f_cons (devsws_update g_devsws r) = devsws_update g_devsws (cons_update f_cons r)"
  "sb_update f_sb (ftable_update g_ftable r) = ftable_update g_ftable (sb_update f_sb r)"
  "sb_update f_sb (devsws_update g_devsws r) = devsws_update g_devsws (sb_update f_sb r)"
  "itable_update f_itable (ftable_update g_ftable r) = ftable_update g_ftable (itable_update f_itable r)"
  "itable_update f_itable (devsws_update g_devsws r) = devsws_update g_devsws (itable_update f_itable r)"
  "ftable_update f_ftable (devsws_update g_devsws r) = devsws_update g_devsws (ftable_update f_ftable r)"
  by simp_all


lemma file_state_simps [state_simps]:
  "ftable (acq lk s) = ftable s"
  "acq lk (ftable_update f_ftable s) = ftable_update f_ftable (acq lk s)"
  "ftable (rel lk s) = ftable s"
  "rel lk (ftable_update f_ftable s) = ftable_update f_ftable (rel lk s)"
  "ftable (tch s) = ftable s"
  "tch (ftable_update f_ftable s) = ftable_update f_ftable (tch s)"
  "free_lk lk (ftable_update f_ftable s) = free_lk lk s"
  "held_lk lk (ftable_update f_ftable s) = held_lk lk s"
  "in_cs (ftable_update f_ftable s) = in_cs s"
  "irq_ok (ftable_update f_ftable s) = irq_ok s"
  "intr_get (ftable_update f_ftable s) = intr_get s"
  "cpuid (ftable_update f_ftable s) = cpuid s"
  "mycpu (ftable_update f_ftable s) = mycpu s"
  "devsws (acq lk s) = devsws s"
  "acq lk (devsws_update f_devsws s) = devsws_update f_devsws (acq lk s)"
  "devsws (rel lk s) = devsws s"
  "rel lk (devsws_update f_devsws s) = devsws_update f_devsws (rel lk s)"
  "devsws (tch s) = devsws s"
  "tch (devsws_update f_devsws s) = devsws_update f_devsws (tch s)"
  "free_lk lk (devsws_update f_devsws s) = free_lk lk s"
  "held_lk lk (devsws_update f_devsws s) = held_lk lk s"
  "in_cs (devsws_update f_devsws s) = in_cs s"
  "irq_ok (devsws_update f_devsws s) = irq_ok s"
  "intr_get (devsws_update f_devsws s) = intr_get s"
  "cpuid (devsws_update f_devsws s) = cpuid s"
  "mycpu (devsws_update f_devsws s) = mycpu s"
  by (simp_all add: in_cs_def lock_defs upd_order)


definition set_file :: "nat \<Rightarrow> (file_t \<Rightarrow> file_t) \<Rightarrow> (unit, 'z file_state_scheme) kop" where
  "set_file f g = modify (\<lambda>s. s\<lparr>ftable := (ftable s)(f := g (ftable s f))\<rparr>)"

definition get_file :: "nat \<Rightarrow> (file_t, 'z file_state_scheme) kop" where
  "get_file f = gets (\<lambda>s. ftable s f)"

lemma file_ops [kop_simps]:
  "set_file f g s = Ret () (s\<lparr>ftable := (ftable s)(f := g (ftable s f))\<rparr>)"
  "get_file f s = Ret (ftable s f) s"
  by (simp_all add: set_file_def get_file_def kop_simps)

section \<open>Operations\<close>

definition fileinit :: "(unit, 'z file_state_scheme) kop" where
  "fileinit = initlock FtableLock ''ftable''"

definition consoleinit :: "(unit, 'z file_state_scheme) kop" where
  "consoleinit =
     thn (initlock ConsLock ''cons'')
    (thn uartinit
    (thn (modify (\<lambda>s. s\<lparr>devsws := (devsws s)(CONSOLE := (devsws s CONSOLE)\<lparr>d_read := Some Consoleread\<rparr>)\<rparr>))
         (modify (\<lambda>s. s\<lparr>devsws := (devsws s)(CONSOLE := (devsws s CONSOLE)\<lparr>d_write := Some Consolewrite\<rparr>)\<rparr>))))"

fun filealloc_scan :: "nat list \<Rightarrow> (nat option, 'z file_state_scheme) kop" where
  "filealloc_scan [] = thn (release FtableLock) (ret None)"
| "filealloc_scan (f # fs) =
     bnd (get_file f) (\<lambda>q.
     if f_ref q = 0 then
       thn (set_file f (\<lambda>q. q\<lparr>f_ref := 1\<rparr>))
      (thn (release FtableLock)
           (ret (Some f)))
     else filealloc_scan fs)"

definition filealloc :: "(nat option, 'z file_state_scheme) kop" where
  "filealloc = thn (acquire FtableLock) (filealloc_scan [0..<NFILE])"

definition filedup :: "nat \<Rightarrow> (nat, 'z file_state_scheme) kop" where
  "filedup f =
     thn (acquire FtableLock)
    (bnd (get_file f) (\<lambda>q.
     if f_ref q < 1 then panic ''filedup'' else
     thn (set_file f (\<lambda>q. q\<lparr>f_ref := f_ref q + 1\<rparr>))
    (thn (release FtableLock)
         (ret f))))"

definition fileclose :: "nat \<Rightarrow> (unit, 'z file_state_scheme) kop" where
  "fileclose f =
     thn (acquire FtableLock)
    (bnd (get_file f) (\<lambda>q.
     if f_ref q < 1 then panic ''fileclose'' else
     thn (set_file f (\<lambda>q. q\<lparr>f_ref := f_ref q - 1\<rparr>))
    (bnd (get_file f) (\<lambda>ff.
     if f_ref ff > 0 then release FtableLock else
     thn (set_file f (\<lambda>q. q\<lparr>f_ref := 0, f_type := FD_NONE\<rparr>))
    (thn (release FtableLock)
    (if f_type ff = FD_PIPE then pipeclose (f_pipe ff) (f_writable ff)
     else whenk (f_type ff = FD_INODE \<or> f_type ff = FD_DEVICE)
       (thn begin_op (thn (iput (f_ip ff)) end_op))))))))"

text \<open>The bytes of \<open>struct stat\<close>: the 64-bit size is aligned to 16.\<close>

definition stat_bytes :: "stat \<Rightarrow> uint8 list" where
  "stat_bytes st = le_bytes 4 (st_dev st) @ le_bytes 4 (st_ino st) @ le_bytes 2 (st_type st) @
     le_bytes 2 (st_nlink st) @ replicate 4 0 @ le_bytes 8 (st_size st)"

definition filestat :: "nat \<Rightarrow> uint64 \<Rightarrow> (int, 'z file_state_scheme) kop" where
  "filestat f addr =
     bnd cur_proc (\<lambda>p.
     bnd (get_file f) (\<lambda>q.
     if f_type q = FD_INODE \<or> f_type q = FD_DEVICE then
       thn (ilock (Some (f_ip q)))
      (bnd (stati (f_ip q)) (\<lambda>st.
       thn (iunlock (Some (f_ip q)))
      (bnd (get_proc p) (\<lambda>pr.
       bnd (copyout (p_pagetable pr) addr (stat_bytes st)) (\<lambda>r.
       if r < 0 then ret (- 1) else ret 0)))))
     else ret (- 1)))"

fun call_dev :: "devfn \<Rightarrow> uint64 \<Rightarrow> int \<Rightarrow> (int, 'z file_state_scheme) kop" where
  "call_dev Consoleread addr n = consoleread True addr n"
| "call_dev Consolewrite addr n = consolewrite True addr n"

definition fileread :: "nat \<Rightarrow> uint64 \<Rightarrow> int \<Rightarrow> (int, 'z file_state_scheme) kop" where
  "fileread f addr n =
     bnd (get_file f) (\<lambda>q.
     if \<not> f_readable q then ret (- 1)
     else if f_type q = FD_PIPE then piperead (f_pipe q) addr n
     else if f_type q = FD_DEVICE then
       (if sint (f_major q) < 0 \<or> sint (f_major q) \<ge> int NDEV then ret (- 1) else
        bnd (gets (\<lambda>s. d_read (devsws s (unat (f_major q))))) (\<lambda>d.
        case d of None \<Rightarrow> ret (- 1) | Some fn \<Rightarrow> call_dev fn addr n))
     else if f_type q = FD_INODE then
       thn (ilock (Some (f_ip q)))
      (bnd (readi (f_ip q) (UserDst addr) (f_off q) (of_int n)) (\<lambda>(r, _).
       thn (whenk (r > 0) (set_file f (\<lambda>q. q\<lparr>f_off := f_off q + of_int r\<rparr>)))
      (thn (iunlock (Some (f_ip q)))
           (ret r))))
     else panic ''fileread'')"

text \<open>
  The loop of \<open>filewrite\<close>, one transaction for each piece. A piece is positive and a short write ends
  the loop, so the bytes to write bound the rounds.
\<close>

definition filewrite_max :: int where
  "filewrite_max = ((int MAXOPBLOCKS - 1 - 1 - 2) div 2) * int BSIZE"

primrec filewrite_loop :: "nat \<Rightarrow> nat \<Rightarrow> uint64 \<Rightarrow> int \<Rightarrow> int \<Rightarrow> (int, 'z file_state_scheme) kop" where
  "filewrite_loop 0 f addr i n = spin"
| "filewrite_loop (Suc fuel) f addr i n =
     (if i < n then
        let n1 = (if n - i > filewrite_max then filewrite_max else n - i) in
        thn begin_op
       (bnd (get_file f) (\<lambda>q.
        thn (ilock (Some (f_ip q)))
       (bnd (get_file f) (\<lambda>q.
        bnd (writei (f_ip q) (UserSrc (addr + of_int i)) (f_off q) (of_int n1)) (\<lambda>r.
        thn (whenk (r > 0) (set_file f (\<lambda>q. q\<lparr>f_off := f_off q + of_int r\<rparr>)))
       (thn (iunlock (Some (f_ip q)))
       (thn end_op
       (if r \<noteq> n1 then ret i else filewrite_loop fuel f addr (i + r) n))))))))
      else ret i)"

definition filewrite :: "nat \<Rightarrow> uint64 \<Rightarrow> int \<Rightarrow> (int, 'z file_state_scheme) kop" where
  "filewrite f addr n =
     bnd (get_file f) (\<lambda>q.
     if \<not> f_writable q then ret (- 1)
     else if f_type q = FD_PIPE then pipewrite (f_pipe q) addr n
     else if f_type q = FD_DEVICE then
       (if sint (f_major q) < 0 \<or> sint (f_major q) \<ge> int NDEV then ret (- 1) else
        bnd (gets (\<lambda>s. d_write (devsws s (unat (f_major q))))) (\<lambda>d.
        case d of None \<Rightarrow> ret (- 1) | Some fn \<Rightarrow> call_dev fn addr n))
     else if f_type q = FD_INODE then
       bnd (filewrite_loop (Suc (nat n)) f addr 0 n) (\<lambda>i. ret (if i = n then n else - 1))
     else panic ''filewrite'')"

text \<open>The exit of \<open>pipealloc\<close> at label \<open>bad\<close>: the page is not allocated there.\<close>

definition pipealloc_bad :: "nat option \<Rightarrow> nat option \<Rightarrow> ((nat \<times> nat) option, 'z file_state_scheme) kop" where
  "pipealloc_bad f0 f1 =
     thn (case f0 of None \<Rightarrow> ret () | Some f \<Rightarrow> fileclose f)
    (thn (case f1 of None \<Rightarrow> ret () | Some f \<Rightarrow> fileclose f)
         (ret None))"

text \<open>The two files of the pipe, or \<open>None\<close> for the return value -1.\<close>

definition pipealloc :: "((nat \<times> nat) option, 'z file_state_scheme) kop" where
  "pipealloc =
     bnd filealloc (\<lambda>f0.
     case f0 of None \<Rightarrow> pipealloc_bad None None | Some a \<Rightarrow>
     bnd filealloc (\<lambda>f1.
     case f1 of None \<Rightarrow> pipealloc_bad (Some a) None | Some b \<Rightarrow>
     bnd kalloc (\<lambda>pi.
     if pi = 0 then pipealloc_bad (Some a) (Some b) else
     thn (pipe_set pi PIPE_readopen 1)
    (thn (pipe_set pi PIPE_writeopen 1)
    (thn (pipe_set pi PIPE_nwrite 0)
    (thn (pipe_set pi PIPE_nread 0)
    (thn (initlock (PipeLock pi) ''pipe'')
    (thn (set_file a (\<lambda>q. q\<lparr>f_type := FD_PIPE, f_readable := True, f_writable := False, f_pipe := pi\<rparr>))
    (thn (set_file b (\<lambda>q. q\<lparr>f_type := FD_PIPE, f_readable := False, f_writable := True, f_pipe := pi\<rparr>))
         (ret (Some (a, b))))))))))))"

end
