(* ===== verification/Procfs.thy ===== *)
theory Procfs
  imports File
begin

text \<open>
  The functions of \<open>kernel/proc.c\<close> that use files and inodes: \<open>userinit\<close>, \<open>fork\<close> and \<open>exit\<close>. The name of a
  process is a list of 16 bytes. A trapframe is the page \<open>p->trapframe\<close> points to.
\<close>

section \<open>Operations\<close>

text \<open>\<open>safestrcpy\<close> on lists of bytes: a string shorter than the room gets two NULs, as the loop writes them.\<close>

definition safestrcpy_bytes :: "uint8 list \<Rightarrow> uint8 list \<Rightarrow> nat \<Rightarrow> uint8 list" where
  "safestrcpy_bytes s t n =
     (let c = takeWhile (\<lambda>b. b \<noteq> 0) (take (n - 1) t)
      in splice 0 (c @ (if length c < n - 1 then [0, 0] else [0])) s)"

definition initcode :: "uint8 list" where
  "initcode =
     [0x17, 0x05, 0x00, 0x00, 0x13, 0x05, 0x45, 0x02,
      0x97, 0x05, 0x00, 0x00, 0x93, 0x85, 0x35, 0x02,
      0x93, 0x08, 0x70, 0x00, 0x73, 0x00, 0x00, 0x00,
      0x93, 0x08, 0x20, 0x00, 0x73, 0x00, 0x00, 0x00,
      0xef, 0xf0, 0x9f, 0xff, 0x2f, 0x69, 0x6e, 0x69,
      0x74, 0x00, 0x00, 0x24, 0x00, 0x00, 0x00, 0x00,
      0x00, 0x00, 0x00, 0x00]"

definition bytes_of :: "string \<Rightarrow> uint8 list" where
  "bytes_of t = map char_byte t"

definition userinit :: "(unit, 'z file_state_scheme) kop" where
  "userinit =
     bnd allocproc (\<lambda>r.
     thn (modify (\<lambda>s. s\<lparr>initproc := r\<rparr>))
    (case r of None \<Rightarrow> panic ''kerneltrap'' | Some p \<Rightarrow>
     bnd (get_proc p) (\<lambda>pr.
     thn (uvmfirst (p_pagetable pr) initcode (of_nat (length initcode)))
    (thn (set_proc p (\<lambda>q. q\<lparr>p_sz := PGSIZE\<rparr>))
    (thn (wr64 (p_trapframe pr + TF_epc) 0)
    (thn (wr64 (p_trapframe pr + TF_sp) PGSIZE)
    (thn (set_proc p (\<lambda>q. q\<lparr>p_name := safestrcpy_bytes (p_name q) (bytes_of ''initcode'') 16\<rparr>))
    (bnd (namei (bytes_of ''/'')) (\<lambda>ip.
     thn (set_proc p (\<lambda>q. q\<lparr>p_cwd := ip\<rparr>))
    (thn (set_proc p (\<lambda>q. q\<lparr>p_state := RUNNABLE\<rparr>))
         (release (ProcLock p))))))))))))"

definition fork_dup :: "nat \<Rightarrow> nat \<Rightarrow> nat \<Rightarrow> (unit, 'z file_state_scheme) kop" where
  "fork_dup p np i =
     bnd (get_proc p) (\<lambda>pr.
     case p_ofile pr i of None \<Rightarrow> ret ()
     | Some f \<Rightarrow>
         bnd (filedup f) (\<lambda>f'.
         set_proc np (\<lambda>q. q\<lparr>p_ofile := (p_ofile q)(i := Some f')\<rparr>)))"

definition fork :: "(int, 'z file_state_scheme) kop" where
  "fork =
     bnd cur_proc (\<lambda>p.
     bnd allocproc (\<lambda>r.
     case r of None \<Rightarrow> ret (- 1) | Some np \<Rightarrow>
     bnd (get_proc p) (\<lambda>pr.
     bnd (get_proc np) (\<lambda>npr.
     bnd (uvmcopy (p_pagetable pr) (p_pagetable npr) (p_sz pr)) (\<lambda>c.
     if c < 0 then
       thn (freeproc np) (thn (release (ProcLock np)) (ret (- 1)))
     else
       thn (set_proc np (\<lambda>q. q\<lparr>p_sz := p_sz pr\<rparr>))
      (bnd (gets (\<lambda>s. load_bytes (mem s) (p_trapframe pr) TF_size)) (\<lambda>tf.
       thn (put_bytes (p_trapframe npr) tf)
      (thn (wr64 (p_trapframe npr + TF_a0) 0)
      (thn (for_each [0..<NOFILE] (fork_dup p np))
      (bnd (case p_cwd pr of None \<Rightarrow> panic ''kerneltrap'' | Some c \<Rightarrow> idup c) (\<lambda>cwd.
       thn (set_proc np (\<lambda>q. q\<lparr>p_cwd := Some cwd\<rparr>))
      (thn (set_proc np (\<lambda>q. q\<lparr>p_name := safestrcpy_bytes (p_name q) (p_name pr) 16\<rparr>))
      (bnd (get_proc np) (\<lambda>npr.
       thn (release (ProcLock np))
      (thn (acquire WaitLock)
      (thn (set_proc np (\<lambda>q. q\<lparr>p_parent := Some p\<rparr>))
      (thn (release WaitLock)
      (thn (acquire (ProcLock np))
      (thn (set_proc np (\<lambda>q. q\<lparr>p_state := RUNNABLE\<rparr>))
      (thn (release (ProcLock np))
           (ret (p_pid npr))))))))))))))))))))))"

definition exit_close :: "nat \<Rightarrow> nat \<Rightarrow> (unit, 'z file_state_scheme) kop" where
  "exit_close p fd =
     bnd (get_proc p) (\<lambda>pr.
     case p_ofile pr fd of None \<Rightarrow> ret ()
     | Some f \<Rightarrow>
         thn (fileclose f)
             (set_proc p (\<lambda>q. q\<lparr>p_ofile := (p_ofile q)(fd := None)\<rparr>)))"

definition exit :: "int \<Rightarrow> ('a, 'z file_state_scheme) kop" where
  "exit status =
     bnd cur_proc (\<lambda>p.
     bnd (gets initproc) (\<lambda>ip.
     if ip = Some p then panic ''init exiting'' else
     thn (for_each [0..<NOFILE] (exit_close p))
    (thn begin_op
    (bnd (get_proc p) (\<lambda>pr.
     thn (case p_cwd pr of None \<Rightarrow> panic ''kerneltrap'' | Some c \<Rightarrow> iput c)
    (thn end_op
    (thn (set_proc p (\<lambda>q. q\<lparr>p_cwd := None\<rparr>))
    (thn (acquire WaitLock)
    (thn (reparent p)
    (bnd (get_proc p) (\<lambda>pr.
     thn (wakeup (map_option ChProc (p_parent pr)))
    (thn (acquire (ProcLock p))
    (thn (set_proc p (\<lambda>q. q\<lparr>p_xstate := status\<rparr>))
    (thn (set_proc p (\<lambda>q. q\<lparr>p_state := ZOMBIE\<rparr>))
    (thn (release WaitLock)
    (thn sched
         (panic ''zombie exit'')))))))))))))))))"

end
