(* ===== verification/Sysfile.thy ===== *)
theory Sysfile
  imports Procfs
begin

unbundle bit_operations_syntax

text \<open>
  Fetching system call arguments, \<open>kernel/syscall.c\<close>, and the file system calls of
  \<open>kernel/sysfile.c\<close> except \<open>sys_exec\<close>. A string argument is the list of its bytes without the NUL. A
  call returns the 64 bits that go to register a0.
\<close>

section \<open>Arguments\<close>

definition TF_a2 :: uint64 where "TF_a2 = 128"
definition TF_a3 :: uint64 where "TF_a3 = 136"
definition TF_a4 :: uint64 where "TF_a4 = 144"
definition TF_a5 :: uint64 where "TF_a5 = 152"

definition fetchaddr :: "uint64 \<Rightarrow> (int \<times> uint64, 'z file_state_scheme) kop" where
  "fetchaddr addr =
     bnd cur_proc (\<lambda>p.
     bnd (get_proc p) (\<lambda>pr.
     if addr \<ge> p_sz pr \<or> addr + 8 > p_sz pr then ret (- 1, 0) else
     bnd (copyin (p_pagetable pr) addr 8) (\<lambda>(r, bs).
     if r \<noteq> 0 then ret (- 1, 0) else ret (0, le_word bs))))"

text \<open>The length of the string, or -1, and the string.\<close>

definition fetchstr :: "uint64 \<Rightarrow> nat \<Rightarrow> (int \<times> uint8 list, 'z file_state_scheme) kop" where
  "fetchstr addr mx =
     bnd cur_proc (\<lambda>p.
     bnd (get_proc p) (\<lambda>pr.
     bnd (copyinstr (p_pagetable pr) addr mx) (\<lambda>(r, bs).
     if r < 0 then ret (- 1, []) else
     let t = takeWhile (\<lambda>b. b \<noteq> 0) bs in ret (int (length t), t))))"

definition argraw :: "nat \<Rightarrow> (uint64, 'z file_state_scheme) kop" where
  "argraw n =
     bnd cur_proc (\<lambda>p.
     bnd (get_proc p) (\<lambda>pr.
     let tf = p_trapframe pr in
     if n = 0 then rd64 (tf + TF_a0)
     else if n = 1 then rd64 (tf + TF_a1)
     else if n = 2 then rd64 (tf + TF_a2)
     else if n = 3 then rd64 (tf + TF_a3)
     else if n = 4 then rd64 (tf + TF_a4)
     else if n = 5 then rd64 (tf + TF_a5)
     else panic ''argraw''))"

definition argint :: "nat \<Rightarrow> (int, 'z file_state_scheme) kop" where
  "argint n = bnd (argraw n) (\<lambda>v. ret (sint (ucast v :: uint32)))"

definition argaddr :: "nat \<Rightarrow> (uint64, 'z file_state_scheme) kop" where
  "argaddr n = argraw n"

definition argstr :: "nat \<Rightarrow> nat \<Rightarrow> (int \<times> uint8 list, 'z file_state_scheme) kop" where
  "argstr n mx = bnd (argaddr n) (\<lambda>addr. fetchstr addr mx)"

text \<open>The descriptor and the file, or \<open>None\<close> for the return value -1.\<close>

definition argfd :: "nat \<Rightarrow> ((nat \<times> nat) option, 'z file_state_scheme) kop" where
  "argfd n =
     bnd (argint n) (\<lambda>fd.
     if fd < 0 \<or> fd \<ge> int NOFILE then ret None else
     bnd cur_proc (\<lambda>p.
     bnd (get_proc p) (\<lambda>pr.
     case p_ofile pr (nat fd) of None \<Rightarrow> ret None | Some f \<Rightarrow> ret (Some (nat fd, f)))))"

fun fdalloc_scan :: "nat list \<Rightarrow> nat \<Rightarrow> nat \<Rightarrow> (int, 'z file_state_scheme) kop" where
  "fdalloc_scan [] p f = ret (- 1)"
| "fdalloc_scan (fd # fds) p f =
     bnd (get_proc p) (\<lambda>pr.
     if p_ofile pr fd = None then
       thn (set_proc p (\<lambda>q. q\<lparr>p_ofile := (p_ofile q)(fd := Some f)\<rparr>)) (ret (int fd))
     else fdalloc_scan fds p f)"

definition fdalloc :: "nat \<Rightarrow> (int, 'z file_state_scheme) kop" where
  "fdalloc f = bnd cur_proc (\<lambda>p. fdalloc_scan [0..<NOFILE] p f)"

section \<open>Files\<close>

definition sys_dup :: "(uint64, 'z file_state_scheme) kop" where
  "sys_dup =
     bnd (argfd 0) (\<lambda>r.
     case r of None \<Rightarrow> ret (- 1) | Some (_, f) \<Rightarrow>
     bnd (fdalloc f) (\<lambda>fd.
     if fd < 0 then ret (- 1) else
     thn (filedup f) (ret (of_int fd))))"

definition sys_read :: "(uint64, 'z file_state_scheme) kop" where
  "sys_read =
     bnd (argaddr 1) (\<lambda>p.
     bnd (argint 2) (\<lambda>n.
     bnd (argfd 0) (\<lambda>r.
     case r of None \<Rightarrow> ret (- 1) | Some (_, f) \<Rightarrow>
     bnd (fileread f p n) (\<lambda>k. ret (of_int k)))))"

definition sys_write :: "(uint64, 'z file_state_scheme) kop" where
  "sys_write =
     bnd (argaddr 1) (\<lambda>p.
     bnd (argint 2) (\<lambda>n.
     bnd (argfd 0) (\<lambda>r.
     case r of None \<Rightarrow> ret (- 1) | Some (_, f) \<Rightarrow>
     bnd (filewrite f p n) (\<lambda>k. ret (of_int k)))))"

definition sys_close :: "(uint64, 'z file_state_scheme) kop" where
  "sys_close =
     bnd (argfd 0) (\<lambda>r.
     case r of None \<Rightarrow> ret (- 1) | Some (fd, f) \<Rightarrow>
     bnd cur_proc (\<lambda>p.
     thn (set_proc p (\<lambda>q. q\<lparr>p_ofile := (p_ofile q)(fd := None)\<rparr>))
    (thn (fileclose f)
         (ret 0))))"

definition sys_fstat :: "(uint64, 'z file_state_scheme) kop" where
  "sys_fstat =
     bnd (argaddr 1) (\<lambda>st.
     bnd (argfd 0) (\<lambda>r.
     case r of None \<Rightarrow> ret (- 1) | Some (_, f) \<Rightarrow>
     bnd (filestat f st) (\<lambda>k. ret (of_int k))))"

section \<open>Links\<close>

text \<open>The exit of \<open>sys_link\<close> at label \<open>bad\<close>.\<close>

definition sys_link_bad :: "nat \<Rightarrow> (uint64, 'z file_state_scheme) kop" where
  "sys_link_bad ip =
     thn (ilock (Some ip))
    (thn (set_inode ip (\<lambda>i. i\<lparr>i_nlink := i_nlink i - 1\<rparr>))
    (thn (iupdate ip)
    (thn (iunlockput ip)
    (thn end_op
         (ret (- 1))))))"

definition sys_link :: "(uint64, 'z file_state_scheme) kop" where
  "sys_link =
     bnd (argstr 0 MAXPATH) (\<lambda>(r, old).
     if r < 0 then ret (- 1) else
     bnd (argstr 1 MAXPATH) (\<lambda>(r, new').
     if r < 0 then ret (- 1) else
     thn begin_op
    (bnd (namei old) (\<lambda>res.
     case res of None \<Rightarrow> thn end_op (ret (- 1)) | Some ip \<Rightarrow>
     thn (ilock (Some ip))
    (bnd (get_inode ip) (\<lambda>i.
     if i_type i = T_DIR then thn (iunlockput ip) (thn end_op (ret (- 1))) else
     thn (set_inode ip (\<lambda>i. i\<lparr>i_nlink := i_nlink i + 1\<rparr>))
    (thn (iupdate ip)
    (thn (iunlock (Some ip))
    (bnd (nameiparent new' (replicate DIRSIZ 0)) (\<lambda>res.
     case res of None \<Rightarrow> sys_link_bad ip | Some (dp, name) \<Rightarrow>
     thn (ilock (Some dp))
    (bnd (get_inode dp) (\<lambda>d.
     bnd (get_inode ip) (\<lambda>i.
     bnd (if i_dev d \<noteq> i_dev i then ret (- 1) else dirlink dp name (i_inum i)) (\<lambda>k.
     if k < 0 then thn (iunlockput dp) (sys_link_bad ip) else
     thn (iunlockput dp)
    (thn (iput ip)
    (thn end_op
         (ret 0)))))))))))))))))"

fun isdirempty_scan :: "nat list \<Rightarrow> nat \<Rightarrow> (bool, 'z file_state_scheme) kop" where
  "isdirempty_scan [] dp = ret True"
| "isdirempty_scan (off # offs) dp =
     bnd (readi dp LocalDst (of_nat off) (of_nat dirent_size)) (\<lambda>(r, de).
     if r \<noteq> int dirent_size then panic ''isdirempty: readi''
     else if de_inum de \<noteq> 0 then ret False
     else isdirempty_scan offs dp)"

definition isdirempty :: "nat \<Rightarrow> (bool, 'z file_state_scheme) kop" where
  "isdirempty dp =
     bnd (get_inode dp) (\<lambda>d. isdirempty_scan (drop 2 (dir_offs (unat (i_size d)))) dp)"

definition sys_unlink_bad :: "nat \<Rightarrow> (uint64, 'z file_state_scheme) kop" where
  "sys_unlink_bad dp = thn (iunlockput dp) (thn end_op (ret (- 1)))"

definition sys_unlink :: "(uint64, 'z file_state_scheme) kop" where
  "sys_unlink =
     bnd (argstr 0 MAXPATH) (\<lambda>(r, pth).
     if r < 0 then ret (- 1) else
     thn begin_op
    (bnd (nameiparent pth (replicate DIRSIZ 0)) (\<lambda>res.
     case res of None \<Rightarrow> thn end_op (ret (- 1)) | Some (dp, name) \<Rightarrow>
     thn (ilock (Some dp))
    (if namecmp name (bytes_of ''.'') = 0 \<or> namecmp name (bytes_of ''..'') = 0 then sys_unlink_bad dp else
     bnd (dirlookup dp name) (\<lambda>found.
     case found of None \<Rightarrow> sys_unlink_bad dp | Some (ip, off) \<Rightarrow>
     thn (ilock (Some ip))
    (bnd (get_inode ip) (\<lambda>i.
     if sint (i_nlink i) < 1 then panic ''unlink: nlink < 1'' else
     bnd (if i_type i = T_DIR then isdirempty ip else ret True) (\<lambda>e.
     if \<not> e then thn (iunlockput ip) (sys_unlink_bad dp) else
     bnd (writei dp (LocalSrc (replicate dirent_size 0)) (of_nat off) (of_nat dirent_size)) (\<lambda>w.
     if w \<noteq> int dirent_size then panic ''unlink: writei'' else
     bnd (get_inode ip) (\<lambda>i.
     thn (whenk (i_type i = T_DIR)
           (thn (set_inode dp (\<lambda>d. d\<lparr>i_nlink := i_nlink d - 1\<rparr>)) (iupdate dp)))
    (thn (iunlockput dp)
    (thn (set_inode ip (\<lambda>i. i\<lparr>i_nlink := i_nlink i - 1\<rparr>))
    (thn (iupdate ip)
    (thn (iunlockput ip)
    (thn end_op
         (ret 0))))))))))))))))"

section \<open>Creating and opening\<close>

text \<open>The exit of \<open>create\<close> at label \<open>fail\<close>.\<close>

definition create_fail :: "nat \<Rightarrow> nat \<Rightarrow> (nat option, 'z file_state_scheme) kop" where
  "create_fail ip dp =
     thn (set_inode ip (\<lambda>i. i\<lparr>i_nlink := 0\<rparr>))
    (thn (iupdate ip)
    (thn (iunlockput ip)
    (thn (iunlockput dp)
         (ret None))))"

definition create :: "uint8 list \<Rightarrow> uint16 \<Rightarrow> uint16 \<Rightarrow> uint16 \<Rightarrow> (nat option, 'z file_state_scheme) kop" where
  "create pth type major minor =
     bnd (nameiparent pth (replicate DIRSIZ 0)) (\<lambda>res.
     case res of None \<Rightarrow> ret None | Some (dp, name) \<Rightarrow>
     thn (ilock (Some dp))
    (bnd (dirlookup dp name) (\<lambda>found.
     case found of
       Some (ip, _) \<Rightarrow>
         thn (iunlockput dp)
        (thn (ilock (Some ip))
        (bnd (get_inode ip) (\<lambda>i.
         if type = T_FILE \<and> (i_type i = T_FILE \<or> i_type i = T_DEVICE) then ret (Some ip)
         else thn (iunlockput ip) (ret None))))
     | None \<Rightarrow>
         bnd (get_inode dp) (\<lambda>d.
         bnd (ialloc (i_dev d) type) (\<lambda>r.
         case r of None \<Rightarrow> thn (iunlockput dp) (ret None) | Some ip \<Rightarrow>
         thn (ilock (Some ip))
        (thn (set_inode ip (\<lambda>i. i\<lparr>i_major := major, i_minor := minor, i_nlink := 1\<rparr>))
        (thn (iupdate ip)
        (bnd (get_inode ip) (\<lambda>i.
         bnd (if type = T_DIR then
                bnd (dirlink ip (bytes_of ''.'') (i_inum i)) (\<lambda>k.
                if k < 0 then ret k else dirlink ip (bytes_of ''..'') (i_inum d))
              else ret 0) (\<lambda>k.
         if k < 0 then create_fail ip dp else
         bnd (dirlink dp name (i_inum i)) (\<lambda>k.
         if k < 0 then create_fail ip dp else
         thn (whenk (type = T_DIR)
               (thn (set_inode dp (\<lambda>d. d\<lparr>i_nlink := i_nlink d + 1\<rparr>)) (iupdate dp)))
        (thn (iunlockput dp)
             (ret (Some ip))))))))))))))"

definition O_RDONLY :: uint32 where "O_RDONLY = 0x000"
definition O_WRONLY :: uint32 where "O_WRONLY = 0x001"
definition O_RDWR :: uint32 where "O_RDWR = 0x002"
definition O_CREATE :: uint32 where "O_CREATE = 0x200"
definition O_TRUNC :: uint32 where "O_TRUNC = 0x400"

text \<open>The inode that \<open>sys_open\<close> works on, locked, or \<open>None\<close> after the transaction has been ended.\<close>

definition open_inode :: "uint8 list \<Rightarrow> uint32 \<Rightarrow> (nat option, 'z file_state_scheme) kop" where
  "open_inode pth omode =
     (if omode AND O_CREATE \<noteq> 0 then
        bnd (create pth T_FILE 0 0) (\<lambda>r.
        case r of None \<Rightarrow> thn end_op (ret None) | Some ip \<Rightarrow> ret (Some ip))
      else
        bnd (namei pth) (\<lambda>r.
        case r of None \<Rightarrow> thn end_op (ret None) | Some ip \<Rightarrow>
        thn (ilock (Some ip))
       (bnd (get_inode ip) (\<lambda>i.
        if i_type i = T_DIR \<and> omode \<noteq> O_RDONLY then
          thn (iunlockput ip) (thn end_op (ret None))
        else ret (Some ip)))))"

definition sys_open_fail :: "nat \<Rightarrow> (uint64, 'z file_state_scheme) kop" where
  "sys_open_fail ip = thn (iunlockput ip) (thn end_op (ret (- 1)))"

definition sys_open :: "(uint64, 'z file_state_scheme) kop" where
  "sys_open =
     bnd (argint 1) (\<lambda>om.
     let omode = (of_int om :: uint32) in
     bnd (argstr 0 MAXPATH) (\<lambda>(n, pth).
     if n < 0 then ret (- 1) else
     thn begin_op
    (bnd (open_inode pth omode) (\<lambda>r.
     case r of None \<Rightarrow> ret (- 1) | Some ip \<Rightarrow>
     bnd (get_inode ip) (\<lambda>i.
     if i_type i = T_DEVICE \<and> (sint (i_major i) < 0 \<or> sint (i_major i) \<ge> int NDEV) then sys_open_fail ip else
     bnd filealloc (\<lambda>fr.
     case fr of None \<Rightarrow> sys_open_fail ip | Some f \<Rightarrow>
     bnd (fdalloc f) (\<lambda>fd.
     if fd < 0 then thn (fileclose f) (sys_open_fail ip) else
     thn (if i_type i = T_DEVICE then set_file f (\<lambda>q. q\<lparr>f_type := FD_DEVICE, f_major := i_major i\<rparr>)
          else set_file f (\<lambda>q. q\<lparr>f_type := FD_INODE, f_off := 0\<rparr>))
    (thn (set_file f (\<lambda>q. q\<lparr>f_ip := ip, f_readable := (omode AND O_WRONLY = 0),
            f_writable := (omode AND O_WRONLY \<noteq> 0 \<or> omode AND O_RDWR \<noteq> 0)\<rparr>))
    (thn (whenk (omode AND O_TRUNC \<noteq> 0 \<and> i_type i = T_FILE) (itrunc ip))
    (thn (iunlock (Some ip))
    (thn end_op
         (ret (of_int fd)))))))))))))"

definition sys_mkdir :: "(uint64, 'z file_state_scheme) kop" where
  "sys_mkdir =
     thn begin_op
    (bnd (argstr 0 MAXPATH) (\<lambda>(n, pth).
     if n < 0 then thn end_op (ret (- 1)) else
     bnd (create pth T_DIR 0 0) (\<lambda>r.
     case r of None \<Rightarrow> thn end_op (ret (- 1)) | Some ip \<Rightarrow>
     thn (iunlockput ip)
    (thn end_op
         (ret 0)))))"

definition sys_mknod :: "(uint64, 'z file_state_scheme) kop" where
  "sys_mknod =
     thn begin_op
    (bnd (argint 1) (\<lambda>major.
     bnd (argint 2) (\<lambda>minor.
     bnd (argstr 0 MAXPATH) (\<lambda>(n, pth).
     if n < 0 then thn end_op (ret (- 1)) else
     bnd (create pth T_DEVICE (of_int major) (of_int minor)) (\<lambda>r.
     case r of None \<Rightarrow> thn end_op (ret (- 1)) | Some ip \<Rightarrow>
     thn (iunlockput ip)
    (thn end_op
         (ret 0)))))))"

definition sys_chdir :: "(uint64, 'z file_state_scheme) kop" where
  "sys_chdir =
     bnd cur_proc (\<lambda>p.
     thn begin_op
    (bnd (argstr 0 MAXPATH) (\<lambda>(n, pth).
     if n < 0 then thn end_op (ret (- 1)) else
     bnd (namei pth) (\<lambda>r.
     case r of None \<Rightarrow> thn end_op (ret (- 1)) | Some ip \<Rightarrow>
     thn (ilock (Some ip))
    (bnd (get_inode ip) (\<lambda>i.
     if i_type i \<noteq> T_DIR then thn (iunlockput ip) (thn end_op (ret (- 1))) else
     thn (iunlock (Some ip))
    (bnd (get_proc p) (\<lambda>pr.
     thn (case p_cwd pr of None \<Rightarrow> panic ''kerneltrap'' | Some c \<Rightarrow> iput c)
    (thn end_op
    (thn (set_proc p (\<lambda>q. q\<lparr>p_cwd := Some ip\<rparr>))
         (ret 0)))))))))))"

definition sys_pipe :: "(uint64, 'z file_state_scheme) kop" where
  "sys_pipe =
     bnd cur_proc (\<lambda>p.
     bnd (argaddr 0) (\<lambda>fdarray.
     bnd pipealloc (\<lambda>res.
     case res of None \<Rightarrow> ret (- 1) | Some (rfile, wfile) \<Rightarrow>
     bnd (fdalloc rfile) (\<lambda>fd0.
     bnd (if fd0 < 0 then ret (- 1) else fdalloc wfile) (\<lambda>fd1.
     if fd0 < 0 \<or> fd1 < 0 then
       thn (whenk (fd0 \<ge> 0) (set_proc p (\<lambda>q. q\<lparr>p_ofile := (p_ofile q)(nat fd0 := None)\<rparr>)))
      (thn (fileclose rfile)
      (thn (fileclose wfile)
           (ret (- 1))))
     else
       bnd (get_proc p) (\<lambda>pr.
       bnd (copyout (p_pagetable pr) fdarray (le_bytes 4 (of_int fd0 :: uint32))) (\<lambda>c0.
       bnd (if c0 < 0 then ret c0
            else copyout (p_pagetable pr) (fdarray + 4) (le_bytes 4 (of_int fd1 :: uint32))) (\<lambda>c1.
       if c1 < 0 then
         thn (set_proc p (\<lambda>q. q\<lparr>p_ofile := (p_ofile q)(nat fd0 := None, nat fd1 := None)\<rparr>))
        (thn (fileclose rfile)
        (thn (fileclose wfile)
             (ret (- 1))))
       else ret 0))))))))"

end
