(* ===== verification/Exec.thy ===== *)
theory Exec
  imports Sysfile
begin

unbundle bit_operations_syntax

text \<open>
  \<open>kernel/exec.c\<close>, the structures of \<open>kernel/elf.h\<close>, and \<open>sys_exec\<close> of \<open>kernel/sysfile.c\<close>. The argument
  strings are the lists of their bytes without the NUL; \<open>sys_exec\<close> keeps a copy of each in a page of
  its own while \<open>exec\<close> runs. A failing step gives \<open>Inl\<close> with what the exit at label \<open>bad\<close> has to free.
\<close>

section \<open>Executable files\<close>

definition ELF_MAGIC :: uint32 where "ELF_MAGIC = 0x464C457F"
definition ELF_PROG_LOAD :: uint32 where "ELF_PROG_LOAD = 1"
definition elfhdr_size :: nat where "elfhdr_size = 64"
definition proghdr_size :: nat where "proghdr_size = 56"

definition get64 :: "nat \<Rightarrow> uint8 list \<Rightarrow> uint64" where
  "get64 off d = le_word (slice off 8 d)"

record elfhdr =
  e_magic :: uint32
  e_entry :: uint64
  e_phoff :: uint64
  e_phnum :: uint16

definition read_elfhdr :: "uint8 list \<Rightarrow> elfhdr" where
  "read_elfhdr d = \<lparr>e_magic = get32 0 d, e_entry = get64 24 d, e_phoff = get64 32 d, e_phnum = get16 56 d\<rparr>"

record proghdr =
  ph_type :: uint32
  ph_flags :: uint32
  ph_off :: uint64
  ph_vaddr :: uint64
  ph_filesz :: uint64
  ph_memsz :: uint64

definition read_proghdr :: "uint8 list \<Rightarrow> proghdr" where
  "read_proghdr d = \<lparr>ph_type = get32 0 d, ph_flags = get32 4 d, ph_off = get64 8 d, ph_vaddr = get64 16 d,
     ph_filesz = get64 32 d, ph_memsz = get64 40 d\<rparr>"

definition flags2perm :: "uint32 \<Rightarrow> uint64" where
  "flags2perm flags =
     (let perm = (if flags AND 0x1 \<noteq> 0 then PTE_X else 0)
      in if flags AND 0x2 \<noteq> 0 then perm OR PTE_W else perm)"

text \<open>The pages of a segment; the result is the return value.\<close>

fun loadseg_pages :: "nat list \<Rightarrow> pagetable_t \<Rightarrow> uint64 \<Rightarrow> nat \<Rightarrow> uint \<Rightarrow> nat \<Rightarrow> (int, 'z file_state_scheme) kop" where
  "loadseg_pages [] pagetable va ip offset sz = ret 0"
| "loadseg_pages (i # is) pagetable va ip offset sz =
     bnd (walkaddr pagetable (va + of_nat i)) (\<lambda>pa.
     if pa = 0 then panic ''loadseg: address should exist'' else
     let n = (if sz - i < unat PGSIZE then sz - i else unat PGSIZE) in
     bnd (readi ip (KernelDst pa) (offset + of_nat i) (of_nat n)) (\<lambda>(r, _).
     if r \<noteq> int n then ret (- 1) else loadseg_pages is pagetable va ip offset sz))"

definition loadseg :: "pagetable_t \<Rightarrow> uint64 \<Rightarrow> nat \<Rightarrow> uint \<Rightarrow> uint \<Rightarrow> (int, 'z file_state_scheme) kop" where
  "loadseg pagetable va ip offset sz =
     loadseg_pages (map (\<lambda>k. k * 4096) [0..<(unat sz + 4095) div 4096]) pagetable va ip offset (unat sz)"

section \<open>exec\<close>

text \<open>The segments from number \<open>i\<close> on: the size reached, in \<open>Inl\<close> if a step failed.\<close>

fun exec_segs :: "nat \<Rightarrow> nat \<Rightarrow> pagetable_t \<Rightarrow> uint \<Rightarrow> uint64 \<Rightarrow> (uint64 + uint64, 'z file_state_scheme) kop" where
  "exec_segs 0 ip pagetable off sz = ret (Inr sz)"
| "exec_segs (Suc k) ip pagetable off sz =
     bnd (readi ip LocalDst off (of_nat proghdr_size)) (\<lambda>(r, bs).
     if r \<noteq> int proghdr_size then ret (Inl sz) else
     let ph = read_proghdr bs in
     if ph_type ph \<noteq> ELF_PROG_LOAD then exec_segs k ip pagetable (off + of_nat proghdr_size) sz
     else if ph_memsz ph < ph_filesz ph then ret (Inl sz)
     else if ph_vaddr ph + ph_memsz ph < ph_vaddr ph then ret (Inl sz)
     else if ph_vaddr ph mod PGSIZE \<noteq> 0 then ret (Inl sz)
     else
       bnd (uvmalloc pagetable sz (ph_vaddr ph + ph_memsz ph) (flags2perm (ph_flags ph))) (\<lambda>sz1.
       if sz1 = 0 then ret (Inl sz) else
       bnd (loadseg pagetable (ph_vaddr ph) ip (ucast (ph_off ph)) (ucast (ph_filesz ph))) (\<lambda>l.
       if l < 0 then ret (Inl sz1)
       else exec_segs k ip pagetable (off + of_nat proghdr_size) sz1)))"

text \<open>Checking the header and loading the program: the page table, the size and the entry point.\<close>

definition exec_load :: "nat \<Rightarrow> nat \<Rightarrow>
    ((pagetable_t \<times> uint64) + (pagetable_t \<times> uint64 \<times> uint64), 'z file_state_scheme) kop" where
  "exec_load p ip =
     bnd (readi ip LocalDst 0 (of_nat elfhdr_size)) (\<lambda>(r, bs).
     if r \<noteq> int elfhdr_size then ret (Inl (0, 0)) else
     let elf = read_elfhdr bs in
     if e_magic elf \<noteq> ELF_MAGIC then ret (Inl (0, 0)) else
     bnd (proc_pagetable p) (\<lambda>pagetable.
     if pagetable = 0 then ret (Inl (0, 0)) else
     bnd (exec_segs (unat (e_phnum elf)) ip pagetable (ucast (e_phoff elf)) 0) (\<lambda>r.
     case r of
       Inl sz \<Rightarrow> ret (Inl (pagetable, sz))
     | Inr sz \<Rightarrow> ret (Inr (pagetable, sz, e_entry elf)))))"

text \<open>
  Pushing the argument strings: the stack pointer and the array \<open>ustack\<close>, or \<open>None\<close> if a step failed.
\<close>

fun exec_args :: "uint8 list list \<Rightarrow> pagetable_t \<Rightarrow> uint64 \<Rightarrow> uint64 \<Rightarrow> uint64 list \<Rightarrow>
    ((uint64 \<times> uint64 list) option, 'z file_state_scheme) kop" where
  "exec_args [] pagetable stackbase sp ustack = ret (Some (sp, ustack))"
| "exec_args (a # argv) pagetable stackbase sp ustack =
     (if length ustack \<ge> MAXARG then ret None else
      let sp1 = sp - of_nat (length a + 1); sp2 = sp1 - sp1 mod 16 in
      if sp2 < stackbase then ret None else
      bnd (copyout pagetable sp2 (a @ [0])) (\<lambda>r.
      if r < 0 then ret None
      else exec_args argv pagetable stackbase sp2 (ustack @ [sp2])))"

definition last_elem :: "uint8 list \<Rightarrow> uint8 list" where
  "last_elem pth = rev (takeWhile (\<lambda>b. b \<noteq> slash) (rev pth))"

definition exec_bad :: "pagetable_t \<Rightarrow> uint64 \<Rightarrow> (int, 'z file_state_scheme) kop" where
  "exec_bad pagetable sz = thn (whenk (pagetable \<noteq> 0) (proc_freepagetable pagetable sz)) (ret (- 1))"

text \<open>Building the stack and committing to the new image.\<close>

definition exec_image :: "nat \<Rightarrow> uint8 list \<Rightarrow> uint8 list list \<Rightarrow> pagetable_t \<Rightarrow> uint64 \<Rightarrow> uint64 \<Rightarrow>
    (int, 'z file_state_scheme) kop" where
  "exec_image p pth argv pagetable sz0 entry =
     bnd (get_proc p) (\<lambda>pr.
     let oldsz = p_sz pr; sz = PGROUNDUP sz0 in
     bnd (uvmalloc pagetable sz (sz + 2 * PGSIZE) PTE_W) (\<lambda>sz1.
     if sz1 = 0 then exec_bad pagetable sz else
     thn (uvmclear pagetable (sz1 - 2 * PGSIZE))
    (let stackbase = sz1 - PGSIZE in
     bnd (exec_args argv pagetable stackbase sz1 []) (\<lambda>r.
     case r of None \<Rightarrow> exec_bad pagetable sz1 | Some (sp, ustack) \<Rightarrow>
     let argc = length ustack; sp1 = sp - of_nat ((argc + 1) * 8); sp2 = sp1 - sp1 mod 16 in
     if sp2 < stackbase then exec_bad pagetable sz1 else
     bnd (copyout pagetable sp2 (concat (map (le_bytes 8) (ustack @ [0])))) (\<lambda>c.
     if c < 0 then exec_bad pagetable sz1 else
     thn (wr64 (p_trapframe pr + TF_a1) sp2)
    (thn (set_proc p (\<lambda>q. q\<lparr>p_name := safestrcpy_bytes (p_name q) (last_elem pth) 16\<rparr>))
    (bnd (get_proc p) (\<lambda>pr.
     thn (set_proc p (\<lambda>q. q\<lparr>p_pagetable := pagetable\<rparr>))
    (thn (set_proc p (\<lambda>q. q\<lparr>p_sz := sz1\<rparr>))
    (thn (wr64 (p_trapframe pr + TF_epc) entry)
    (thn (wr64 (p_trapframe pr + TF_sp) sp2)
    (thn (proc_freepagetable (p_pagetable pr) oldsz)
         (ret (int argc))))))))))))))"

definition exec :: "uint8 list \<Rightarrow> uint8 list list \<Rightarrow> (int, 'z file_state_scheme) kop" where
  "exec pth argv =
     bnd cur_proc (\<lambda>p.
     thn begin_op
    (bnd (namei pth) (\<lambda>r.
     case r of None \<Rightarrow> thn end_op (ret (- 1)) | Some ip \<Rightarrow>
     thn (ilock (Some ip))
    (bnd (exec_load p ip) (\<lambda>r.
     case r of
       Inl (pagetable, sz) \<Rightarrow>
         thn (whenk (pagetable \<noteq> 0) (proc_freepagetable pagetable sz))
        (thn (iunlockput ip)
        (thn end_op
             (ret (- 1))))
     | Inr (pagetable, sz, entry) \<Rightarrow>
         thn (iunlockput ip)
        (thn end_op
        (bnd cur_proc (\<lambda>p. exec_image p pth argv pagetable sz entry))))))))"

section \<open>The system call\<close>

text \<open>
  The loop of \<open>sys_exec\<close> with \<open>k\<close> entries of \<open>argv\<close> left: the pages and strings so far, and whether the
  null pointer was reached.
\<close>

primrec exec_fetch :: "nat \<Rightarrow> uint64 \<Rightarrow> nat \<Rightarrow> (uint64 \<times> uint8 list) list \<Rightarrow>
    (bool \<times> (uint64 \<times> uint8 list) list, 'z file_state_scheme) kop" where
  "exec_fetch 0 uargv i acc = ret (False, acc)"
| "exec_fetch (Suc k) uargv i acc =
     bnd (fetchaddr (uargv + 8 * of_nat i)) (\<lambda>(r, uarg).
     if r < 0 then ret (False, acc)
     else if uarg = 0 then ret (True, acc)
     else
       bnd kalloc (\<lambda>pg.
       if pg = 0 then ret (False, acc) else
       bnd (fetchstr uarg (unat PGSIZE)) (\<lambda>(n, t).
       if n < 0 then ret (False, acc @ [(pg, [])])
       else thn (put_bytes pg (t @ [0])) (exec_fetch k uargv (i + 1) (acc @ [(pg, t)])))))"

definition sys_exec :: "(uint64, 'z file_state_scheme) kop" where
  "sys_exec =
     bnd (argaddr 1) (\<lambda>uargv.
     bnd (argstr 0 MAXPATH) (\<lambda>(n, pth).
     if n < 0 then ret (- 1) else
     bnd (exec_fetch MAXARG uargv 0 []) (\<lambda>(ok, argv).
     if ok then
       bnd (exec pth (map snd argv)) (\<lambda>r.
       thn (for_each argv (\<lambda>a. kfree (fst a)))
           (ret (of_int r)))
     else
       thn (for_each argv (\<lambda>a. kfree (fst a)))
           (ret (- 1)))))"

end
