(* ===== verification/Sysproc.thy ===== *)
theory Sysproc
  imports Exec
begin

text \<open>
  The process system calls of \<open>kernel/sysproc.c\<close>, the dispatch of \<open>kernel/syscall.c\<close> with the numbers
  of \<open>kernel/syscall.h\<close>, and the clock interrupt of \<open>kernel/trap.c\<close>.
\<close>

section \<open>State\<close>

record clock_state = file_state +
  ticks :: uint

lemma clock_upd_order [upd_order]:
  "mem_update f_mem (ticks_update g_ticks r) = ticks_update g_ticks (mem_update f_mem r)"
  "tp_update f_tp (ticks_update g_ticks r) = ticks_update g_ticks (tp_update f_tp r)"
  "sstatus_update f_sstatus (ticks_update g_ticks r) = ticks_update g_ticks (sstatus_update f_sstatus r)"
  "cpus_update f_cpus (ticks_update g_ticks r) = ticks_update g_ticks (cpus_update f_cpus r)"
  "locks_update f_locks (ticks_update g_ticks r) = ticks_update g_ticks (locks_update f_locks r)"
  "kend_update f_kend (ticks_update g_ticks r) = ticks_update g_ticks (kend_update f_kend r)"
  "freelist_update f_freelist (ticks_update g_ticks r) = ticks_update g_ticks (freelist_update f_freelist r)"
  "etext_update f_etext (ticks_update g_ticks r) = ticks_update g_ticks (etext_update f_etext r)"
  "trampoline_update f_trampoline (ticks_update g_ticks r) = ticks_update g_ticks (trampoline_update f_trampoline r)"
  "kernel_pagetable_update f_kernel_pagetable (ticks_update g_ticks r) = ticks_update g_ticks (kernel_pagetable_update f_kernel_pagetable r)"
  "satp_update f_satp (ticks_update g_ticks r) = ticks_update g_ticks (satp_update f_satp r)"
  "procs_update f_procs (ticks_update g_ticks r) = ticks_update g_ticks (procs_update f_procs r)"
  "initproc_update f_initproc (ticks_update g_ticks r) = ticks_update g_ticks (initproc_update f_initproc r)"
  "nextpid_update f_nextpid (ticks_update g_ticks r) = ticks_update g_ticks (nextpid_update f_nextpid r)"
  "forkret_sym_update f_forkret_sym (ticks_update g_ticks r) = ticks_update g_ticks (forkret_sym_update f_forkret_sym r)"
  "sleeps_update f_sleeps (ticks_update g_ticks r) = ticks_update g_ticks (sleeps_update f_sleeps r)"
  "bufs_update f_bufs (ticks_update g_ticks r) = ticks_update g_ticks (bufs_update f_bufs r)"
  "disk_update f_disk (ticks_update g_ticks r) = ticks_update g_ticks (disk_update f_disk r)"
  "dtrace_update f_dtrace (ticks_update g_ticks r) = ticks_update g_ticks (dtrace_update f_dtrace r)"
  "logs_update f_logs (ticks_update g_ticks r) = ticks_update g_ticks (logs_update f_logs r)"
  "uart_update f_uart (ticks_update g_ticks r) = ticks_update g_ticks (uart_update f_uart r)"
  "panicked_update f_panicked (ticks_update g_ticks r) = ticks_update g_ticks (panicked_update f_panicked r)"
  "pr_locking_update f_pr_locking (ticks_update g_ticks r) = ticks_update g_ticks (pr_locking_update f_pr_locking r)"
  "cons_update f_cons (ticks_update g_ticks r) = ticks_update g_ticks (cons_update f_cons r)"
  "sb_update f_sb (ticks_update g_ticks r) = ticks_update g_ticks (sb_update f_sb r)"
  "itable_update f_itable (ticks_update g_ticks r) = ticks_update g_ticks (itable_update f_itable r)"
  "ftable_update f_ftable (ticks_update g_ticks r) = ticks_update g_ticks (ftable_update f_ftable r)"
  "devsws_update f_devsws (ticks_update g_ticks r) = ticks_update g_ticks (devsws_update f_devsws r)"
  by simp_all


lemma clock_state_simps [state_simps]:
  "ticks (acq lk s) = ticks s"
  "acq lk (ticks_update f_ticks s) = ticks_update f_ticks (acq lk s)"
  "ticks (rel lk s) = ticks s"
  "rel lk (ticks_update f_ticks s) = ticks_update f_ticks (rel lk s)"
  "ticks (tch s) = ticks s"
  "tch (ticks_update f_ticks s) = ticks_update f_ticks (tch s)"
  "free_lk lk (ticks_update f_ticks s) = free_lk lk s"
  "held_lk lk (ticks_update f_ticks s) = held_lk lk s"
  "in_cs (ticks_update f_ticks s) = in_cs s"
  "irq_ok (ticks_update f_ticks s) = irq_ok s"
  "intr_get (ticks_update f_ticks s) = intr_get s"
  "cpuid (ticks_update f_ticks s) = cpuid s"
  "mycpu (ticks_update f_ticks s) = mycpu s"
  by (simp_all add: in_cs_def lock_defs upd_order)


lemma calm_ticks [state_simps]:
  "calm (ticks_update f t) = calm t" "procs_free (ticks_update f t) = procs_free t"
  by (simp_all add: calm_def procs_free_def state_simps)

section \<open>Operations\<close>

definition sys_exit :: "(uint64, 'z clock_state_scheme) kop" where
  "sys_exit = bnd (argint 0) (\<lambda>n. exit n)"

definition sys_getpid :: "(uint64, 'z clock_state_scheme) kop" where
  "sys_getpid = bnd cur_proc (\<lambda>p. bnd (get_proc p) (\<lambda>pr. ret (of_int (p_pid pr))))"

definition sys_fork :: "(uint64, 'z clock_state_scheme) kop" where
  "sys_fork = bnd fork (\<lambda>r. ret (of_int r))"

definition sys_wait :: "(uint64, 'z clock_state_scheme) kop" where
  "sys_wait = bnd (argaddr 0) (\<lambda>p. bnd (wait p) (\<lambda>r. ret (of_int r)))"

definition sys_sbrk :: "(uint64, 'z clock_state_scheme) kop" where
  "sys_sbrk =
     bnd (argint 0) (\<lambda>n.
     bnd cur_proc (\<lambda>p.
     bnd (get_proc p) (\<lambda>pr.
     bnd (growproc n) (\<lambda>r.
     if r < 0 then ret (- 1) else ret (p_sz pr)))))"

text \<open>The comparison with \<open>n\<close> is unsigned, so a negative argument waits for a very long time.\<close>

primrec sys_sleep_loop :: "nat \<Rightarrow> uint \<Rightarrow> uint \<Rightarrow> (uint64, 'z clock_state_scheme) kop" where
  "sys_sleep_loop 0 ticks0 n = spin"
| "sys_sleep_loop (Suc k) ticks0 n =
     bnd (gets ticks) (\<lambda>t.
     if t - ticks0 < n then
       bnd cur_proc (\<lambda>p.
       bnd (killed p) (\<lambda>kl.
       if kl \<noteq> 0 then thn (release TicksLock) (ret (- 1))
       else thn (sleep ChTicks TicksLock) (sys_sleep_loop k ticks0 n)))
     else thn (release TicksLock) (ret 0))"

definition sys_sleep :: "(uint64, 'z clock_state_scheme) kop" where
  "sys_sleep =
     bnd (argint 0) (\<lambda>n.
     thn (acquire TicksLock)
    (bnd (gets ticks) (\<lambda>ticks0.
     sys_sleep_loop WAITS ticks0 (of_int n))))"

definition sys_kill :: "(uint64, 'z clock_state_scheme) kop" where
  "sys_kill = bnd (argint 0) (\<lambda>pid. bnd (kill pid) (\<lambda>r. ret (of_int r)))"

definition sys_uptime :: "(uint64, 'z clock_state_scheme) kop" where
  "sys_uptime =
     thn (acquire TicksLock)
    (bnd (gets ticks) (\<lambda>xticks.
     thn (release TicksLock)
         (ret (ucast xticks))))"

definition trapinit :: "(unit, 'z clock_state_scheme) kop" where
  "trapinit = initlock TicksLock ''time''"

definition clockintr :: "(unit, 'z clock_state_scheme) kop" where
  "clockintr =
     thn (acquire TicksLock)
    (thn (modify (\<lambda>s. s\<lparr>ticks := ticks s + 1\<rparr>))
    (thn (wakeup (Some ChTicks))
         (release TicksLock)))"

section \<open>Dispatch\<close>

definition SYS_fork :: int where "SYS_fork = 1"
definition SYS_exit :: int where "SYS_exit = 2"
definition SYS_wait :: int where "SYS_wait = 3"
definition SYS_pipe :: int where "SYS_pipe = 4"
definition SYS_read :: int where "SYS_read = 5"
definition SYS_kill :: int where "SYS_kill = 6"
definition SYS_exec :: int where "SYS_exec = 7"
definition SYS_fstat :: int where "SYS_fstat = 8"
definition SYS_chdir :: int where "SYS_chdir = 9"
definition SYS_dup :: int where "SYS_dup = 10"
definition SYS_getpid :: int where "SYS_getpid = 11"
definition SYS_sbrk :: int where "SYS_sbrk = 12"
definition SYS_sleep :: int where "SYS_sleep = 13"
definition SYS_uptime :: int where "SYS_uptime = 14"
definition SYS_open :: int where "SYS_open = 15"
definition SYS_write :: int where "SYS_write = 16"
definition SYS_mknod :: int where "SYS_mknod = 17"
definition SYS_unlink :: int where "SYS_unlink = 18"
definition SYS_link :: int where "SYS_link = 19"
definition SYS_mkdir :: int where "SYS_mkdir = 20"
definition SYS_close :: int where "SYS_close = 21"

definition syscalls :: "int \<Rightarrow> (uint64, 'z clock_state_scheme) kop option" where
  "syscalls num =
     (if num = SYS_fork then Some sys_fork
      else if num = SYS_exit then Some sys_exit
      else if num = SYS_wait then Some sys_wait
      else if num = SYS_pipe then Some sys_pipe
      else if num = SYS_read then Some sys_read
      else if num = SYS_kill then Some sys_kill
      else if num = SYS_exec then Some sys_exec
      else if num = SYS_fstat then Some sys_fstat
      else if num = SYS_chdir then Some sys_chdir
      else if num = SYS_dup then Some sys_dup
      else if num = SYS_getpid then Some sys_getpid
      else if num = SYS_sbrk then Some sys_sbrk
      else if num = SYS_sleep then Some sys_sleep
      else if num = SYS_uptime then Some sys_uptime
      else if num = SYS_open then Some sys_open
      else if num = SYS_write then Some sys_write
      else if num = SYS_mknod then Some sys_mknod
      else if num = SYS_unlink then Some sys_unlink
      else if num = SYS_link then Some sys_link
      else if num = SYS_mkdir then Some sys_mkdir
      else if num = SYS_close then Some sys_close
      else None)"

definition syscall :: "(unit, 'z clock_state_scheme) kop" where
  "syscall =
     bnd cur_proc (\<lambda>p.
     bnd (get_proc p) (\<lambda>pr.
     bnd (rd64 (p_trapframe pr + TF_a7)) (\<lambda>a7.
     let num = sint (ucast a7 :: uint32) in
     case syscalls num of
       Some f \<Rightarrow>
         bnd f (\<lambda>r.
         bnd (get_proc p) (\<lambda>pr. wr64 (p_trapframe pr + TF_a0) r))
     | None \<Rightarrow>
         thn (printf (Some ''%d %s: unknown sys call %d\<newline>'')
                [VInt (of_int (p_pid pr)), VStr (Some (str_of_bytes (p_name pr))), VInt (of_int num)])
             (wr64 (p_trapframe pr + TF_a0) (- 1)))))"

end
