(* ===== verification/Virtio.thy ===== *)
theory Virtio
  imports Sysproc
begin

text \<open>
  \<open>kernel/virtio_disk.c\<close> and \<open>kernel/virtio.h\<close>: the driver of the virtio block device. The structures
  that driver and device share hold typed values: the descriptor table, the avail ring and the used
  ring. The address in a descriptor is the object it points to: the command header or the status byte
  of a slot, or the data of a buffer. The pages that hold the rings keep their addresses, which the
  driver tells the device.

  The device is not part of the source. How its registers react to a write is the argument \<open>react\<close> of
  the functions that write one. What it does with a request is no
  function of the driver: it happens while \<open>virtio_disk_rw\<close> sleeps, that is behind the outcome
  \<open>Swtch\<close>, and shows in the used ring, the status bytes and the buffers when \<open>virtio_disk_intr\<close> runs.
\<close>

section \<open>State\<close>

definition NUM :: nat where "NUM = 8"

definition VIRTIO_MMIO_MAGIC_VALUE :: nat where "VIRTIO_MMIO_MAGIC_VALUE = 0x000"
definition VIRTIO_MMIO_VERSION :: nat where "VIRTIO_MMIO_VERSION = 0x004"
definition VIRTIO_MMIO_DEVICE_ID :: nat where "VIRTIO_MMIO_DEVICE_ID = 0x008"
definition VIRTIO_MMIO_VENDOR_ID :: nat where "VIRTIO_MMIO_VENDOR_ID = 0x00c"
definition VIRTIO_MMIO_DEVICE_FEATURES :: nat where "VIRTIO_MMIO_DEVICE_FEATURES = 0x010"
definition VIRTIO_MMIO_DRIVER_FEATURES :: nat where "VIRTIO_MMIO_DRIVER_FEATURES = 0x020"
definition VIRTIO_MMIO_QUEUE_SEL :: nat where "VIRTIO_MMIO_QUEUE_SEL = 0x030"
definition VIRTIO_MMIO_QUEUE_NUM_MAX :: nat where "VIRTIO_MMIO_QUEUE_NUM_MAX = 0x034"
definition VIRTIO_MMIO_QUEUE_NUM :: nat where "VIRTIO_MMIO_QUEUE_NUM = 0x038"
definition VIRTIO_MMIO_QUEUE_READY :: nat where "VIRTIO_MMIO_QUEUE_READY = 0x044"
definition VIRTIO_MMIO_QUEUE_NOTIFY :: nat where "VIRTIO_MMIO_QUEUE_NOTIFY = 0x050"
definition VIRTIO_MMIO_INTERRUPT_STATUS :: nat where "VIRTIO_MMIO_INTERRUPT_STATUS = 0x060"
definition VIRTIO_MMIO_INTERRUPT_ACK :: nat where "VIRTIO_MMIO_INTERRUPT_ACK = 0x064"
definition VIRTIO_MMIO_STATUS :: nat where "VIRTIO_MMIO_STATUS = 0x070"
definition VIRTIO_MMIO_QUEUE_DESC_LOW :: nat where "VIRTIO_MMIO_QUEUE_DESC_LOW = 0x080"
definition VIRTIO_MMIO_QUEUE_DESC_HIGH :: nat where "VIRTIO_MMIO_QUEUE_DESC_HIGH = 0x084"
definition VIRTIO_MMIO_DRIVER_DESC_LOW :: nat where "VIRTIO_MMIO_DRIVER_DESC_LOW = 0x090"
definition VIRTIO_MMIO_DRIVER_DESC_HIGH :: nat where "VIRTIO_MMIO_DRIVER_DESC_HIGH = 0x094"
definition VIRTIO_MMIO_DEVICE_DESC_LOW :: nat where "VIRTIO_MMIO_DEVICE_DESC_LOW = 0x0a0"
definition VIRTIO_MMIO_DEVICE_DESC_HIGH :: nat where "VIRTIO_MMIO_DEVICE_DESC_HIGH = 0x0a4"

definition VIRTIO_CONFIG_S_ACKNOWLEDGE :: uint32 where "VIRTIO_CONFIG_S_ACKNOWLEDGE = 1"
definition VIRTIO_CONFIG_S_DRIVER :: uint32 where "VIRTIO_CONFIG_S_DRIVER = 2"
definition VIRTIO_CONFIG_S_DRIVER_OK :: uint32 where "VIRTIO_CONFIG_S_DRIVER_OK = 4"
definition VIRTIO_CONFIG_S_FEATURES_OK :: uint32 where "VIRTIO_CONFIG_S_FEATURES_OK = 8"

definition VIRTIO_BLK_F_RO :: nat where "VIRTIO_BLK_F_RO = 5"
definition VIRTIO_BLK_F_SCSI :: nat where "VIRTIO_BLK_F_SCSI = 7"
definition VIRTIO_BLK_F_CONFIG_WCE :: nat where "VIRTIO_BLK_F_CONFIG_WCE = 11"
definition VIRTIO_BLK_F_MQ :: nat where "VIRTIO_BLK_F_MQ = 12"
definition VIRTIO_F_ANY_LAYOUT :: nat where "VIRTIO_F_ANY_LAYOUT = 27"
definition VIRTIO_RING_F_INDIRECT_DESC :: nat where "VIRTIO_RING_F_INDIRECT_DESC = 28"
definition VIRTIO_RING_F_EVENT_IDX :: nat where "VIRTIO_RING_F_EVENT_IDX = 29"

definition VRING_DESC_F_NEXT :: uint16 where "VRING_DESC_F_NEXT = 1"
definition VRING_DESC_F_WRITE :: uint16 where "VRING_DESC_F_WRITE = 2"
definition VIRTIO_BLK_T_IN :: uint32 where "VIRTIO_BLK_T_IN = 0"
definition VIRTIO_BLK_T_OUT :: uint32 where "VIRTIO_BLK_T_OUT = 1"

text \<open>What the address of a descriptor points to.\<close>

datatype dma = NoDma | OpsDma nat | DataDma nat | StatusDma nat

record virtq_desc =
  vd_addr :: dma
  vd_len :: uint32
  vd_flags :: uint16
  vd_next :: uint16

record virtio_blk_req =
  vr_type :: uint32
  vr_reserved :: uint32
  vr_sector :: uint64

record virtio_info =
  vi_b :: "nat option"
  vi_status :: uint8

record vdisk =
  vq_desc :: uint64
  vq_avail :: uint64
  vq_used :: uint64
  v_desc :: "nat \<Rightarrow> virtq_desc"
  av_idx :: uint16
  av_ring :: "nat \<Rightarrow> uint16"
  us_idx :: uint16
  us_ring :: "nat \<Rightarrow> uint32 \<times> uint32"
  v_free :: "nat \<Rightarrow> bool"
  used_idx :: uint16
  v_info :: "nat \<Rightarrow> virtio_info"
  v_ops :: "nat \<Rightarrow> virtio_blk_req"
  v_reg :: "nat \<Rightarrow> uint32"

record vdisk_state = clock_state +
  vdisk :: vdisk

definition set_vdisk :: "(vdisk \<Rightarrow> vdisk) \<Rightarrow> (unit, 'z vdisk_state_scheme) kop" where
  "set_vdisk f = modify (\<lambda>s. s\<lparr>vdisk := f (vdisk s)\<rparr>)"

definition get_vdisk :: "(vdisk, 'z vdisk_state_scheme) kop" where
  "get_vdisk = gets vdisk"

lemma vdisk_ops [kop_simps]:
  "set_vdisk f s = Ret () (s\<lparr>vdisk := f (vdisk s)\<rparr>)"
  "get_vdisk s = Ret (vdisk s) s"
  by (simp_all add: set_vdisk_def get_vdisk_def kop_simps)

text \<open>The registers: the value a read returns, and what a write makes of all values.\<close>

type_synonym reaction = "nat \<Rightarrow> uint32 \<Rightarrow> (nat \<Rightarrow> uint32) \<Rightarrow> nat \<Rightarrow> uint32"

definition R_rd :: "nat \<Rightarrow> (uint32, 'z vdisk_state_scheme) kop" where
  "R_rd r = gets (\<lambda>s. v_reg (vdisk s) r)"

definition R_wr :: "reaction \<Rightarrow> nat \<Rightarrow> uint32 \<Rightarrow> (unit, 'z vdisk_state_scheme) kop" where
  "R_wr react r v = set_vdisk (\<lambda>d. d\<lparr>v_reg := react r v (v_reg d)\<rparr>)"

lemma R_ops [kop_simps]:
  "R_rd r s = Ret (v_reg (vdisk s) r) s"
  "R_wr react r v s = Ret () (s\<lparr>vdisk := (vdisk s)\<lparr>v_reg := react r v (v_reg (vdisk s))\<rparr>\<rparr>)"
  by (simp_all add: R_rd_def R_wr_def kop_simps)

section \<open>Initialisation\<close>

definition desc_zero :: virtq_desc where
  "desc_zero = \<lparr>vd_addr = NoDma, vd_len = 0, vd_flags = 0, vd_next = 0\<rparr>"

definition negotiated :: "uint64 \<Rightarrow> uint64" where
  "negotiated features =
     features AND NOT (push_bit VIRTIO_BLK_F_RO 1) AND NOT (push_bit VIRTIO_BLK_F_SCSI 1)
       AND NOT (push_bit VIRTIO_BLK_F_CONFIG_WCE 1) AND NOT (push_bit VIRTIO_BLK_F_MQ 1)
       AND NOT (push_bit VIRTIO_F_ANY_LAYOUT 1) AND NOT (push_bit VIRTIO_RING_F_EVENT_IDX 1)
       AND NOT (push_bit VIRTIO_RING_F_INDIRECT_DESC 1)"

text \<open>The queue pages are allocated, checked and cleared.\<close>

definition virtio_queue_init :: "reaction \<Rightarrow> (unit, 'z vdisk_state_scheme) kop" where
  "virtio_queue_init react =
     bnd kalloc (\<lambda>d.
     bnd kalloc (\<lambda>a.
     bnd kalloc (\<lambda>u.
     if d = 0 \<or> a = 0 \<or> u = 0 then panic ''virtio disk kalloc'' else
     thn (modify (\<lambda>s. s\<lparr>mem := memset (memset (memset (mem s) d 0 (ucast PGSIZE)) a 0 (ucast PGSIZE)) u 0 (ucast PGSIZE)\<rparr>))
    (thn (set_vdisk (\<lambda>v. v\<lparr>vq_desc := d, vq_avail := a, vq_used := u, v_desc := (\<lambda>_. desc_zero), av_idx := 0,
            av_ring := (\<lambda>_. 0), us_idx := 0, us_ring := (\<lambda>_. (0, 0))\<rparr>))
    (thn (R_wr react VIRTIO_MMIO_QUEUE_NUM (of_nat NUM))
    (thn (R_wr react VIRTIO_MMIO_QUEUE_DESC_LOW (ucast d))
    (thn (R_wr react VIRTIO_MMIO_QUEUE_DESC_HIGH (ucast (drop_bit 32 d)))
    (thn (R_wr react VIRTIO_MMIO_DRIVER_DESC_LOW (ucast a))
    (thn (R_wr react VIRTIO_MMIO_DRIVER_DESC_HIGH (ucast (drop_bit 32 a)))
    (thn (R_wr react VIRTIO_MMIO_DEVICE_DESC_LOW (ucast u))
    (thn (R_wr react VIRTIO_MMIO_DEVICE_DESC_HIGH (ucast (drop_bit 32 u)))
         (R_wr react VIRTIO_MMIO_QUEUE_READY 1))))))))))))"

definition virtio_disk_init :: "reaction \<Rightarrow> (unit, 'z vdisk_state_scheme) kop" where
  "virtio_disk_init react =
     thn (initlock VdiskLock ''virtio_disk'')
    (bnd (R_rd VIRTIO_MMIO_MAGIC_VALUE) (\<lambda>magic.
     bnd (R_rd VIRTIO_MMIO_VERSION) (\<lambda>version.
     bnd (R_rd VIRTIO_MMIO_DEVICE_ID) (\<lambda>device.
     bnd (R_rd VIRTIO_MMIO_VENDOR_ID) (\<lambda>vendor.
     if magic \<noteq> 0x74726976 \<or> version \<noteq> 2 \<or> device \<noteq> 2 \<or> vendor \<noteq> 0x554d4551
     then panic ''could not find virtio disk'' else
     thn (R_wr react VIRTIO_MMIO_STATUS 0)
    (thn (R_wr react VIRTIO_MMIO_STATUS VIRTIO_CONFIG_S_ACKNOWLEDGE)
    (thn (R_wr react VIRTIO_MMIO_STATUS (VIRTIO_CONFIG_S_ACKNOWLEDGE OR VIRTIO_CONFIG_S_DRIVER))
    (bnd (R_rd VIRTIO_MMIO_DEVICE_FEATURES) (\<lambda>features.
     thn (R_wr react VIRTIO_MMIO_DRIVER_FEATURES (ucast (negotiated (ucast features))))
    (thn (R_wr react VIRTIO_MMIO_STATUS
            (VIRTIO_CONFIG_S_ACKNOWLEDGE OR VIRTIO_CONFIG_S_DRIVER OR VIRTIO_CONFIG_S_FEATURES_OK))
    (bnd (R_rd VIRTIO_MMIO_STATUS) (\<lambda>status.
     if status AND VIRTIO_CONFIG_S_FEATURES_OK = 0 then panic ''virtio disk FEATURES_OK unset'' else
     thn (R_wr react VIRTIO_MMIO_QUEUE_SEL 0)
    (bnd (R_rd VIRTIO_MMIO_QUEUE_READY) (\<lambda>ready.
     if ready \<noteq> 0 then panic ''virtio disk should not be ready'' else
     bnd (R_rd VIRTIO_MMIO_QUEUE_NUM_MAX) (\<lambda>mx.
     if mx = 0 then panic ''virtio disk has no queue 0'' else
     if mx < of_nat NUM then panic ''virtio disk max queue too short'' else
     thn (virtio_queue_init react)
    (thn (set_vdisk (\<lambda>v. v\<lparr>v_free := (\<lambda>i. i < NUM \<or> v_free v i)\<rparr>))
         (R_wr react VIRTIO_MMIO_STATUS (status OR VIRTIO_CONFIG_S_DRIVER_OK))))))))))))))))))"

section \<open>Descriptors\<close>

fun alloc_desc_scan :: "nat list \<Rightarrow> (nat option, 'z vdisk_state_scheme) kop" where
  "alloc_desc_scan [] = ret None"
| "alloc_desc_scan (i # is) =
     bnd get_vdisk (\<lambda>d.
     if v_free d i then thn (set_vdisk (\<lambda>d. d\<lparr>v_free := (v_free d)(i := False)\<rparr>)) (ret (Some i))
     else alloc_desc_scan is)"

definition alloc_desc :: "(nat option, 'z vdisk_state_scheme) kop" where
  "alloc_desc = alloc_desc_scan [0..<NUM]"

definition free_desc :: "nat \<Rightarrow> (unit, 'z vdisk_state_scheme) kop" where
  "free_desc i =
     (if i \<ge> NUM then panic ''free_desc 1'' else
      bnd get_vdisk (\<lambda>d.
      if v_free d i then panic ''free_desc 2'' else
      thn (set_vdisk (\<lambda>d. d\<lparr>v_desc := (v_desc d)(i := desc_zero)\<rparr>))
     (thn (set_vdisk (\<lambda>d. d\<lparr>v_free := (v_free d)(i := True)\<rparr>))
          (wakeup (Some ChDiskFree)))))"

text \<open>
  The loop of \<open>free_chain\<close> frees a descriptor in every round and panics on one that is free
  already, so it makes at most \<open>NUM\<close> rounds that do not panic.
\<close>

primrec free_chain_loop :: "nat \<Rightarrow> nat \<Rightarrow> (unit, 'z vdisk_state_scheme) kop" where
  "free_chain_loop 0 i = spin"
| "free_chain_loop (Suc n) i =
     bnd get_vdisk (\<lambda>d.
     thn (free_desc i)
         (if vd_flags (v_desc d i) AND VRING_DESC_F_NEXT \<noteq> 0
          then free_chain_loop n (unat (vd_next (v_desc d i))) else ret ()))"

definition free_chain :: "nat \<Rightarrow> (unit, 'z vdisk_state_scheme) kop" where
  "free_chain i = free_chain_loop (NUM + 1) i"

text \<open>How many descriptors are still wanted, and those allocated so far.\<close>

primrec alloc3_loop :: "nat \<Rightarrow> nat list \<Rightarrow> (nat list option, 'z vdisk_state_scheme) kop" where
  "alloc3_loop 0 ds = ret (Some ds)"
| "alloc3_loop (Suc n) ds =
     bnd alloc_desc (\<lambda>r.
     case r of None \<Rightarrow> thn (for_each ds free_desc) (ret None)
     | Some i \<Rightarrow> alloc3_loop n (ds @ [i]))"

definition alloc3_desc :: "(nat list option, 'z vdisk_state_scheme) kop" where
  "alloc3_desc = alloc3_loop 3 []"

section \<open>Requests\<close>

primrec virtio_alloc_wait :: "nat \<Rightarrow> (nat list, 'z vdisk_state_scheme) kop" where
  "virtio_alloc_wait 0 = spin"
| "virtio_alloc_wait (Suc n) =
     bnd alloc3_desc (\<lambda>r.
     case r of Some ds \<Rightarrow> ret ds
     | None \<Rightarrow> thn (sleep ChDiskFree VdiskLock) (virtio_alloc_wait n))"

text \<open>The three descriptors of a request for buffer \<open>b\<close>.\<close>

definition fmt_ops :: "bool \<Rightarrow> uint64 \<Rightarrow> virtio_blk_req" where
  "fmt_ops wr sector =
     \<lparr>vr_type = (if wr then VIRTIO_BLK_T_OUT else VIRTIO_BLK_T_IN), vr_reserved = 0, vr_sector = sector\<rparr>"

definition fmt_head :: "nat \<Rightarrow> nat \<Rightarrow> virtq_desc" where
  "fmt_head i0 i1 = \<lparr>vd_addr = OpsDma i0, vd_len = 16, vd_flags = VRING_DESC_F_NEXT, vd_next = of_nat i1\<rparr>"

definition fmt_data :: "nat \<Rightarrow> bool \<Rightarrow> nat \<Rightarrow> virtq_desc" where
  "fmt_data b wr i2 = \<lparr>vd_addr = DataDma b, vd_len = of_nat BSIZE,
     vd_flags = (if wr then 0 else VRING_DESC_F_WRITE) OR VRING_DESC_F_NEXT, vd_next = of_nat i2\<rparr>"

definition fmt_status :: "nat \<Rightarrow> virtq_desc" where
  "fmt_status i0 = \<lparr>vd_addr = StatusDma i0, vd_len = 1, vd_flags = VRING_DESC_F_WRITE, vd_next = 0\<rparr>"

primrec virtio_wait :: "nat \<Rightarrow> nat \<Rightarrow> (unit, 'z vdisk_state_scheme) kop" where
  "virtio_wait 0 b = spin"
| "virtio_wait (Suc n) b =
     bnd (get_buf b) (\<lambda>q.
     if b_disk q = 1 then thn (sleep (ChBuf b) VdiskLock) (virtio_wait n b) else ret ())"

definition virtio_disk_rw :: "reaction \<Rightarrow> nat \<Rightarrow> bool \<Rightarrow> (unit, 'z vdisk_state_scheme) kop" where
  "virtio_disk_rw react b wr =
     bnd (get_buf b) (\<lambda>q.
     let sector = ucast (b_blockno q * of_nat (BSIZE div 512)) :: uint64 in
     thn (acquire VdiskLock)
    (bnd (virtio_alloc_wait WAITS) (\<lambda>ds.
     let i0 = ds ! 0; i1 = ds ! 1; i2 = ds ! 2 in
     thn (set_vdisk (\<lambda>d. d\<lparr>v_ops := (v_ops d)(i0 := fmt_ops wr sector)\<rparr>))
    (thn (set_vdisk (\<lambda>d. d\<lparr>v_desc := (v_desc d)(i0 := fmt_head i0 i1)\<rparr>))
    (thn (set_vdisk (\<lambda>d. d\<lparr>v_desc := (v_desc d)(i1 := fmt_data b wr i2)\<rparr>))
    (thn (set_vdisk (\<lambda>d. d\<lparr>v_info := (v_info d)(i0 := (v_info d i0)\<lparr>vi_status := 0xff\<rparr>)\<rparr>))
    (thn (set_vdisk (\<lambda>d. d\<lparr>v_desc := (v_desc d)(i2 := fmt_status i0)\<rparr>))
    (thn (set_buf b (\<lambda>q. q\<lparr>b_disk := 1\<rparr>))
    (thn (set_vdisk (\<lambda>d. d\<lparr>v_info := (v_info d)(i0 := (v_info d i0)\<lparr>vi_b := Some b\<rparr>)\<rparr>))
    (thn (set_vdisk (\<lambda>d. d\<lparr>av_ring := (av_ring d)(unat (av_idx d) mod NUM := of_nat i0)\<rparr>))
    (thn (set_vdisk (\<lambda>d. d\<lparr>av_idx := av_idx d + 1\<rparr>))
    (thn (R_wr react VIRTIO_MMIO_QUEUE_NOTIFY 0)
    (thn (virtio_wait WAITS b)
    (thn (set_vdisk (\<lambda>d. d\<lparr>v_info := (v_info d)(i0 := (v_info d i0)\<lparr>vi_b := None\<rparr>)\<rparr>))
    (thn (free_chain i0)
         (release VdiskLock))))))))))))))))"

text \<open>
  The loop of \<open>virtio_disk_intr\<close>: every completion the device has added to the used ring. The
  distance of the two indices bounds the rounds, as the device adds none while the model runs. A
  completion for a slot with no buffer would be a null pointer.
\<close>

primrec intr_loop :: "nat \<Rightarrow> (unit, 'z vdisk_state_scheme) kop" where
  "intr_loop 0 = bnd get_vdisk (\<lambda>d. if used_idx d \<noteq> us_idx d then spin else ret ())"
| "intr_loop (Suc n) =
     bnd get_vdisk (\<lambda>d.
     if used_idx d \<noteq> us_idx d then
       (let id = unat (fst (us_ring d (unat (used_idx d) mod NUM))) in
        if vi_status (v_info d id) \<noteq> 0 then panic ''virtio_disk_intr status'' else
        case vi_b (v_info d id) of None \<Rightarrow> panic ''kerneltrap''
        | Some b \<Rightarrow>
            thn (set_buf b (\<lambda>q. q\<lparr>b_disk := 0\<rparr>))
           (thn (wakeup (Some (ChBuf b)))
           (thn (set_vdisk (\<lambda>d. d\<lparr>used_idx := used_idx d + 1\<rparr>))
                (intr_loop n))))
     else ret ())"

definition virtio_disk_intr :: "reaction \<Rightarrow> (unit, 'z vdisk_state_scheme) kop" where
  "virtio_disk_intr react =
     thn (acquire VdiskLock)
    (bnd (R_rd VIRTIO_MMIO_INTERRUPT_STATUS) (\<lambda>st.
     thn (R_wr react VIRTIO_MMIO_INTERRUPT_ACK (st AND 3))
    (bnd get_vdisk (\<lambda>d.
     thn (intr_loop (unat (us_idx d - used_idx d)))
         (release VdiskLock)))))"

end
