(* ===== verification/Trap.thy ===== *)
theory Trap
  imports Virtio
begin

text \<open>
  Traps and interrupts: the control registers of \<open>kernel/riscv.h\<close> that the kernel reads and writes,
  the interrupt controller of \<open>kernel/plic.c\<close>, the handlers of \<open>kernel/trap.c\<close>, and \<open>forkret\<close> of
  \<open>kernel/proc.c\<close>, which ends in \<open>usertrapret\<close>.

  The registers are those of the hart that runs. A write stores its value; a trap sets \<open>sepc\<close>, \<open>scause\<close>
  and \<open>stval\<close> before the handler runs, so they are part of the state in which a handler starts. The
  addresses that the linker gives to assembly routines and to \<open>usertrap\<close> are the fields of \<open>ksyms\<close>. The
  controller's registers are addressed as in \<open>kernel/memlayout.h\<close>; the interrupts that a hart's claim
  register will report are in \<open>pl_claims\<close>, oldest first. \<open>usertrapret\<close> returns the address it jumps to
  and the page table register it passes, which \<open>trampoline.S\<close> installs.
\<close>

section \<open>Registers\<close>

record csrs =
  mhartid :: uint64
  mstatus :: uint64
  mepc :: uint64
  mie :: uint64
  medeleg :: uint64
  mideleg :: uint64
  mtvec :: uint64
  mscratch :: uint64
  pmpcfg0 :: uint64
  pmpaddr0 :: uint64
  sip :: uint64
  sie :: uint64
  sepc :: uint64
  stvec :: uint64
  scause :: uint64
  stval :: uint64

record ksyms =
  kernelvec :: uint64
  uservec :: uint64
  userret :: uint64
  usertrap_sym :: uint64
  main_sym :: uint64
  timervec :: uint64
  timer_scratch_sym :: uint64

record plic =
  pl_reg :: "uint64 \<Rightarrow> uint32"
  pl_claims :: "uint64 \<Rightarrow> uint32 list"

record trap_state = vdisk_state +
  csr :: csrs
  ksym :: ksyms
  plicd :: plic
  fork_first :: bool

definition get_csr :: "(csrs \<Rightarrow> uint64) \<Rightarrow> (uint64, 'z trap_state_scheme) kop" where
  "get_csr r = gets (\<lambda>s. r (csr s))"

definition set_csr :: "(csrs \<Rightarrow> csrs) \<Rightarrow> (unit, 'z trap_state_scheme) kop" where
  "set_csr f = modify (\<lambda>s. s\<lparr>csr := f (csr s)\<rparr>)"

definition sym :: "(ksyms \<Rightarrow> uint64) \<Rightarrow> (uint64, 'z trap_state_scheme) kop" where
  "sym r = gets (\<lambda>s. r (ksym s))"

lemma csr_ops [kop_simps]:
  "get_csr r s = Ret (r (csr s)) s"
  "set_csr f s = Ret () (s\<lparr>csr := f (csr s)\<rparr>)"
  "sym q s = Ret (q (ksym s)) s"
  by (simp_all add: get_csr_def set_csr_def sym_def kop_simps)

definition r_mhartid :: "(uint64, 'z trap_state_scheme) kop" where "r_mhartid = get_csr mhartid"
definition r_mstatus :: "(uint64, 'z trap_state_scheme) kop" where "r_mstatus = get_csr mstatus"
definition w_mstatus :: "uint64 \<Rightarrow> (unit, 'z trap_state_scheme) kop" where
  "w_mstatus x = set_csr (\<lambda>c. c\<lparr>mstatus := x\<rparr>)"
definition w_mepc :: "uint64 \<Rightarrow> (unit, 'z trap_state_scheme) kop" where
  "w_mepc x = set_csr (\<lambda>c. c\<lparr>mepc := x\<rparr>)"
definition r_sstatus :: "(uint64, 'z machine_scheme) kop" where "r_sstatus = gets sstatus"
definition w_sstatus :: "uint64 \<Rightarrow> (unit, 'z machine_scheme) kop" where
  "w_sstatus x = modify (\<lambda>s. s\<lparr>sstatus := x\<rparr>)"
definition r_sip :: "(uint64, 'z trap_state_scheme) kop" where "r_sip = get_csr sip"
definition w_sip :: "uint64 \<Rightarrow> (unit, 'z trap_state_scheme) kop" where
  "w_sip x = set_csr (\<lambda>c. c\<lparr>sip := x\<rparr>)"
definition r_sie :: "(uint64, 'z trap_state_scheme) kop" where "r_sie = get_csr sie"
definition w_sie :: "uint64 \<Rightarrow> (unit, 'z trap_state_scheme) kop" where
  "w_sie x = set_csr (\<lambda>c. c\<lparr>sie := x\<rparr>)"
definition r_mie :: "(uint64, 'z trap_state_scheme) kop" where "r_mie = get_csr mie"
definition w_mie :: "uint64 \<Rightarrow> (unit, 'z trap_state_scheme) kop" where
  "w_mie x = set_csr (\<lambda>c. c\<lparr>mie := x\<rparr>)"
definition r_sepc :: "(uint64, 'z trap_state_scheme) kop" where "r_sepc = get_csr sepc"
definition w_sepc :: "uint64 \<Rightarrow> (unit, 'z trap_state_scheme) kop" where
  "w_sepc x = set_csr (\<lambda>c. c\<lparr>sepc := x\<rparr>)"
definition w_medeleg :: "uint64 \<Rightarrow> (unit, 'z trap_state_scheme) kop" where
  "w_medeleg x = set_csr (\<lambda>c. c\<lparr>medeleg := x\<rparr>)"
definition w_mideleg :: "uint64 \<Rightarrow> (unit, 'z trap_state_scheme) kop" where
  "w_mideleg x = set_csr (\<lambda>c. c\<lparr>mideleg := x\<rparr>)"
definition w_stvec :: "uint64 \<Rightarrow> (unit, 'z trap_state_scheme) kop" where
  "w_stvec x = set_csr (\<lambda>c. c\<lparr>stvec := x\<rparr>)"
definition w_mtvec :: "uint64 \<Rightarrow> (unit, 'z trap_state_scheme) kop" where
  "w_mtvec x = set_csr (\<lambda>c. c\<lparr>mtvec := x\<rparr>)"
definition w_pmpcfg0 :: "uint64 \<Rightarrow> (unit, 'z trap_state_scheme) kop" where
  "w_pmpcfg0 x = set_csr (\<lambda>c. c\<lparr>pmpcfg0 := x\<rparr>)"
definition w_pmpaddr0 :: "uint64 \<Rightarrow> (unit, 'z trap_state_scheme) kop" where
  "w_pmpaddr0 x = set_csr (\<lambda>c. c\<lparr>pmpaddr0 := x\<rparr>)"
definition w_satp :: "uint64 \<Rightarrow> (unit, 'z vm_state_scheme) kop" where
  "w_satp x = modify (\<lambda>s. s\<lparr>satp := x\<rparr>)"
definition r_satp :: "(uint64, 'z vm_state_scheme) kop" where "r_satp = gets satp"
definition w_mscratch :: "uint64 \<Rightarrow> (unit, 'z trap_state_scheme) kop" where
  "w_mscratch x = set_csr (\<lambda>c. c\<lparr>mscratch := x\<rparr>)"
definition r_scause :: "(uint64, 'z trap_state_scheme) kop" where "r_scause = get_csr scause"
definition r_stval :: "(uint64, 'z trap_state_scheme) kop" where "r_stval = get_csr stval"
definition r_tp :: "(uint64, 'z machine_scheme) kop" where "r_tp = gets tp"
definition w_tp :: "uint64 \<Rightarrow> (unit, 'z machine_scheme) kop" where
  "w_tp x = modify (\<lambda>s. s\<lparr>tp := x\<rparr>)"

lemmas csr_defs = r_mhartid_def r_mstatus_def w_mstatus_def w_mepc_def r_sstatus_def w_sstatus_def r_sip_def
  w_sip_def r_sie_def w_sie_def r_mie_def w_mie_def r_sepc_def w_sepc_def w_medeleg_def w_mideleg_def w_stvec_def
  w_mtvec_def w_pmpcfg0_def w_pmpaddr0_def w_satp_def r_satp_def w_mscratch_def r_scause_def r_stval_def r_tp_def w_tp_def

section \<open>The interrupt controller\<close>

definition PLIC_SENABLE :: "nat \<Rightarrow> uint64" where
  "PLIC_SENABLE hart = PLIC + 0x2080 + of_nat hart * 0x100"

definition PLIC_SPRIORITY :: "nat \<Rightarrow> uint64" where
  "PLIC_SPRIORITY hart = PLIC + 0x201000 + of_nat hart * 0x2000"

definition PLIC_SCLAIM :: "nat \<Rightarrow> uint64" where
  "PLIC_SCLAIM hart = PLIC + 0x201004 + of_nat hart * 0x2000"

definition plic_wr :: "uint64 \<Rightarrow> uint32 \<Rightarrow> (unit, 'z trap_state_scheme) kop" where
  "plic_wr a v = modify (\<lambda>s. s\<lparr>plicd := (plicd s)\<lparr>pl_reg := (pl_reg (plicd s))(a := v)\<rparr>\<rparr>)"

text \<open>A read of a claim register takes the next pending interrupt, or 0 when there is none.\<close>

definition plic_rd_claim :: "uint64 \<Rightarrow> (uint32, 'z trap_state_scheme) kop" where
  "plic_rd_claim a =
     bnd (gets (\<lambda>s. pl_claims (plicd s) a)) (\<lambda>q.
     case q of [] \<Rightarrow> ret 0
     | i # rest \<Rightarrow>
         thn (modify (\<lambda>s. s\<lparr>plicd := (plicd s)\<lparr>pl_claims := (pl_claims (plicd s))(a := rest)\<rparr>\<rparr>)) (ret i))"

definition plicinit :: "(unit, 'z trap_state_scheme) kop" where
  "plicinit =
     thn (plic_wr (PLIC + of_nat UART0_IRQ * 4) 1)
         (plic_wr (PLIC + of_nat VIRTIO0_IRQ * 4) 1)"

definition plicinithart :: "(unit, 'z trap_state_scheme) kop" where
  "plicinithart =
     bnd (gets cpuid) (\<lambda>hart.
     thn (plic_wr (PLIC_SENABLE hart) (push_bit UART0_IRQ 1 OR push_bit VIRTIO0_IRQ 1))
         (plic_wr (PLIC_SPRIORITY hart) 0))"

definition plic_claim :: "(int, 'z trap_state_scheme) kop" where
  "plic_claim = bnd (gets cpuid) (\<lambda>hart. bnd (plic_rd_claim (PLIC_SCLAIM hart)) (\<lambda>irq. ret (sint irq)))"

definition plic_complete :: "int \<Rightarrow> (unit, 'z trap_state_scheme) kop" where
  "plic_complete irq = bnd (gets cpuid) (\<lambda>hart. plic_wr (PLIC_SCLAIM hart) (of_int irq))"

section \<open>Handlers\<close>

definition trapinithart :: "(unit, 'z trap_state_scheme) kop" where
  "trapinithart = bnd (sym kernelvec) w_stvec"

definition devintr :: "reaction \<Rightarrow> (int, 'z trap_state_scheme) kop" where
  "devintr react =
     bnd r_scause (\<lambda>sc.
     if sc AND 0x8000000000000000 \<noteq> 0 \<and> sc AND 0xff = 9 then
       bnd plic_claim (\<lambda>irq.
       thn (if irq = int UART0_IRQ then uartintr
            else if irq = int VIRTIO0_IRQ then virtio_disk_intr react
            else whenk (irq \<noteq> 0) (printf (Some ''unexpected interrupt irq=%d\<newline>'') [VInt (of_int irq)]))
      (thn (whenk (irq \<noteq> 0) (plic_complete irq))
           (ret 1)))
     else if sc = 0x8000000000000001 then
       bnd (gets cpuid) (\<lambda>id.
       thn (whenk (id = 0) clockintr)
      (bnd r_sip (\<lambda>x.
       thn (w_sip (x AND NOT 2))
           (ret 2))))
     else ret 0)"

definition usertrapret :: "(uint64 \<times> uint64, 'z trap_state_scheme) kop" where
  "usertrapret =
     bnd cur_proc (\<lambda>p.
     thn (modify intr_off)
    (bnd (sym uservec) (\<lambda>uv.
     bnd (gets trampoline) (\<lambda>tr.
     thn (w_stvec (TRAMPOLINE + (uv - tr)))
    (bnd (get_proc p) (\<lambda>pr.
     bnd r_satp (\<lambda>ksatp.
     thn (wr64 (p_trapframe pr + TF_kernel_satp) ksatp)
    (thn (wr64 (p_trapframe pr + TF_kernel_sp) (p_kstack pr + PGSIZE))
    (bnd (sym usertrap_sym) (\<lambda>ut.
     thn (wr64 (p_trapframe pr + TF_kernel_trap) ut)
    (bnd r_tp (\<lambda>hart.
     thn (wr64 (p_trapframe pr + TF_kernel_hartid) hart)
    (bnd r_sstatus (\<lambda>x.
     thn (w_sstatus ((x AND NOT SSTATUS_SPP) OR SSTATUS_SPIE))
    (bnd (rd64 (p_trapframe pr + TF_epc)) (\<lambda>epc.
     thn (w_sepc epc)
    (bnd (sym userret) (\<lambda>ur.
     ret (TRAMPOLINE + (ur - tr), MAKE_SATP (p_pagetable pr))))))))))))))))))))"

text \<open>The part of \<open>usertrap\<close> between saving the program counter and the last test for \<open>killed\<close>.\<close>

definition usertrap_cause :: "reaction \<Rightarrow> nat \<Rightarrow> (int, 'z trap_state_scheme) kop" where
  "usertrap_cause react p =
     bnd r_scause (\<lambda>sc.
     if sc = 8 then
       bnd (killed p) (\<lambda>k.
       thn (whenk (k \<noteq> 0) (exit (- 1)))
      (bnd (get_proc p) (\<lambda>pr.
       bnd (rd64 (p_trapframe pr + TF_epc)) (\<lambda>epc.
       thn (wr64 (p_trapframe pr + TF_epc) (epc + 4))
      (thn (modify intr_on)
      (thn syscall
           (ret 0)))))))
     else
       bnd (devintr react) (\<lambda>which_dev.
       if which_dev \<noteq> 0 then ret which_dev else
       bnd r_scause (\<lambda>sc.
       bnd (get_proc p) (\<lambda>pr.
       thn (printf (Some ''usertrap(): unexpected scause %p pid=%d\<newline>'') [VLong sc, VInt (of_int (p_pid pr))])
      (bnd r_sepc (\<lambda>pc.
       bnd r_stval (\<lambda>sv.
       thn (printf (Some ''            sepc=%p stval=%p\<newline>'') [VLong pc, VLong sv])
      (thn (setkilled p)
           (ret which_dev)))))))))"

definition usertrap :: "reaction \<Rightarrow> (uint64 \<times> uint64, 'z trap_state_scheme) kop" where
  "usertrap react =
     bnd r_sstatus (\<lambda>st.
     if st AND SSTATUS_SPP \<noteq> 0 then panic ''usertrap: not from user mode'' else
     bnd (sym kernelvec) (\<lambda>kv.
     thn (w_stvec kv)
    (bnd cur_proc (\<lambda>p.
     bnd (get_proc p) (\<lambda>pr.
     bnd r_sepc (\<lambda>pc.
     thn (wr64 (p_trapframe pr + TF_epc) pc)
    (bnd (usertrap_cause react p) (\<lambda>which_dev.
     bnd (killed p) (\<lambda>k.
     thn (whenk (k \<noteq> 0) (exit (- 1)))
    (thn (whenk (which_dev = 2) yield)
         usertrapret))))))))))"

definition kerneltrap :: "reaction \<Rightarrow> (unit, 'z trap_state_scheme) kop" where
  "kerneltrap react =
     bnd r_sepc (\<lambda>pc.
     bnd r_sstatus (\<lambda>st.
     bnd r_scause (\<lambda>sc.
     if st AND SSTATUS_SPP = 0 then panic ''kerneltrap: not from supervisor mode'' else
     bnd (gets intr_get) (\<lambda>on.
     if on then panic ''kerneltrap: interrupts enabled'' else
     bnd (devintr react) (\<lambda>which_dev.
     if which_dev = 0 then
       thn (printf (Some ''scause %p\<newline>'') [VLong sc])
      (bnd r_sepc (\<lambda>pc.
       bnd r_stval (\<lambda>sv.
       thn (printf (Some ''sepc=%p stval=%p\<newline>'') [VLong pc, VLong sv])
           (panic ''kerneltrap''))))
     else
       thn (if which_dev = 2 then
              bnd myproc (\<lambda>me.
              case me of None \<Rightarrow> ret ()
              | Some _ \<Rightarrow>
                  bnd cur_proc (\<lambda>p.
                  bnd (get_proc p) (\<lambda>pr.
                  whenk (p_state pr = RUNNING) yield)))
            else ret ())
      (thn (w_sepc pc)
           (w_sstatus st)))))))"

definition forkret :: "(uint64 \<times> uint64, 'z trap_state_scheme) kop" where
  "forkret =
     bnd cur_proc (\<lambda>p.
     thn (release (ProcLock p))
    (bnd (gets fork_first) (\<lambda>first.
     thn (whenk first
           (thn (modify (\<lambda>s. s\<lparr>fork_first := False\<rparr>))
                (fsinit ROOTDEV)))
         usertrapret)))"

end
