(* ===== verification/Boot.thy ===== *)
theory Boot
  imports Trap
begin

text \<open>
  Starting the machine: \<open>kernel/start.c\<close>, which runs on every hart in machine mode, and \<open>kernel/main.c\<close>.
  \<open>start\<close> ends with \<open>mret\<close>, which continues at the address in \<open>mepc\<close> in the mode that \<open>mstatus\<close> names; the
  model returns that address. The timer registers of the CLINT and the scratch area of the timer
  interrupt are fields of the state. The loop in which the other harts wait for \<open>started\<close> spins if the
  flag is not set.
\<close>

definition MSTATUS_MPP_MASK :: uint64 where "MSTATUS_MPP_MASK = push_bit 11 3"
definition MSTATUS_MPP_S :: uint64 where "MSTATUS_MPP_S = push_bit 11 1"
definition MSTATUS_MIE :: uint64 where "MSTATUS_MIE = push_bit 3 1"
definition SIE_SEIE :: uint64 where "SIE_SEIE = push_bit 9 1"
definition SIE_STIE :: uint64 where "SIE_STIE = push_bit 5 1"
definition SIE_SSIE :: uint64 where "SIE_SSIE = push_bit 1 1"
definition MIE_MTIE :: uint64 where "MIE_MTIE = push_bit 7 1"
definition CLINT :: uint64 where "CLINT = 0x2000000"

definition CLINT_MTIMECMP :: "nat \<Rightarrow> uint64" where
  "CLINT_MTIMECMP hartid = CLINT + 0x4000 + 8 * of_nat hartid"

record boot_state = trap_state +
  mtime :: uint64
  mtimecmp :: "nat \<Rightarrow> uint64"
  timer_scratch :: "nat \<Rightarrow> nat \<Rightarrow> uint64"
  started :: bool

definition timerinit :: "(unit, 'z boot_state_scheme) kop" where
  "timerinit =
     bnd r_mhartid (\<lambda>h.
     let id = unat h; interval = 1000000 in
     thn (modify (\<lambda>s. s\<lparr>mtimecmp := (mtimecmp s)(id := mtime s + interval)\<rparr>))
    (thn (modify (\<lambda>s. s\<lparr>timer_scratch := (timer_scratch s)(id := (timer_scratch s id)(3 := CLINT_MTIMECMP id))\<rparr>))
    (thn (modify (\<lambda>s. s\<lparr>timer_scratch := (timer_scratch s)(id := (timer_scratch s id)(4 := interval))\<rparr>))
    (bnd (sym timer_scratch_sym) (\<lambda>a.
     thn (w_mscratch (a + of_nat (id * 40)))
    (bnd (sym timervec) (\<lambda>tv.
     thn (w_mtvec tv)
    (bnd r_mstatus (\<lambda>ms.
     thn (w_mstatus (ms OR MSTATUS_MIE))
    (bnd r_mie (\<lambda>x. w_mie (x OR MIE_MTIE))))))))))))"

definition start :: "(uint64, 'z boot_state_scheme) kop" where
  "start =
     bnd r_mstatus (\<lambda>x.
     thn (w_mstatus ((x AND NOT MSTATUS_MPP_MASK) OR MSTATUS_MPP_S))
    (bnd (sym main_sym) (\<lambda>m.
     thn (w_mepc m)
    (thn (w_satp 0)
    (thn (w_medeleg 0xffff)
    (thn (w_mideleg 0xffff)
    (bnd r_sie (\<lambda>si.
     thn (w_sie (si OR SIE_SEIE OR SIE_STIE OR SIE_SSIE))
    (thn (w_pmpaddr0 0x3fffffffffffff)
    (thn (w_pmpcfg0 0xf)
    (thn timerinit
    (bnd r_mhartid (\<lambda>id.
     thn (w_tp id)
         (get_csr mepc))))))))))))))"

definition main_init :: "reaction \<Rightarrow> (unit, 'z boot_state_scheme) kop" where
  "main_init react =
     thn consoleinit
    (thn printfinit
    (thn (printf (Some ''\<newline>'') [])
    (thn (printf (Some ''xv6 kernel is booting\<newline>'') [])
    (thn (printf (Some ''\<newline>'') [])
    (thn kinit
    (thn kvminit
    (thn kvminithart
    (thn procinit
    (thn trapinit
    (thn trapinithart
    (thn plicinit
    (thn plicinithart
    (thn binit
    (thn iinit
    (thn fileinit
    (thn (virtio_disk_init react)
    (thn userinit
         (modify (\<lambda>s. s\<lparr>started := True\<rparr>)))))))))))))))))))"

text \<open>The scheduler never returns; it is followed for \<open>scans\<close> scans of the process table.\<close>

definition main :: "reaction \<Rightarrow> nat \<Rightarrow> (unit, 'z boot_state_scheme) kop" where
  "main react scans =
     bnd (gets cpuid) (\<lambda>id.
     thn (if id = 0 then main_init react
          else
            bnd (gets started) (\<lambda>st.
            if \<not> st then spin else
            bnd (gets cpuid) (\<lambda>id.
            thn (printf (Some ''hart %d starting\<newline>'') [VInt (of_nat id)])
           (thn kvminithart
           (thn trapinithart
                plicinithart)))))
         (scheduler scans))"

end
