(* ===== verification/Umalloc.thy ===== *)
theory Umalloc
  imports Prelude
begin

text \<open>
  \<open>user/umalloc.c\<close>: the memory allocator of user programs, a circular list of free blocks in address
  order. An address is a natural number; user addresses stay below \<open>MAXVA\<close>, so pointer arithmetic
  does not wrap. A block is addressed by its header, a pointer and a 32-bit number of units of 16
  bytes. Access to a header outside the process's memory is a page fault, which kills the process: the
  functions return \<open>None\<close> then. \<open>base\<close>, the header of the empty list, is a static variable.

  \<open>sbrk\<close> is the kernel's: it adds memory up to the limit that the kernel can provide, and takes its
  argument as a signed 32-bit number.
\<close>

section \<open>State\<close>

record uheap =
  h_ptr :: "nat \<Rightarrow> nat"
  h_size :: "nat \<Rightarrow> nat"
  base :: nat
  freep :: "nat option"
  brk :: nat
  lim :: nat

definition HDR :: nat where "HDR = 16"

text \<open>A header can be read and written if it lies in the process's memory.\<close>

definition mapped :: "uheap \<Rightarrow> nat \<Rightarrow> bool" where
  "mapped m a \<longleftrightarrow> a + HDR \<le> brk m"

definition u32 :: "nat \<Rightarrow> nat" where "u32 n = n mod 2 ^ 32"

definition s32 :: "nat \<Rightarrow> int" where
  "s32 n = (if n mod 2 ^ 32 < 2 ^ 31 then int (n mod 2 ^ 32) else int (n mod 2 ^ 32) - 2 ^ 32)"

definition set_ptr :: "nat \<Rightarrow> nat \<Rightarrow> uheap \<Rightarrow> uheap" where
  "set_ptr a v m = m\<lparr>h_ptr := (h_ptr m)(a := v)\<rparr>"

definition set_size :: "nat \<Rightarrow> nat \<Rightarrow> uheap \<Rightarrow> uheap" where
  "set_size a v m = m\<lparr>h_size := (h_size m)(a := v)\<rparr>"

section \<open>Operations\<close>

text \<open>The search of \<open>free\<close>: the last block before \<open>bp\<close>. It runs for ever on a broken list.\<close>

partial_function (option) free_find :: "uheap \<Rightarrow> nat \<Rightarrow> nat \<Rightarrow> nat option" where
  "free_find m bp p =
     (if \<not> mapped m p then None
      else if bp > p \<and> bp < h_ptr m p then Some p
      else if p \<ge> h_ptr m p \<and> (bp > p \<or> bp < h_ptr m p) then Some p
      else free_find m bp (h_ptr m p))"

definition free_link :: "nat \<Rightarrow> nat \<Rightarrow> uheap \<Rightarrow> uheap option" where
  "free_link bp p m =
     (let nx = h_ptr m p;
          m1 = (if bp + HDR * h_size m bp = nx
                then set_ptr bp (h_ptr m nx) (set_size bp (u32 (h_size m bp + h_size m nx)) m)
                else set_ptr bp nx m);
          m2 = (if p + HDR * h_size m1 p = bp
                then set_ptr p (h_ptr m1 bp) (set_size p (u32 (h_size m1 p + h_size m1 bp)) m1)
                else set_ptr p bp m1)
      in if bp + HDR * h_size m bp = nx \<and> \<not> mapped m nx then None
         else Some (m2\<lparr>freep := Some p\<rparr>))"

definition free :: "nat \<Rightarrow> uheap \<Rightarrow> uheap option" where
  "free ap m =
     (let bp = ap - HDR in
      if \<not> mapped m bp then None else
      case freep m of None \<Rightarrow> None
      | Some fp \<Rightarrow> (case free_find m bp fp of None \<Rightarrow> None | Some p \<Rightarrow> free_link bp p m))"

definition sbrk :: "nat \<Rightarrow> uheap \<Rightarrow> nat option \<times> uheap" where
  "sbrk n m =
     (let k = s32 n in
      if k > 0 then (if brk m + nat k \<le> lim m then (Some (brk m), m\<lparr>brk := brk m + nat k\<rparr>) else (None, m))
      else if k < 0 \<and> nat (- k) \<le> brk m then (Some (brk m), m\<lparr>brk := brk m - nat (- k)\<rparr>)
      else (Some (brk m), m))"

text \<open>\<open>Some None\<close> is the null pointer that \<open>morecore\<close> returns when \<open>sbrk\<close> fails.\<close>

definition morecore :: "nat \<Rightarrow> uheap \<Rightarrow> (nat option \<times> uheap) option" where
  "morecore nu m =
     (let nu = (if nu < 4096 then 4096 else nu) in
      case sbrk (nu * HDR) m of
        (None, m) \<Rightarrow> Some (None, m)
      | (Some hp, m) \<Rightarrow>
          if \<not> mapped m hp then None else
          (case free (hp + HDR) (set_size hp nu m) of
             None \<Rightarrow> None
           | Some m \<Rightarrow> Some (freep m, m)))"

definition carve :: "nat \<Rightarrow> nat \<Rightarrow> nat \<Rightarrow> uheap \<Rightarrow> (nat \<times> uheap) option" where
  "carve nunits prevp p m =
     (if h_size m p = nunits
      then (if \<not> mapped m prevp then None
            else Some (p + HDR, (set_ptr prevp (h_ptr m p) m)\<lparr>freep := Some prevp\<rparr>))
      else
        (let m = set_size p (h_size m p - nunits) m;
             q = p + HDR * h_size m p
         in if \<not> mapped m q then None
            else Some (q + HDR, (set_size q nunits m)\<lparr>freep := Some prevp\<rparr>)))"

partial_function (option) malloc_loop :: "nat \<Rightarrow> nat \<Rightarrow> nat \<Rightarrow> uheap \<Rightarrow> (nat \<times> uheap) option" where
  "malloc_loop nunits prevp p m =
     (if \<not> mapped m p then None
      else if h_size m p \<ge> nunits then carve nunits prevp p m
      else if Some p = freep m then
        (case morecore nunits m of
           None \<Rightarrow> None
         | Some (None, m) \<Rightarrow> Some (0, m)
         | Some (Some p, m) \<Rightarrow> if \<not> mapped m p then None else malloc_loop nunits p (h_ptr m p) m)
      else malloc_loop nunits p (h_ptr m p) m)"

definition malloc :: "nat \<Rightarrow> uheap \<Rightarrow> (nat \<times> uheap) option" where
  "malloc nbytes m =
     (let nunits = u32 ((nbytes + HDR - 1) div HDR + 1);
          m = (case freep m of
                 None \<Rightarrow> (set_size (base m) 0 (set_ptr (base m) (base m) m))\<lparr>freep := Some (base m)\<rparr>
               | Some _ \<Rightarrow> m)
      in case freep m of None \<Rightarrow> None
         | Some prevp \<Rightarrow> if \<not> mapped m prevp then None else malloc_loop nunits prevp (h_ptr m prevp) m)"

end
