(* ===== verification/Userprogs.thy ===== *)
theory Userprogs
  imports Uprintf
begin

text \<open>
  The small user programs: \<open>cat\<close>, \<open>echo\<close>, \<open>kill\<close>, \<open>ln\<close>, \<open>mkdir\<close>, \<open>rm\<close>, \<open>wc\<close>, \<open>ls\<close>, \<open>init\<close> and \<open>zombie\<close>.

  A program runs against the system calls, which come as the record \<open>os\<close> of functions on a state of
  the world \<open>'w\<close>; a process sees of the kernel only their results. A program ends with \<open>exit\<close>, or
  becomes another program by a successful \<open>exec\<close>; \<open>None\<close> is a program that runs for ever. A string is
  the list of its characters. \<open>read\<close> returns a number, negative on an error, and the bytes read.
\<close>

section \<open>System calls and program outcomes\<close>

record ustat =
  us_dev :: int
  us_ino :: uint32
  us_type :: int
  us_nlink :: int
  us_size :: uint64

record 'w os =
  os_read :: "int \<Rightarrow> nat \<Rightarrow> 'w \<Rightarrow> (int \<times> string) \<times> 'w"
  os_write :: "int \<Rightarrow> string \<Rightarrow> 'w \<Rightarrow> int \<times> 'w"
  os_open :: "string \<Rightarrow> int \<Rightarrow> 'w \<Rightarrow> int \<times> 'w"
  os_close :: "int \<Rightarrow> 'w \<Rightarrow> int \<times> 'w"
  os_dup :: "int \<Rightarrow> 'w \<Rightarrow> int \<times> 'w"
  os_pipe :: "'w \<Rightarrow> (int \<times> int \<times> int) \<times> 'w"
  os_fork :: "'w \<Rightarrow> int \<times> 'w"
  os_wait :: "'w \<Rightarrow> int \<times> 'w"
  os_exec :: "string \<Rightarrow> string list \<Rightarrow> 'w \<Rightarrow> int option \<times> 'w"
  os_kill :: "int \<Rightarrow> 'w \<Rightarrow> int \<times> 'w"
  os_sleep :: "int \<Rightarrow> 'w \<Rightarrow> int \<times> 'w"
  os_chdir :: "string \<Rightarrow> 'w \<Rightarrow> int \<times> 'w"
  os_mkdir :: "string \<Rightarrow> 'w \<Rightarrow> int \<times> 'w"
  os_mknod :: "string \<Rightarrow> int \<Rightarrow> int \<Rightarrow> 'w \<Rightarrow> int \<times> 'w"
  os_link :: "string \<Rightarrow> string \<Rightarrow> 'w \<Rightarrow> int \<times> 'w"
  os_unlink :: "string \<Rightarrow> 'w \<Rightarrow> int \<times> 'w"
  os_fstat :: "int \<Rightarrow> 'w \<Rightarrow> (int \<times> ustat) \<times> 'w"

datatype ('a, 'w) ures = Val 'a 'w | Exit int 'w | Image string "string list" 'w

type_synonym ('a, 'w) uop = "'w \<Rightarrow> ('a, 'w) ures option"

definition uret :: "'a \<Rightarrow> ('a, 'w) uop" where
  "uret x = (\<lambda>w. Some (Val x w))"

definition uexit :: "int \<Rightarrow> ('a, 'w) uop" where
  "uexit n = (\<lambda>w. Some (Exit n w))"

definition ubnd :: "('a, 'w) uop \<Rightarrow> ('a \<Rightarrow> ('b, 'w) uop) \<Rightarrow> ('b, 'w) uop" where
  "ubnd m f = (\<lambda>w. Option.bind (m w) (\<lambda>r.
     case r of Val x w' \<Rightarrow> f x w' | Exit n w' \<Rightarrow> Some (Exit n w') | Image p as w' \<Rightarrow> Some (Image p as w')))"

definition uthn :: "('a, 'w) uop \<Rightarrow> ('b, 'w) uop \<Rightarrow> ('b, 'w) uop" where
  "uthn m k = ubnd m (\<lambda>_. k)"

definition ucall :: "('w \<Rightarrow> 'a \<times> 'w) \<Rightarrow> ('a, 'w) uop" where
  "ucall f = (\<lambda>w. case f w of (x, w') \<Rightarrow> Some (Val x w'))"

definition uwhen :: "bool \<Rightarrow> (unit, 'w) uop \<Rightarrow> (unit, 'w) uop" where
  "uwhen c m = (if c then m else uret ())"

lemma uop_simps [kop_simps]:
  "uret x w = Some (Val x w)" "uexit n w = Some (Exit n w)"
  "ucall g w = Some (Val (fst (g w)) (snd (g w)))"
  "ubnd m f w = Option.bind (m w) (\<lambda>r.
     case r of Val x w' \<Rightarrow> f x w' | Exit n w' \<Rightarrow> Some (Exit n w') | Image p as w' \<Rightarrow> Some (Image p as w'))"
  "uthn m2 k w = ubnd m2 (\<lambda>_. k) w"
  "uwhen c m' w = (if c then m' w else Some (Val () w))"
  by (simp_all add: uret_def uexit_def ucall_def ubnd_def uthn_def uwhen_def split: prod.split)

text \<open>Loops are least fixed points: these operations are monotone in the recursive call.\<close>

lemma ures_case_mono:
  assumes "\<And>x w. mono_option (\<lambda>f. k f x w)"
  shows "mono_option (\<lambda>f. case r of Val x w \<Rightarrow> k f x w | Exit n w \<Rightarrow> Some (Exit n w) | Image p as w \<Rightarrow> Some (Image p as w))"
  by (cases r) (simp_all add: assms option.const_mono)

lemma ubnd_mono [partial_function_mono]:
  assumes "\<And>w. mono_option (\<lambda>f. m f w)" "\<And>x w. mono_option (\<lambda>f. k f x w)"
  shows "mono_option (\<lambda>f. ubnd (m f) (k f) w)"
  unfolding ubnd_def by (intro bind_mono ures_case_mono assms)

lemma uthn_mono [partial_function_mono]:
  assumes "\<And>w. mono_option (\<lambda>f. m f w)" "\<And>w. mono_option (\<lambda>f. k f w)"
  shows "mono_option (\<lambda>f. uthn (m f) (k f) w)"
  unfolding uthn_def by (intro ubnd_mono assms)

lemma if_app_mono [partial_function_mono]:
  assumes "mono_option (\<lambda>f. m f w)" "mono_option (\<lambda>f. k f w)"
  shows "mono_option (\<lambda>f. (if c then m f else k f) w)"
  using assms by (cases c) simp_all

lemma prod_app_mono [partial_function_mono]:
  assumes "\<And>x y. mono_option (\<lambda>f. k f x y w)"
  shows "mono_option (\<lambda>f. (case p of (x, y) \<Rightarrow> k f x y) w)"
  using assms by (cases p) simp

fun ufor :: "'i list \<Rightarrow> ('i \<Rightarrow> (unit, 'w) uop) \<Rightarrow> (unit, 'w) uop" where
  "ufor [] body = uret ()"
| "ufor (i # is) body = uthn (body i) (ufor is body)"

text \<open>\<open>printf\<close> and \<open>fprintf\<close> write one character at a time.\<close>

definition put_chars :: "'w os \<Rightarrow> int \<Rightarrow> string \<Rightarrow> (unit, 'w) uop" where
  "put_chars os fd t = ufor t (\<lambda>c. ubnd (ucall (os_write os fd [c])) (\<lambda>_. uret ()))"

definition uprint :: "'w os \<Rightarrow> int \<Rightarrow> string \<Rightarrow> vararg list \<Rightarrow> (unit, 'w) uop" where
  "uprint os fd fmt ap =
     (case fprintf_u fd fmt ap of None \<Rightarrow> (\<lambda>w. None) | Some (fd, t) \<Rightarrow> put_chars os fd t)"

abbreviation str_arg :: "string \<Rightarrow> vararg" where
  "str_arg t \<equiv> VStr (Some t)"

section \<open>echo, kill, ln, mkdir, rm, zombie\<close>

fun echo_args :: "'w os \<Rightarrow> string list \<Rightarrow> (unit, 'w) uop" where
  "echo_args os [] = uret ()"
| "echo_args os (a # as) =
     uthn (ucall (os_write os 1 a))
    (uthn (ucall (os_write os 1 (if as \<noteq> [] then '' '' else ''\<newline>'')))
          (echo_args os as))"

definition echo_main :: "'w os \<Rightarrow> string list \<Rightarrow> (unit, 'w) uop" where
  "echo_main os argv = uthn (echo_args os (tl argv)) (uexit 0)"

definition kill_main :: "'w os \<Rightarrow> string list \<Rightarrow> (unit, 'w) uop" where
  "kill_main os argv =
     uthn (uwhen (length argv < 2) (uthn (uprint os 2 ''usage: kill pid...\<newline>'' []) (uexit 1)))
    (uthn (ufor (tl argv) (\<lambda>a. ubnd (ucall (os_kill os (sint (atoi a)))) (\<lambda>_. uret ())))
          (uexit 0))"

definition ln_main :: "'w os \<Rightarrow> string list \<Rightarrow> (unit, 'w) uop" where
  "ln_main os argv =
     (case argv of
        [_, old, new] \<Rightarrow>
          ubnd (ucall (os_link os old new)) (\<lambda>r.
          uthn (uwhen (r < 0) (uprint os 2 ''link %s %s: failed\<newline>'' [str_arg old, str_arg new]))
               (uexit 0))
      | _ \<Rightarrow> uthn (uprint os 2 ''Usage: ln old new\<newline>'' []) (uexit 1))"

fun mkdir_args :: "'w os \<Rightarrow> string list \<Rightarrow> (unit, 'w) uop" where
  "mkdir_args os [] = uret ()"
| "mkdir_args os (a # as) =
     ubnd (ucall (os_mkdir os a)) (\<lambda>r.
     if r < 0 then uprint os 2 ''mkdir: %s failed to create\<newline>'' [str_arg a] else mkdir_args os as)"

definition mkdir_main :: "'w os \<Rightarrow> string list \<Rightarrow> (unit, 'w) uop" where
  "mkdir_main os argv =
     uthn (uwhen (length argv < 2) (uthn (uprint os 2 ''Usage: mkdir files...\<newline>'' []) (uexit 1)))
    (uthn (mkdir_args os (tl argv))
          (uexit 0))"

fun rm_args :: "'w os \<Rightarrow> string list \<Rightarrow> (unit, 'w) uop" where
  "rm_args os [] = uret ()"
| "rm_args os (a # as) =
     ubnd (ucall (os_unlink os a)) (\<lambda>r.
     if r < 0 then uprint os 2 ''rm: %s failed to delete\<newline>'' [str_arg a] else rm_args os as)"

definition rm_main :: "'w os \<Rightarrow> string list \<Rightarrow> (unit, 'w) uop" where
  "rm_main os argv =
     uthn (uwhen (length argv < 2) (uthn (uprint os 2 ''Usage: rm files...\<newline>'' []) (uexit 1)))
    (uthn (rm_args os (tl argv))
          (uexit 0))"

definition zombie_main :: "'w os \<Rightarrow> (unit, 'w) uop" where
  "zombie_main os =
     ubnd (ucall (os_fork os)) (\<lambda>pid.
     uthn (uwhen (pid > 0) (ubnd (ucall (os_sleep os 5)) (\<lambda>_. uret ())))
          (uexit 0))"

section \<open>cat\<close>

text \<open>The loop returns the result of the last \<open>read\<close>.\<close>

partial_function (option) cat_loop :: "'w os \<Rightarrow> int \<Rightarrow> 'w \<Rightarrow> (int, 'w) ures option" where
  "cat_loop os fd w =
     ubnd (ucall (os_read os fd 512)) (\<lambda>(n, buf).
     if n > 0 then
       ubnd (ucall (os_write os 1 buf)) (\<lambda>m.
       if m \<noteq> n then uthn (uprint os 2 ''cat: write error\<newline>'' []) (uexit 1)
       else cat_loop os fd)
     else uret n) w"

definition cat :: "'w os \<Rightarrow> int \<Rightarrow> (unit, 'w) uop" where
  "cat os fd =
     ubnd (cat_loop os fd) (\<lambda>n.
     uwhen (n < 0) (uthn (uprint os 2 ''cat: read error\<newline>'' []) (uexit 1)))"

definition cat_main :: "'w os \<Rightarrow> string list \<Rightarrow> (unit, 'w) uop" where
  "cat_main os argv =
     uthn (uwhen (length argv \<le> 1) (uthn (cat os 0) (uexit 0)))
    (uthn (ufor (tl argv) (\<lambda>a.
            ubnd (ucall (os_open os a 0)) (\<lambda>fd.
            uthn (uwhen (fd < 0) (uthn (uprint os 2 ''cat: cannot open %s\<newline>'' [str_arg a]) (uexit 1)))
           (uthn (cat os fd)
           (ubnd (ucall (os_close os fd)) (\<lambda>_. uret ()))))))
          (uexit 0))"

section \<open>wc\<close>

record counts =
  wc_l :: uint32
  wc_w :: uint32
  wc_c :: uint32
  inword :: bool

definition wc_space :: string where
  "wc_space = [CHR '' '', CHR 0x0D, CHR 0x09, CHR 0x0A, CHR 0x0B]"

definition wc_char :: "char \<Rightarrow> counts \<Rightarrow> counts" where
  "wc_char ch k =
     (let k = k\<lparr>wc_c := wc_c k + 1\<rparr>;
          k = (if ch = CHR 0x0A then k\<lparr>wc_l := wc_l k + 1\<rparr> else k)
      in if strchr wc_space ch \<noteq> None then k\<lparr>inword := False\<rparr>
         else if \<not> inword k then k\<lparr>wc_w := wc_w k + 1, inword := True\<rparr>
         else k)"

partial_function (option) wc_loop :: "'w os \<Rightarrow> int \<Rightarrow> counts \<Rightarrow> 'w \<Rightarrow> (int \<times> counts, 'w) ures option" where
  "wc_loop os fd k w =
     ubnd (ucall (os_read os fd 512)) (\<lambda>(n, buf).
     if n > 0 then wc_loop os fd (fold wc_char buf k) else uret (n, k)) w"

definition wc :: "'w os \<Rightarrow> int \<Rightarrow> string \<Rightarrow> (unit, 'w) uop" where
  "wc os fd name =
     ubnd (wc_loop os fd \<lparr>wc_l = 0, wc_w = 0, wc_c = 0, inword = False\<rparr>) (\<lambda>(n, k).
     uthn (uwhen (n < 0) (uthn (uprint os 1 ''wc: read error\<newline>'' []) (uexit 1)))
          (uprint os 1 ''%d %d %d %s\<newline>'' [VInt (wc_l k), VInt (wc_w k), VInt (wc_c k), str_arg name]))"

definition wc_main :: "'w os \<Rightarrow> string list \<Rightarrow> (unit, 'w) uop" where
  "wc_main os argv =
     uthn (uwhen (length argv \<le> 1) (uthn (wc os 0 []) (uexit 0)))
    (uthn (ufor (tl argv) (\<lambda>a.
            ubnd (ucall (os_open os a 0)) (\<lambda>fd.
            uthn (uwhen (fd < 0) (uthn (uprint os 1 ''wc: cannot open %s\<newline>'' [str_arg a]) (uexit 1)))
           (uthn (wc os fd a)
           (ubnd (ucall (os_close os fd)) (\<lambda>_. uret ()))))))
          (uexit 0))"

section \<open>init\<close>

partial_function (option) init_wait :: "'w os \<Rightarrow> int \<Rightarrow> 'w \<Rightarrow> (unit, 'w) ures option" where
  "init_wait os pid w =
     ubnd (ucall (os_wait os)) (\<lambda>wpid.
     if wpid = pid then uret ()
     else if wpid < 0 then uthn (uprint os 1 ''init: wait returned an error\<newline>'' []) (uexit 1)
     else init_wait os pid) w"

partial_function (option) init_loop :: "'w os \<Rightarrow> 'w \<Rightarrow> (unit, 'w) ures option" where
  "init_loop os w =
     uthn (uprint os 1 ''init: starting sh\<newline>'' [])
    (ubnd (ucall (os_fork os)) (\<lambda>pid.
     uthn (uwhen (pid < 0) (uthn (uprint os 1 ''init: fork failed\<newline>'' []) (uexit 1)))
    (uthn (uwhen (pid = 0)
            (ubnd (ucall (os_exec os ''sh'' [''sh''])) (\<lambda>r.
             case r of None \<Rightarrow> (\<lambda>w. Some (Image ''sh'' [''sh''] w))
             | Some _ \<Rightarrow> uthn (uprint os 1 ''init: exec sh failed\<newline>'' []) (uexit 1))))
    (uthn (init_wait os pid)
          (init_loop os))))) w"

definition init_main :: "'w os \<Rightarrow> (unit, 'w) uop" where
  "init_main os =
     ubnd (ucall (os_open os ''console'' 2)) (\<lambda>fd.
     uthn (uwhen (fd < 0)
            (uthn (ucall (os_mknod os ''console'' 1 0))
            (ubnd (ucall (os_open os ''console'' 2)) (\<lambda>_. uret ()))))
    (uthn (ucall (os_dup os 0))
    (uthn (ucall (os_dup os 0))
          (init_loop os))))"

section \<open>ls\<close>

definition DIRSIZ_u :: nat where "DIRSIZ_u = 14"

text \<open>The part after the last slash, padded with blanks.\<close>

definition fmtname :: "string \<Rightarrow> string" where
  "fmtname path =
     (let p = rev (takeWhile (\<lambda>c. c \<noteq> CHR ''/'') (rev path)) in
      if length p \<ge> DIRSIZ_u then p else p @ replicate (DIRSIZ_u - length p) (CHR '' ''))"

definition ustat_path :: "'w os \<Rightarrow> string \<Rightarrow> (int \<times> ustat, 'w) uop" where
  "ustat_path os n =
     ubnd (ucall (os_open os n 0)) (\<lambda>fd.
     if fd < 0 then uret (- 1, \<lparr>us_dev = 0, us_ino = 0, us_type = 0, us_nlink = 0, us_size = 0\<rparr>) else
     ubnd (ucall (os_fstat os fd)) (\<lambda>r.
     uthn (ucall (os_close os fd))
          (uret r)))"

text \<open>A directory entry: a 16-bit inode number and a name that may have no terminator.\<close>

definition ls_inum :: "string \<Rightarrow> nat" where
  "ls_inum de = of_char (de ! 0) + 256 * of_char (de ! 1)"

definition ls_name :: "string \<Rightarrow> string" where
  "ls_name de = takeWhile (\<lambda>c. c \<noteq> CHR 0x00) (drop 2 de)"

definition ls_entry :: "'w os \<Rightarrow> string \<Rightarrow> string \<Rightarrow> (unit, 'w) uop" where
  "ls_entry os path de =
     uwhen (ls_inum de \<noteq> 0)
       (let buf = path @ ''/'' @ ls_name de in
        ubnd (ustat_path os buf) (\<lambda>(r, st).
        if r < 0 then uprint os 1 ''ls: cannot stat %s\<newline>'' [str_arg buf]
        else uprint os 1 ''%s %d %d %d\<newline>''
               [str_arg (fmtname buf), VInt (of_int (us_type st)), VInt (us_ino st), VInt (ucast (us_size st))]))"

partial_function (option) ls_dir :: "'w os \<Rightarrow> int \<Rightarrow> string \<Rightarrow> 'w \<Rightarrow> (unit, 'w) ures option" where
  "ls_dir os fd path w =
     ubnd (ucall (os_read os fd 16)) (\<lambda>(n, de).
     if n = 16 then uthn (ls_entry os path de) (ls_dir os fd path) else uret ()) w"

definition ls :: "'w os \<Rightarrow> string \<Rightarrow> (unit, 'w) uop" where
  "ls os path =
     ubnd (ucall (os_open os path 0)) (\<lambda>fd.
     if fd < 0 then uprint os 2 ''ls: cannot open %s\<newline>'' [str_arg path] else
     ubnd (ucall (os_fstat os fd)) (\<lambda>(r, st).
     if r < 0 then
       uthn (uprint os 2 ''ls: cannot stat %s\<newline>'' [str_arg path])
            (ubnd (ucall (os_close os fd)) (\<lambda>_. uret ()))
     else
       uthn (if us_type st = 3 \<or> us_type st = 2 then
               uprint os 1 ''%s %d %d %l\<newline>''
                 [str_arg (fmtname path), VInt (of_int (us_type st)), VInt (us_ino st), VLong (us_size st)]
             else if us_type st = 1 then
               (if length path + 1 + DIRSIZ_u + 1 > 512 then uprint os 1 ''ls: path too long\<newline>'' []
                else ls_dir os fd path)
             else uret ())
            (ubnd (ucall (os_close os fd)) (\<lambda>_. uret ()))))"

definition ls_main :: "'w os \<Rightarrow> string list \<Rightarrow> (unit, 'w) uop" where
  "ls_main os argv =
     uthn (uwhen (length argv < 2) (uthn (ls os ''.'') (uexit 0)))
    (uthn (ufor (tl argv) (ls os))
          (uexit 0))"

end
