(* ===== verification/Shparse.thy ===== *)
theory Shparse
  imports Sh
begin

text \<open>
  The parser of the shell: it always returns, and the command it builds fits the line and the
  arrays of \<open>struct execcmd\<close>.
\<close>

section \<open>Positions\<close>

lemma peek_bounds:
  assumes "peek s i toks = (j, b)" "i \<le> length s"
  shows "i \<le> j" "j \<le> length s"
  using assms skip_ws_ge [of i s] skip_ws_le [of i s] by (auto simp: peek_def Let_def)

lemma char_at_in: "char_at s q \<noteq> CHR 0x00 \<Longrightarrow> q < length s"
  by (auto simp: char_at_def split: if_splits)

lemma gettoken_bounds:
  assumes "gettoken s i = (r, q, eq, k)" "i \<le> length s"
  shows "i \<le> k" "k \<le> length s"
proof -
  show "i \<le> k" by (rule gettoken_ge [OF assms(1)])
  have "eq \<le> length s"
    using assms skip_ws_le [OF assms(2)] skip_word_le [of "skip_ws s i" s] char_at_in [of s "skip_ws s i"]
      char_at_in [of s "Suc (skip_ws s i)"]
    by (auto simp: gettoken_def Let_def split: if_splits)
  then show "k \<le> length s" using assms(1) skip_ws_le [of eq s] by (auto simp: gettoken_def Let_def split: if_splits)
qed

text \<open>A word is not empty and ends inside the line.\<close>

lemma gettoken_word:
  assumes "gettoken s i = (CHR ''a'', q, eq, k)" "i \<le> length s"
  shows "q < eq" "eq \<le> length s"
proof -
  let ?c = "char_at s q"
  have q: "q = skip_ws s i" "eq = skip_word s q" "?c \<noteq> CHR 0x00" "?c \<notin> set ''|();&<''" "?c \<noteq> CHR ''>''"
    using assms(1) by (auto simp: gettoken_def Let_def split: if_splits)
  have l: "q < length s" by (rule char_at_in [OF q(3)])
  have "strchr whitespace (s ! q) = None" using skip_ws_stop [of s i] l q(1) by auto
  moreover have "strchr symbols (s ! q) = None" using q(4,5) l strchr_iff [of symbols "s ! q"] by (auto simp: char_at_def symbols_def)
  ultimately have "skip_word s q = skip_word s (Suc q)" using l by (subst skip_word.simps) simp
  then show "q < eq" using skip_word_ge [of "Suc q" s] q(2) by simp
  show "eq \<le> length s" using skip_word_le [of q s] l q(2) by simp
qed

section \<open>Commands that fit the line\<close>

definition span_ok :: "nat \<Rightarrow> span \<Rightarrow> bool" where
  "span_ok n sp \<longleftrightarrow> fst sp < snd sp \<and> snd sp \<le> n"

fun cmd_ok :: "nat \<Rightarrow> cmd \<Rightarrow> bool" where
  "cmd_ok n (EXEC as) \<longleftrightarrow> length as < MAXARGS \<and> (\<forall>sp\<in>set as. span_ok n sp)"
| "cmd_ok n (REDIR c sp mode fd) \<longleftrightarrow> cmd_ok n c \<and> span_ok n sp"
| "cmd_ok n (PIPE l r) \<longleftrightarrow> cmd_ok n l \<and> cmd_ok n r"
| "cmd_ok n (LIST l r) \<longleftrightarrow> cmd_ok n l \<and> cmd_ok n r"
| "cmd_ok n (BACK c) \<longleftrightarrow> cmd_ok n c"

fun spans :: "cmd \<Rightarrow> span set" where
  "spans (EXEC as) = set as"
| "spans (REDIR c sp mode fd) = insert sp (spans c)"
| "spans (PIPE l r) = spans l \<union> spans r"
| "spans (LIST l r) = spans l \<union> spans r"
| "spans (BACK c) = spans c"

lemma redirs_ok:
  "parseredirs s i = Inr (rs, j) \<Longrightarrow> i \<le> length s \<Longrightarrow> i \<le> j \<and> j \<le> length s \<and> (\<forall>(sp, mode, fd)\<in>set rs. span_ok (length s) sp)"
proof (induction "length s - i" arbitrary: i rs j rule: less_induct)
  case (less i)
  obtain k b where p: "peek s i ''<>'' = (k, b)" by fastforce
  note pb = peek_bounds [OF p less.prems(2)]
  show ?case
  proof (cases b)
    case False
    then show ?thesis using less.prems(1) p pb by (auto simp: parseredirs.simps [of s i])
  next
    case True
    obtain tok q' eq' l where g: "gettoken s k = (tok, q', eq', l)" by (cases "gettoken s k") auto
    obtain t q eq m where h: "gettoken s l = (t, q, eq, m)" by (cases "gettoken s l") auto
    note gb = gettoken_bounds [OF g pb(2)]
    note hb = gettoken_bounds [OF h gb(2)]
    have t: "t = CHR ''a''" using less.prems(1) p True g h by (auto simp: parseredirs.simps [of s i] split: if_splits)
    obtain rs' where r: "parseredirs s m = Inr (rs', j)" "rs = redir_of tok (q, eq) @ rs'"
      using less.prems(1) p True g h t by (auto simp: parseredirs.simps [of s i] split: sum.splits)
    have "m \<le> j \<and> j \<le> length s \<and> (\<forall>(sp, mode, fd)\<in>set rs'. span_ok (length s) sp)"
      using symbol_progress [of s i "''<>''" k tok q' eq' l m] p True g hb by (intro less.hyps [OF _ r(1)]) (simp_all add: symbols_def)
    moreover have "span_ok (length s) (q, eq)" using gettoken_word [of s l q eq m] h t gb by (simp add: span_ok_def)
    ultimately show ?thesis using pb gb hb r(2) by (auto simp: redir_of_def split: if_splits)
  qed
qed

lemma pbind_Inr: "pbind m f = Some (Inr y) \<longleftrightarrow> (\<exists>x. m = Some (Inr x) \<and> f x = Some (Inr y))"
  by (auto simp: pbind_def split: option.splits sum.splits)

lemma args_ok:
  "parse_args k s i = Some (Inr ((as, rs), j)) \<Longrightarrow> i \<le> length s \<Longrightarrow> i \<le> j \<and> j \<le> length s \<and> (0 < k \<longrightarrow> length as < k) \<and>
    (\<forall>sp\<in>set as. span_ok (length s) sp) \<and> (\<forall>(sp, mode, fd)\<in>set rs. span_ok (length s) sp)"
proof (induction k arbitrary: i as rs j)
  case 0
  obtain l b where p: "peek s i ''|)&;'' = (l, b)" by fastforce
  obtain tok q eq m where g: "gettoken s l = (tok, q, eq, m)" by (cases "gettoken s l") auto
  note pb = peek_bounds [OF p 0(2)]
  note gb = gettoken_bounds [OF g pb(2)]
  show ?case using 0(1) p g pb gb by (auto simp: parse_args.simps [of 0] pret_def ppanic_def split: if_splits)
next
  case (Suc k)
  obtain l b where p: "peek s i ''|)&;'' = (l, b)" by fastforce
  obtain tok q eq m where g: "gettoken s l = (tok, q, eq, m)" by (cases "gettoken s l") auto
  note pb = peek_bounds [OF p Suc.prems(2)]
  note gb = gettoken_bounds [OF g pb(2)]
  note e = Suc.prems(1) [unfolded parse_args.simps [of "Suc k"] p g prod.case]
  show ?case
  proof (cases "b \<or> tok = CHR 0x00")
    case True
    then show ?thesis using e pb gb by (auto simp: pret_def split: if_splits)
  next
    case False
    then have t: "tok = CHR ''a''" "k \<noteq> 0" using e by (auto simp: ppanic_def split: if_splits)
    obtain rs1 m' as2 rs2 where r: "parseredirs s m = Inr (rs1, m')" "parse_args k s m' = Some (Inr ((as2, rs2), j))"
      "as = (q, eq) # as2" "rs = rs1 @ rs2"
      using e False t by (auto simp: pbind_Inr pret_def split: if_splits)
    note rb = redirs_ok [OF r(1) gb(2)]
    have "m' \<le> j \<and> j \<le> length s \<and> (0 < k \<longrightarrow> length as2 < k) \<and> (\<forall>sp\<in>set as2. span_ok (length s) sp) \<and>
      (\<forall>(sp, mode, fd)\<in>set rs2. span_ok (length s) sp)" using Suc.IH [OF r(2)] rb by blast
    moreover have "span_ok (length s) (q, eq)" using gettoken_word [of s l q eq m] g t pb by (simp add: span_ok_def)
    ultimately show ?thesis using pb gb rb r(3,4) t(2) by auto
  qed
qed

lemma apply_redirs_ok: "cmd_ok n c \<Longrightarrow> (\<forall>(sp, mode, fd)\<in>set rs. span_ok n sp) \<Longrightarrow> cmd_ok n (apply_redirs rs c)"
  unfolding apply_redirs_def by (induction rs arbitrary: c) auto

lemma backs_ok:
  "parse_backs s c i = (c', j) \<Longrightarrow> i \<le> length s \<Longrightarrow> cmd_ok n c \<Longrightarrow> i \<le> j \<and> j \<le> length s \<and> cmd_ok n c'"
proof (induction "length s - i" arbitrary: i c rule: less_induct)
  case (less i c)
  obtain k b where p: "peek s i ''&'' = (k, b)" by fastforce
  note pb = peek_bounds [OF p less.prems(2)]
  show ?case
  proof (cases b)
    case False
    then show ?thesis using less.prems p pb by (auto simp: parse_backs.simps [of s c i])
  next
    case True
    obtain tok q eq l where g: "gettoken s k = (tok, q, eq, l)" by (cases "gettoken s k") auto
    note gb = gettoken_bounds [OF g pb(2)]
    have r: "parse_backs s (BACK c) l = (c', j)" using less.prems(1) p True g by (simp add: parse_backs.simps [of s c i])
    have "length s - l < length s - i" using symbol_progress [of s i "''&''" k tok q eq l l] p True g by (simp add: symbols_def)
    from less.hyps [OF this r gb(2)] show ?thesis using less.prems(3) pb gb by simp
  qed
qed

text \<open>A result of a parser at position \<open>i\<close>: the position moves forward inside the line and the command fits.\<close>

definition fits :: "string \<Rightarrow> nat \<Rightarrow> (string + cmd \<times> nat) option \<Rightarrow> bool" where
  "fits s i r \<longleftrightarrow> (\<forall>c j. r = Some (Inr (c, j)) \<longrightarrow> i \<le> length s \<longrightarrow> i \<le> j \<and> j \<le> length s \<and> cmd_ok (length s) c)"

lemma fitsD: "fits s i r \<Longrightarrow> r = Some (Inr (c, j)) \<Longrightarrow> i \<le> length s \<Longrightarrow> i \<le> j \<and> j \<le> length s \<and> cmd_ok (length s) c"
  by (simp add: fits_def)

lemma parseline_fits:
  assumes "\<And>i. fits s i (parsepipe n s i)" "\<And>i. fits s i (parseline n s i)"
  shows "fits s i (parseline (Suc n) s i)"
  unfolding fits_def
proof (intro allI impI)
  fix c j
  assume a: "parseline (Suc n) s i = Some (Inr (c, j))" "i \<le> length s"
  obtain c1 i1 where 1: "parsepipe n s i = Some (Inr (c1, i1))" using a(1) by (auto simp: pbind_Inr)
  note b1 = fitsD [OF assms(1) 1 a(2)]
  obtain c2 i2 where 2: "parse_backs s c1 i1 = (c2, i2)" by fastforce
  obtain i3 b where 3: "peek s i2 '';'' = (i3, b)" by fastforce
  obtain tok q eq i4 where 4: "gettoken s i3 = (tok, q, eq, i4)" by (cases "gettoken s i3") auto
  note b2 = backs_ok [OF 2, of "length s"] and b3 = peek_bounds [OF 3] and b4 = gettoken_bounds [OF 4]
  show "i \<le> j \<and> j \<le> length s \<and> cmd_ok (length s) c"
  proof (cases b)
    case True
    then obtain r where 5: "parseline n s i4 = Some (Inr (r, j))" "c = LIST c2 r" using a(1) 1 2 3 4 by (auto simp: pbind_Inr pret_def)
    then show ?thesis using b1 b2 b3 b4 fitsD [OF assms(2) 5(1)] by simp
  qed (use a(1) 1 2 3 b1 b2 b3 in \<open>auto simp: pbind_Inr pret_def\<close>)
qed

lemma parsepipe_fits:
  assumes "\<And>i. fits s i (parseexec n s i)" "\<And>i. fits s i (parsepipe n s i)"
  shows "fits s i (parsepipe (Suc n) s i)"
  unfolding fits_def
proof (intro allI impI)
  fix c j
  assume a: "parsepipe (Suc n) s i = Some (Inr (c, j))" "i \<le> length s"
  obtain c1 i1 where 1: "parseexec n s i = Some (Inr (c1, i1))" using a(1) by (auto simp: pbind_Inr)
  note b1 = fitsD [OF assms(1) 1 a(2)]
  obtain i3 b where 3: "peek s i1 ''|'' = (i3, b)" by fastforce
  obtain tok q eq i4 where 4: "gettoken s i3 = (tok, q, eq, i4)" by (cases "gettoken s i3") auto
  note b3 = peek_bounds [OF 3] and b4 = gettoken_bounds [OF 4]
  show "i \<le> j \<and> j \<le> length s \<and> cmd_ok (length s) c"
  proof (cases b)
    case True
    then obtain r where 5: "parsepipe n s i4 = Some (Inr (r, j))" "c = PIPE c1 r" using a(1) 1 3 4 by (auto simp: pbind_Inr pret_def)
    then show ?thesis using b1 b3 b4 fitsD [OF assms(2) 5(1)] by simp
  qed (use a(1) 1 3 b1 b3 in \<open>auto simp: pbind_Inr pret_def\<close>)
qed

lemma parseexec_fits:
  assumes "\<And>i. fits s i (parseblock n s i)"
  shows "fits s i (parseexec (Suc n) s i)"
  unfolding fits_def
proof (intro allI impI)
  fix c j
  assume a: "parseexec (Suc n) s i = Some (Inr (c, j))" "i \<le> length s"
  obtain i1 b where 1: "peek s i ''('' = (i1, b)" by fastforce
  note b1 = peek_bounds [OF 1 a(2)]
  show "i \<le> j \<and> j \<le> length s \<and> cmd_ok (length s) c"
  proof (cases b)
    case True
    then have "parseblock n s i1 = Some (Inr (c, j))" using a(1) 1 by simp
    from fitsD [OF assms this b1(2)] show ?thesis using b1(1) by simp
  next
    case False
    obtain rs i2 as rs' where r: "parseredirs s i1 = Inr (rs, i2)" "parse_args MAXARGS s i2 = Some (Inr ((as, rs'), j))"
      "c = apply_redirs (rs @ rs') (EXEC as)" using a(1) 1 False by (auto simp: pbind_Inr pret_def)
    note b2 = redirs_ok [OF r(1) b1(2)]
    have b3: "i2 \<le> j \<and> j \<le> length s \<and> length as < MAXARGS \<and> (\<forall>sp\<in>set as. span_ok (length s) sp) \<and>
      (\<forall>(sp, mode, fd)\<in>set rs'. span_ok (length s) sp)" using args_ok [OF r(2)] b2 by (simp add: MAXARGS_def)
    have "cmd_ok (length s) c" unfolding r(3) by (rule apply_redirs_ok) (use b2 b3 in auto)
    then show ?thesis using b1 b2 b3 by simp
  qed
qed

lemma parseblock_fits:
  assumes "\<And>i. fits s i (parseline n s i)"
  shows "fits s i (parseblock (Suc n) s i)"
  unfolding fits_def
proof (intro allI impI)
  fix c j
  assume a: "parseblock (Suc n) s i = Some (Inr (c, j))" "i \<le> length s"
  obtain i1 b where 1: "peek s i ''('' = (i1, b)" by fastforce
  obtain tok q eq i2 where 2: "gettoken s i1 = (tok, q, eq, i2)" by (cases "gettoken s i1") auto
  have b: b using a(1) 1 by (auto simp: ppanic_def split: if_splits)
  then obtain c1 i3 where 3: "parseline n s i2 = Some (Inr (c1, i3))" using a(1) 1 2 by (auto simp: pbind_Inr)
  obtain i4 b' where 4: "peek s i3 '')'' = (i4, b')" by fastforce
  obtain tok' q' eq' i5 where 5: "gettoken s i4 = (tok', q', eq', i5)" by (cases "gettoken s i4") auto
  obtain rs where 6: "parseredirs s i5 = Inr (rs, j)" "c = apply_redirs rs c1"
    using a(1) b 1 2 3 4 5 by (auto simp: pbind_Inr pret_def ppanic_def split: if_splits)
  note b1 = peek_bounds [OF 1 a(2)]
  note b2 = gettoken_bounds [OF 2 b1(2)]
  note b3 = fitsD [OF assms 3 b2(2)]
  note b4 = peek_bounds [OF 4] and b5 = gettoken_bounds [OF 5] and b6 = redirs_ok [OF 6(1)]
  have "cmd_ok (length s) c" unfolding 6(2) by (rule apply_redirs_ok) (use b3 b4 b5 b6 in auto)
  then show "i \<le> j \<and> j \<le> length s \<and> cmd_ok (length s) c" using b1 b2 b3 b4 b5 b6 by simp
qed

lemma parsers_fit:
  "fits s i (parseline n s i)" "fits s i (parsepipe n s i)" "fits s i (parseexec n s i)" "fits s i (parseblock n s i)"
proof -
  have "(\<forall>i. fits s i (parseline n s i)) \<and> (\<forall>i. fits s i (parsepipe n s i)) \<and> (\<forall>i. fits s i (parseexec n s i)) \<and>
    (\<forall>i. fits s i (parseblock n s i))"
    by (induction n) (simp_all add: parseline_fits parsepipe_fits parseexec_fits parseblock_fits del: parseline.simps parsepipe.simps
      parseexec.simps parseblock.simps, simp_all add: fits_def)
  then show "fits s i (parseline n s i)" "fits s i (parsepipe n s i)" "fits s i (parseexec n s i)" "fits s i (parseblock n s i)" by blast+
qed

section \<open>The fuel is enough\<close>

lemma pbind_None: "pbind m f = None \<longleftrightarrow> m = None \<or> (\<exists>x. m = Some (Inr x) \<and> f x = None)"
  by (auto simp: pbind_def split: option.splits sum.splits)

lemma args_total: "parse_args k s i \<noteq> None"
proof (induction k arbitrary: i)
  case 0
  show ?case by (subst parse_args.simps) (auto simp: pret_def ppanic_def split: prod.splits)
next
  case (Suc k)
  show ?case using Suc.IH by (subst parse_args.simps) (auto simp: pret_def ppanic_def pbind_None split: prod.splits simp del: not_None_eq)
qed

definition enough :: "string \<Rightarrow> nat \<Rightarrow> (nat \<Rightarrow> (string + cmd \<times> nat) option) \<Rightarrow> nat \<Rightarrow> bool" where
  "enough s k p n \<longleftrightarrow> (\<forall>i \<le> length s. 4 * (length s - i) + k \<le> n \<longrightarrow> p i \<noteq> None)"

text \<open>A separator at or behind \<open>i\<close> leaves a shorter rest of the line.\<close>

lemma enough_after:
  assumes "enough s k p n" "peek s i1 toks = (j, True)" "set toks \<subseteq> set symbols" "gettoken s j = (r, q, eq, l)" "i \<le> i1" "i1 \<le> length s"
    "4 * (length s - i) + k \<le> n + 4"
  shows "p l \<noteq> None"
proof -
  have l: "l \<le> length s" using peek_bounds [OF assms(2,6)] gettoken_bounds [OF assms(4)] by simp
  have "length s - l < length s - i1" by (rule symbol_progress [OF assms(2-4)]) simp
  then have "4 * (length s - l) + k \<le> n" using assms(5,7) by linarith
  then show ?thesis using assms(1) l by (simp add: enough_def)
qed

lemma parseline_enough:
  assumes "enough s 3 (parsepipe n s) n" "enough s 4 (parseline n s) n"
  shows "enough s 4 (parseline (Suc n) s) (Suc n)"
  unfolding enough_def
proof (intro allI impI notI)
  fix i
  assume i: "i \<le> length s" "4 * (length s - i) + 4 \<le> Suc n" and N: "parseline (Suc n) s i = None"
  have "parsepipe n s i \<noteq> None" using assms(1) i by (simp add: enough_def)
  then obtain c1 i1 where 1: "parsepipe n s i = Some (Inr (c1, i1))" using N by (auto simp: pbind_None)
  note b1 = fitsD [OF parsers_fit(2) 1 i(1)]
  obtain c2 i2 where 2: "parse_backs s c1 i1 = (c2, i2)" by fastforce
  obtain i3 b where 3: "peek s i2 '';'' = (i3, b)" by fastforce
  obtain tok q eq i4 where 4: "gettoken s i3 = (tok, q, eq, i4)" by (cases "gettoken s i3") auto
  have b2: "i \<le> i2" "i2 \<le> length s" using backs_ok [OF 2, of "length s"] b1 by auto
  have b and "parseline n s i4 = None" using N 1 2 3 4 by (auto simp: pbind_None pbind_Inr pret_def split: if_splits)
  then show False using enough_after [OF assms(2) _ _ 4 b2, of "'';''"] 3 i(2) by (simp add: symbols_def)
qed

lemma parsepipe_enough:
  assumes "enough s 2 (parseexec n s) n" "enough s 3 (parsepipe n s) n"
  shows "enough s 3 (parsepipe (Suc n) s) (Suc n)"
  unfolding enough_def
proof (intro allI impI notI)
  fix i
  assume i: "i \<le> length s" "4 * (length s - i) + 3 \<le> Suc n" and N: "parsepipe (Suc n) s i = None"
  have "parseexec n s i \<noteq> None" using assms(1) i by (simp add: enough_def)
  then obtain c1 i1 where 1: "parseexec n s i = Some (Inr (c1, i1))" using N by (auto simp: pbind_None)
  note b1 = fitsD [OF parsers_fit(3) 1 i(1)]
  obtain i3 b where 3: "peek s i1 ''|'' = (i3, b)" by fastforce
  obtain tok q eq i4 where 4: "gettoken s i3 = (tok, q, eq, i4)" by (cases "gettoken s i3") auto
  have b and "parsepipe n s i4 = None" using N 1 3 4 by (auto simp: pbind_None pbind_Inr pret_def split: if_splits)
  then show False using enough_after [OF assms(2) _ _ 4, of i1 "''|''" i] 3 i(2) b1 by (simp add: symbols_def)
qed

lemma parseexec_enough:
  assumes "enough s 1 (parseblock n s) n"
  shows "enough s 2 (parseexec (Suc n) s) (Suc n)"
  unfolding enough_def
proof (intro allI impI)
  fix i
  assume i: "i \<le> length s" "4 * (length s - i) + 2 \<le> Suc n"
  obtain i1 b where 1: "peek s i ''('' = (i1, b)" by fastforce
  note b1 = peek_bounds [OF 1 i(1)]
  have "parseblock n s i1 \<noteq> None" using assms b1 i(2) by (simp add: enough_def)
  then show "parseexec (Suc n) s i \<noteq> None" using 1 args_total by (auto simp: pbind_None pret_def simp del: not_None_eq)
qed

lemma parseblock_enough:
  assumes "enough s 4 (parseline n s) n"
  shows "enough s 1 (parseblock (Suc n) s) (Suc n)"
  unfolding enough_def
proof (intro allI impI notI)
  fix i
  assume i: "i \<le> length s" "4 * (length s - i) + 1 \<le> Suc n" and N: "parseblock (Suc n) s i = None"
  obtain i1 b where 1: "peek s i ''('' = (i1, b)" by fastforce
  obtain tok q eq i2 where 2: "gettoken s i1 = (tok, q, eq, i2)" by (cases "gettoken s i1") auto
  have b: b using N 1 by (auto simp: ppanic_def split: if_splits)
  have "parseline n s i2 = None"
  proof (rule ccontr)
    assume "parseline n s i2 \<noteq> None"
    then obtain c i3 where 3: "parseline n s i2 = Some (Inr (c, i3))" using N 1 2 b by (auto simp: pbind_None)
    obtain i4 b' where 4: "peek s i3 '')'' = (i4, b')" by fastforce
    obtain tok' q' eq' i5 where 5: "gettoken s i4 = (tok', q', eq', i5)" by (cases "gettoken s i4") auto
    show False using N 1 2 b 3 4 5 by (auto simp: pbind_None pret_def ppanic_def split: if_splits)
  qed
  then show False using enough_after [OF assms _ _ 2, of i "''(''" i] 1 b i by (simp add: symbols_def)
qed

lemma parsers_enough:
  "enough s 4 (parseline n s) n" "enough s 3 (parsepipe n s) n" "enough s 2 (parseexec n s) n" "enough s 1 (parseblock n s) n"
proof -
  have "enough s 4 (parseline n s) n \<and> enough s 3 (parsepipe n s) n \<and> enough s 2 (parseexec n s) n \<and> enough s 1 (parseblock n s) n"
  proof (induction n)
    case (Suc n)
    then show ?case using parseline_enough parsepipe_enough parseexec_enough parseblock_enough by blast
  qed (simp add: enough_def)
  then show "enough s 4 (parseline n s) n" "enough s 3 (parsepipe n s) n" "enough s 2 (parseexec n s) n" "enough s 1 (parseblock n s) n"
    by blast+
qed

section \<open>NUL characters\<close>

lemma length_nulterminate [simp]: "length (nulterminate c buf) = length buf"
proof (induction c buf rule: nulterminate.induct)
  case (1 as buf)
  have "length (fold (\<lambda>(q, eq) buf. buf[eq := CHR 0x00]) as buf) = length buf" by (induction as arbitrary: buf) auto
  then show ?case by simp
qed simp_all

lemma nul_stays: "k < length buf \<Longrightarrow> buf ! k = CHR 0x00 \<Longrightarrow> buf[e := CHR 0x00] ! k = CHR 0x00"
  by (cases "k = e") auto

lemma spans_ok: "cmd_ok n c \<Longrightarrow> sp \<in> spans c \<Longrightarrow> span_ok n sp"
  by (induction c) auto

text \<open>Once a position holds a NUL it keeps it.\<close>

lemma words_keep:
  fixes as :: "span list"
  shows "k < length buf \<Longrightarrow> buf ! k = CHR 0x00 \<Longrightarrow> fold (\<lambda>(q, eq) buf. buf[eq := CHR 0x00]) as buf ! k = CHR 0x00"
  by (induction as arbitrary: buf) (auto simp: nul_stays)

lemma nulterminate_keeps: "k < length buf \<Longrightarrow> buf ! k = CHR 0x00 \<Longrightarrow> nulterminate c buf ! k = CHR 0x00"
  by (induction c buf rule: nulterminate.induct) (simp_all add: words_keep nul_stays)

lemma words_end:
  fixes as :: "span list"
  shows "sp \<in> set as \<Longrightarrow> snd sp < length buf \<Longrightarrow> fold (\<lambda>(q, eq) buf. buf[eq := CHR 0x00]) as buf ! snd sp = CHR 0x00"
  by (induction as arbitrary: buf) (auto simp: words_keep)

lemma nulterminate_ends: "cmd_ok n c \<Longrightarrow> n < length buf \<Longrightarrow> sp \<in> spans c \<Longrightarrow> nulterminate c buf ! snd sp = CHR 0x00"
proof (induction c buf rule: nulterminate.induct)
  case (1 as buf)
  then show ?case using words_end [of sp as buf] by (auto simp: span_ok_def)
next
  case (2 c q eq mode fd buf)
  have "snd sp < length buf" using spans_ok [OF 2(2,4)] 2(3) by (simp add: span_ok_def)
  then show ?case using 2 by (auto simp: nul_stays)
next
  case (3 l r buf)
  have "snd sp < length buf" using spans_ok [OF 3(3,5)] 3(4) by (simp add: span_ok_def)
  then show ?case using 3 by (auto simp: nulterminate_keeps)
next
  case (4 l r buf)
  have "snd sp < length buf" using spans_ok [OF 4(3,5)] 4(4) by (simp add: span_ok_def)
  then show ?case using 4 by (auto simp: nulterminate_keeps)
qed simp

section \<open>Properties\<close>

text \<open>
  C33. The parser of the shell returns on every line, with a command or with the message of a panic:
  the fuel of the model is never used up. A command it returns has fewer than \<open>MAXARGS\<close> words in
  each simple command, so that the arrays of \<open>struct execcmd\<close> and their terminating null pointers
  hold them; every word, file names of redirections included, is a non-empty part of the line,
  and \<open>nulterminate\<close> has put a NUL behind each, inside the buffer and nowhere beyond it.
\<close>

theorem parsecmd_returns:
  "\<exists>r. parsecmd s = Some r \<and> (\<forall>c buf. r = Inr (c, buf) \<longrightarrow> cmd_ok (length s) c \<and> length buf = length s + 1 \<and>
    (\<forall>sp\<in>spans c. fst sp < snd sp \<and> snd sp \<le> length s \<and> buf ! snd sp = CHR 0x00))"
proof -
  have "parseline (parse_fuel s) s 0 \<noteq> None" using parsers_enough(1) [of s "parse_fuel s"] by (simp add: enough_def parse_fuel_def)
  then obtain r where r: "parseline (parse_fuel s) s 0 = Some r" by blast
  show ?thesis
  proof (cases r)
    case (Inr p)
    then obtain c j where p: "parseline (parse_fuel s) s 0 = Some (Inr (c, j))" using r by (cases p) simp
    obtain k b where k: "peek s j [] = (k, b)" by fastforce
    have c: "cmd_ok (length s) c" using fitsD [OF parsers_fit(1) p] by simp
    have "nulterminate c (s @ [CHR 0x00]) ! snd sp = CHR 0x00" "span_ok (length s) sp" if "sp \<in> spans c" for sp
      using nulterminate_ends [OF c _ that] spans_ok [OF c that] by simp_all
    then show ?thesis using p k c by (auto simp: parsecmd_def pbind_def pret_def ppanic_def span_ok_def)
  qed (use r in \<open>simp add: parsecmd_def pbind_def\<close>)
qed

theorem parsecmd_returns_witness:
  "\<exists>c buf. parsecmd ''ls>f'' = Some (Inr (c, buf)) \<and> c = REDIR (EXEC [(0, 2)]) (3, 4) 0x601 1 \<and> cmd_ok 4 c \<and> buf ! 2 = CHR 0x00"
proof -
  have e: "parsecmd ''ls>f'' = Some (Inr (REDIR (EXEC [(0, 2)]) (3, 4) 0x601 1, [CHR ''l'', CHR ''s'', CHR 0x00, CHR ''f'', CHR 0x00]))"
    by code_simp
  show ?thesis using parsecmd_returns [of "''ls>f''"] unfolding e by (auto simp: span_ok_def)
qed

end
