(* ===== verification/Mkfs.thy ===== *)
theory Mkfs
  imports Fsdir
begin

text \<open>
  \<open>mkfs/mkfs.c\<close>: the host program that builds the initial file system. The image file is its number of
  blocks and their contents; a block behind the end cannot be read. The files to be added come with
  the chunks in which the host's \<open>read\<close> delivers them, and \<open>None\<close> for one that cannot be opened.
  \<open>None\<close> as the result is the end of the program by \<open>die\<close> or by a failed \<open>assert\<close>; errors of writing
  the image are not modelled, nor are the progress messages. An inode on disk is its 64 bytes.
  The host is little-endian, like the disk format.
\<close>

section \<open>State\<close>

record mkfs =
  mk_img :: "nat \<Rightarrow> uint8 list"
  mk_len :: nat
  mk_sb :: superblock
  freeinode :: uint
  freeblock :: uint

definition NINODES :: nat where "NINODES = 200"
definition nbitmap :: nat where "nbitmap = FSSIZE div (BSIZE * 8) + 1"
definition ninodeblocks :: nat where "ninodeblocks = NINODES div IPB + 1"
definition nlog :: nat where "nlog = LOGSIZE"
definition nmeta :: nat where "nmeta = 2 + nlog + ninodeblocks + nbitmap"

section \<open>Blocks and inodes\<close>

text \<open>The value whose bytes in memory are the little-endian bytes of \<open>x\<close>.\<close>

definition xshort :: "uint16 \<Rightarrow> uint16" where
  "xshort x = le_word [ucast x, ucast (drop_bit 8 x)]"

definition xint :: "uint \<Rightarrow> uint" where
  "xint x = le_word [ucast x, ucast (drop_bit 8 x), ucast (drop_bit 16 x), ucast (drop_bit 24 x)]"

definition wsect :: "uint \<Rightarrow> uint8 list \<Rightarrow> mkfs \<Rightarrow> mkfs" where
  "wsect sec buf m = m\<lparr>mk_img := (mk_img m)(unat sec := buf), mk_len := max (mk_len m) (unat sec + 1)\<rparr>"

definition rsect :: "uint \<Rightarrow> mkfs \<Rightarrow> uint8 list option" where
  "rsect sec m = (if unat sec < mk_len m then Some (mk_img m (unat sec)) else None)"

definition winode :: "uint \<Rightarrow> uint8 list \<Rightarrow> mkfs \<Rightarrow> mkfs option" where
  "winode inum din m =
     (let bn = IBLOCK inum (mk_sb m) in
      case rsect bn m of None \<Rightarrow> None
      | Some buf \<Rightarrow> Some (wsect bn (splice (dinode_off inum) din buf) m))"

definition rinode :: "uint \<Rightarrow> mkfs \<Rightarrow> uint8 list option" where
  "rinode inum m =
     map_option (slice (dinode_off inum) dinode_size) (rsect (IBLOCK inum (mk_sb m)) m)"

definition mk_ialloc :: "uint16 \<Rightarrow> mkfs \<Rightarrow> (uint \<times> mkfs) option" where
  "mk_ialloc type m =
     (let inum = freeinode m;
          din = put32 8 (xint 0) (put16 6 (xshort 1) (put16 0 (xshort type) (replicate dinode_size 0)))
      in map_option (Pair inum) (winode inum din (m\<lparr>freeinode := inum + 1\<rparr>)))"

definition mk_balloc :: "nat \<Rightarrow> mkfs \<Rightarrow> mkfs option" where
  "mk_balloc used m =
     (if \<not> used < BSIZE * 8 then None
      else Some (wsect (sb_bmapstart (mk_sb m)) (fold bit_mark [0..<used] (replicate BSIZE 0)) m))"

section \<open>Appending to a file\<close>

definition addr_at :: "nat \<Rightarrow> uint8 list \<Rightarrow> uint" where
  "addr_at k din = xint (get32 (12 + 4 * k) din)"

definition set_addr :: "nat \<Rightarrow> uint \<Rightarrow> uint8 list \<Rightarrow> uint8 list" where
  "set_addr k a din = put32 (12 + 4 * k) (xint a) din"

text \<open>Block \<open>k\<close> of the addresses in the inode, allocated if it is 0.\<close>

definition mk_slot :: "nat \<Rightarrow> uint8 list \<Rightarrow> mkfs \<Rightarrow> uint8 list \<times> mkfs" where
  "mk_slot k din m =
     (if addr_at k din = 0 then (set_addr k (freeblock m) din, m\<lparr>freeblock := freeblock m + 1\<rparr>) else (din, m))"

text \<open>The address of block \<open>fbn\<close> of the file, with the inode and the image after its allocation.\<close>

definition mk_bmap :: "nat \<Rightarrow> uint8 list \<Rightarrow> mkfs \<Rightarrow> (uint \<times> uint8 list \<times> mkfs) option" where
  "mk_bmap fbn din m =
     (if fbn < NDIRECT then
        (case mk_slot fbn din m of (din, m) \<Rightarrow> Some (addr_at fbn din, din, m))
      else
        (case mk_slot NDIRECT din m of (din, m) \<Rightarrow>
           (case rsect (addr_at NDIRECT din) m of None \<Rightarrow> None
            | Some ind \<Rightarrow>
                (case (if get32 (4 * (fbn - NDIRECT)) ind = 0 then
                         (let ind = put32 (4 * (fbn - NDIRECT)) (xint (freeblock m)) ind
                          in (ind, wsect (addr_at NDIRECT din) ind (m\<lparr>freeblock := freeblock m + 1\<rparr>)))
                       else (ind, m)) of
                   (ind, m) \<Rightarrow> Some (xint (get32 (4 * (fbn - NDIRECT)) ind), din, m)))))"

function iappend_loop :: "nat \<Rightarrow> uint8 list \<Rightarrow> uint8 list \<Rightarrow> mkfs \<Rightarrow> (nat \<times> uint8 list \<times> mkfs) option" where
  "iappend_loop off p din m =
     (if p = [] then Some (off, din, m) else
      (let fbn = off div BSIZE; n1 = min (length p) ((fbn + 1) * BSIZE - off) in
       if \<not> fbn < MAXFILE then None else
       (case mk_bmap fbn din m of None \<Rightarrow> None
        | Some (x, din, m) \<Rightarrow>
            (case rsect x m of None \<Rightarrow> None
             | Some buf \<Rightarrow>
                 iappend_loop (off + n1) (drop n1 p) din (wsect x (splice (off - fbn * BSIZE) (take n1 p) buf) m)))))"
  by pat_completeness auto
termination
proof (relation "measure (\<lambda>(off, p, din, m). length p)", simp)
  fix off din m x p fbn n1 xa xb y xc yb buf
  assume "(p :: uint8 list) \<noteq> []" "fbn = off div BSIZE" "n1 = min (length p) ((fbn + 1) * BSIZE - off)"
  moreover have "off < (off div BSIZE + 1) * BSIZE" by (simp add: BSIZE_def)
  ultimately show "((off + n1, drop n1 p, yb, wsect xc (splice (off - fbn * BSIZE) (take n1 p) buf) y), (off, p, din, m))
      \<in> measure (\<lambda>(off, p, din, m). length p)" by simp
qed

declare iappend_loop.simps [simp del]

definition iappend :: "uint \<Rightarrow> uint8 list \<Rightarrow> mkfs \<Rightarrow> mkfs option" where
  "iappend inum p m =
     (case rinode inum m of None \<Rightarrow> None
      | Some din \<Rightarrow>
          (case iappend_loop (unat (xint (get32 8 din))) p din m of None \<Rightarrow> None
           | Some (off, din, m) \<Rightarrow> winode inum (put32 8 (xint (of_nat off)) din) m))"

section \<open>The program\<close>

definition mk_superblock :: superblock where
  "mk_superblock = \<lparr>sb_magic = FSMAGIC, sb_size = xint (of_nat FSSIZE), sb_nblocks = xint (of_nat (FSSIZE - nmeta)),
     sb_ninodes = xint (of_nat NINODES), sb_nlog = xint (of_nat nlog), sb_logstart = xint 2,
     sb_inodestart = xint (of_nat (2 + nlog)), sb_bmapstart = xint (of_nat (2 + nlog + ninodeblocks))\<rparr>"

definition sb_bytes :: "superblock \<Rightarrow> uint8 list" where
  "sb_bytes b = le_bytes 4 (sb_magic b) @ le_bytes 4 (sb_size b) @ le_bytes 4 (sb_nblocks b) @
     le_bytes 4 (sb_ninodes b) @ le_bytes 4 (sb_nlog b) @ le_bytes 4 (sb_logstart b) @
     le_bytes 4 (sb_inodestart b) @ le_bytes 4 (sb_bmapstart b)"

definition mk_blank :: mkfs where
  "mk_blank =
     (let m = \<lparr>mk_img = (\<lambda>_. []), mk_len = 0, mk_sb = mk_superblock, freeinode = 1, freeblock = of_nat nmeta\<rparr>;
          m = fold (\<lambda>i. wsect (of_nat i) (replicate BSIZE 0)) [0..<FSSIZE] m
      in wsect 1 (splice 0 (sb_bytes mk_superblock) (replicate BSIZE 0)) m)"

definition bytes_of_str :: "string \<Rightarrow> uint8 list" where
  "bytes_of_str t = map (\<lambda>c. of_nat (of_char c)) t"

definition mk_add_entry :: "uint \<Rightarrow> string \<Rightarrow> mkfs \<Rightarrow> mkfs option" where
  "mk_add_entry inum name m =
     iappend ROOTINO (mk_dirent (xshort (ucast inum)) (strncpy_bytes (bytes_of_str name) DIRSIZ)) m"

definition shortname :: "string \<Rightarrow> string" where
  "shortname a = (if take 5 a = ''user/'' then drop 5 a else a)"

fun mk_chunks :: "uint \<Rightarrow> uint8 list list \<Rightarrow> mkfs \<Rightarrow> mkfs option" where
  "mk_chunks inum [] m = Some m"
| "mk_chunks inum (c # cs) m = (case iappend inum c m of None \<Rightarrow> None | Some m \<Rightarrow> mk_chunks inum cs m)"

definition mk_file :: "string \<times> uint8 list list option \<Rightarrow> mkfs \<Rightarrow> mkfs option" where
  "mk_file f m =
     (let nm = shortname (fst f) in
      if CHR ''/'' \<in> set nm then None else
      case snd f of None \<Rightarrow> None
      | Some chunks \<Rightarrow>
          (let nm = (if nm \<noteq> [] \<and> hd nm = CHR ''_'' then tl nm else nm) in
           case mk_ialloc T_FILE m of None \<Rightarrow> None
           | Some (inum, m) \<Rightarrow>
               (case mk_add_entry inum nm m of None \<Rightarrow> None
                | Some m \<Rightarrow> mk_chunks inum chunks m)))"

fun mk_files :: "(string \<times> uint8 list list option) list \<Rightarrow> mkfs \<Rightarrow> mkfs option" where
  "mk_files [] m = Some m"
| "mk_files (f # fs) m = (case mk_file f m of None \<Rightarrow> None | Some m \<Rightarrow> mk_files fs m)"

definition mk_root :: "mkfs \<Rightarrow> mkfs option" where
  "mk_root m =
     (case mk_ialloc T_DIR m of None \<Rightarrow> None
      | Some (rootino, m) \<Rightarrow>
          if rootino \<noteq> ROOTINO then None else
          (case mk_add_entry rootino ''.'' m of None \<Rightarrow> None | Some m \<Rightarrow> mk_add_entry rootino ''..'' m))"

definition mk_finish :: "mkfs \<Rightarrow> mkfs option" where
  "mk_finish m =
     (case rinode ROOTINO m of None \<Rightarrow> None
      | Some din \<Rightarrow>
          (let off = xint (get32 8 din); off = (off div of_nat BSIZE + 1) * of_nat BSIZE in
           case winode ROOTINO (put32 8 (xint off) din) m of None \<Rightarrow> None
           | Some m \<Rightarrow> mk_balloc (unat (freeblock m)) m))"

definition mkfs_main :: "(string \<times> uint8 list list option) list \<Rightarrow> mkfs option" where
  "mkfs_main files =
     (case mk_root mk_blank of None \<Rightarrow> None
      | Some m \<Rightarrow> (case mk_files files m of None \<Rightarrow> None | Some m \<Rightarrow> mk_finish m))"

end
