(* ===== verification/Spec2Isabelle.thy ===== *)
theory Spec2Isabelle
  imports Sleepwake Grep Fsread Fsinode Boot Umalloc Shparse Mkfs
begin

text \<open>
  A verification library for xv6 on RISC-V: the kernel under \<open>src/kernel\<close> and the user library and
  programs under \<open>src/user\<close>.

  \<^bold>\<open>How the kernel is modelled.\<close> A kernel function is a state transformer (\<open>Prelude\<close>): run on a state
  it returns a value and a state, panics with the code's message, spins for ever, or calls \<open>swtch\<close>,
  in which case the outcome holds the rest of its work. The state is a chain of extensible records,
  one per component in the order in which the components use each other; the fields of each
  record are the static variables of one C file. Memory is a function from 64-bit addresses to bytes
  (\<open>Memory\<close>); page tables, free pages and pipes live in it. Tables of structures (processes, buffers,
  inodes, open files) are functions from an index, and a pointer to an element is its index. Integers
  have the width of the C type; \<open>int\<close> is used for a C \<open>int\<close> whose value stays far from its bounds.

  \<^bold>\<open>The theories\<close>, from the bottom up.
  \<^item> \<open>Prelude\<close>, \<open>Riscv\<close> (riscv.h, memlayout.h, param.h), \<open>Memory\<close>, \<open>Kstring\<close> (string.c), \<open>Blockdata\<close>
    (fields of structures in a block), \<open>Ringbuf\<close> (circular buffers with free-running indices).
  \<^item> \<open>Spinlock\<close> (spinlock.c): each operation on one hart, and the lock word under interleaved steps of
    all harts. \<open>Kalloc\<close> (kalloc.c): the free list in memory. \<open>Vm\<close> (vm.c) with its theorems in
    \<open>Pagetable\<close> (walk, mappages, uvmunmap) and \<open>Usermem\<close> (copyout, copyin, copyinstr).
  \<^item> \<open>Proc\<close> (proc.c without the file system), \<open>Sleepwake\<close> (sleep and wakeup of proc.c on two harts, statement
    by statement), \<open>Sleeplock\<close> (sleeplock.c).
  \<^item> \<open>Bio\<close> (bio.c) with its theorems in \<open>Bcache\<close>; \<open>Log\<close> (log.c) with its theorems in \<open>Logcrash\<close>.
  \<^item> \<open>Uart\<close> (uart.c), \<open>Kprintf\<close> (printf.c), \<open>Console\<close> (console.c).
  \<^item> \<open>Fs\<close> and \<open>Fsdir\<close> (fs.c), \<open>Pipe\<close> (pipe.c), \<open>File\<close> (file.c), \<open>Procfs\<close> (userinit, fork and exit of
    proc.c), \<open>Sysfile\<close> (syscall.c, sysfile.c), \<open>Exec\<close> (exec.c), \<open>Sysproc\<close> (sysproc.c, dispatch).
    The theorems of \<open>Fs\<close> are in \<open>Fstxn\<close> (blocks inside a transaction), \<open>Fsalloc\<close> (balloc, bfree),
    \<open>Fsfile\<close> (bmap), \<open>Fsio\<close> and \<open>Fscontent\<close> (writei, iupdate), \<open>Fsread\<close> (readi) and \<open>Fsinode\<close> (iget).
  \<^item> \<open>Virtio\<close> (virtio_disk.c), \<open>Trap\<close> (trap.c, plic.c), \<open>Boot\<close> (start.c, main.c).
  \<^item> \<open>Ulib\<close>, \<open>Uprintf\<close>, \<open>Grep\<close>, \<open>Umalloc\<close>: user/ulib.c, user/printf.c, user/grep.c, user/umalloc.c.
    \<open>Userprogs\<close> holds the small programs and \<open>Sh\<close> the shell, as functions over the system calls; the
    theorems on the shell's parser are in \<open>Shparse\<close>. \<open>Mkfs\<close> is the host program mkfs/mkfs.c.

  \<^bold>\<open>What is shown.\<close>
  \<^item> Locks: at most one hart is between acquire and release; nesting of push_off and pop_off restores
    the interrupt state; in every interleaving of a sleep with a wakeup under the same lock the sleeper
    ends up runnable; wakeup wakes exactly the sleepers of its channel.
  \<^item> Memory: kalloc and kfree are a stack of distinct pages, and a page handed out is off the list; mappages, uvmunmap and walk act on the map
    from virtual pages to entries; copyout, copyin and copyinstr act on the user's view of memory,
    across pages, and fail on unmapped ranges.
  \<^item> Storage: the buffer cache is a coherent view of the disk (locale \<open>block_cache\<close>); a crash at any
    point of a commit leaves all of a transaction or nothing of it after recovery, on every block but
    the \<open>LOGSIZE\<close> blocks of the log itself; log_write absorbs.
    On top of the log, \<open>block_txn\<close> is the interface by which the file system reads and changes blocks; a
    file is the list of its bytes, which writei replaces a range of and readi returns a range of.
    The bound on the blocks that a write logs is the reason for the chunk size of filewrite.
  \<^item> Devices: the rings of UART and console are queues also when their indices wrap around (locale
    \<open>circular\<close>); the console's interrupt handler implements its line discipline and wakes the readers
    exactly when a line is finished.
  \<^item> User side: grep matches the language of its expressions and prints the matching lines in front
    of the first NUL byte of a file; numbers print and parse; the shell's parser returns on every line and stays in its buffers.

  \<^bold>\<open>Interfaces.\<close> Each locale is interpreted on the definitions of the model in the theory that provides
  the operations: \<open>bc\<close> in \<open>Bcache\<close>, \<open>tn\<close> in \<open>Fstxn\<close>, \<open>txq\<close> in \<open>Uart\<close> and \<open>conq\<close> in \<open>Console\<close> among them.

  \<^bold>\<open>Bounds and fuel.\<close> A loop around \<open>sleep\<close> runs \<open>WAITS\<close> rounds in one go and then spins; the theorems are
  about paths that do not wait or wait once, so the bound does not enter them. Walks through the
  buffer list have one unit of fuel per buffer and one for the head, which the list invariant shows to
  be enough. The shell's parser has four units per character of the line, and is shown to return. The
  copy loops, the page loops and the scanning loops are total functions with termination
  proofs. User programs that may run for ever are partial functions whose value is then \<open>None\<close>.

  \<^bold>\<open>Not modelled.\<close> The assembly (entry.S, swtch.S, trampoline.S, kernelvec.S, initcode.S and the stubs
  that usys.pl generates): its effect is the outcome \<open>Swtch\<close>, the state in which a handler starts, or
  the return of a system call. The kernel functions run without interleaving with other harts, but for
  the lock word in \<open>Spinlock\<close>, for \<open>sleep\<close> and \<open>wakeup\<close> in \<open>Sleepwake\<close>, and for the points where a function gives
  up the processor. The buffer cache reads and writes blocks by \<open>disk_rw\<close>, which states what
  virtio_disk_rw does to a block; the driver itself is in \<open>Virtio\<close>, and no theorem connects the two. The device
  behind virtio and the receiving end of the UART are not in the source: they are parameters or
  inputs. panic is an outcome and the text it prints is left out. kernel/ramdisk.c is not part of the
  build. The test programs usertests, grind, forktest and stressfs are tests of the running kernel.
  The shell's command structures and the strings of user programs are values, not memory from malloc.
\<close>

end
